(* ===== verification/Tfs_Prelude.thy ===== *)
theory Tfs_Prelude
  imports Main "HOL-Library.Word"
begin

text \<open>
  Shared ground of the development: the names of the machine types the C++ code uses
  (\<open>byte\<close>, \<open>uint32_t\<close>, \<open>uint64_t\<close>, \<open>std::string\<close>), the sequencing of
  fallible operations, the conversion between \<open>std::string\<close> and \<open>dev::bytes\<close>,
  and the generic list facts that several components use. The collection \<open>exec_simps\<close>
  gathers the equations with which concrete runs of the model are evaluated.
\<close>

named_theorems exec_simps \<open>equations for evaluating the model on concrete inputs\<close>

section \<open>Types\<close>

type_synonym byte = "8 word"
type_synonym bytes = "byte list"
type_synonym u16 = "16 word"
type_synonym u32 = "32 word"
type_synonym u64 = "64 word"

text \<open>Exceptions and error codes travel in the left summand.\<close>

type_synonym ('e, 'a) result = "'e + 'a"

section \<open>Sequencing of fallible operations\<close>

text \<open>A C++ expression statement that may throw, followed by the rest of the block.\<close>

definition bindE :: "('e, 'a) result \<Rightarrow> ('a \<Rightarrow> ('e, 'b) result) \<Rightarrow> ('e, 'b) result" where
  "bindE m f = (case m of Inl e \<Rightarrow> Inl e | Inr x \<Rightarrow> f x)"

lemma bindE_Inl [simp]: "bindE (Inl e) f = Inl e"
  by (simp add: bindE_def)

lemma bindE_Inr [simp]: "bindE (Inr x) f = f x"
  by (simp add: bindE_def)

declare bindE_Inl [exec_simps] bindE_Inr [exec_simps]

lemma bindE_eq_Inr_iff: "bindE m f = Inr y \<longleftrightarrow> (\<exists>x. m = Inr x \<and> f x = Inr y)"
  by (auto simp: bindE_def split: sum.splits)

lemma bindE_InrE [elim!]:
  assumes "bindE m f = Inr y"
  obtains x where "m = Inr x" and "f x = Inr y"
  using assms by (auto simp: bindE_eq_Inr_iff)

lemma bindE_cong [fundef_cong]:
  "m = m' \<Longrightarrow> (\<And>x. m' = Inr x \<Longrightarrow> f x = f' x) \<Longrightarrow> bindE m f = bindE m' f'"
  by (auto simp: bindE_def split: sum.splits)

lemma bindE_assoc: "bindE (bindE m f) g = bindE m (\<lambda>x. bindE (f x) g)"
  by (auto simp: bindE_def split: sum.splits)

text \<open>A loop over a list whose body may throw: with a state, and collecting results.\<close>

fun foldlE :: "('s \<Rightarrow> 'a \<Rightarrow> ('e, 's) result) \<Rightarrow> 's \<Rightarrow> 'a list \<Rightarrow> ('e, 's) result" where
  "foldlE f s [] = Inr s"
| "foldlE f s (x # xs) = bindE (f s x) (\<lambda>s'. foldlE f s' xs)"

fun mapE :: "('a \<Rightarrow> ('e, 'b) result) \<Rightarrow> 'a list \<Rightarrow> ('e, 'b list) result" where
  "mapE f [] = Inr []"
| "mapE f (x # xs) = bindE (f x) (\<lambda>y. bindE (mapE f xs) (\<lambda>ys. Inr (y # ys)))"

text \<open>The exception a failing guard raises.\<close>

definition guardE :: "bool \<Rightarrow> 'e \<Rightarrow> ('e, unit) result" where
  "guardE b e = (if b then Inr () else Inl e)"

lemma guardE_True [simp]: "guardE True e = Inr ()"
  by (simp add: guardE_def)

lemma guardE_False [simp]: "guardE False e = Inl e"
  by (simp add: guardE_def)

lemma guardE_eq_Inr [simp]: "guardE b e = Inr u \<longleftrightarrow> b"
  by (simp add: guardE_def)

declare guardE_True [exec_simps] guardE_False [exec_simps]

section \<open>Strings and bytes\<close>

lemma unat_byte_less [simp]: "unat (b :: byte) < 256"
  using unsigned_less [of b, where ?'a = nat] by simp

lemma unat_byte_mod [simp]: "unat (b :: byte) mod 256 = unat b"
  by (rule mod_less) simp

text \<open>
  \<open>std::string\<close> and \<open>std::vector<byte>\<close> hold the same octets; \<open>asBytes\<close> and
  \<open>asString\<close> reinterpret one as the other.
\<close>

definition asBytes :: "string \<Rightarrow> bytes" where
  "asBytes s = map of_char s"

definition asString :: "bytes \<Rightarrow> string" where
  "asString b = map (\<lambda>w. char_of (unat w)) b"

lemma length_asBytes [simp]: "length (asBytes s) = length s"
  by (simp add: asBytes_def)

lemma length_asString [simp]: "length (asString b) = length b"
  by (simp add: asString_def)

lemma unat_of_char_word: "unat (of_char c :: byte) = of_char c"
proof -
  have "of_char c = (word_of_nat (of_char c) :: byte)"
    by (simp only: of_nat_of_char)
  then have "unat (of_char c :: byte) = (of_char c :: nat) mod 2 ^ LENGTH(8)"
    by (metis unat_of_nat)
  then show ?thesis
    by simp
qed

lemma asString_asBytes [simp]: "asString (asBytes s) = s"
  by (simp add: asBytes_def asString_def unat_of_char_word comp_def)

lemma asBytes_asString [simp]: "asBytes (asString b) = b"
proof -
  have "of_char (char_of (unat w) :: char) = w" for w :: byte
  proof -
    have *: "of_char (char_of (unat w) :: char) = unat w"
      by simp
    have "(of_char (char_of (unat w) :: char) :: byte)
        = word_of_nat (of_char (char_of (unat w) :: char))"
      by (simp only: of_nat_of_char)
    then show ?thesis
      by (simp add: *)
  qed
  then show ?thesis
    by (simp add: asBytes_def asString_def comp_def)
qed

lemma asBytes_eq_Nil [simp]: "asBytes s = [] \<longleftrightarrow> s = []"
  by (simp add: asBytes_def)

lemma asString_eq_Nil [simp]: "asString b = [] \<longleftrightarrow> b = []"
  by (simp add: asString_def)

lemma asBytes_inject: "asBytes s = asBytes t \<longleftrightarrow> s = t"
  by (metis asString_asBytes)

section \<open>Octets\<close>

lemma unat_word_of_nat_byte: "n < 256 \<Longrightarrow> unat (word_of_nat n :: byte) = n"
  by (simp add: unat_of_nat)

lemma word_of_nat_byte_eq_0: "n < 256 \<Longrightarrow> (word_of_nat n :: byte) = 0 \<longleftrightarrow> n = 0"
  by (metis unat_eq_zero unat_word_of_nat_byte)

section \<open>Lists\<close>

lemma take_append_exact [simp]: "length xs = n \<Longrightarrow> take n (xs @ ys) = xs"
  by simp

lemma drop_append_exact [simp]: "length xs = n \<Longrightarrow> drop n (xs @ ys) = ys"
  by simp

lemma list_update_last_append: "xs \<noteq> [] \<Longrightarrow> (ys @ xs)[length ys + length xs - 1 := v] = ys @ butlast xs @ [v]"
proof -
  assume "xs \<noteq> []"
  then obtain zs z where "xs = zs @ [z]"
    by (metis append_butlast_last_id)
  then show ?thesis
    by (simp add: list_update_append)
qed

end
