(* ===== verification/Rlp_Stream.thy ===== *)
theory Rlp_Stream
  imports Tfs_Prelude
begin

text \<open>
  The RLP writer \<open>RLPStream\<close> of \<open>mpt/rlp.h\<close> and \<open>mpt/rlp.cpp\<close>: a byte buffer and
  a stack of open lists. A list is announced with its number of items, the items are
  appended behind it, and the last of them makes \<open>noteAppended\<close> shift the payload and
  write the header in front of it. The theory ends with the specification of RLP as a
  recursive function on items (\<open>encode_item\<close>) and the refinement lemma that feeding an
  item to the writer appends exactly its encoding.
\<close>

section \<open>Constants and errors\<close>

datatype rlp_error = BadRLP | UndersizeRLP | OversizeRLP | BadCast | RLPException

definition c_rlpMaxLengthBytes :: nat where "c_rlpMaxLengthBytes = 8"
definition c_rlpDataImmLenStart :: nat where "c_rlpDataImmLenStart = 0x80"
definition c_rlpListStart :: nat where "c_rlpListStart = 0xc0"

definition c_rlpDataImmLenCount :: nat where
  "c_rlpDataImmLenCount = c_rlpListStart - c_rlpDataImmLenStart - c_rlpMaxLengthBytes"

definition c_rlpDataIndLenZero :: nat where
  "c_rlpDataIndLenZero = c_rlpDataImmLenStart + c_rlpDataImmLenCount - 1"

definition c_rlpListImmLenCount :: nat where
  "c_rlpListImmLenCount = 256 - c_rlpListStart - c_rlpMaxLengthBytes"

definition c_rlpListIndLenZero :: nat where
  "c_rlpListIndLenZero = c_rlpListStart + c_rlpListImmLenCount - 1"

lemmas rlp_consts =
  c_rlpMaxLengthBytes_def c_rlpDataImmLenStart_def c_rlpListStart_def
  c_rlpDataImmLenCount_def c_rlpDataIndLenZero_def c_rlpListImmLenCount_def
  c_rlpListIndLenZero_def

declare rlp_consts [exec_simps]

section \<open>Big-endian integers\<close>

text \<open>\<open>bytesRequired\<close>: the loop that shifts its argument right by eight until it is zero.\<close>

fun bytesRequired :: "nat \<Rightarrow> nat" where
  "bytesRequired i = (if i = 0 then 0 else Suc (bytesRequired (i div 256)))"

text \<open>
  The loop \<open>for (; s; s >>= 8) *(b--) = (byte)s\<close>: octets of \<open>i\<close> are stored from
  position \<open>b\<close> downwards.
\<close>

fun store_be :: "bytes \<Rightarrow> nat \<Rightarrow> nat \<Rightarrow> bytes" where
  "store_be m b i = (if i = 0 then m else store_be (m[b := word_of_nat i]) (b - 1) (i div 256))"

definition pushInt :: "nat \<Rightarrow> nat \<Rightarrow> bytes \<Rightarrow> bytes" where
  "pushInt i br out = (let m = out @ replicate br 0 in store_be m (length m - 1) i)"

text \<open>The big-endian representation without leading zeros, as a specification.\<close>

fun be_bytes :: "nat \<Rightarrow> bytes" where
  "be_bytes i = (if i = 0 then [] else be_bytes (i div 256) @ [word_of_nat i])"

declare bytesRequired.simps [simp del] store_be.simps [simp del] be_bytes.simps [simp del]

lemma bytesRequired_0 [simp]: "bytesRequired 0 = 0"
  by (simp add: bytesRequired.simps)

lemma be_bytes_0 [simp]: "be_bytes 0 = []"
  by (simp add: be_bytes.simps)

lemma bytesRequired_eq_0 [simp]: "bytesRequired i = 0 \<longleftrightarrow> i = 0"
  by (simp add: bytesRequired.simps)

lemma length_be_bytes [simp]: "length (be_bytes i) = bytesRequired i"
proof (induction i rule: be_bytes.induct)
  case (1 i)
  then show ?case
    by (simp add: be_bytes.simps [of i] bytesRequired.simps [of i])
qed

lemma bytesRequired_le_iff: "bytesRequired i \<le> k \<longleftrightarrow> i < 256 ^ k"
proof (induction k arbitrary: i)
  case 0
  then show ?case by simp
next
  case (Suc k)
  show ?case
  proof (cases "i = 0")
    case False
    then have "bytesRequired i \<le> Suc k \<longleftrightarrow> i div 256 < 256 ^ k"
      by (simp add: bytesRequired.simps [of i] Suc.IH)
    also have "\<dots> \<longleftrightarrow> i < 256 ^ Suc k"
      by (simp add: div_less_iff_less_mult mult.commute)
    finally show ?thesis .
  qed simp
qed

lemma bytesRequired_le_8: "i < 2 ^ 64 \<Longrightarrow> bytesRequired i \<le> 8"
  by (simp add: bytesRequired_le_iff)

text \<open>Storing into a gap of exactly the required width writes the representation there.\<close>

lemma store_be_gap:
  "length zs = bytesRequired i \<Longrightarrow>
   store_be (xs @ zs @ ys) (length xs + length zs - 1) i = xs @ be_bytes i @ ys"
proof (induction i arbitrary: zs ys rule: be_bytes.induct)
  case (1 i)
  show ?case
  proof (cases "i = 0")
    case True
    with "1.prems" show ?thesis
      by (simp add: store_be.simps)
  next
    case False
    with "1.prems" have "zs \<noteq> []" and len: "length zs = Suc (bytesRequired (i div 256))"
      by (auto simp: bytesRequired.simps [of i])
    then obtain vs v where zs: "zs = vs @ [v]"
      by (metis append_butlast_last_id)
    let ?w = "word_of_nat i :: byte"
    from len zs have vs: "length vs = bytesRequired (i div 256)"
      by simp
    have "store_be (xs @ zs @ ys) (length xs + length zs - 1) i
        = store_be (xs @ vs @ (?w # ys)) (length xs + length vs - 1) (i div 256)"
      using False by (simp add: zs store_be.simps [of _ _ i] list_update_append)
    also have "\<dots> = xs @ be_bytes (i div 256) @ (?w # ys)"
      using "1.IH" [OF False vs] .
    finally show ?thesis
      using False by (simp add: be_bytes.simps [of i])
  qed
qed

lemma pushInt_exact: "br = bytesRequired i \<Longrightarrow> pushInt i br out = out @ be_bytes i"
  using store_be_gap [of "replicate br 0" i out "[]"]
  by (simp add: pushInt_def Let_def)

text \<open>Reading the octets back gives the integer: \<open>fromBigEndian\<close> without a size limit.\<close>

definition fromBigEndian :: "bytes \<Rightarrow> nat" where
  "fromBigEndian bs = foldl (\<lambda>ret b. ret * 256 + unat b) 0 bs"

lemma fromBigEndian_Nil [simp]: "fromBigEndian [] = 0"
  by (simp add: fromBigEndian_def)

lemma fromBigEndian_snoc [simp]: "fromBigEndian (bs @ [b]) = fromBigEndian bs * 256 + unat b"
  by (simp add: fromBigEndian_def)

lemma fromBigEndian_be_bytes [simp]: "fromBigEndian (be_bytes i) = i"
proof (induction i rule: be_bytes.induct)
  case (1 i)
  have "unat (word_of_nat i :: byte) = i mod 256"
    by (simp add: unat_of_nat)
  with 1 show ?case
    by (cases "i = 0") (simp_all add: be_bytes.simps [of i])
qed

lemma fromBigEndian_bound: "fromBigEndian bs < 256 ^ length bs"
proof (induction bs rule: rev_induct)
  case Nil
  then show ?case by simp
next
  case (snoc b bs)
  have "fromBigEndian (bs @ [b]) < (fromBigEndian bs + 1) * 256"
    by simp
  also have "\<dots> \<le> 256 ^ length bs * 256"
    using snoc by (intro mult_right_mono) auto
  finally show ?case by (simp add: mult.commute)
qed

lemma be_bytes_eq_Nil [simp]: "be_bytes i = [] \<longleftrightarrow> i = 0"
  by (metis bytesRequired_eq_0 length_0_conv length_be_bytes)

lemma hd_be_bytes_nonzero: "i \<noteq> 0 \<Longrightarrow> hd (be_bytes i) \<noteq> 0"
proof (induction i rule: be_bytes.induct)
  case (1 i)
  show ?case
  proof (cases "i div 256 = 0")
    case True
    with "1.prems" have "i < 256" and "i \<noteq> 0" by auto
    then show ?thesis
      using True by (simp add: be_bytes.simps [of i] word_of_nat_byte_eq_0)
  next
    case False
    with "1.IH" [OF "1.prems"] "1.prems" show ?thesis
      by (simp add: be_bytes.simps [of i])
  qed
qed

section \<open>The writer\<close>

text \<open>
  The vector \<open>m_listStack\<close> is kept with its back at the head of the list: each entry is
  the number of items an open list still expects and the offset where its payload starts.
\<close>

record RLPStream =
  m_out :: bytes
  m_listStack :: "(nat \<times> nat) list"

definition RLPStream_new :: RLPStream where
  "RLPStream_new = \<lparr>m_out = [], m_listStack = []\<rparr>"

text \<open>
  The body of the loop of \<open>noteAppended\<close> that closes a completed list: the buffer grows
  by the header's size, \<open>memmove\<close> shifts the payload, and the header is written at the
  payload's old offset.
\<close>

definition close_list :: "bytes \<Rightarrow> nat \<Rightarrow> (rlp_error, bytes) result" where
  "close_list out p =
     (let s = length out - p;
          brs = bytesRequired s;
          encodeSize = (if s < c_rlpListImmLenCount then 1 else 1 + brs);
          m = take (p + encodeSize) (out @ replicate encodeSize 0) @ drop p out
      in if s < c_rlpListImmLenCount
         then Inr (m[p := word_of_nat (c_rlpListStart + s)])
         else if c_rlpListIndLenZero + brs \<le> 0xff
         then Inr (store_be (m[p := word_of_nat (c_rlpListIndLenZero + brs)]) (p + brs) s)
         else Inl RLPException)"

fun noteAppended_loop :: "(nat \<times> nat) list \<Rightarrow> bytes \<Rightarrow> nat \<Rightarrow> (rlp_error, RLPStream) result" where
  "noteAppended_loop [] out itemCount = Inr \<lparr>m_out = out, m_listStack = []\<rparr>"
| "noteAppended_loop ((left, p) # st) out itemCount =
     (if left < itemCount then Inl RLPException
      else if left - itemCount \<noteq> 0
      then Inr \<lparr>m_out = out, m_listStack = (left - itemCount, p) # st\<rparr>
      else bindE (close_list out p) (\<lambda>out'. noteAppended_loop st out' 1))"

definition noteAppended :: "RLPStream \<Rightarrow> nat \<Rightarrow> (rlp_error, RLPStream) result" where
  "noteAppended s itemCount =
     (if itemCount = 0 then Inr s else noteAppended_loop (m_listStack s) (m_out s) itemCount)"

definition appendRaw :: "RLPStream \<Rightarrow> bytes \<Rightarrow> nat \<Rightarrow> (rlp_error, RLPStream) result" where
  "appendRaw s d itemCount = noteAppended (s\<lparr>m_out := m_out s @ d\<rparr>) itemCount"

definition pushCount :: "RLPStream \<Rightarrow> nat \<Rightarrow> nat \<Rightarrow> (rlp_error, RLPStream) result" where
  "pushCount s count base =
     (let br = bytesRequired count
      in if br + base > 0xff then Inl RLPException
         else Inr (s\<lparr>m_out := pushInt count br (m_out s @ [word_of_nat (br + base)])\<rparr>))"

definition appendListRaw :: "RLPStream \<Rightarrow> bytes \<Rightarrow> (rlp_error, RLPStream) result" where
  "appendListRaw s rlp =
     bindE (if length rlp < c_rlpListImmLenCount
            then Inr (s\<lparr>m_out := m_out s @ [word_of_nat (length rlp + c_rlpListStart)]\<rparr>)
            else pushCount s (length rlp) c_rlpListIndLenZero)
       (\<lambda>s'. appendRaw s' rlp 1)"

definition appendList :: "RLPStream \<Rightarrow> nat \<Rightarrow> (rlp_error, RLPStream) result" where
  "appendList s items =
     (if items \<noteq> 0
      then Inr (s\<lparr>m_listStack := (items, length (m_out s)) # m_listStack s\<rparr>)
      else appendListRaw s [])"

definition RLPStream_list :: "nat \<Rightarrow> (rlp_error, RLPStream) result" where
  "RLPStream_list listItems = appendList RLPStream_new listItems"

definition append_bytes :: "RLPStream \<Rightarrow> bytes \<Rightarrow> bool \<Rightarrow> (rlp_error, RLPStream) result" where
  "append_bytes s bs compact =
     (let d = (if compact then dropWhile (\<lambda>b. b = 0) bs else bs);
          n = length d
      in bindE
        (if n = 1 \<and> unat (hd d) < c_rlpDataImmLenStart
         then Inr (s\<lparr>m_out := m_out s @ [hd d]\<rparr>)
         else bindE
           (if n < c_rlpDataImmLenCount
            then Inr (s\<lparr>m_out := m_out s @ [word_of_nat (n + c_rlpDataImmLenStart)]\<rparr>)
            else pushCount s n c_rlpDataIndLenZero)
           (\<lambda>s'. appendRaw s' d 0))
        (\<lambda>s'. noteAppended s' 1))"

definition append_int :: "RLPStream \<Rightarrow> nat \<Rightarrow> (rlp_error, RLPStream) result" where
  "append_int s i =
     bindE
       (if i = 0 then Inr (s\<lparr>m_out := m_out s @ [word_of_nat c_rlpDataImmLenStart]\<rparr>)
        else if i < c_rlpDataImmLenStart then Inr (s\<lparr>m_out := m_out s @ [word_of_nat i]\<rparr>)
        else let br = bytesRequired i in
          bindE
            (if br < c_rlpDataImmLenCount
             then Inr (m_out s @ [word_of_nat (br + c_rlpDataImmLenStart)])
             else let brbr = bytesRequired br in
               if c_rlpDataIndLenZero + brbr > 0xff then Inl RLPException
               else Inr (pushInt br brbr (m_out s @ [word_of_nat (c_rlpDataIndLenZero + brbr)])))
            (\<lambda>out. Inr (s\<lparr>m_out := pushInt i br out\<rparr>)))
       (\<lambda>s'. noteAppended s' 1)"

definition out_stream :: "RLPStream \<Rightarrow> (rlp_error, bytes) result" where
  "out_stream s = (if m_listStack s \<noteq> [] then Inl RLPException else Inr (m_out s))"

section \<open>RLP as a function on items\<close>

datatype rlp_item = RStr bytes | RList "rlp_item list"

definition encode_len :: "nat \<Rightarrow> nat \<Rightarrow> bytes" where
  "encode_len start n =
     (if n < 56 then [word_of_nat (start + n)]
      else word_of_nat (start + 55 + bytesRequired n) # be_bytes n)"

definition encode_str :: "bytes \<Rightarrow> bytes" where
  "encode_str d =
     (if length d = 1 \<and> unat (hd d) < 0x80 then d else encode_len 0x80 (length d) @ d)"

fun encode_item :: "rlp_item \<Rightarrow> bytes" where
  "encode_item (RStr d) = encode_str d"
| "encode_item (RList xs) =
     (let payload = concat (map encode_item xs) in encode_len 0xc0 (length payload) @ payload)"

text \<open>
  Feeding an item to a writer: a string with \<open>append\<close>, a list as the template
  \<open>appendVector\<close> does it, by announcing its size and then appending each element.
\<close>

fun emit_item :: "rlp_item \<Rightarrow> RLPStream \<Rightarrow> (rlp_error, RLPStream) result"
  and emit_items :: "rlp_item list \<Rightarrow> RLPStream \<Rightarrow> (rlp_error, RLPStream) result" where
  "emit_item (RStr d) s = append_bytes s d False"
| "emit_item (RList xs) s = bindE (appendList s (length xs)) (emit_items xs)"
| "emit_items [] s = Inr s"
| "emit_items (x # xs) s = bindE (emit_item x s) (emit_items xs)"

lemma noteAppended_empty [simp]:
  "noteAppended \<lparr>m_out = out, m_listStack = []\<rparr> n = Inr \<lparr>m_out = out, m_listStack = []\<rparr>"
  by (simp add: noteAppended_def)

lemma noteAppended_more:
  "1 < k \<Longrightarrow> noteAppended \<lparr>m_out = out, m_listStack = (k, p) # st\<rparr> 1
     = Inr \<lparr>m_out = out, m_listStack = (k - 1, p) # st\<rparr>"
  by (simp add: noteAppended_def)

lemma noteAppended_close:
  "noteAppended \<lparr>m_out = out, m_listStack = (1, p) # st\<rparr> 1
     = bindE (close_list out p) (\<lambda>out'. noteAppended \<lparr>m_out = out', m_listStack = st\<rparr> 1)"
  by (simp add: noteAppended_def)

lemma close_list_header:
  assumes "length pl < 2 ^ 64"
  shows "close_list (xs @ pl) (length xs) = Inr (xs @ encode_len 0xc0 (length pl) @ pl)"
proof (cases "length pl < 56")
  case True
  then show ?thesis
    by (cases pl) (simp_all add: close_list_def Let_def rlp_consts encode_len_def list_update_append)
next
  case False
  let ?brs = "bytesRequired (length pl)"
  have brs: "?brs \<le> 8" "0 < ?brs"
    using bytesRequired_le_8 [OF assms] False by (auto simp: neq0_conv [symmetric])
  define gap where "gap = take (1 + ?brs) (pl @ replicate (1 + ?brs) 0)"
  have gap: "length gap = 1 + ?brs"
    by (simp add: gap_def)
  then obtain g gs where gs: "gap = g # gs" "length gs = ?brs"
    by (cases gap) auto
  let ?h = "word_of_nat (247 + ?brs) :: byte"
  have "take (length xs + (1 + ?brs)) ((xs @ pl) @ replicate (1 + ?brs) 0) @ drop (length xs) (xs @ pl)
      = xs @ gap @ pl"
    by (simp add: gap_def)
  then have m: "(take (length xs + (1 + ?brs)) ((xs @ pl) @ replicate (1 + ?brs) 0)
      @ drop (length xs) (xs @ pl))[length xs := ?h] = (xs @ [?h]) @ gs @ pl"
    by (simp add: gs(1) list_update_append del: append_assoc)
  have "store_be ((xs @ [?h]) @ gs @ pl) (length xs + ?brs) (length pl)
      = (xs @ [?h]) @ be_bytes (length pl) @ pl"
    using store_be_gap [OF gs(2), of "xs @ [?h]" pl] gs(2) by simp
  with m brs False show ?thesis
    by (simp add: close_list_def Let_def rlp_consts encode_len_def)
qed

lemma append_bytes_encode:
  assumes "length d < 2 ^ 64"
  shows "append_bytes s d False = noteAppended (s\<lparr>m_out := m_out s @ encode_str d\<rparr>) 1"
proof (cases "length d = 1 \<and> unat (hd d) < 0x80")
  case True
  then have "[hd d] = d"
    by (cases d) auto
  with True show ?thesis
    by (simp add: append_bytes_def Let_def rlp_consts encode_str_def)
next
  case False
  have "bytesRequired (length d) \<le> 8"
    using bytesRequired_le_8 [OF assms] .
  with False show ?thesis
    by (auto simp: append_bytes_def Let_def rlp_consts encode_str_def encode_len_def
        appendRaw_def noteAppended_def pushCount_def pushInt_exact add.commute)
qed

lemma length_encode_str_ge: "length d \<le> length (encode_str d)"
  by (simp add: encode_str_def)

lemma emit_items_encode:
  assumes "\<And>x s. x \<in> set xs \<Longrightarrow> emit_item x s = noteAppended (s\<lparr>m_out := m_out s @ encode_item x\<rparr>) 1"
    and "xs \<noteq> []"
  shows "emit_items xs \<lparr>m_out = out, m_listStack = (length xs, p) # st\<rparr>
    = noteAppended \<lparr>m_out = out @ concat (map encode_item xs), m_listStack = (1, p) # st\<rparr> 1"
  using assms
proof (induction xs arbitrary: out)
  case Nil
  then show ?case by simp
next
  case (Cons x xs)
  have x: "emit_item x \<lparr>m_out = out, m_listStack = (length (x # xs), p) # st\<rparr>
      = noteAppended \<lparr>m_out = out @ encode_item x, m_listStack = (length (x # xs), p) # st\<rparr> 1"
    using Cons.prems(1) by simp
  show ?case
  proof (cases "xs = []")
    case True
    with x show ?thesis
      by (simp add: bindE_def split: sum.splits)
  next
    case False
    with Cons.prems(1) have "emit_items xs \<lparr>m_out = out @ encode_item x, m_listStack = (length xs, p) # st\<rparr>
      = noteAppended \<lparr>m_out = (out @ encode_item x) @ concat (map encode_item xs), m_listStack = (1, p) # st\<rparr> 1"
      by (intro Cons.IH) auto
    moreover have "1 < length (x # xs)"
      using False by simp
    ultimately show ?thesis
      using x by (simp add: noteAppended_more del: One_nat_def)
  qed
qed

lemma emit_item_encode:
  "length (encode_item it) < 2 ^ 64 \<Longrightarrow>
   emit_item it s = noteAppended (s\<lparr>m_out := m_out s @ encode_item it\<rparr>) 1"
proof (induction it arbitrary: s)
  case (RStr d)
  then show ?case
    using le_less_trans [OF length_encode_str_ge] by (simp add: append_bytes_encode)
next
  case (RList xs)
  let ?pl = "concat (map encode_item xs)"
  have pl: "length ?pl < 2 ^ 64"
    using RList.prems by (simp add: Let_def)
  show ?case
  proof (cases "xs = []")
    case True
    then show ?thesis
      by (simp add: appendList_def appendListRaw_def appendRaw_def rlp_consts encode_len_def
          bindE_def split: sum.splits)
  next
    case False
    have each: "emit_item x s = noteAppended (s\<lparr>m_out := m_out s @ encode_item x\<rparr>) 1"
      if "x \<in> set xs" for x s
    proof (rule RList.IH [OF that])
      from that obtain ys zs where "xs = ys @ x # zs"
        by (auto simp: in_set_conv_decomp)
      with pl show "length (encode_item x) < 2 ^ 64"
        by simp
    qed
    have "emit_item (RList xs) s
      = emit_items xs \<lparr>m_out = m_out s, m_listStack = (length xs, length (m_out s)) # m_listStack s\<rparr>"
      using False by (cases s) (simp add: appendList_def)
    also have "\<dots> = noteAppended \<lparr>m_out = m_out s @ ?pl,
        m_listStack = (1, length (m_out s)) # m_listStack s\<rparr> 1"
      using each False by (rule emit_items_encode)
    also have "\<dots> = noteAppended (s\<lparr>m_out := m_out s @ encode_item (RList xs)\<rparr>) 1"
      by (cases s) (simp add: noteAppended_close close_list_header [OF pl] Let_def
          del: One_nat_def)
    finally show ?thesis .
  qed
qed

end
