(* ===== verification/Rlp_Reader.thy ===== *)
theory Rlp_Reader
  imports Rlp_Stream
begin

text \<open>
  The RLP reader \<open>RLP\<close> of \<open>mpt/rlp.h\<close> and \<open>mpt/rlp.cpp\<close>: a view on a byte sequence
  whose accessors check the canonical form and throw, and an indexing cache that makes
  ascending access to the items of a list cheap. The lemmas show that the header
  arithmetic reads what the writer wrote, that scanning a list finds its items, and that
  the cached \<open>operator[]\<close> returns the item of the uncached scan for every order of
  accesses.
\<close>

section \<open>Views\<close>

text \<open>
  \<open>vector_ref::cropped\<close>: an out-of-range request yields the empty view. Views are
  shorter than \<open>2 ^ 63\<close> bytes, so the sum of the source does not wrap.
\<close>

definition cropped :: "'a list \<Rightarrow> nat \<Rightarrow> nat \<Rightarrow> 'a list" where
  "cropped d b c =
     (if b \<le> length d \<and> c \<le> length d \<and> b + c \<le> length d then take c (drop b d) else [])"

definition cropped_from :: "'a list \<Rightarrow> nat \<Rightarrow> 'a list" where
  "cropped_from d b = (if b \<le> length d then drop b d else [])"

lemma cropped_prefix: "n \<le> length d \<Longrightarrow> cropped d 0 n = take n d"
  by (simp add: cropped_def)

lemma cropped_from_drop [simp]: "cropped_from d b = drop b d"
  by (simp add: cropped_from_def)

section \<open>Classification and header arithmetic\<close>

definition isNull :: "bytes \<Rightarrow> bool" where
  "isNull d = (length d = 0)"

definition isEmpty :: "bytes \<Rightarrow> bool" where
  "isEmpty d = (\<not> isNull d \<and> (unat (d ! 0) = c_rlpDataImmLenStart \<or> unat (d ! 0) = c_rlpListStart))"

definition isData :: "bytes \<Rightarrow> bool" where
  "isData d = (\<not> isNull d \<and> unat (d ! 0) < c_rlpListStart)"

definition isList :: "bytes \<Rightarrow> bool" where
  "isList d = (\<not> isNull d \<and> c_rlpListStart \<le> unat (d ! 0))"

definition isSingleByte :: "bytes \<Rightarrow> bool" where
  "isSingleByte d = (\<not> isNull d \<and> unat (d ! 0) < c_rlpDataImmLenStart)"

definition requireGood :: "bytes \<Rightarrow> (rlp_error, unit) result" where
  "requireGood d =
     (if isNull d then Inl BadRLP
      else if unat (d ! 0) \<noteq> c_rlpDataImmLenStart + 1 then Inr ()
      else if length d < 2 then Inl BadRLP
      else if unat (d ! 1) < c_rlpDataImmLenStart then Inl BadRLP
      else Inr ())"

definition isInt :: "bytes \<Rightarrow> (rlp_error, bool) result" where
  "isInt d =
     (if isNull d then Inr False
      else bindE (requireGood d) (\<lambda>_.
        let n = unat (d ! 0) in
        if n < c_rlpDataImmLenStart then Inr (n \<noteq> 0)
        else if n = c_rlpDataImmLenStart then Inr True
        else if n \<le> c_rlpDataIndLenZero then
          (if length d \<le> 1 then Inl BadRLP else Inr (d ! 1 \<noteq> 0))
        else if n < c_rlpListStart then
          (if length d \<le> 1 + n - c_rlpDataIndLenZero then Inl BadRLP
           else Inr (d ! (1 + n - c_rlpDataIndLenZero) \<noteq> 0))
        else Inr False))"

text \<open>
  The loop \<open>ret = (ret << 8) | m_data[i + 1]\<close> on a 64-bit \<open>size_t\<close>; the low octet is
  clear after the shift, so the disjunction is an addition.
\<close>

definition read_length :: "bytes \<Rightarrow> nat" where
  "read_length bs = foldl (\<lambda>ret b. (ret * 256) mod 2 ^ 64 + unat b) 0 bs"

text \<open>The common tail of the two branches of \<open>RLP::length\<close> with an explicit length.\<close>

definition long_length :: "bytes \<Rightarrow> nat \<Rightarrow> nat \<Rightarrow> (rlp_error, nat) result" where
  "long_length d lenSize limit =
     (if length d \<le> lenSize then Inl BadRLP
      else if length d > 1 \<and> d ! 1 = 0 then Inl BadRLP
      else if lenSize > 8 then Inl UndersizeRLP
      else if d ! 1 = 0 then Inl BadRLP
      else let ret = read_length (take lenSize (drop 1 d)) in
        if ret < limit then Inl BadRLP
        else if ret \<ge> 2 ^ 64 - 1 - 0x100 then Inl UndersizeRLP
        else Inr ret)"

definition length_rlp :: "bytes \<Rightarrow> (rlp_error, nat) result" where
  "length_rlp d =
     (if isNull d then Inr 0
      else bindE (requireGood d) (\<lambda>_.
        let n = unat (d ! 0) in
        if n < c_rlpDataImmLenStart then Inr 1
        else if n \<le> c_rlpDataIndLenZero then Inr (n - c_rlpDataImmLenStart)
        else if n < c_rlpListStart then
          long_length d (n - c_rlpDataIndLenZero)
            (c_rlpListStart - c_rlpDataImmLenStart - c_rlpMaxLengthBytes)
        else if n \<le> c_rlpListIndLenZero then Inr (n - c_rlpListStart)
        else long_length d (n - c_rlpListIndLenZero)
            (0x100 - c_rlpListStart - c_rlpMaxLengthBytes)))"

definition lengthSize :: "bytes \<Rightarrow> nat" where
  "lengthSize d =
     (if isData d \<and> unat (d ! 0) > c_rlpDataIndLenZero then unat (d ! 0) - c_rlpDataIndLenZero
      else if isList d \<and> unat (d ! 0) > c_rlpListIndLenZero then unat (d ! 0) - c_rlpListIndLenZero
      else 0)"

definition payloadOffset :: "bytes \<Rightarrow> nat" where
  "payloadOffset d = (if isSingleByte d then 0 else 1 + lengthSize d)"

definition actualSize :: "bytes \<Rightarrow> (rlp_error, nat) result" where
  "actualSize d =
     (if isNull d then Inr 0
      else if isSingleByte d then Inr 1
      else if isData d \<or> isList d then bindE (length_rlp d) (\<lambda>l. Inr (payloadOffset d + l))
      else Inr 0)"

section \<open>Construction\<close>

definition ThrowOnFail :: nat where "ThrowOnFail = 4"
definition FailIfTooBig :: nat where "FailIfTooBig = 8"
definition FailIfTooSmall :: nat where "FailIfTooSmall = 16"
definition VeryStrict :: nat where "VeryStrict = ThrowOnFail + FailIfTooBig + FailIfTooSmall"

lemmas rlp_flags = ThrowOnFail_def FailIfTooBig_def FailIfTooSmall_def VeryStrict_def

text \<open>\<open>_s & flag\<close> for a single-bit flag.\<close>

definition has_flag :: "nat \<Rightarrow> nat \<Rightarrow> bool" where
  "has_flag s flag = odd (s div flag)"

definition RLP_new :: "bytes \<Rightarrow> nat \<Rightarrow> (rlp_error, bytes) result" where
  "RLP_new d s =
     bindE
       (if has_flag s FailIfTooBig
        then bindE (actualSize d) (\<lambda>a.
          if a < length d then (if has_flag s ThrowOnFail then Inl OversizeRLP else Inr [])
          else Inr d)
        else Inr d)
       (\<lambda>m. if has_flag s FailIfTooSmall
        then bindE (actualSize m) (\<lambda>a.
          if a > length d then (if has_flag s ThrowOnFail then Inl UndersizeRLP else Inr [])
          else Inr m)
        else Inr m)"

definition sizeAsEncoded :: "bytes \<Rightarrow> (rlp_error, nat) result" where
  "sizeAsEncoded d = bindE (RLP_new d (ThrowOnFail + FailIfTooSmall)) actualSize"

definition payload :: "bytes \<Rightarrow> (rlp_error, bytes) result" where
  "payload d = bindE (length_rlp d) (\<lambda>l.
     if l > length d then Inl BadRLP else Inr (cropped d (payloadOffset d) l))"

definition toString :: "bytes \<Rightarrow> (rlp_error, string) result" where
  "toString d =
     (if \<not> isData d then Inr []
      else bindE (payload d) (\<lambda>p. bindE (length_rlp d) (\<lambda>l. Inr (asString (cropped p 0 l)))))"

definition size_rlp :: "bytes \<Rightarrow> (rlp_error, nat) result" where
  "size_rlp d = (if isData d then length_rlp d else Inr 0)"

lemma isNull_iff: "isNull d \<longleftrightarrow> d = []"
  by (simp add: isNull_def)

lemmas rlp_view_defs = isNull_iff isEmpty_def isData_def isList_def isSingleByte_def

declare rlp_view_defs [exec_simps] requireGood_def [exec_simps] read_length_def [exec_simps]
  long_length_def [exec_simps] length_rlp_def [exec_simps] lengthSize_def [exec_simps]
  payloadOffset_def [exec_simps] actualSize_def [exec_simps] rlp_flags [exec_simps]
  has_flag_def [exec_simps] RLP_new_def [exec_simps] sizeAsEncoded_def [exec_simps]
  payload_def [exec_simps] toString_def [exec_simps] size_rlp_def [exec_simps]
  cropped_def [exec_simps] isInt_def [exec_simps]

section \<open>Scanning a list\<close>

lemma actualSize_pos: "actualSize d = Inr n \<Longrightarrow> d \<noteq> [] \<Longrightarrow> 0 < n"
  by (auto simp: actualSize_def rlp_view_defs payloadOffset_def rlp_consts split: if_splits)

lemma sizeAsEncoded_eq:
  "sizeAsEncoded d = bindE (actualSize d) (\<lambda>a. if a > length d then Inl UndersizeRLP else Inr a)"
  by (auto simp: sizeAsEncoded_def RLP_new_def rlp_flags has_flag_def bindE_def split: sum.splits)

lemma sizeAsEncoded_InrD: "sizeAsEncoded d = Inr n \<Longrightarrow> actualSize d = Inr n \<and> n \<le> length d"
  by (auto simp: sizeAsEncoded_eq split: if_splits)

lemma sizeAsEncoded_pos: "sizeAsEncoded d = Inr n \<Longrightarrow> d \<noteq> [] \<Longrightarrow> 0 < n"
  by (blast dest: sizeAsEncoded_InrD actualSize_pos)

text \<open>The loop of \<open>RLP::items\<close>, counting from \<open>i\<close>; every turn drops at least one byte.\<close>

function items_loop :: "bytes \<Rightarrow> nat \<Rightarrow> (rlp_error, nat) result" where
  "items_loop d i =
     (if length d = 0 then Inr i
      else bindE (sizeAsEncoded d) (\<lambda>n. items_loop (cropped_from d n) (i + 1)))"
  by pat_completeness auto
termination
  by (relation "measure (\<lambda>(d, i). length d)") (auto dest: sizeAsEncoded_pos)

definition items :: "bytes \<Rightarrow> (rlp_error, nat) result" where
  "items d = (if isList d then bindE (payload d) (\<lambda>p. items_loop p 0) else Inr 0)"

definition itemCount :: "bytes \<Rightarrow> (rlp_error, nat) result" where
  "itemCount d = (if isList d then items d else Inr 0)"

text \<open>The items of a payload, by an uncached scan from its start.\<close>

function split_items :: "bytes \<Rightarrow> (rlp_error, bytes list) result" where
  "split_items d =
     (if length d = 0 then Inr []
      else bindE (sizeAsEncoded d) (\<lambda>n.
        bindE (split_items (cropped_from d n)) (\<lambda>xs. Inr (cropped d 0 n # xs))))"
  by pat_completeness auto
termination
  by (relation "measure length") (auto dest: sizeAsEncoded_pos)

declare items_loop.simps [simp del] split_items.simps [simp del]

lemma split_items_Nil [simp]: "split_items [] = Inr []"
  by (simp add: split_items.simps)

lemma split_items_induct [consumes 1, case_names Nil Cons]:
  assumes "split_items d = Inr xs"
    and "P [] []"
    and "\<And>d n ys. d \<noteq> [] \<Longrightarrow> sizeAsEncoded d = Inr n \<Longrightarrow> n \<le> length d \<Longrightarrow> 0 < n \<Longrightarrow>
      split_items (drop n d) = Inr ys \<Longrightarrow> P (drop n d) ys \<Longrightarrow> P d (take n d # ys)"
  shows "P d xs"
  using assms(1)
proof (induction d arbitrary: xs rule: length_induct)
  case (1 d)
  show ?case
  proof (cases "d = []")
    case True
    with "1.prems" assms(2) show ?thesis by simp
  next
    case False
    with "1.prems" obtain n ys where n: "sizeAsEncoded d = Inr n"
      and ys: "split_items (drop n d) = Inr ys" "xs = cropped d 0 n # ys"
      by (auto simp: split_items.simps [of d])
    then have le: "n \<le> length d" and pos: "0 < n"
      using False by (auto dest: sizeAsEncoded_InrD sizeAsEncoded_pos)
    with "1.IH" ys(1) False have "P (drop n d) ys"
      by simp
    with assms(3) [OF False n le pos ys(1)] ys(2) le show ?thesis
      by (simp add: cropped_prefix)
  qed
qed

lemma split_items_Cons:
  "d \<noteq> [] \<Longrightarrow> sizeAsEncoded d = Inr n \<Longrightarrow> split_items (drop n d) = Inr ys \<Longrightarrow>
   split_items d = Inr (take n d # ys)"
  by (auto simp: split_items.simps [of d] cropped_prefix dest: sizeAsEncoded_InrD)

lemma concat_split_items: "split_items d = Inr xs \<Longrightarrow> concat xs = d"
  by (induction rule: split_items_induct) auto

lemma split_items_nonempty: "split_items d = Inr xs \<Longrightarrow> x \<in> set xs \<Longrightarrow> x \<noteq> []"
  by (induction rule: split_items_induct) auto

lemma items_loop_split: "split_items d = Inr xs \<Longrightarrow> items_loop d i = Inr (i + length xs)"
  by (induction arbitrary: i rule: split_items_induct) (simp_all add: items_loop.simps)

lemma split_items_nth_size:
  "split_items d = Inr xs \<Longrightarrow> k < length xs \<Longrightarrow>
   sizeAsEncoded (drop (length (concat (take k xs))) d) = Inr (length (xs ! k))"
proof (induction arbitrary: k rule: split_items_induct)
  case Nil
  then show ?case by simp
next
  case (Cons d n ys)
  then show ?case
    by (cases k) (simp_all add: min_absorb2 add.commute)
qed

text \<open>An item keeps its size when the bytes after it are cut off.\<close>

lemma long_length_local:
  "long_length d k lim = Inr l \<Longrightarrow> k < m \<Longrightarrow> 1 < m \<Longrightarrow> m \<le> length d \<Longrightarrow> long_length (take m d) k lim = Inr l"
  by (auto simp: long_length_def Let_def drop_take min_absorb1 min_absorb2 split: if_splits)

lemma long_length_ge: "long_length d k lim = Inr l \<Longrightarrow> lim \<le> l"
  by (auto simp: long_length_def Let_def split: if_splits)

lemma requireGood_local:
  "requireGood d = Inr () \<Longrightarrow> 0 < m \<Longrightarrow> m \<le> length d \<Longrightarrow>
   (unat (d ! 0) = c_rlpDataImmLenStart + 1 \<Longrightarrow> 1 < m) \<Longrightarrow> requireGood (take m d) = Inr ()"
  by (auto simp: requireGood_def rlp_view_defs split: if_splits)

lemma length_rlp_local:
  assumes l: "length_rlp d = Inr l" and "d \<noteq> []" and m: "payloadOffset d + l \<le> m" "m \<le> length d"
  shows "length_rlp (take m d) = Inr l"
proof -
  let ?n = "unat (d ! 0)"
  from l \<open>d \<noteq> []\<close> have good: "requireGood d = Inr ()"
    by (auto simp: length_rlp_def isNull_iff)
  consider "?n < 0x80" | "0x80 \<le> ?n" "?n \<le> 0xb7" | "0xb7 < ?n" "?n < 0xc0" | "0xc0 \<le> ?n" "?n \<le> 0xf7"
    | "0xf7 < ?n" by linarith
  then show ?thesis
  proof cases
    case 1
    with l m good \<open>d \<noteq> []\<close> show ?thesis
      using requireGood_local [of d m]
      by (auto simp: length_rlp_def payloadOffset_def rlp_view_defs rlp_consts)
  next
    case 2
    with l m good \<open>d \<noteq> []\<close> show ?thesis
      using requireGood_local [of d m]
      by (auto simp: length_rlp_def payloadOffset_def rlp_view_defs rlp_consts)
  next
    case 3
    with l good \<open>d \<noteq> []\<close> have long: "long_length d (?n - 0xb7) 56 = Inr l"
      by (simp add: length_rlp_def rlp_view_defs rlp_consts)
    moreover have "payloadOffset d = 1 + (?n - 0xb7)"
      using 3 \<open>d \<noteq> []\<close> by (simp add: payloadOffset_def lengthSize_def rlp_view_defs rlp_consts)
    ultimately have "long_length (take m d) (?n - 0xb7) 56 = Inr l" and "1 < m"
      using long_length_ge [OF long] m by (auto intro!: long_length_local)
    with 3 m good \<open>d \<noteq> []\<close> show ?thesis
      using requireGood_local [of d m]
      by (simp add: length_rlp_def rlp_view_defs rlp_consts)
  next
    case 4
    with l m good \<open>d \<noteq> []\<close> show ?thesis
      using requireGood_local [of d m]
      by (auto simp: length_rlp_def payloadOffset_def rlp_view_defs rlp_consts)
  next
    case 5
    with l good \<open>d \<noteq> []\<close> have long: "long_length d (?n - 0xf7) 56 = Inr l"
      by (simp add: length_rlp_def rlp_view_defs rlp_consts)
    moreover have "payloadOffset d = 1 + (?n - 0xf7)"
      using 5 \<open>d \<noteq> []\<close> by (simp add: payloadOffset_def lengthSize_def rlp_view_defs rlp_consts)
    ultimately have "long_length (take m d) (?n - 0xf7) 56 = Inr l" and "1 < m"
      using long_length_ge [OF long] m by (auto intro!: long_length_local)
    with 5 m good \<open>d \<noteq> []\<close> show ?thesis
      using requireGood_local [of d m]
      by (simp add: length_rlp_def rlp_view_defs rlp_consts)
  qed
qed

lemma view_take [simp]:
  "0 < m \<Longrightarrow> isNull (take m d) = isNull d"
  "0 < m \<Longrightarrow> isData (take m d) = isData d"
  "0 < m \<Longrightarrow> isList (take m d) = isList d"
  "0 < m \<Longrightarrow> isSingleByte (take m d) = isSingleByte d"
  "0 < m \<Longrightarrow> payloadOffset (take m d) = payloadOffset d"
  by (auto simp: rlp_view_defs payloadOffset_def lengthSize_def)

lemma actualSize_local:
  assumes "actualSize d = Inr n" and "n \<le> length d"
  shows "actualSize (take n d) = Inr n"
proof (cases "d = [] \<or> isSingleByte d \<or> \<not> (isData d \<or> isList d)")
  case True
  with assms show ?thesis
    by (auto simp: actualSize_def rlp_view_defs rlp_consts)
next
  case False
  with assms obtain l where l: "length_rlp d = Inr l" "n = payloadOffset d + l"
    by (auto simp: actualSize_def isNull_def)
  moreover have "length_rlp (take n d) = Inr l"
    using False l assms(2) by (intro length_rlp_local) auto
  moreover have "0 < n"
    using actualSize_pos [OF assms(1)] False by simp
  ultimately show ?thesis
    using False by (simp add: actualSize_def isNull_iff)
qed

section \<open>The indexing cache\<close>

record RLP =
  m_data :: bytes
  m_lastIndex :: nat
  m_lastEnd :: nat
  m_lastItem :: bytes

text \<open>A freshly constructed reader: \<open>m_lastIndex\<close> is \<open>(size_t)-1\<close>.\<close>

definition RLP_fresh :: "bytes \<Rightarrow> RLP" where
  "RLP_fresh d = \<lparr>m_data = d, m_lastIndex = 2 ^ 64 - 1, m_lastEnd = 0, m_lastItem = []\<rparr>"

text \<open>
  The first statement of \<open>operator[]\<close>: an access below the cached index starts again at
  item 0. An exception leaves the fields assigned so far.
\<close>

definition sub_reset :: "RLP \<Rightarrow> nat \<Rightarrow> RLP \<times> (rlp_error, unit) result" where
  "sub_reset r i =
     (if i < m_lastIndex r then
        case bindE (payload (m_data r)) (\<lambda>p. bindE (sizeAsEncoded p) (\<lambda>e. Inr (p, e))) of
          Inl e \<Rightarrow> (r, Inl e)
        | Inr (p, e) \<Rightarrow> (r\<lparr>m_lastEnd := e, m_lastItem := cropped p 0 e, m_lastIndex := 0\<rparr>, Inr ())
      else (r, Inr ()))"

function sub_loop :: "RLP \<Rightarrow> nat \<Rightarrow> RLP \<times> (rlp_error, unit) result" where
  "sub_loop r i =
     (if m_lastIndex r < i \<and> length (m_lastItem r) \<noteq> 0 then
        case payload (m_data r) of
          Inl e \<Rightarrow> (r, Inl e)
        | Inr p \<Rightarrow>
          let rest = cropped_from p (m_lastEnd r) in
          case sizeAsEncoded rest of
            Inl e \<Rightarrow> (r\<lparr>m_lastItem := rest\<rparr>, Inl e)
          | Inr n \<Rightarrow>
            let it = cropped rest 0 n in
            sub_loop (r\<lparr>m_lastItem := it, m_lastEnd := m_lastEnd r + length it,
                        m_lastIndex := m_lastIndex r + 1\<rparr>) i
      else (r, Inr ()))"
  by pat_completeness auto
termination
  by (relation "measure (\<lambda>(r, i). i - m_lastIndex r)") auto

definition subscript :: "RLP \<Rightarrow> nat \<Rightarrow> RLP \<times> (rlp_error, RLP) result" where
  "subscript r i =
     (case sub_reset r i of
        (r1, Inl e) \<Rightarrow> (r1, Inl e)
      | (r1, Inr _) \<Rightarrow>
        (case sub_loop r1 i of
           (r2, Inl e) \<Rightarrow> (r2, Inl e)
         | (r2, Inr _) \<Rightarrow>
           (r2, bindE (RLP_new (m_lastItem r2) (ThrowOnFail + FailIfTooSmall)) (\<lambda>d. Inr (RLP_fresh d)))))"

declare sub_loop.simps [simp del]
declare RLP_fresh_def [exec_simps] sub_reset_def [exec_simps] sub_loop.simps [exec_simps]
  subscript_def [exec_simps]

text \<open>What the cache means for a list whose uncached scan gives \<open>xs\<close>.\<close>

definition cache_at :: "bytes list \<Rightarrow> RLP \<Rightarrow> nat \<Rightarrow> bool" where
  "cache_at xs r k \<longleftrightarrow> m_lastIndex r = k \<and> k \<le> length xs \<and>
     m_lastEnd r = length (concat (take (Suc k) xs)) \<and>
     m_lastItem r = (if k < length xs then xs ! k else [])"

definition cache_ok :: "bytes list \<Rightarrow> RLP \<Rightarrow> bool" where
  "cache_ok xs r \<longleftrightarrow> m_lastIndex r = 2 ^ 64 - 1 \<and> m_lastItem r = [] \<or> (\<exists>k. cache_at xs r k)"

lemma cache_ok_fresh: "cache_ok xs (RLP_fresh d)"
  by (simp add: cache_ok_def RLP_fresh_def)

lemma sizeAsEncoded_Nil [simp]: "sizeAsEncoded [] = Inr 0"
  by (simp add: sizeAsEncoded_eq actualSize_def isNull_iff)

lemma take_concat_nth: "k < length xs \<Longrightarrow> take (length (xs ! k)) (drop (length (concat (take k xs))) (concat xs)) = xs ! k"
proof (induction xs arbitrary: k)
  case (Cons x xs)
  then show ?case by (cases k) simp_all
qed simp

lemma sub_loop_step:
  assumes p: "payload (m_data r) = Inr p" and xs: "split_items p = Inr xs"
    and at: "cache_at xs r k" and "k < i" "k < length xs"
  shows "\<exists>r'. sub_loop r i = sub_loop r' i \<and> cache_at xs r' (Suc k) \<and> m_data r' = m_data r"
proof -
  define rest where "rest = drop (length (concat (take (Suc k) xs))) p"
  define n where "n = (if Suc k < length xs then length (xs ! Suc k) else 0)"
  have px: "p = concat xs"
    using concat_split_items [OF xs] by simp
  have rest_nil: "rest = []" if "\<not> Suc k < length xs"
    using that by (simp add: rest_def px)
  have n: "sizeAsEncoded rest = Inr n"
    using split_items_nth_size [OF xs, of "Suc k"] rest_nil by (auto simp: n_def rest_def)
  have item: "cropped rest 0 n = (if Suc k < length xs then xs ! Suc k else [])"
  proof (cases "Suc k < length xs")
    case True
    moreover have "n \<le> length rest"
      using n by (auto dest: sizeAsEncoded_InrD)
    ultimately show ?thesis
      using take_concat_nth [OF True] by (simp add: cropped_prefix n_def rest_def px)
  qed (simp add: rest_nil n_def cropped_def)
  have "m_lastItem r \<noteq> []"
    using at \<open>k < length xs\<close> split_items_nonempty [OF xs] by (auto simp: cache_at_def)
  then have "sub_loop r i = sub_loop (r\<lparr>m_lastItem := cropped rest 0 n,
      m_lastEnd := m_lastEnd r + length (cropped rest 0 n), m_lastIndex := m_lastIndex r + 1\<rparr>) i"
    (is "_ = sub_loop ?r' i")
    using at \<open>k < i\<close> p n by (simp add: sub_loop.simps [of r] cache_at_def rest_def Let_def)
  moreover
  have "length (concat (take (Suc (Suc k)) xs))
      = length (concat (take (Suc k) xs)) + (if Suc k < length xs then length (xs ! Suc k) else 0)"
    by (simp add: take_Suc_conv_app_nth)
  then have "cache_at xs ?r' (Suc k)"
    using at item \<open>k < length xs\<close> by (simp add: cache_at_def)
  ultimately show ?thesis
    by (intro exI [of _ ?r']) simp
qed

lemma sub_loop_reaches:
  assumes p: "payload (m_data r) = Inr p" and xs: "split_items p = Inr xs"
    and at: "cache_at xs r k" and "k \<le> i"
  shows "\<exists>r'. sub_loop r i = (r', Inr ()) \<and> cache_at xs r' (min i (length xs)) \<and> m_data r' = m_data r"
  using at p \<open>k \<le> i\<close>
proof (induction "i - k" arbitrary: k r)
  case 0
  then have "sub_loop r i = (r, Inr ())" and "k = i"
    by (auto simp: sub_loop.simps [of r] cache_at_def)
  moreover from this 0 have "min i (length xs) = i"
    by (simp add: cache_at_def)
  ultimately show ?case
    using 0 by simp
next
  case (Suc j)
  show ?case
  proof (cases "k < length xs")
    case True
    moreover have "k < i"
      using Suc.hyps(2) by simp
    ultimately obtain r' where r': "sub_loop r i = sub_loop r' i" "cache_at xs r' (Suc k)"
      "m_data r' = m_data r"
      using sub_loop_step [OF Suc.prems(2) xs Suc.prems(1), of i] by blast
    have "\<exists>r''. sub_loop r' i = (r'', Inr ()) \<and> cache_at xs r'' (min i (length xs))
        \<and> m_data r'' = m_data r'"
      using Suc.hyps(1) [of "Suc k" r'] Suc.hyps(2) Suc.prems r' by simp
    then show ?thesis
      using r' by auto
  next
    case False
    with Suc.prems have "k = length xs" and "m_lastItem r = []"
      by (auto simp: cache_at_def)
    then have "sub_loop r i = (r, Inr ())"
      by (simp add: sub_loop.simps [of r])
    with Suc.prems \<open>k = length xs\<close> show ?thesis
      by auto
  qed
qed

lemma sub_reset_first:
  assumes p: "payload (m_data r) = Inr p" and xs: "split_items p = Inr xs" and "i < m_lastIndex r"
  shows "\<exists>r'. sub_reset r i = (r', Inr ()) \<and> cache_at xs r' 0 \<and> m_data r' = m_data r"
proof (cases xs)
  case Nil
  then have "p = []"
    using concat_split_items [OF xs] by simp
  with assms Nil show ?thesis
    by (simp add: sub_reset_def cache_at_def cropped_def)
next
  case (Cons y ys)
  then have "sizeAsEncoded p = Inr (length y)" and "p = y @ concat ys"
    using split_items_nth_size [OF xs, of 0] concat_split_items [OF xs] by auto
  with assms Cons show ?thesis
    by (simp add: sub_reset_def cache_at_def cropped_def)
qed

text \<open>Rebuilding a reader on an item of the scan succeeds: the item has the size it declares.\<close>

lemma RLP_new_item:
  assumes "split_items p = Inr xs" and "x \<in> set xs"
  shows "RLP_new x (ThrowOnFail + FailIfTooSmall) = Inr x"
proof -
  have "actualSize x = Inr (length x)"
    using assms
  proof (induction rule: split_items_induct)
    case (Cons d n ys)
    then show ?case
      using sizeAsEncoded_InrD [OF Cons.hyps(2)] actualSize_local [of d n] by (auto simp: min_absorb2)
  qed simp
  then show ?thesis
    by (simp add: RLP_new_def rlp_flags has_flag_def)
qed

lemma RLP_new_Nil [simp]: "RLP_new [] (ThrowOnFail + FailIfTooSmall) = Inr []"
  by (simp add: RLP_new_def rlp_flags has_flag_def actualSize_def isNull_iff)

lemma subscript_cached:
  assumes p: "payload (m_data r) = Inr p" and xs: "split_items p = Inr xs"
    and ok: "cache_ok xs r" and i: "i < 2 ^ 64 - 1"
  shows "\<exists>r'. subscript r i = (r', Inr (RLP_fresh (if i < length xs then xs ! i else [])))
    \<and> cache_ok xs r' \<and> m_data r' = m_data r"
proof -
  obtain r1 k where r1: "sub_reset r i = (r1, Inr ())" "cache_at xs r1 k" "k \<le> i" "m_data r1 = m_data r"
  proof (cases "i < m_lastIndex r")
    case True
    with sub_reset_first [OF p xs] that show thesis by blast
  next
    case False
    with ok i obtain k where "cache_at xs r k"
      by (auto simp: cache_ok_def)
    moreover from this False have "sub_reset r i = (r, Inr ())" "k \<le> i"
      by (auto simp: sub_reset_def cache_at_def)
    ultimately show thesis using that by blast
  qed
  then obtain r2 where r2: "sub_loop r1 i = (r2, Inr ())"
    "cache_at xs r2 (min i (length xs))" "m_data r2 = m_data r"
    using sub_loop_reaches [of r1 p xs k i] p xs by auto
  then have item: "m_lastItem r2 = (if i < length xs then xs ! i else [])"
    using r2(2) by (auto simp: cache_at_def min_def max_def split: if_splits)
  have "RLP_new (m_lastItem r2) (ThrowOnFail + FailIfTooSmall) = Inr (m_lastItem r2)"
    using RLP_new_item [OF xs] by (auto simp: item)
  then show ?thesis
    using r1 r2 item by (auto simp: subscript_def cache_ok_def)
qed

end
