(* ===== verification/Rlp_Roundtrip.thy ===== *)
theory Rlp_Roundtrip
  imports Rlp_Reader
begin

text \<open>
  What the RLP writer produces, the RLP reader takes apart again: the header of an
  encoded item declares its length, the payload of an encoded list scans into the
  encodings of its elements, and a string comes back unchanged. The bound
  \<open>rlp_limit\<close> is the reader's own: \<open>RLP::length\<close> refuses lengths of
  \<open>2 ^ 64 - 257\<close> and more.
\<close>

definition rlp_limit :: nat where
  "rlp_limit = 2 ^ 64 - 1 - 0x100"

section \<open>Headers\<close>

lemma read_length_fromBigEndian: "length bs \<le> 8 \<Longrightarrow> read_length bs = fromBigEndian bs"
proof (induction bs rule: rev_induct)
  case Nil
  then show ?case by (simp add: read_length_def)
next
  case (snoc b bs)
  have "fromBigEndian bs < 256 ^ length bs"
    by (rule fromBigEndian_bound)
  also have "\<dots> \<le> 256 ^ 7"
    using snoc.prems by (intro power_increasing) auto
  finally have "fromBigEndian bs * 256 < 2 ^ 64"
    by simp
  with snoc show ?case
    by (simp add: read_length_def)
qed

text \<open>The first octet of a header and what it says about the item's kind.\<close>

lemma encode_len_first:
  assumes "start = 0x80 \<or> start = 0xc0" and "n < 2 ^ 64"
  shows "unat ((encode_len start n @ rest) ! 0)
    = (if n < 56 then start + n else start + 55 + bytesRequired n)"
  using assms bytesRequired_le_8 [OF assms(2)]
  by (auto simp: encode_len_def unat_word_of_nat_byte simp del: of_nat_add)

lemma encode_len_nonempty [simp]: "encode_len start n \<noteq> []"
  by (simp add: encode_len_def)

lemma bytesRequired_ge_1: "56 \<le> n \<Longrightarrow> 1 \<le> bytesRequired n"
  using bytesRequired_eq_0 [of n] by linarith

lemma long_length_header:
  assumes "56 \<le> n" and "n < rlp_limit"
  shows "long_length (encode_len start n @ rest) (bytesRequired n) 56 = Inr n"
proof -
  have br: "1 \<le> bytesRequired n" "bytesRequired n \<le> 8"
    using assms bytesRequired_ge_1 bytesRequired_le_8 [of n] by (auto simp: rlp_limit_def)
  let ?d = "encode_len start n @ rest"
  have d: "?d = hd ?d # be_bytes n @ rest"
    using assms by (simp add: encode_len_def)
  have len: "length ?d = Suc (bytesRequired n + length rest)"
    by (subst d) simp
  have "?d ! 1 = hd (be_bytes n)"
    using assms by (subst d) (simp add: nth_append hd_conv_nth)
  then have nz: "?d ! 1 \<noteq> 0"
    using hd_be_bytes_nonzero assms by simp
  have "take (bytesRequired n) (drop 1 ?d) = be_bytes n"
    by (subst d) simp
  then have "read_length (take (bytesRequired n) (drop 1 ?d)) = n"
    using br by (simp add: read_length_fromBigEndian)
  with nz len br assms show ?thesis
    by (simp add: long_length_def Let_def rlp_limit_def)
qed

text \<open>The condition under which a one-byte string needs its header.\<close>

definition canonical_payload :: "nat \<Rightarrow> nat \<Rightarrow> bytes \<Rightarrow> bool" where
  "canonical_payload start n rest \<longleftrightarrow>
     (start = 0x80 \<and> n = 1 \<longrightarrow> rest \<noteq> [] \<and> 0x80 \<le> unat (hd rest))"

lemma requireGood_header:
  assumes "start = 0x80 \<or> start = 0xc0" and "n < rlp_limit" and "canonical_payload start n rest"
  shows "requireGood (encode_len start n @ rest) = Inr ()"
proof -
  have "n < 2 ^ 64"
    using assms(2) by (simp add: rlp_limit_def)
  note first = encode_len_first [OF assms(1) this, of rest]
  have "unat ((encode_len start n @ rest) ! 0) = 0x81 \<longleftrightarrow> start = 0x80 \<and> n = 1"
    using assms(1) bytesRequired_ge_1 [of n] by (auto simp: first)
  with assms(3) show ?thesis
    by (cases rest) (auto simp: requireGood_def rlp_view_defs rlp_consts canonical_payload_def encode_len_def)
qed

lemma header_read:
  assumes "start = 0x80 \<or> start = 0xc0" and n: "n < rlp_limit" and "canonical_payload start n rest"
  shows "length_rlp (encode_len start n @ rest) = Inr n"
    and "payloadOffset (encode_len start n @ rest) = length (encode_len start n)"
    and "isList (encode_len start n @ rest) \<longleftrightarrow> start = 0xc0"
    and "isData (encode_len start n @ rest) \<longleftrightarrow> start = 0x80"
    and "\<not> isSingleByte (encode_len start n @ rest)"
proof -
  have n64: "n < 2 ^ 64"
    using n by (simp add: rlp_limit_def)
  note first = encode_len_first [OF assms(1) n64, of rest]
  have br: "1 \<le> bytesRequired n" "bytesRequired n \<le> 8" if "\<not> n < 56"
    using that bytesRequired_ge_1 [of n] bytesRequired_le_8 [OF n64] by auto
  note good = requireGood_header [OF assms]
  show "length_rlp (encode_len start n @ rest) = Inr n"
  proof (cases "n < 56")
    case True
    with assms(1) good show ?thesis
      by (auto simp: length_rlp_def isNull_iff rlp_consts first)
  next
    case False
    with assms(1) good br n show ?thesis
      by (auto simp: length_rlp_def isNull_iff rlp_consts first long_length_header)
  qed
  show "isList (encode_len start n @ rest) \<longleftrightarrow> start = 0xc0"
    using assms(1) br by (auto simp: rlp_view_defs rlp_consts first)
  show "isData (encode_len start n @ rest) \<longleftrightarrow> start = 0x80"
    using assms(1) br by (auto simp: rlp_view_defs rlp_consts first)
  show "\<not> isSingleByte (encode_len start n @ rest)"
    using assms(1) br by (auto simp: rlp_view_defs rlp_consts first)
  show "payloadOffset (encode_len start n @ rest) = length (encode_len start n)"
  proof (cases "n < 56")
    case True
    then have "unat ((encode_len start n @ rest) ! 0) = start + n"
      by (simp add: first)
    with True assms(1) show ?thesis
      by (auto simp: payloadOffset_def lengthSize_def rlp_view_defs rlp_consts encode_len_def)
  next
    case False
    then have "unat ((encode_len start n @ rest) ! 0) = start + 55 + bytesRequired n"
      by (simp add: first)
    moreover have "length (encode_len start n) = 1 + bytesRequired n"
      using False by (simp add: encode_len_def)
    ultimately show ?thesis
      using False assms(1) br
      by (auto simp: payloadOffset_def lengthSize_def rlp_view_defs rlp_consts)
  qed
qed

section \<open>Strings\<close>

lemma encode_str_cases:
  obtains (single) "length d = 1" and "unat (hd d) < 0x80" and "encode_str d = d"
  | (long) "encode_str d = encode_len 0x80 (length d) @ d" and "\<And>rest. canonical_payload 0x80 (length d) (d @ rest)"
proof (cases "length d = 1 \<and> unat (hd d) < 0x80")
  case True
  then show thesis by (intro single) (simp_all add: encode_str_def)
next
  case False
  then have "canonical_payload 0x80 (length d) (d @ rest)" for rest
    by (cases d) (auto simp: canonical_payload_def)
  with False show thesis
    by (intro long) (auto simp: encode_str_def)
qed

lemma encode_str_nonempty [simp]: "encode_str d \<noteq> []"
  by (auto simp: encode_str_def)

lemma isData_encode_str: "length d < rlp_limit \<Longrightarrow> isData (encode_str d @ rest)"
proof (cases d rule: encode_str_cases)
  case single
  then show ?thesis
    by (cases d) (auto simp: rlp_view_defs rlp_consts)
next
  case long
  moreover assume "length d < rlp_limit"
  ultimately show ?thesis
    using header_read(4) [of "0x80" "length d" "d @ rest"] by simp
qed

lemma actualSize_encode_str:
  assumes "length d < rlp_limit"
  shows "actualSize (encode_str d @ rest) = Inr (length (encode_str d))"
proof (cases d rule: encode_str_cases)
  case single
  then show ?thesis
    by (cases d) (auto simp: actualSize_def rlp_view_defs rlp_consts)
next
  case long
  then show ?thesis
    using header_read [of "0x80" "length d" "d @ rest"] assms
    by (simp add: actualSize_def isNull_iff)
qed

lemma length_rlp_encode_str:
  assumes "length d < rlp_limit"
  shows "length_rlp (encode_str d) = Inr (length d)"
proof (cases d rule: encode_str_cases)
  case single
  then show ?thesis
    by (cases d) (auto simp: length_rlp_def requireGood_def rlp_view_defs rlp_consts)
next
  case long
  then show ?thesis
    using header_read(1) [of "0x80" "length d" d] long(2) [of "[]"] assms by simp
qed

lemma payload_encode_str:
  assumes "length d < rlp_limit"
  shows "payload (encode_str d) = Inr d"
proof (cases d rule: encode_str_cases)
  case single
  then show ?thesis
    using length_rlp_encode_str [OF assms]
    by (cases d) (auto simp: payload_def cropped_def payloadOffset_def rlp_view_defs rlp_consts)
next
  case long
  then show ?thesis
    using length_rlp_encode_str [OF assms] header_read(2) [of "0x80" "length d" d] long(2) [of "[]"] assms
    by (simp add: payload_def cropped_def)
qed

lemma toString_encode_str: "length d < rlp_limit \<Longrightarrow> toString (encode_str d) = Inr (asString d)"
  using isData_encode_str [of d "[]"]
  by (simp add: toString_def payload_encode_str length_rlp_encode_str cropped_def)

lemma RLP_new_exact:
  "actualSize d = Inr (length d) \<Longrightarrow> RLP_new d s = Inr d"
  by (simp add: RLP_new_def)

section \<open>Items and lists\<close>

lemma encode_item_nonempty [simp]: "encode_item it \<noteq> []"
  by (cases it) (simp_all add: Let_def)

lemma actualSize_encode_item:
  assumes "length (encode_item it) < rlp_limit"
  shows "actualSize (encode_item it @ rest) = Inr (length (encode_item it))"
proof (cases it)
  case (RStr d)
  with assms length_encode_str_ge [of d] show ?thesis
    by (simp add: actualSize_encode_str)
next
  case (RList xs)
  let ?pl = "concat (map encode_item xs)"
  have "length ?pl < rlp_limit"
    using assms RList by (simp add: Let_def)
  then show ?thesis
    using header_read [of "0xc0" "length ?pl" "?pl @ rest"] RList
    by (simp add: actualSize_def isNull_iff Let_def canonical_payload_def)
qed

lemma sizeAsEncoded_encode_item:
  "length (encode_item it) < rlp_limit \<Longrightarrow>
   sizeAsEncoded (encode_item it @ rest) = Inr (length (encode_item it))"
  by (simp add: sizeAsEncoded_eq actualSize_encode_item)

lemma split_items_encode:
  "length (concat (map encode_item xs)) < rlp_limit \<Longrightarrow>
   split_items (concat (map encode_item xs)) = Inr (map encode_item xs)"
proof (induction xs)
  case (Cons x xs)
  then have "sizeAsEncoded (encode_item x @ concat (map encode_item xs)) = Inr (length (encode_item x))"
    by (intro sizeAsEncoded_encode_item) simp
  with Cons show ?case
    using split_items_Cons [of "encode_item x @ concat (map encode_item xs)"] by simp
qed simp

lemma list_header:
  assumes "length (encode_item (RList xs)) < rlp_limit"
  shows "isList (encode_item (RList xs))"
    and "payload (encode_item (RList xs)) = Inr (concat (map encode_item xs))"
proof -
  let ?pl = "concat (map encode_item xs)"
  have "length ?pl < rlp_limit"
    using assms by (simp add: Let_def)
  then have h: "length_rlp (encode_len 0xc0 (length ?pl) @ ?pl) = Inr (length ?pl)"
    "payloadOffset (encode_len 0xc0 (length ?pl) @ ?pl) = length (encode_len 0xc0 (length ?pl))"
    "isList (encode_len 0xc0 (length ?pl) @ ?pl)"
    using header_read [of "0xc0" "length ?pl" ?pl] by (simp_all add: canonical_payload_def)
  show "isList (encode_item (RList xs))"
    using h by (simp add: Let_def)
  show "payload (encode_item (RList xs)) = Inr ?pl"
    using h by (simp add: Let_def payload_def cropped_def)
qed

lemma split_items_list:
  assumes "length (encode_item (RList xs)) < rlp_limit"
  shows "split_items (concat (map encode_item xs)) = Inr (map encode_item xs)"
  using assms by (intro split_items_encode) (simp add: Let_def)

lemma itemCount_encode:
  assumes "length (encode_item (RList xs)) < rlp_limit"
  shows "itemCount (encode_item (RList xs)) = Inr (length xs)"
  using list_header [OF assms] items_loop_split [OF split_items_list [OF assms], of 0]
  by (simp add: itemCount_def items_def)

lemma subscript_encode:
  assumes "length (encode_item (RList xs)) < rlp_limit" and "m_data r = encode_item (RList xs)"
    and "cache_ok (map encode_item xs) r" and "i < length xs"
  shows "\<exists>r'. subscript r i = (r', Inr (RLP_fresh (encode_item (xs ! i))))
    \<and> cache_ok (map encode_item xs) r' \<and> m_data r' = m_data r"
proof -
  have "length xs \<le> length (concat (map encode_item xs))"
  proof (induction xs)
    case (Cons x xs)
    have "1 \<le> length (encode_item x)"
      by (simp add: Suc_le_eq)
    with Cons show ?case by simp
  qed simp
  then have "i < 2 ^ 64 - 1"
    using assms by (simp add: rlp_limit_def Let_def)
  then show ?thesis
    using subscript_cached [OF _ split_items_list [OF assms(1)] assms(3), of i] assms list_header
    by auto
qed

text \<open>Encodings determine their items.\<close>

lemma encode_item_inject:
  assumes "length (encode_item a) < rlp_limit"
  shows "encode_item a = encode_item b \<longleftrightarrow> a = b"
  using assms
proof (induction a arbitrary: b)
  case (RStr d)
  show ?case
  proof (cases b)
    case (RStr d')
    have "d = d'" if "encode_str d = encode_str d'"
    proof -
      have "length d < rlp_limit" "length d' < rlp_limit"
        using RStr.prems that length_encode_str_ge [of d] length_encode_str_ge [of d'] by auto
      then have "Inr d = (Inr d' :: rlp_error + bytes)"
        using that by (metis payload_encode_str)
      then show ?thesis by simp
    qed
    with RStr show ?thesis by auto
  next
    case (RList xs)
    have "isData (encode_item (RStr d))"
      using RStr.prems isData_encode_str [of d "[]"] length_encode_str_ge [of d] by simp
    with RList RStr.prems list_header(1) [of xs] show ?thesis
      by (auto simp: isData_def isList_def)
  qed
next
  case (RList xs)
  show ?case
  proof (cases b)
    case (RStr d)
    have "isData (encode_str d)" if "length (encode_str d) < rlp_limit"
      using that isData_encode_str [of d "[]"] length_encode_str_ge [of d] by simp
    moreover have "isList (encode_item (RList xs))"
      using RList.prems by (rule list_header)
    ultimately have "encode_item (RList xs) \<noteq> encode_str d"
      using RList.prems by (metis isData_def isList_def not_le)
    with RStr show ?thesis
      by (simp del: encode_item.simps(2))
  next
    case (RList ys)
    have "xs = ys" if eq: "encode_item (RList xs) = encode_item (RList ys)"
    proof -
      have small: "length (encode_item (RList ys)) < rlp_limit"
        using RList.prems eq by simp
      have pl: "concat (map encode_item xs) = concat (map encode_item ys)"
        using list_header(2) [OF RList.prems] list_header(2) [OF small] unfolding eq by simp
      then have "(Inr (map encode_item xs) :: rlp_error + bytes list) = Inr (map encode_item ys)"
        using split_items_list [OF RList.prems] split_items_list [OF small] by metis
      then have "map encode_item xs = map encode_item ys"
        by simp
      moreover have "length (encode_item x) < rlp_limit" if "x \<in> set xs" for x
      proof -
        from that obtain us vs where "xs = us @ x # vs"
          by (auto simp: in_set_conv_decomp)
        with RList.prems show ?thesis by (simp add: Let_def)
      qed
      ultimately show ?thesis
        using RList.IH by (intro list.inj_map_strong [of xs ys encode_item encode_item]) auto
    qed
    with RList show ?thesis
      by (auto simp del: encode_item.simps)
  qed
qed

section \<open>Properties\<close>

lemma m_data_fresh [simp]: "m_data (RLP_fresh d) = d"
  by (simp add: RLP_fresh_def)

text \<open>A sequence of subscript accesses to one reader, whose cache they share.\<close>

fun access_all :: "RLP \<Rightarrow> nat list \<Rightarrow> (rlp_error, RLP) result list" where
  "access_all r [] = []"
| "access_all r (i # is) = (case subscript r i of (r', res) \<Rightarrow> res # access_all r' is)"

lemma access_all_cached:
  "payload (m_data r) = Inr p \<Longrightarrow> split_items p = Inr xs \<Longrightarrow> cache_ok xs r \<Longrightarrow> \<forall>i \<in> set is. i < 2 ^ 64 - 1 \<Longrightarrow>
   access_all r is = map (\<lambda>i. Inr (RLP_fresh (if i < length xs then xs ! i else []))) is"
proof (induction "is" arbitrary: r)
  case (Cons i "is")
  then obtain r' where "subscript r i = (r', Inr (RLP_fresh (if i < length xs then xs ! i else [])))"
    "cache_ok xs r'" "m_data r' = m_data r"
    using subscript_cached [of r p xs i] by auto
  with Cons show ?case by auto
qed simp

text \<open>
  C2: the RLP writer refines the RLP specification: feeding an item (a byte string or a
  nested list) to a fresh stream with \<open>append\<close> and \<open>appendList\<close> closes every list, throws
  nothing and leaves exactly the canonical encoding of the item, for every item whose
  encoding is shorter than \<open>2 ^ 64\<close> bytes.
\<close>

theorem rlp_stream_refines_encoding:
  "length (encode_item it) < 2 ^ 64 \<Longrightarrow> bindE (emit_item it RLPStream_new) out_stream = Inr (encode_item it)"
  by (simp add: emit_item_encode RLPStream_new_def out_stream_def)

theorem rlp_stream_refines_encoding_witness:
  "length (encode_item (RList [RStr [1, 2], RList [], RStr [5]])) < 2 ^ 64 \<and>
   bindE (emit_item (RList [RStr [1, 2], RList [], RStr [5]]) RLPStream_new) out_stream
     = Inr [0xc5, 0x82, 1, 2, 0xc0, 5]"
proof -
  have enc: "encode_item (RList [RStr [1, 2], RList [], RStr [5]]) = [0xc5, 0x82, 1, 2, 0xc0, 5]"
    by (simp add: encode_str_def encode_len_def)
  show ?thesis
    using rlp_stream_refines_encoding [of "RList [RStr [1, 2], RList [], RStr [5]]"]
    unfolding enc by simp
qed

text \<open>
  C3: reading an encoded list: the strict constructor accepts it, it is a list, its item
  count is the number of items, and every sequence of subscript accesses, in any order and
  through the shared index cache, returns the encodings of the items asked for.
\<close>

theorem rlp_list_roundtrip:
  assumes "length (encode_item (RList xs)) < rlp_limit" and "\<forall>i \<in> set is. i < length xs"
  shows "RLP_new (encode_item (RList xs)) VeryStrict = Inr (encode_item (RList xs))
    \<and> isList (encode_item (RList xs))
    \<and> itemCount (encode_item (RList xs)) = Inr (length xs)
    \<and> access_all (RLP_fresh (encode_item (RList xs))) is = map (\<lambda>i. Inr (RLP_fresh (encode_item (xs ! i)))) is"
proof -
  have "actualSize (encode_item (RList xs)) = Inr (length (encode_item (RList xs)))"
    using actualSize_encode_item [OF assms(1), of "[]"] by (simp del: encode_item.simps)
  moreover have "\<exists>r'. subscript r i = (r', Inr (RLP_fresh (encode_item (xs ! i))))
      \<and> cache_ok (map encode_item xs) r' \<and> m_data r' = m_data r"
    if "i < length xs" "m_data r = encode_item (RList xs)" "cache_ok (map encode_item xs) r" for r i
    using subscript_encode [OF assms(1) that(2,3,1)] .
  then have "access_all r is = map (\<lambda>i. Inr (RLP_fresh (encode_item (xs ! i)))) is"
    if "m_data r = encode_item (RList xs)" "cache_ok (map encode_item xs) r" for r
    using assms(2) that by (induction "is" arbitrary: r) (fastforce simp del: encode_item.simps)+
  then have "access_all (RLP_fresh (encode_item (RList xs))) is = map (\<lambda>i. Inr (RLP_fresh (encode_item (xs ! i)))) is"
    using cache_ok_fresh m_data_fresh by blast
  ultimately show ?thesis
    using list_header(1) [OF assms(1)] itemCount_encode [OF assms(1)]
    by (simp add: RLP_new_exact del: encode_item.simps)
qed

theorem rlp_list_roundtrip_witness:
  "access_all (RLP_fresh [0xc5, 0x82, 1, 2, 0xc0, 5]) [2, 0, 1]
     = [Inr (RLP_fresh [5]), Inr (RLP_fresh [0x82, 1, 2]), Inr (RLP_fresh [0xc0])]"
proof -
  let ?xs = "[RStr [1, 2], RList [], RStr [5]]"
  have enc: "encode_item (RList ?xs) = [0xc5, 0x82, 1, 2, 0xc0, 5]"
    by (simp add: encode_str_def encode_len_def)
  have small: "length (encode_item (RList ?xs)) < rlp_limit"
    unfolding enc by (simp add: rlp_limit_def)
  have idx: "\<forall>i \<in> set [2, 0, 1]. i < length ?xs"
    by simp
  have items: "encode_item (?xs ! 2) = [5]" "encode_item (?xs ! 0) = [0x82, 1, 2]" "encode_item (?xs ! 1) = [0xc0]"
    by (simp_all add: encode_str_def encode_len_def)
  have "access_all (RLP_fresh [0xc5, 0x82, 1, 2, 0xc0, 5]) [2, 0, 1]
      = map (\<lambda>i. Inr (RLP_fresh (encode_item (?xs ! i)))) [2, 0, 1]"
    using rlp_list_roundtrip [OF small idx] unfolding enc by blast
  then show ?thesis
    by (simp only: list.map items)
qed

text \<open>
  Reading an encoded byte string: the strict constructor accepts it, it is data of the
  original length, and \<open>toString\<close> returns the original bytes.
\<close>

theorem rlp_string_roundtrip:
  assumes "length (encode_str (asBytes s)) < rlp_limit"
  shows "RLP_new (encode_str (asBytes s)) VeryStrict = Inr (encode_str (asBytes s))
    \<and> size_rlp (encode_str (asBytes s)) = Inr (length s)
    \<and> toString (encode_str (asBytes s)) = Inr s"
proof -
  have small: "length (asBytes s) < rlp_limit"
    using assms length_encode_str_ge [of "asBytes s"] by simp
  then show ?thesis
    using isData_encode_str [OF small, of "[]"] actualSize_encode_str [OF small, of "[]"]
    by (simp add: toString_encode_str size_rlp_def length_rlp_encode_str RLP_new_exact)
qed

theorem rlp_string_roundtrip_witness:
  "length (encode_str (asBytes ''abc'')) < rlp_limit \<and> toString (encode_str (asBytes ''abc'')) = Inr ''abc''"
proof -
  have small: "length (encode_str (asBytes ''abc'')) < rlp_limit"
    by (simp add: encode_str_def encode_len_def rlp_limit_def)
  show ?thesis
    using small rlp_string_roundtrip [OF small] by blast
qed

text \<open>
  C4: the index cache of \<open>operator[]\<close> is transparent: on arbitrary bytes whose payload
  scans into items, every sequence of accesses in any order returns, at each step, the
  item of the uncached scan, and the null reader behind the last item.
\<close>

theorem rlp_subscript_cache_transparent:
  assumes "payload d = Inr p" and "split_items p = Inr xs" and "\<forall>i \<in> set is. i < 2 ^ 64 - 1"
  shows "access_all (RLP_fresh d) is = map (\<lambda>i. Inr (RLP_fresh (if i < length xs then xs ! i else []))) is"
  using assms by (intro access_all_cached) (simp_all add: cache_ok_fresh)

theorem rlp_subscript_cache_transparent_witness:
  "access_all (RLP_fresh [0xc2, 7, 8]) [1, 0, 5] = [Inr (RLP_fresh [8]), Inr (RLP_fresh [7]), Inr (RLP_fresh [])]"
proof -
  have p: "payload [0xc2, 7, 8] = Inr [7, 8]"
    by (simp add: exec_simps)
  have "sizeAsEncoded [7, 8] = Inr 1" "sizeAsEncoded [8] = Inr 1"
    by (simp_all add: exec_simps)
  then have xs: "split_items [7, 8] = Inr [[7], [8]]"
    by (simp add: split_items.simps cropped_def)
  have "\<forall>i \<in> set [1, 0, 5]. i < (2 :: nat) ^ 64 - 1"
    by simp
  from rlp_subscript_cache_transparent [OF p xs this] show ?thesis
    by simp
qed

text \<open>
  the encoding is injective: two items with the same bytes are the same item, so
  stored bytes determine the node that was stored.
\<close>

theorem rlp_encoding_injective:
  "length (encode_item a) < rlp_limit \<Longrightarrow> encode_item a = encode_item b \<Longrightarrow> a = b"
  using encode_item_inject by blast

theorem rlp_encoding_injective_witness:
  "encode_item (RStr [0x80]) \<noteq> encode_item (RList [RStr []])"
proof
  assume eq: "encode_item (RStr [0x80]) = encode_item (RList [RStr []])"
  have "length (encode_item (RStr [0x80])) < rlp_limit"
    by (simp add: encode_str_def encode_len_def rlp_limit_def)
  from rlp_encoding_injective [OF this eq] show False
    by simp
qed

end
