(* ===== verification/Storage_Spec.thy ===== *)
theory Storage_Spec
  imports Tfs_Prelude
begin

text \<open>
  The contract of a key-value store as its clients use it: a store in a good state accepts
  every valid key and value, and afterwards the key reads as the value while every other
  key reads as before. The contract trie and the transactional database both provide it.
  The lemmas of the locale say what a sequence of writes leaves behind.
\<close>

text \<open>A sequence of writes; it stops at the first one that fails.\<close>

fun put_all :: "('k \<Rightarrow> 'v \<Rightarrow> 's \<Rightarrow> 's option) \<Rightarrow> ('k \<times> 'v) list \<Rightarrow> 's \<Rightarrow> 's option" where
  "put_all put [] s = Some s"
| "put_all put ((k, v) # kvs) s = (case put k v s of None \<Rightarrow> None | Some s' \<Rightarrow> put_all put kvs s')"

locale storage =
  fixes ok :: "'s \<Rightarrow> bool"
    and valid :: "'k \<Rightarrow> 'v \<Rightarrow> bool"
    and readable :: "'k \<Rightarrow> bool"
    and get :: "'s \<Rightarrow> 'k \<Rightarrow> 'v option"
    and put :: "'k \<Rightarrow> 'v \<Rightarrow> 's \<Rightarrow> 's option"
  assumes put_succeeds: "ok s \<Longrightarrow> valid k v \<Longrightarrow> \<exists>s'. put k v s = Some s' \<and> ok s'"
    and get_put: "ok s \<Longrightarrow> valid k v \<Longrightarrow> readable k' \<Longrightarrow> put k v s = Some s' \<Longrightarrow>
      get s' k' = (if k' = k then Some v else get s k')"
begin

lemma put_all_succeeds:
  "ok s \<Longrightarrow> \<forall>(k, v) \<in> set kvs. valid k v \<Longrightarrow> \<exists>s'. put_all put kvs s = Some s' \<and> ok s'"
proof (induction kvs arbitrary: s)
  case (Cons kv kvs)
  then show ?case
    using put_succeeds by (cases kv) fastforce
qed simp

text \<open>The last write to a key wins; a key that was not written reads as before.\<close>

lemma get_put_all:
  "ok s \<Longrightarrow> \<forall>(k, v) \<in> set kvs. valid k v \<Longrightarrow> readable k \<Longrightarrow> put_all put kvs s = Some s' \<Longrightarrow>
   get s' k = (case map_of (rev kvs) k of Some v \<Rightarrow> Some v | None \<Rightarrow> get s k)"
proof (induction kvs arbitrary: s)
  case (Cons kv kvs)
  obtain a v where kv: "kv = (a, v)" by (cases kv)
  with Cons.prems obtain s1 where s1: "put a v s = Some s1" "ok s1"
    using put_succeeds [of s a v] by auto
  have "get s' k = (case map_of (rev kvs) k of Some v \<Rightarrow> Some v | None \<Rightarrow> get s1 k)"
    using Cons.prems kv s1 by (intro Cons.IH) auto
  moreover have "get s1 k = (if k = a then Some v else get s k)"
    using Cons.prems kv s1 by (intro get_put) auto
  ultimately show ?case
    by (auto simp: kv map_add_def split: option.splits)
qed simp

end

end
