(* ===== verification/Mpt_Trie.thy ===== *)
theory Mpt_Trie
  imports Rlp_Roundtrip Storage_Spec
begin

text \<open>
  The in-memory part of the storage trie of \<open>mpt/trie.cpp\<close> and \<open>mpt/node.h\<close>:
  the node types, key handling, \<open>Get\<close>, \<open>Insert\<close> and \<open>Update\<close>.
  A \<open>nodePtr\<close> is a \<open>node option\<close> (\<open>None\<close> is \<open>NULL\<close>). The nodes of a trie form a
  tree without sharing, so the in-place assignments of the code are the values returned
  by the functions. Reading an array or a string out of bounds is the error
  \<open>OutOfBounds\<close>; recursion through stored nodes is bounded by fuel, and running out is
  the error \<open>OutOfFuel\<close>.
  The relation \<open>repr\<close> says which finite map a node represents; the lemmas show that
  \<open>Get\<close> reads that map and \<open>Insert\<close> updates it, without any of the errors.
\<close>

section \<open>Nodes\<close>

record NodeFlag =
  flag_hash :: string
  flag_dirty :: bool

datatype node =
    HashNode string
  | ValueNode string
  | ShortNode string "node option" NodeFlag
  | FullNode "node option list" NodeFlag

datatype trie_error = OutOfBounds | StringOutOfRange | NullDeref | OutOfFuel | RlpError rlp_error | StoreFailure

type_synonym nodePtr = "node option"
type_synonym resolver = "string \<Rightarrow> (trie_error, nodePtr) result"

record ReturnVal =
  rv_dirty :: bool
  rv_node :: nodePtr
  rv_err :: int

record ReturnNode =
  valueNode :: nodePtr
  newNode :: nodePtr

definition newFlag :: NodeFlag where
  "newFlag = \<lparr>flag_hash = [], flag_dirty = True\<rparr>"

section \<open>Keys\<close>

text \<open>\<open>str + str[str.length() - 1] + 'z'\<close>; the index wraps around on the empty string.\<close>

definition WapperKey :: "string \<Rightarrow> (trie_error, string) result" where
  "WapperKey str = (if str = [] then Inl OutOfBounds else Inr (str @ [last str] @ ''z''))"

definition HasTerm :: "string \<Rightarrow> bool" where
  "HasTerm s = (length s > 0 \<and> s ! (length s - 1) = CHR ''z'')"

fun PrefixLen :: "string \<Rightarrow> string \<Rightarrow> nat" where
  "PrefixLen (a # as) (b # bs) = (if a \<noteq> b then 0 else Suc (PrefixLen as bs))"
| "PrefixLen _ _ = 0"

text \<open>\<open>char\<close> is signed on the supported targets.\<close>

definition signed_char :: "char \<Rightarrow> int" where
  "signed_char c = (let n = (of_char c :: int) in if n < 128 then n else n - 256)"

definition Toint :: "char \<Rightarrow> int" where
  "Toint c =
     (if signed_char c \<ge> 48 \<and> signed_char c \<le> 57 then signed_char c - 48 else signed_char c - 87)"

text \<open>\<open>std::string::operator[]\<close>: the position one past the end reads the terminating zero.\<close>

definition str_at :: "string \<Rightarrow> nat \<Rightarrow> (trie_error, char) result" where
  "str_at s i = (if i < length s then Inr (s ! i) else if i = length s then Inr (CHR 0x00) else Inl OutOfBounds)"

definition substr :: "string \<Rightarrow> nat \<Rightarrow> (trie_error, string) result" where
  "substr s i = (if i \<le> length s then Inr (drop i s) else Inl StringOutOfRange)"

definition child_at :: "nodePtr list \<Rightarrow> int \<Rightarrow> (trie_error, nodePtr) result" where
  "child_at cs i = (if 0 \<le> i \<and> i < int (length cs) then Inr (cs ! nat i) else Inl OutOfBounds)"

definition child_set :: "nodePtr list \<Rightarrow> int \<Rightarrow> nodePtr \<Rightarrow> (trie_error, nodePtr list) result" where
  "child_set cs i n = (if 0 \<le> i \<and> i < int (length cs) then Inr (cs[nat i := n]) else Inl OutOfBounds)"

definition emptyChildren :: "nodePtr list" where
  "emptyChildren = replicate 17 None"

section \<open>Get\<close>

fun Get_node :: "resolver \<Rightarrow> nat \<Rightarrow> nodePtr \<Rightarrow> string \<Rightarrow> nat \<Rightarrow> (trie_error, ReturnNode) result" where
  "Get_node resolve 0 n key pos = Inl OutOfFuel"
| "Get_node resolve (Suc fuel) None key pos = Inr \<lparr>valueNode = None, newNode = None\<rparr>"
| "Get_node resolve (Suc fuel) (Some (ValueNode v)) key pos =
     Inr \<lparr>valueNode = Some (ValueNode v), newNode = Some (ValueNode v)\<rparr>"
| "Get_node resolve (Suc fuel) (Some (ShortNode nodeKey nodeVal flags)) key pos =
     (if length key - pos < length nodeKey \<or> nodeKey \<noteq> take (length nodeKey) (drop pos key)
      then Inr \<lparr>valueNode = None, newNode = None\<rparr>
      else bindE (Get_node resolve fuel nodeVal key (pos + length nodeKey)) (\<lambda>r.
        Inr \<lparr>valueNode = valueNode r,
             newNode = Some (ShortNode nodeKey
               (if newNode r \<noteq> None then newNode r else nodeVal) flags)\<rparr>))"
| "Get_node resolve (Suc fuel) (Some (FullNode children flags)) key pos =
     bindE (str_at key pos) (\<lambda>c.
     bindE (child_at children (Toint c)) (\<lambda>child.
     bindE (Get_node resolve fuel child key (pos + 1)) (\<lambda>r.
     bindE (if newNode r \<noteq> None then child_set children (Toint c) (newNode r) else Inr children) (\<lambda>children'.
       Inr \<lparr>valueNode = valueNode r, newNode = Some (FullNode children' flags)\<rparr>))))"
| "Get_node resolve (Suc fuel) (Some (HashNode h)) key pos =
     bindE (resolve h) (\<lambda>child. Get_node resolve fuel child key pos)"

section \<open>Insert and Update\<close>

text \<open>
  The prefix argument of the source is passed on to \<open>ResolveHash\<close>, which ignores it;
  it is left out.
\<close>

fun Insert :: "resolver \<Rightarrow> nat \<Rightarrow> nodePtr \<Rightarrow> string \<Rightarrow> nodePtr \<Rightarrow> (trie_error, ReturnVal) result" where
  "Insert resolve 0 n key val = Inl OutOfFuel"
| "Insert resolve (Suc fuel) None key val =
     Inr \<lparr>rv_dirty = True, rv_node = Some (ShortNode key val newFlag), rv_err = 0\<rparr>"
| "Insert resolve (Suc fuel) (Some (ShortNode nodeKey nodeVal flags)) key val =
     (let matchlen = PrefixLen key nodeKey in
      if matchlen = length nodeKey then
        bindE (Insert resolve fuel nodeVal (drop matchlen key) val) (\<lambda>r.
          if \<not> rv_dirty r \<or> rv_err r \<noteq> 0
          then Inr \<lparr>rv_dirty = False, rv_node = Some (ShortNode nodeKey nodeVal flags), rv_err = rv_err r\<rparr>
          else Inr \<lparr>rv_dirty = True, rv_node = Some (ShortNode nodeKey (rv_node r) newFlag), rv_err = 0\<rparr>)
      else
        bindE (substr nodeKey (matchlen + 1)) (\<lambda>rest.
        bindE (Insert resolve fuel None rest nodeVal) (\<lambda>r.
        bindE (str_at nodeKey matchlen) (\<lambda>c.
        bindE (child_set emptyChildren (Toint c) (rv_node r)) (\<lambda>ch.
        if rv_err r \<noteq> 0 then Inr \<lparr>rv_dirty = False, rv_node = None, rv_err = rv_err r\<rparr> else
        bindE (substr key (matchlen + 1)) (\<lambda>krest.
        bindE (Insert resolve fuel None krest val) (\<lambda>r1.
        bindE (str_at key matchlen) (\<lambda>c1.
        bindE (child_set ch (Toint c1) (rv_node r1)) (\<lambda>ch1.
        if rv_err r1 \<noteq> 0 then Inr \<lparr>rv_dirty = False, rv_node = None, rv_err = rv_err r\<rparr> else
        if matchlen = 0 then Inr \<lparr>rv_dirty = True, rv_node = Some (FullNode ch1 newFlag), rv_err = 0\<rparr>
        else Inr \<lparr>rv_dirty = True,
               rv_node = Some (ShortNode (take matchlen nodeKey) (Some (FullNode ch1 newFlag)) newFlag),
               rv_err = 0\<rparr>)))))))))"
| "Insert resolve (Suc fuel) (Some (FullNode children flags)) key val =
     bindE (str_at key 0) (\<lambda>c.
     bindE (child_at children (Toint c)) (\<lambda>child.
     bindE (substr key 1) (\<lambda>rest.
     bindE (Insert resolve fuel child rest val) (\<lambda>r.
       if \<not> rv_dirty r \<or> rv_err r \<noteq> 0
       then Inr \<lparr>rv_dirty = False, rv_node = Some (FullNode children flags), rv_err = rv_err r\<rparr>
       else bindE (child_set children (Toint c) (rv_node r)) (\<lambda>children'.
         Inr \<lparr>rv_dirty = True, rv_node = Some (FullNode children' newFlag), rv_err = 0\<rparr>)))))"
| "Insert resolve (Suc fuel) (Some (HashNode h)) key val =
     bindE (resolve h) (\<lambda>rn.
     bindE (Insert resolve fuel rn key val) (\<lambda>r.
       if \<not> rv_dirty r \<or> rv_err r \<noteq> 0
       then Inr \<lparr>rv_dirty = False, rv_node = rn, rv_err = rv_err r\<rparr>
       else Inr \<lparr>rv_dirty = True, rv_node = rv_node r, rv_err = 0\<rparr>))"
| "Insert resolve (Suc fuel) (Some (ValueNode v)) key val =
     (if length key = 0 then
        (case val of
           Some (ValueNode w) \<Rightarrow>
             Inr \<lparr>rv_dirty = (v \<noteq> w), rv_node = val, rv_err = 0\<rparr>
         | _ \<Rightarrow> Inl NullDeref)
      else Inr \<lparr>rv_dirty = True, rv_node = None, rv_err = 0\<rparr>)"

text \<open>Enough fuel for every node that represents suffixes of length \<open>d\<close> (see below).\<close>

definition trie_fuel :: "nat \<Rightarrow> nat" where
  "trie_fuel d = 4 * d + 4"

text \<open>
  The member functions on the root. \<open>Get\<close> assigns the root only when it found a value,
  but the assignments it made inside the nodes of the root stay: only the replacement of
  a root that is itself a hash node is lost.
\<close>

definition Get :: "resolver \<Rightarrow> nodePtr \<Rightarrow> string \<Rightarrow> (trie_error, string \<times> nodePtr) result" where
  "Get resolve root key =
     bindE (WapperKey key) (\<lambda>k.
     bindE (Get_node resolve (trie_fuel (length k)) root k 0) (\<lambda>r.
       case valueNode r of
         Some (ValueNode v) \<Rightarrow> Inr (v, newNode r)
       | Some _ \<Rightarrow> Inl NullDeref
       | None \<Rightarrow>
         Inr ([], case root of
                    Some (HashNode h) \<Rightarrow> root
                  | _ \<Rightarrow> (if newNode r \<noteq> None then newNode r else root))))"

definition Update :: "resolver \<Rightarrow> nodePtr \<Rightarrow> string \<Rightarrow> string \<Rightarrow> (trie_error, nodePtr) result" where
  "Update resolve root key val =
     bindE (WapperKey key) (\<lambda>k.
       if length val \<noteq> 0
       then bindE (Insert resolve (trie_fuel (length k)) root k (Some (ValueNode val))) (\<lambda>r. Inr (rv_node r))
       else Inr root)"

section \<open>The map a node represents\<close>

definition hexchar :: "char \<Rightarrow> bool" where
  "hexchar c \<longleftrightarrow> c \<in> set ''0123456789abcdef''"

text \<open>The suffixes of wrapped keys: hexadecimal digits closed by the terminator.\<close>

definition term_key :: "nat \<Rightarrow> string \<Rightarrow> bool" where
  "term_key d s \<longleftrightarrow> length s = d \<and> s \<noteq> [] \<and> last s = CHR ''z'' \<and> (\<forall>c \<in> set (butlast s). hexchar c)"

definition shift :: "string \<Rightarrow> (string \<rightharpoonup> string) \<Rightarrow> (string \<rightharpoonup> string)" where
  "shift p M = (\<lambda>s. if take (length p) s = p then M (drop (length p) s) else None)"

definition branch :: "(nat \<Rightarrow> string \<rightharpoonup> string) \<Rightarrow> (string \<rightharpoonup> string)" where
  "branch Ms = (\<lambda>s. case s of [] \<Rightarrow> None | c # s' \<Rightarrow> if hexchar c then Ms (nat (Toint c)) s' else None)"

definition is_branch :: "resolver \<Rightarrow> node \<Rightarrow> bool" where
  "is_branch R n = (case n of
      FullNode cs f \<Rightarrow> True
    | HashNode h \<Rightarrow> (case R h of Inr (Some (FullNode cs f)) \<Rightarrow> True | _ \<Rightarrow> False)
    | _ \<Rightarrow> False)"

inductive repr :: "resolver \<Rightarrow> nat \<Rightarrow> node \<Rightarrow> (string \<rightharpoonup> string) \<Rightarrow> bool" for R where
  short_val: "term_key d ks \<Longrightarrow> repr R d (ShortNode ks (Some (ValueNode v)) f) [ks \<mapsto> v]"
| short_ext: "\<forall>c \<in> set ks. hexchar c \<Longrightarrow> is_branch R n \<Longrightarrow> repr R d n M \<Longrightarrow>
    repr R (length ks + d) (ShortNode ks (Some n) f) (shift ks M)"
| full: "length cs = 17 \<Longrightarrow> 1 \<le> d \<Longrightarrow>
    \<forall>i<16. cs ! i = None \<and> Ms i = Map.empty \<or> (\<exists>n. cs ! i = Some n \<and> repr R d n (Ms i)) \<Longrightarrow>
    repr R (Suc d) (FullNode cs f) (branch Ms)"
| hashed: "R h = Inr (Some n) \<Longrightarrow> (\<forall>h'. n \<noteq> HashNode h') \<Longrightarrow> repr R d n M \<Longrightarrow> repr R d (HashNode h) M"

lemma hexchar_Toint: "hexchar c \<Longrightarrow> 0 \<le> Toint c \<and> Toint c < 16"
  by (auto simp: hexchar_def Toint_def signed_char_def)

lemma hexchar_digit: "hexchar c \<Longrightarrow> ''0123456789abcdef'' ! nat (Toint c) = c"
  by (auto simp: hexchar_def Toint_def signed_char_def)

lemma Toint_inject: "hexchar c \<Longrightarrow> hexchar c' \<Longrightarrow> Toint c = Toint c' \<longleftrightarrow> c = c'"
  by (metis hexchar_digit)

lemma hexchar_not_term: "\<not> hexchar (CHR ''z'')"
  by (simp add: hexchar_def)

lemma nat_Toint_less: "hexchar c \<Longrightarrow> nat (Toint c) < 16"
  using hexchar_Toint [of c] by linarith

lemma nat_Toint_inject: "hexchar c \<Longrightarrow> hexchar c' \<Longrightarrow> nat (Toint c) = nat (Toint c') \<longleftrightarrow> c = c'"
  using hexchar_Toint [of c] hexchar_Toint [of c'] Toint_inject [of c c'] by (simp add: nat_eq_iff)

lemma child_at_hex: "hexchar c \<Longrightarrow> length cs = 17 \<Longrightarrow> child_at cs (Toint c) = Inr (cs ! nat (Toint c))"
  using hexchar_Toint [of c] by (simp add: child_at_def)

lemma child_set_hex: "hexchar c \<Longrightarrow> length cs = 17 \<Longrightarrow> child_set cs (Toint c) n = Inr (cs[nat (Toint c) := n])"
  using hexchar_Toint [of c] by (simp add: child_set_def)

lemma term_key_pos: "term_key d s \<Longrightarrow> 1 \<le> d"
  by (auto simp: term_key_def Suc_le_eq)

lemma term_key_Cons: "term_key (Suc d) s \<Longrightarrow> 1 \<le> d \<Longrightarrow> \<exists>c s'. s = c # s' \<and> hexchar c \<and> term_key d s'"
  by (cases s) (auto simp: term_key_def split: if_splits)

lemma term_key_hex_Cons: "hexchar c \<Longrightarrow> term_key d s \<Longrightarrow> term_key (Suc d) (c # s)"
  by (auto simp: term_key_def)

lemma term_key_append: "\<forall>c \<in> set p. hexchar c \<Longrightarrow> term_key d s \<Longrightarrow> term_key (length p + d) (p @ s)"
  by (auto simp: term_key_def butlast_append)

lemma term_key_drop:
  assumes "term_key (n + d) s" and "1 \<le> d"
  shows "term_key d (drop n s) \<and> (\<forall>c \<in> set (take n s). hexchar c)"
proof -
  have "take n s = take n (butlast s)"
    using assms by (simp add: term_key_def take_butlast)
  moreover have "butlast (drop n s) = drop n (butlast s)"
    by (simp add: butlast_drop)
  ultimately show ?thesis
    using assms by (auto simp: term_key_def dest: in_set_takeD in_set_dropD)
qed

lemma term_key_nth_hex: "term_key d s \<Longrightarrow> Suc i < d \<Longrightarrow> hexchar (s ! i)"
  by (auto simp: term_key_def in_set_conv_nth nth_butlast all_set_conv_all_nth)

lemma PrefixLen_le: "PrefixLen a b \<le> length a" "PrefixLen a b \<le> length b"
  by (induction a b rule: PrefixLen.induct) auto

lemma PrefixLen_take: "take (PrefixLen a b) a = take (PrefixLen a b) b"
  by (induction a b rule: PrefixLen.induct) auto

lemma PrefixLen_nth: "PrefixLen a b < length a \<Longrightarrow> PrefixLen a b < length b \<Longrightarrow> a ! PrefixLen a b \<noteq> b ! PrefixLen a b"
  by (induction a b rule: PrefixLen.induct) auto

lemma PrefixLen_full_iff: "PrefixLen a b = length b \<longleftrightarrow> take (length b) a = b"
  by (induction a b rule: PrefixLen.induct) auto

lemma repr_dom: "repr R d n M \<Longrightarrow> M s = Some v \<Longrightarrow> term_key d s"
proof (induction arbitrary: s v rule: repr.induct)
  case (short_ext ks n d M f)
  then have take: "take (length ks) s = ks" and "term_key d (drop (length ks) s)"
    by (auto simp: shift_def split: if_splits)
  moreover have "s = ks @ drop (length ks) s"
    using take by (metis append_take_drop_id)
  ultimately show ?case
    using term_key_append [OF short_ext.hyps(1)] by metis
next
  case (full cs d Ms f)
  then obtain c s' where "s = c # s'" "hexchar c" "Ms (nat (Toint c)) s' = Some v"
    by (auto simp: branch_def split: list.splits if_splits)
  with full.IH nat_Toint_less [of c] show ?case
    by (fastforce intro: term_key_hex_Cons)
qed (auto split: if_splits)

lemma repr_pos: "repr R d n M \<Longrightarrow> 1 \<le> d"
  by (induction rule: repr.induct) (auto dest: term_key_pos)

section \<open>Get reads the map\<close>

text \<open>The fuel a node needs: at most four nodes are visited without consuming a digit.\<close>

definition need :: "resolver \<Rightarrow> nat \<Rightarrow> node \<Rightarrow> nat" where
  "need R d n = (case n of
      ValueNode v \<Rightarrow> 1
    | FullNode cs f \<Rightarrow> 4 * d + 1
    | ShortNode ks c f \<Rightarrow> 4 * d + 3
    | HashNode h \<Rightarrow> (if is_branch R n then 4 * d + 2 else 4 * d + 4))"

lemma need_le: "need R d n \<le> 4 * d + 4"
  by (simp add: need_def split: node.split)

lemma need_branch: "is_branch R n \<Longrightarrow> need R d n \<le> 4 * d + 2"
  by (auto simp: need_def is_branch_def split: node.splits)

lemma need_resolved:
  "R h = Inr (Some n) \<Longrightarrow> \<forall>h'. n \<noteq> HashNode h' \<Longrightarrow> repr R d n M \<Longrightarrow> Suc (need R d n) \<le> need R d (HashNode h)"
  by (auto simp: need_def is_branch_def split: node.splits elim: repr.cases)

lemma fuel_Suc: "k \<le> fuel \<Longrightarrow> 0 < k \<Longrightarrow> \<exists>f. fuel = Suc f"
  by (cases fuel) auto

text \<open>What \<open>Get\<close> returns at a node: the value of the map and a node for the same map.\<close>

definition get_post :: "resolver \<Rightarrow> nat \<Rightarrow> node \<Rightarrow> (string \<rightharpoonup> string) \<Rightarrow> string \<Rightarrow> ReturnNode \<Rightarrow> bool" where
  "get_post R d n M s r \<longleftrightarrow>
     valueNode r = map_option ValueNode (M s) \<and>
     (case newNode r of
        None \<Rightarrow> M s = None
      | Some m \<Rightarrow> repr R d m M \<and> (is_branch R n \<longrightarrow> is_branch R m))"

lemma get_short_ext:
  assumes IH: "take (length ks) s = ks \<Longrightarrow>
      \<exists>r. Get_node R fuel (Some n) key (pos + length ks) = Inr r \<and> get_post R d n M (drop (length ks) s) r"
    and "\<forall>c \<in> set ks. hexchar c" "is_branch R n" "repr R d n M"
    and "drop pos key = s" "length s = length ks + d" "pos \<le> length key"
  shows "\<exists>r. Get_node R (Suc fuel) (Some (ShortNode ks (Some n) f)) key pos = Inr r
    \<and> get_post R (length ks + d) (ShortNode ks (Some n) f) (shift ks M) s r"
proof (cases "take (length ks) s = ks")
  case True
  with IH obtain r where r: "Get_node R fuel (Some n) key (pos + length ks) = Inr r"
    "get_post R d n M (drop (length ks) s) r" by blast
  have "length key - pos = length ks + d"
    using assms(5,6) by (metis length_drop)
  moreover have "repr R (length ks + d) (ShortNode ks (if newNode r \<noteq> None then newNode r else Some n) f) (shift ks M)"
    using r(2) assms(2-4) by (auto simp: get_post_def split: option.splits intro: repr.short_ext)
  ultimately show ?thesis
    using True r assms(5) by (auto simp: get_post_def shift_def is_branch_def)
next
  case False
  then show ?thesis
    using assms(5) by (auto simp: get_post_def shift_def)
qed

lemma branch_child_upd:
  assumes "\<forall>i<16. cs ! i = None \<and> Ms i = Map.empty \<or> (\<exists>n. cs ! i = Some n \<and> repr R d n (Ms i))"
    and "length cs = 17" "1 \<le> d" "j < 16" "repr R d m M"
  shows "repr R (Suc d) (FullNode (cs[j := Some m]) f) (branch (Ms(j := M)))"
  using assms by (intro repr.full) (auto simp: nth_list_update)

lemma get_full:
  assumes cs: "\<forall>i<16. cs ! i = None \<and> Ms i = Map.empty \<or> (\<exists>n. cs ! i = Some n \<and> repr R d n (Ms i))"
    and "length cs = 17" "1 \<le> d" "hexchar c"
    and key: "drop pos key = c # s'" and "0 < fuel"
    and IH: "\<And>n. cs ! nat (Toint c) = Some n \<Longrightarrow>
      \<exists>r. Get_node R fuel (Some n) key (pos + 1) = Inr r \<and> get_post R d n (Ms (nat (Toint c))) s' r"
  shows "\<exists>r. Get_node R (Suc fuel) (Some (FullNode cs f)) key pos = Inr r
    \<and> get_post R (Suc d) (FullNode cs f) (branch Ms) (c # s') r"
proof -
  let ?j = "nat (Toint c)"
  have j: "?j < 16"
    using assms(4) by (rule nat_Toint_less)
  have pos: "str_at key pos = Inr c"
    using key by (metis drop_eq_Nil list.distinct(1) list.sel(1) hd_drop_conv_nth not_le str_at_def)
  have self: "repr R (Suc d) (FullNode cs f) (branch Ms)"
    using assms(1-3) by (intro repr.full) auto
  have Ms: "branch Ms (c # s') = Ms ?j s'"
    using assms(4) by (simp add: branch_def)
  show ?thesis
  proof (cases "cs ! ?j")
    case None
    then have "branch Ms (c # s') = None"
      using cs j Ms by auto
    moreover have "Get_node R fuel None key (pos + 1) = Inr \<lparr>valueNode = None, newNode = None\<rparr>"
      using \<open>0 < fuel\<close> by (cases fuel) auto
    ultimately show ?thesis
      using None pos self assms(2,4) by (simp add: child_at_hex get_post_def is_branch_def)
  next
    case (Some n)
    with IH obtain r where r: "Get_node R fuel (Some n) key (pos + 1) = Inr r" "get_post R d n (Ms ?j) s' r"
      by blast
    have "repr R (Suc d) (FullNode (cs[?j := Some m]) f) (branch Ms)" if "newNode r = Some m" for m
      using branch_child_upd [OF cs assms(2,3) j, of m "Ms ?j"] r(2) that by (auto simp: get_post_def)
    with r Some pos self assms(2,4) Ms show ?thesis
      by (cases "newNode r") (auto simp: child_at_hex child_set_hex get_post_def is_branch_def)
  qed
qed

lemma Get_node_repr:
  "repr R d n M \<Longrightarrow> need R d n \<le> fuel \<Longrightarrow> drop pos key = s \<Longrightarrow> term_key d s \<Longrightarrow> pos \<le> length key \<Longrightarrow>
   \<exists>r. Get_node R fuel (Some n) key pos = Inr r \<and> get_post R d n M s r"
proof (induction arbitrary: fuel pos s rule: repr.induct)
  case (short_val d ks v f)
  then obtain f1 where f: "fuel = Suc (Suc f1)"
    by (cases fuel; cases "fuel - 1") (auto simp: need_def)
  have "length ks = d" and "length key - pos = d"
    using short_val by (auto simp: term_key_def)
  then show ?case
    using short_val f repr.short_val [OF short_val.hyps, of R v f]
    by (auto simp: get_post_def is_branch_def fun_upd_def)
next
  case (short_ext ks n d M f)
  then obtain f1 where f: "fuel = Suc f1" "need R d n \<le> f1"
    using need_branch [OF short_ext.hyps(2), of d] by (cases fuel) (auto simp: need_def)
  have "1 \<le> d"
    using short_ext.hyps(3) by (rule repr_pos)
  then have tk: "term_key d (drop (length ks) s)"
    using term_key_drop short_ext.prems(3) by blast
  have len: "length s = length ks + d" "length key - pos = length s"
    using short_ext.prems by (auto simp: term_key_def)
  show ?case
    unfolding f(1)
  proof (rule get_short_ext)
    assume "take (length ks) s = ks"
    show "\<exists>r. Get_node R f1 (Some n) key (pos + length ks) = Inr r \<and> get_post R d n M (drop (length ks) s) r"
      using f(2) tk short_ext.prems len by (intro short_ext.IH) (auto simp: add.commute)
  qed (use short_ext len in auto)
next
  case (full cs d Ms f)
  then obtain f1 where f: "fuel = Suc f1" "4 * d + 4 \<le> f1"
    by (cases fuel) (auto simp: need_def)
  obtain c s' where s: "s = c # s'" "hexchar c" "term_key d s'"
    using term_key_Cons full.prems(3) full.hyps(2) by blast
  have pos: "pos + 1 \<le> length key" "drop (pos + 1) key = s'"
    using full.prems(2,4) s(1) by (auto simp: drop_Suc tl_drop [symmetric] Suc_le_eq)
      (metis drop_eq_Nil list.distinct(1) not_le)
  have "\<exists>r. Get_node R (Suc f1) (Some (FullNode cs f)) key pos = Inr r
      \<and> get_post R (Suc d) (FullNode cs f) (branch Ms) (c # s') r"
  proof (rule get_full)
    show "\<forall>i<16. cs ! i = None \<and> Ms i = Map.empty \<or> (\<exists>n. cs ! i = Some n \<and> repr R d n (Ms i))"
      using full.IH by blast
    fix n assume n: "cs ! nat (Toint c) = Some n"
    with full.IH nat_Toint_less [OF s(2)]
    show "\<exists>r. Get_node R f1 (Some n) key (pos + 1) = Inr r \<and> get_post R d n (Ms (nat (Toint c))) s' r"
      using need_le [of R d n] f(2) pos s(3) by fastforce
  qed (use full s f in auto)
  then show ?case
    by (simp add: f(1) s(1))
next
  case (hashed h n d M)
  then obtain f1 where f: "fuel = Suc f1" "need R d n \<le> f1"
    using need_resolved [OF hashed.hyps] by (cases fuel) auto
  then obtain r where r: "Get_node R f1 (Some n) key pos = Inr r" "get_post R d n M s r"
    using hashed.IH hashed.prems by blast
  have "is_branch R (HashNode h) \<Longrightarrow> is_branch R n"
    using hashed.hyps(1) by (auto simp: is_branch_def split: node.splits)
  with r f hashed.hyps(1) show ?case
    by (auto simp: get_post_def split: option.splits)
qed

section \<open>Insert updates the map\<close>

lemma shift_Nil [simp]: "shift [] M = M"
  by (simp add: shift_def)

lemma take_eq_prefix_iff: "take (length p) s = p \<longleftrightarrow> (\<exists>t. s = p @ t)"
  by (metis append_eq_conv_conj append_take_drop_id)

lemma shift_append: "shift (p @ q) M = shift p (shift q M)"
proof
  fix s
  have "take (length (p @ q)) s = p @ q
      \<longleftrightarrow> take (length p) s = p \<and> take (length q) (drop (length p) s) = q"
    unfolding take_eq_prefix_iff by auto
  then show "shift (p @ q) M s = shift p (shift q M) s"
    unfolding shift_def by (simp add: drop_drop add.commute)
qed

lemma shift_upd: "shift p (M(k \<mapsto> v)) = (shift p M)(p @ k \<mapsto> v)"
proof
  fix s
  show "shift p (M(k \<mapsto> v)) s = ((shift p M)(p @ k \<mapsto> v)) s"
  proof (cases "take (length p) s = p")
    case True
    then have "s = p @ drop (length p) s"
      by (metis append_take_drop_id)
    then have "s = p @ k \<longleftrightarrow> drop (length p) s = k"
      by (metis append_eq_conv_conj)
    with True show ?thesis by (simp add: shift_def)
  next
    case False
    then have "s \<noteq> p @ k"
      by auto
    with False show ?thesis by (simp add: shift_def)
  qed
qed

lemma shift_empty [simp]: "shift p Map.empty = Map.empty"
  by (auto simp: shift_def)

lemma shift_single: "[p @ k \<mapsto> v] = shift p [k \<mapsto> v]"
  using shift_upd [of p Map.empty k v] by simp

lemma branch_upd: "hexchar c \<Longrightarrow> branch (Ms(nat (Toint c) := M)) = (\<lambda>s. case s of [] \<Rightarrow> None | a # s' \<Rightarrow>
    if a = c then M s' else branch Ms s)"
  by (auto simp: branch_def fun_eq_iff nat_Toint_inject split: list.splits)

lemma branch_upd_map: "hexchar c \<Longrightarrow> branch (Ms(nat (Toint c) := (Ms (nat (Toint c)))(k \<mapsto> v))) = (branch Ms)(c # k \<mapsto> v)"
  by (auto simp: branch_upd fun_eq_iff branch_def nat_Toint_inject split: list.splits)

lemma branch_empty: "branch (\<lambda>_. Map.empty) = Map.empty"
  by (auto simp: branch_def fun_eq_iff split: list.splits)

lemma branch_single: "hexchar c \<Longrightarrow> branch ((\<lambda>_. Map.empty)(nat (Toint c) := M)) = shift [c] M"
  by (auto simp: branch_upd branch_empty shift_def fun_eq_iff split: list.splits)

text \<open>The branch that separates two keys at their first different digit.\<close>

lemma split_repr:
  assumes "hexchar c" "hexchar c1" "c \<noteq> c1" "repr R d n M" "term_key d k1"
  shows "repr R (Suc d)
    (FullNode (emptyChildren[nat (Toint c) := Some n, nat (Toint c1) := Some (ShortNode k1 (Some (ValueNode v)) newFlag)]) newFlag)
    ((shift [c] M)(c1 # k1 \<mapsto> v))"
proof -
  let ?Ms = "(\<lambda>_. Map.empty)(nat (Toint c) := M)"
  have d: "1 \<le> d"
    using assms(4) by (rule repr_pos)
  have "\<forall>i<16. (emptyChildren[nat (Toint c) := Some n]) ! i = None \<and> ?Ms i = Map.empty
      \<or> (\<exists>m. (emptyChildren[nat (Toint c) := Some n]) ! i = Some m \<and> repr R d m (?Ms i))"
    using assms(4) by (auto simp: emptyChildren_def nth_list_update)
  then have "repr R (Suc d)
    (FullNode ((emptyChildren[nat (Toint c) := Some n])[nat (Toint c1) := Some (ShortNode k1 (Some (ValueNode v)) newFlag)]) newFlag)
    (branch (?Ms(nat (Toint c1) := [k1 \<mapsto> v])))"
    using d assms nat_Toint_less [OF assms(2)]
    by (intro branch_child_upd repr.short_val) (auto simp: emptyChildren_def)
  moreover have "?Ms(nat (Toint c1) := [k1 \<mapsto> v]) = ?Ms(nat (Toint c1) := (?Ms (nat (Toint c1)))(k1 \<mapsto> v))"
    using assms(1-3) by (simp add: nat_Toint_inject)
  ultimately show ?thesis
    using branch_upd_map [OF assms(2), of ?Ms k1 v] branch_single [OF assms(1), of M] by simp
qed

text \<open>\<open>Insert\<close> returns a node for the updated map; it reports no change only when there is none.\<close>

definition ins_post :: "resolver \<Rightarrow> nat \<Rightarrow> node \<Rightarrow> (string \<rightharpoonup> string) \<Rightarrow> string \<Rightarrow> string \<Rightarrow> ReturnVal \<Rightarrow> bool" where
  "ins_post R d n M key v r \<longleftrightarrow>
     rv_err r = 0 \<and> (\<not> rv_dirty r \<longrightarrow> M key = Some v) \<and>
     (\<exists>m. rv_node r = Some m \<and> repr R d m (M(key \<mapsto> v)) \<and> (is_branch R n \<longrightarrow> is_branch R m) \<and>
        (\<forall>h. m = HashNode h \<longrightarrow> n = m))"

lemma ins_post_same:
  "repr R d n M \<Longrightarrow> M key = Some v \<Longrightarrow> ins_post R d n M key v \<lparr>rv_dirty = False, rv_node = Some n, rv_err = 0\<rparr>"
  by (auto simp: ins_post_def map_upd_triv)

lemma Insert_None [simp]:
  "0 < fuel \<Longrightarrow> Insert R fuel None key val
     = Inr \<lparr>rv_dirty = True, rv_node = Some (ShortNode key val newFlag), rv_err = 0\<rparr>"
  by (cases fuel) auto

text \<open>A short node whose key leaves the inserted key at position \<open>m\<close> is split there.\<close>

lemma Insert_split:
  assumes m: "m = PrefixLen key ks" "m < length ks" and key: "term_key (m + Suc d) key" "1 \<le> d"
    and hex: "hexchar (ks ! m)"
    and sub: "repr R d (ShortNode (drop (Suc m) ks) nv newFlag) M" and "0 < fuel"
  shows "\<exists>r. Insert R (Suc fuel) (Some (ShortNode ks nv f)) key (Some (ValueNode v)) = Inr r
    \<and> ins_post R (m + Suc d) (ShortNode ks nv f) (shift (take (Suc m) ks) M) key v r"
proof -
  let ?c = "ks ! m" and ?c1 = "key ! m"
  have len: "length key = m + Suc d"
    using key(1) by (simp add: term_key_def)
  have hex1: "hexchar ?c1" and hexp: "\<forall>c \<in> set (take m key). hexchar c" and tk: "term_key d (drop (Suc m) key)"
    using term_key_nth_hex [OF key(1), of m] term_key_drop [of m "Suc d" key]
      term_key_drop [of "Suc m" d key] key by auto
  have neq: "?c \<noteq> ?c1"
    using PrefixLen_nth [of key ks] m len by auto
  have pre: "take m ks = take m key"
    using PrefixLen_take [of key ks] m(1) by simp
  let ?full = "FullNode (emptyChildren[nat (Toint ?c) := Some (ShortNode (drop (Suc m) ks) nv newFlag),
      nat (Toint ?c1) := Some (ShortNode (drop (Suc m) key) (Some (ValueNode v)) newFlag)]) newFlag"
  have full: "repr R (Suc d) ?full ((shift [?c] M)(?c1 # drop (Suc m) key \<mapsto> v))"
    using hex hex1 neq sub tk by (rule split_repr)
  let ?r = "\<lparr>rv_dirty = True, rv_node = Some (if m = 0 then ?full else ShortNode (take m ks) (Some ?full) newFlag), rv_err = 0\<rparr>"
  have run: "Insert R (Suc fuel) (Some (ShortNode ks nv f)) key (Some (ValueNode v)) = Inr ?r"
    using m len hex hex1 \<open>0 < fuel\<close>
    by (simp add: Let_def substr_def str_at_def child_set_hex emptyChildren_def)
  have ks: "take (Suc m) ks = take m ks @ [?c]"
    using m(2) by (rule take_Suc_conv_app_nth)
  have kk: "take m ks @ ?c1 # drop (Suc m) key = key"
    using len by (simp add: pre id_take_nth_drop [symmetric])
  have ext: "shift (take m ks) ((shift [?c] M)(?c1 # drop (Suc m) key \<mapsto> v))
      = (shift (take (Suc m) ks) M)(key \<mapsto> v)"
    by (simp only: shift_upd ks shift_append kk)
  have "repr R (m + Suc d) (if m = 0 then ?full else ShortNode (take m ks) (Some ?full) newFlag)
      ((shift (take (Suc m) ks) M)(key \<mapsto> v))"
  proof (cases "m = 0")
    case True
    with full ext show ?thesis by simp
  next
    case False
    have "repr R (length (take m ks) + Suc d) (ShortNode (take m ks) (Some ?full) newFlag)
        (shift (take m ks) ((shift [?c] M)(?c1 # drop (Suc m) key \<mapsto> v)))"
      using hexp pre full by (intro repr.short_ext) (auto simp: is_branch_def)
    with False ext m(2) show ?thesis
      by (simp add: min_absorb2)
  qed
  then show ?thesis
    unfolding run ins_post_def by (auto simp: is_branch_def)
qed

lemma Insert_short_val:
  assumes ks: "term_key d ks" and key: "term_key d key" and "need R d (ShortNode ks (Some (ValueNode w)) f) \<le> fuel"
  shows "\<exists>r. Insert R fuel (Some (ShortNode ks (Some (ValueNode w)) f)) key (Some (ValueNode v)) = Inr r
    \<and> ins_post R d (ShortNode ks (Some (ValueNode w)) f) [ks \<mapsto> w] key v r"
proof -
  from assms(3) obtain f1 where f: "fuel = Suc (Suc f1)"
    by (cases fuel; cases "fuel - 1") (auto simp: need_def)
  have len: "length ks = d" "length key = d"
    using ks key by (auto simp: term_key_def)
  show ?thesis
  proof (cases "PrefixLen key ks = length ks")
    case True
    then have "take (length ks) key = ks"
      by (simp only: PrefixLen_full_iff)
    then have "key = ks"
      using len by simp
    with True len ks f show ?thesis
      using repr.short_val [OF ks, of R v] by (auto simp: ins_post_def is_branch_def Let_def)
  next
    case False
    define m where "m = PrefixLen key ks"
    have m: "m < length ks" "m < length key"
      using False PrefixLen_le [of key ks] len by (auto simp: m_def)
    have "key ! m \<noteq> ks ! m"
      using PrefixLen_nth [of key ks] m by (simp add: m_def)
    moreover have "key ! (d - 1) = ks ! (d - 1)"
      using ks key by (auto simp: term_key_def last_conv_nth)
    ultimately have "Suc m < d"
      using m len by (cases "m = d - 1") auto
    then obtain d' where d: "d = m + Suc d'" "1 \<le> d'"
      using less_imp_Suc_add [of m d] by auto
    have sub: "repr R d' (ShortNode (drop (Suc m) ks) (Some (ValueNode w)) newFlag) [drop (Suc m) ks \<mapsto> w]"
      using term_key_drop [of "Suc m" d' ks] ks d by (auto intro: repr.short_val)
    have "\<exists>r. Insert R (Suc (Suc f1)) (Some (ShortNode ks (Some (ValueNode w)) f)) key (Some (ValueNode v)) = Inr r
      \<and> ins_post R (m + Suc d') (ShortNode ks (Some (ValueNode w)) f)
          (shift (take (Suc m) ks) [drop (Suc m) ks \<mapsto> w]) key v r"
      using m d ks key \<open>Suc m < d\<close> sub by (intro Insert_split) (auto simp: m_def intro: term_key_nth_hex)
    then show ?thesis
      using shift_single [of "take (Suc m) ks" "drop (Suc m) ks" w] f d(1) by simp
  qed
qed

lemma Insert_short_ext:
  assumes hex: "\<forall>c \<in> set ks. hexchar c" and br: "is_branch R n" and n: "repr R d n M"
    and key: "term_key (length ks + d) key" and "0 < fuel"
    and IH: "term_key d (drop (length ks) key) \<Longrightarrow>
      \<exists>r. Insert R fuel (Some n) (drop (length ks) key) (Some (ValueNode v)) = Inr r
        \<and> ins_post R d n M (drop (length ks) key) v r"
  shows "\<exists>r. Insert R (Suc fuel) (Some (ShortNode ks (Some n) f)) key (Some (ValueNode v)) = Inr r
    \<and> ins_post R (length ks + d) (ShortNode ks (Some n) f) (shift ks M) key v r"
proof (cases "PrefixLen key ks = length ks")
  case True
  then have pre: "take (length ks) key = ks"
    by (simp add: PrefixLen_full_iff)
  have "1 \<le> d"
    using n by (rule repr_pos)
  with IH key term_key_drop obtain r where
    r: "Insert R fuel (Some n) (drop (length ks) key) (Some (ValueNode v)) = Inr r"
      "ins_post R d n M (drop (length ks) key) v r" by blast
  then obtain m where m: "rv_node r = Some m" "rv_err r = 0" "is_branch R m"
    "repr R d m (M(drop (length ks) key \<mapsto> v))" "\<not> rv_dirty r \<longrightarrow> M (drop (length ks) key) = Some v"
    using br by (auto simp: ins_post_def)
  have app: "ks @ drop (length ks) key = key"
    using pre by (metis append_take_drop_id)
  have "repr R (length ks + d) (ShortNode ks (Some m) newFlag) ((shift ks M)(key \<mapsto> v))"
    using repr.short_ext [OF hex m(3,4), of newFlag] by (simp add: shift_upd app)
  moreover have "shift ks M key = M (drop (length ks) key)"
    using pre by (simp add: shift_def)
  moreover have "repr R (length ks + d) (ShortNode ks (Some n) f) (shift ks M)"
    using hex br n by (rule repr.short_ext)
  ultimately show ?thesis
    using True r(1) m ins_post_same [of R "length ks + d" "ShortNode ks (Some n) f" "shift ks M" key v]
    by (cases "rv_dirty r") (auto simp: Let_def ins_post_def is_branch_def)
next
  case False
  define m where "m = PrefixLen key ks"
  define d' where "d' = length ks - Suc m + d"
  have m: "m < length ks"
    using False PrefixLen_le(2) [of key ks] by (simp add: m_def)
  have d: "length ks + d = m + Suc d'" "1 \<le> d'"
    using m repr_pos [OF n] by (auto simp: d'_def)
  have "repr R (length (drop (Suc m) ks) + d) (ShortNode (drop (Suc m) ks) (Some n) newFlag) (shift (drop (Suc m) ks) M)"
    using hex br n by (intro repr.short_ext) (auto dest: in_set_dropD)
  then have sub: "repr R d' (ShortNode (drop (Suc m) ks) (Some n) newFlag) (shift (drop (Suc m) ks) M)"
    by (simp add: d'_def)
  have "\<exists>r. Insert R (Suc fuel) (Some (ShortNode ks (Some n) f)) key (Some (ValueNode v)) = Inr r
    \<and> ins_post R (m + Suc d') (ShortNode ks (Some n) f) (shift (take (Suc m) ks) (shift (drop (Suc m) ks) M)) key v r"
    using m d key hex sub \<open>0 < fuel\<close> by (intro Insert_split) (auto simp: m_def)
  then show ?thesis
    using d(1) by (simp add: shift_append [symmetric])
qed

lemma Insert_full:
  assumes cs: "\<forall>i<16. cs ! i = None \<and> Ms i = Map.empty \<or> (\<exists>n. cs ! i = Some n \<and> repr R d n (Ms i))"
    and len: "length cs = 17" and d: "1 \<le> d" and c: "hexchar c" and k: "term_key d k" and "0 < fuel"
    and IH: "\<And>n. cs ! nat (Toint c) = Some n \<Longrightarrow>
      \<exists>r. Insert R fuel (Some n) k (Some (ValueNode v)) = Inr r \<and> ins_post R d n (Ms (nat (Toint c))) k v r"
  shows "\<exists>r. Insert R (Suc fuel) (Some (FullNode cs f)) (c # k) (Some (ValueNode v)) = Inr r
    \<and> ins_post R (Suc d) (FullNode cs f) (branch Ms) (c # k) v r"
proof -
  let ?j = "nat (Toint c)"
  have j: "?j < 16"
    using c by (rule nat_Toint_less)
  obtain r m where r: "Insert R fuel (cs ! ?j) k (Some (ValueNode v)) = Inr r"
    and m: "rv_err r = 0" "rv_node r = Some m" "repr R d m ((Ms ?j)(k \<mapsto> v))"
      "\<not> rv_dirty r \<longrightarrow> Ms ?j k = Some v"
  proof (cases "cs ! ?j")
    case None
    moreover have "Ms ?j = Map.empty"
      using cs j None by auto
    moreover have "repr R d (ShortNode k (Some (ValueNode v)) newFlag) [k \<mapsto> v]"
      using k by (rule repr.short_val)
    ultimately show thesis
      using \<open>0 < fuel\<close> by (intro that) auto
  next
    case (Some n)
    with IH [OF Some] show thesis
      by (auto simp: ins_post_def intro: that)
  qed
  have "repr R (Suc d) (FullNode (cs[?j := Some m]) newFlag) ((branch Ms)(c # k \<mapsto> v))"
    using branch_child_upd [OF cs len d j m(3), of newFlag] by (simp add: branch_upd_map c)
  moreover have "repr R (Suc d) (FullNode cs f) (branch Ms)"
    using len d cs by (rule repr.full)
  moreover have "branch Ms (c # k) = Ms ?j k"
    using c by (simp add: branch_def)
  ultimately show ?thesis
    using r m c len ins_post_same [of R "Suc d" "FullNode cs f" "branch Ms" "c # k" v]
    by (cases "rv_dirty r")
      (auto simp: str_at_def substr_def child_at_hex child_set_hex ins_post_def is_branch_def)
qed

lemma Insert_repr:
  "repr R d n M \<Longrightarrow> need R d n \<le> fuel \<Longrightarrow> term_key d key \<Longrightarrow>
   \<exists>r. Insert R fuel (Some n) key (Some (ValueNode v)) = Inr r \<and> ins_post R d n M key v r"
proof (induction arbitrary: fuel key rule: repr.induct)
  case (short_val d ks w f)
  then show ?case by (intro Insert_short_val)
next
  case (short_ext ks n d M f)
  then obtain f1 where f: "fuel = Suc f1" "need R d n \<le> f1" "0 < f1"
    using need_branch [OF short_ext.hyps(2), of d] repr_pos [OF short_ext.hyps(3)]
    by (cases fuel) (auto simp: need_def)
  show ?case
    unfolding f(1)
    using short_ext f by (intro Insert_short_ext) auto
next
  case (full cs d Ms f)
  then obtain f1 where f: "fuel = Suc f1" "4 * d + 4 \<le> f1"
    by (cases fuel) (auto simp: need_def)
  obtain c k where key: "key = c # k" "hexchar c" "term_key d k"
    using term_key_Cons full.prems(2) full.hyps(2) by blast
  show ?case
    unfolding f(1) key(1)
  proof (rule Insert_full)
    show "\<forall>i<16. cs ! i = None \<and> Ms i = Map.empty \<or> (\<exists>n. cs ! i = Some n \<and> repr R d n (Ms i))"
      using full.IH by blast
    fix n assume "cs ! nat (Toint c) = Some n"
    with full.IH nat_Toint_less [OF key(2)]
    show "\<exists>r. Insert R f1 (Some n) k (Some (ValueNode v)) = Inr r \<and> ins_post R d n (Ms (nat (Toint c))) k v r"
      using need_le [of R d n] f(2) key(3) by fastforce
  qed (use full key f in auto)
next
  case (hashed h n d M)
  then obtain f1 where f: "fuel = Suc f1" "need R d n \<le> f1"
    using need_resolved [OF hashed.hyps] by (cases fuel) auto
  then obtain r where r: "Insert R f1 (Some n) key (Some (ValueNode v)) = Inr r" "ins_post R d n M key v r"
    using hashed.IH hashed.prems by blast
  have br: "is_branch R (HashNode h) \<Longrightarrow> is_branch R n"
    using hashed.hyps(1) by (auto simp: is_branch_def split: node.splits)
  have "ins_post R d n M key v \<lparr>rv_dirty = False, rv_node = Some n, rv_err = 0\<rparr>" if "\<not> rv_dirty r"
    using that r(2) hashed.hyps(3) by (intro ins_post_same) (auto simp: ins_post_def)
  with r f br hashed.hyps(1,2) show ?case
    by (cases "rv_dirty r") (auto simp: ins_post_def)
qed

section \<open>The trie as a store\<close>

text \<open>The keys of one contract: hexadecimal strings of a fixed length.\<close>

definition hex_key :: "nat \<Rightarrow> string \<Rightarrow> bool" where
  "hex_key L k \<longleftrightarrow> length k = L \<and> k \<noteq> [] \<and> (\<forall>c \<in> set k. hexchar c)"

definition trie_wf :: "resolver \<Rightarrow> nat \<Rightarrow> nodePtr \<Rightarrow> bool" where
  "trie_wf R L root \<longleftrightarrow> (case root of None \<Rightarrow> True | Some n \<Rightarrow> \<exists>M. repr R (L + 2) n M)"

definition trie_get :: "resolver \<Rightarrow> nodePtr \<Rightarrow> string \<Rightarrow> string option" where
  "trie_get R root k = (case Get R root k of Inr (v, root') \<Rightarrow> (if v = [] then None else Some v) | Inl e \<Rightarrow> None)"

definition trie_put :: "resolver \<Rightarrow> string \<Rightarrow> string \<Rightarrow> nodePtr \<Rightarrow> nodePtr option" where
  "trie_put R k v root = (case Update R root k v of Inr root' \<Rightarrow> Some root' | Inl e \<Rightarrow> None)"

definition wrap_key :: "string \<Rightarrow> string" where
  "wrap_key k = k @ [last k] @ ''z''"

lemma WapperKey_hex: "hex_key L k \<Longrightarrow> WapperKey k = Inr (wrap_key k) \<and> term_key (L + 2) (wrap_key k)"
  by (auto simp: WapperKey_def hex_key_def term_key_def butlast_append wrap_key_def)

lemma length_wrap_key: "hex_key L k \<Longrightarrow> length (wrap_key k) = L + 2"
  by (simp add: wrap_key_def hex_key_def)

lemma Get_node_None [simp]: "0 < fuel \<Longrightarrow> Get_node R fuel None key pos = Inr \<lparr>valueNode = None, newNode = None\<rparr>"
  by (cases fuel) auto

lemma trie_fuel_pos [simp]: "0 < trie_fuel d"
  by (simp add: trie_fuel_def)

lemma wrap_inject: "hex_key L k \<Longrightarrow> hex_key L k' \<Longrightarrow> wrap_key k = wrap_key k' \<longleftrightarrow> k = k'"
  by (auto simp: hex_key_def wrap_key_def)

text \<open>\<open>Get\<close> on a root that represents \<open>M\<close>.\<close>

lemma Get_repr:
  assumes "repr R (L + 2) n M" and "hex_key L k"
  shows "\<exists>root'. Get R (Some n) k = Inr (case M (wrap_key k) of None \<Rightarrow> [] | Some v \<Rightarrow> v, Some root')
    \<and> repr R (L + 2) root' M"
proof -
  have k: "WapperKey k = Inr (wrap_key k)" "term_key (L + 2) (wrap_key k)"
    using WapperKey_hex [OF assms(2)] by auto
  have "need R (L + 2) n \<le> trie_fuel (length (wrap_key k))"
    using need_le [of R "L + 2" n] length_wrap_key [OF assms(2)] by (simp add: trie_fuel_def)
  then obtain r where "Get_node R (trie_fuel (length (wrap_key k))) (Some n) (wrap_key k) 0 = Inr r" "get_post R (L + 2) n M (wrap_key k) r"
    using Get_node_repr [OF assms(1), of _ 0 "wrap_key k"] k(2) by auto
  with k(1) assms(1) show ?thesis
    by (cases "M (wrap_key k)") (auto simp: Get_def get_post_def split: option.splits node.splits)
qed

lemma Get_empty: "hex_key L k \<Longrightarrow> Get R None k = Inr ([], None)"
  using WapperKey_hex [of L k] by (simp add: Get_def)

lemma Update_repr:
  assumes "case root of None \<Rightarrow> M = Map.empty | Some n \<Rightarrow> repr R (L + 2) n M" and "hex_key L k" and "v \<noteq> []"
  shows "\<exists>n'. Update R root k v = Inr (Some n') \<and> repr R (L + 2) n' (M(wrap_key k \<mapsto> v))"
proof -
  have k: "WapperKey k = Inr (wrap_key k)" "term_key (L + 2) (wrap_key k)"
    using WapperKey_hex [OF assms(2)] by auto
  note len = length_wrap_key [OF assms(2)]
  show ?thesis
  proof (cases root)
    case None
    with assms k show ?thesis
      using repr.short_val [OF k(2), of R v newFlag]
      by (simp add: Update_def)
  next
    case (Some n)
    then have "need R (L + 2) n \<le> trie_fuel (length (wrap_key k))" "repr R (L + 2) n M"
      using need_le [of R "L + 2" n] len assms(1) by (simp_all add: trie_fuel_def)
    then obtain r where "Insert R (trie_fuel (length (wrap_key k))) (Some n) (wrap_key k) (Some (ValueNode v)) = Inr r"
      "ins_post R (L + 2) n M (wrap_key k) v r"
      using Insert_repr k(2) by blast
    with Some k(1) assms(3) show ?thesis
      by (auto simp: Update_def ins_post_def)
  qed
qed

lemma trie_get_repr:
  assumes "repr R (L + 2) n M" and "hex_key L k"
  shows "trie_get R (Some n) k = (case M (wrap_key k) of None \<Rightarrow> None | Some v \<Rightarrow> if v = [] then None else Some v)"
  using Get_repr [OF assms] by (auto simp: trie_get_def split: option.splits)

lemma trie_wfE:
  assumes "trie_wf R L root"
  obtains M where "case root of None \<Rightarrow> M = Map.empty | Some n \<Rightarrow> repr R (L + 2) n M"
  using assms by (cases root) (auto simp: trie_wf_def)

lemma trie_put_get:
  assumes "trie_wf R L root" and "hex_key L k" and "v \<noteq> []"
  shows "\<exists>n'. trie_put R k v root = Some (Some n') \<and> trie_wf R L (Some n')
    \<and> (\<forall>k'. hex_key L k' \<longrightarrow> trie_get R (Some n') k' = (if k' = k then Some v else trie_get R root k'))"
proof -
  obtain M where M: "case root of None \<Rightarrow> M = Map.empty | Some n \<Rightarrow> repr R (L + 2) n M"
    using assms(1) by (rule trie_wfE)
  then obtain n' where n': "Update R root k v = Inr (Some n')" "repr R (L + 2) n' (M(wrap_key k \<mapsto> v))"
    using Update_repr assms(2,3) by blast
  have "trie_get R (Some n') k' = (if k' = k then Some v else trie_get R root k')" if "hex_key L k'" for k'
  proof -
    have eq: "wrap_key k' = wrap_key k \<longleftrightarrow> k' = k"
      using that assms(2) by (rule wrap_inject)
    have "trie_get R root k' = (case M (wrap_key k') of None \<Rightarrow> None | Some v \<Rightarrow> if v = [] then None else Some v)"
      using M trie_get_repr [of R L _ M, OF _ that] Get_empty [OF that]
      by (cases root) (simp_all add: trie_get_def)
    then show ?thesis
      using trie_get_repr [OF n'(2) that] assms(3) eq by simp
  qed
  with n' show ?thesis
    by (auto simp: trie_put_def trie_wf_def)
qed

interpretation trie: storage "trie_wf R L" "\<lambda>k v. hex_key L k \<and> v \<noteq> []" "hex_key L" "trie_get R" "trie_put R"
  for R :: resolver and L :: nat
proof unfold_locales
  fix s :: nodePtr and k k' v :: string and s' :: nodePtr
  assume s: "trie_wf R L s" and kv: "hex_key L k \<and> v \<noteq> []"
  show "\<exists>s'. trie_put R k v s = Some s' \<and> trie_wf R L s'"
    using trie_put_get [OF s] kv by blast
  assume k': "hex_key L k'" and put: "trie_put R k v s = Some s'"
  from kv obtain n' where "trie_put R k v s = Some (Some n')"
    and "\<forall>k'. hex_key L k' \<longrightarrow> trie_get R (Some n') k' = (if k' = k then Some v else trie_get R s k')"
    using trie_put_get [OF s, of k v] by blast
  with k' put show "trie_get R s' k' = (if k' = k then Some v else trie_get R s k')"
    by simp
qed

section \<open>Properties\<close>

text \<open>
  C1: \<open>Trie::Update\<close> and \<open>Trie::Get\<close> implement a map. On every well-formed trie for
  hexadecimal keys of one length, including tries whose nodes are still references to
  stored nodes, \<open>Update\<close> with a non-empty value succeeds (no out-of-bounds child, no null
  dereference, the fuel suffices), keeps the trie well-formed, makes the key read as the
  value and leaves every other key as it was.
\<close>

theorem trie_update_get:
  assumes "trie_wf R L root" and "hex_key L k" and "v \<noteq> []"
  shows "\<exists>root'. Update R root k v = Inr root' \<and> trie_wf R L root' \<and>
    (\<forall>k'. hex_key L k' \<longrightarrow> (\<exists>r1 r2 w. Get R root k' = Inr (w, r1) \<and> Get R root' k' = Inr (if k' = k then v else w, r2)))"
proof -
  obtain M where M: "case root of None \<Rightarrow> M = Map.empty | Some n \<Rightarrow> repr R (L + 2) n M"
    using assms(1) by (rule trie_wfE)
  then obtain n' where n': "Update R root k v = Inr (Some n')" "repr R (L + 2) n' (M(wrap_key k \<mapsto> v))"
    using Update_repr assms(2,3) by blast
  have "\<exists>r1 r2 w. Get R root k' = Inr (w, r1) \<and> Get R (Some n') k' = Inr (if k' = k then v else w, r2)"
    if k': "hex_key L k'" for k'
  proof -
    obtain r1 where "Get R root k' = Inr (case M (wrap_key k') of None \<Rightarrow> [] | Some v \<Rightarrow> v, r1)"
      using M Get_repr [of R L _ M, OF _ k'] Get_empty [OF k'] by (cases root) auto
    with Get_repr [OF n'(2) k'] wrap_inject [OF k' assms(2)] show ?thesis
      by auto
  qed
  with n' show ?thesis
    by (auto simp: trie_wf_def)
qed

theorem trie_update_get_witness:
  "\<exists>root'. Update (\<lambda>h. Inr None) None ''a1'' ''v'' = Inr root' \<and> trie_wf (\<lambda>h. Inr None) 2 root'
    \<and> (\<exists>r. Get (\<lambda>h. Inr None) root' ''a1'' = Inr (''v'', r))"
proof -
  have wf: "trie_wf (\<lambda>h. Inr None) 2 None" and k: "hex_key 2 ''a1''" and v: "''v'' \<noteq> []"
    by (simp_all add: trie_wf_def hex_key_def hexchar_def)
  obtain root' where "Update (\<lambda>h. Inr None) None ''a1'' ''v'' = Inr root'" "trie_wf (\<lambda>h. Inr None) 2 root'"
    "\<forall>k'. hex_key 2 k' \<longrightarrow> (\<exists>r1 r2 w. Get (\<lambda>h. Inr None) None k' = Inr (w, r1)
       \<and> Get (\<lambda>h. Inr None) root' k' = Inr (if k' = ''a1'' then ''v'' else w, r2))"
    using trie_update_get [OF wf k v] by blast
  with k show ?thesis
    by auto
qed

text \<open>
  reading does not change what the trie holds: \<open>Get\<close> on a well-formed trie returns
  without error, and although it replaces references by the stored nodes it passed, the
  root it leaves is well-formed and gives the same answer for every key.
\<close>

theorem trie_get_preserves:
  assumes "trie_wf R L root" and "hex_key L k"
  shows "\<exists>v root'. Get R root k = Inr (v, root') \<and> trie_wf R L root' \<and>
    (\<forall>k'. hex_key L k' \<longrightarrow> (\<exists>w r1 r2. Get R root k' = Inr (w, r1) \<and> Get R root' k' = Inr (w, r2)))"
proof (cases root)
  case None
  with assms Get_empty show ?thesis
    by (auto simp: trie_wf_def)
next
  case (Some n)
  with assms(1) obtain M where M: "repr R (L + 2) n M"
    by (auto simp: trie_wf_def)
  then obtain v n' where n': "Get R (Some n) k = Inr (v, Some n')" "repr R (L + 2) n' M"
    using Get_repr [OF M assms(2)] by blast
  have "\<exists>w r1 r2. Get R (Some n) k' = Inr (w, r1) \<and> Get R (Some n') k' = Inr (w, r2)" if "hex_key L k'" for k'
    using Get_repr [OF M that] Get_repr [OF n'(2) that] by blast
  with n' Some show ?thesis
    by (auto simp: trie_wf_def)
qed

theorem trie_get_preserves_witness:
  "\<exists>v root'. Get (\<lambda>h. Inr (Some (ShortNode ''11z'' (Some (ValueNode ''v'')) newFlag))) (Some (HashNode ''h'')) ''1''
      = Inr (v, root')
    \<and> trie_wf (\<lambda>h. Inr (Some (ShortNode ''11z'' (Some (ValueNode ''v'')) newFlag))) 1 root'"
proof -
  let ?R = "\<lambda>h. Inr (Some (ShortNode ''11z'' (Some (ValueNode ''v'')) newFlag)) :: trie_error + nodePtr"
  have "repr ?R 3 (HashNode ''h'') [''11z'' \<mapsto> ''v'']"
    by (rule repr.hashed [OF refl]) (auto intro!: repr.short_val simp: term_key_def hexchar_def)
  then have "trie_wf ?R 1 (Some (HashNode ''h''))" and "hex_key 1 ''1''"
    by (auto simp: trie_wf_def hex_key_def hexchar_def numeral_3_eq_3)
  from trie_get_preserves [OF this] show ?thesis
    by blast
qed

text \<open>
  A run of updates on an empty trie: afterwards every key of the right form reads as
  the last value written to it, or as absent when it was never written. The proof is the
  storage contract's, instantiated with the trie.
\<close>

theorem trie_updates_last_wins:
  assumes "\<forall>(k, v) \<in> set kvs. hex_key L k \<and> v \<noteq> []" and "hex_key L k"
  shows "\<exists>root. put_all (trie_put R) kvs None = Some root \<and> trie_get R root k = map_of (rev kvs) k"
proof -
  have wf: "trie_wf R L None"
    by (simp add: trie_wf_def)
  obtain root where root: "put_all (trie_put R) kvs None = Some root"
    using trie.put_all_succeeds [OF wf assms(1)] by blast
  have "trie_get R None k = None"
    using Get_empty [OF assms(2)] by (simp add: trie_get_def)
  then show ?thesis
    using trie.get_put_all [OF wf assms root] root by (auto split: option.splits)
qed

theorem trie_updates_last_wins_witness:
  "\<exists>root. put_all (trie_put (\<lambda>h. Inr None)) [(''0a'', ''x''), (''0b'', ''y''), (''0a'', ''z'')] None = Some root
     \<and> trie_get (\<lambda>h. Inr None) root ''0a'' = Some ''z''"
  using trie_updates_last_wins [of "[(''0a'', ''x''), (''0b'', ''y''), (''0a'', ''z'')]" 2 "''0a''" "\<lambda>h. Inr None"]
  by (simp add: hex_key_def hexchar_def)

text \<open>
  Keys of different lengths are not supported: after storing a key, storing the key
  extended by its own last digit makes \<open>Insert\<close> index the child array of a branch with
  the terminator, outside its bounds. The code does not check for it.
\<close>

theorem trie_extended_key_out_of_bounds:
  assumes "k \<noteq> []" and "v \<noteq> []" and "w \<noteq> []" and "last k \<noteq> CHR ''z''"
  shows "bindE (Update R None k v) (\<lambda>root. Update R root (k @ [last k]) w) = Inl OutOfBounds"
proof -
  let ?c = "last k"
  have m: "PrefixLen (k @ [?c, ?c, CHR ''z'']) (k @ [?c, CHR ''z'']) = Suc (length k)"
    using assms(4) by (induction k) (auto split: if_splits)
  have z: "child_set emptyChildren (Toint CHR ''z'') n = Inl OutOfBounds" for n
    by (simp add: child_set_def emptyChildren_def Toint_def signed_char_def)
  obtain f where f: "trie_fuel (Suc (Suc (Suc (length k)))) = Suc (Suc f)"
    by (simp add: trie_fuel_def)
  have "nth (k @ [?c, CHR ''z'']) (Suc (length k)) = CHR ''z''"
    by (simp add: nth_append)
  with assms m z f show ?thesis
    by (simp add: Update_def WapperKey_def substr_def str_at_def Let_def)
qed

theorem trie_extended_key_out_of_bounds_witness:
  "bindE (Update (\<lambda>h. Inr None) None ''ab'' ''v'') (\<lambda>root. Update (\<lambda>h. Inr None) root ''abb'' ''w'') = Inl OutOfBounds"
  using trie_extended_key_out_of_bounds [of "''ab''" "''v''" "''w''" "\<lambda>h. Inr None"] by simp

end
