(* ===== verification/String_Util.thy ===== *)
theory String_Util
  imports Tfs_Prelude
begin

text \<open>
  The string helpers the database layer rests on: \<open>StringUtil\<close> of
  \<open>utils/string_util.cpp\<close> and the standard library's \<open>std::to_string\<close> and
  \<open>std::stoul\<close>. List-valued database entries are strings of fields separated by
  underscores; \<open>tokens\<close> is the list of non-empty fields, and the lemmas show that
  \<open>SplitString\<close> computes it and that \<open>join_fields\<close> is inverted by it.
\<close>

section \<open>Searching and splitting\<close>

text \<open>\<open>std::string::find\<close> from the start of \<open>s\<close>.\<close>

fun find_sub :: "string \<Rightarrow> string \<Rightarrow> nat option" where
  "find_sub c s =
     (if take (length c) s = c then Some 0
      else case s of [] \<Rightarrow> None | _ # s' \<Rightarrow> map_option Suc (find_sub c s'))"

declare find_sub.simps [simp del]

lemma find_sub_bound: "find_sub c s = Some p \<Longrightarrow> p + length c \<le> length s"
proof (induction c s arbitrary: p rule: find_sub.induct)
  case (1 c s)
  show ?case
  proof (cases "take (length c) s = c")
    case True
    then have "length c \<le> length s"
      by (metis length_take min.cobounded1)
    moreover have "p = 0"
      using True "1.prems" by (simp add: find_sub.simps)
    ultimately show ?thesis by simp
  next
    case False
    with "1.prems" obtain a s' q where "s = a # s'" "find_sub c s' = Some q" "p = Suc q"
      by (auto simp: find_sub.simps [of c s] split: list.splits)
    with "1.IH" [OF False] show ?thesis by auto
  qed
qed

text \<open>
  The loop of \<open>SplitString\<close> on the part of \<open>s\<close> from \<open>pos1\<close> on, with the vector built so
  far. With an empty separator the loop of the source never advances: \<open>None\<close>.
\<close>

function SplitString_loop :: "string \<Rightarrow> string \<Rightarrow> string list \<Rightarrow> string list option" where
  "SplitString_loop s c v =
     (if c = [] then None
      else case find_sub c s of
        Some p \<Rightarrow>
          let str = take p s;
              v' = (if str \<noteq> [] then v @ [str] else v)
          in SplitString_loop (drop (p + length c) s) c v'
      | None \<Rightarrow> Some (if s \<noteq> [] then v @ [s] else v))"
  by pat_completeness auto

termination
proof (relation "measure (\<lambda>(s, c, v). length s)", goal_cases)
  case (2 s c v p str v')
  then have "p + length c \<le> length s"
    by (intro find_sub_bound) simp
  moreover have "0 < length c"
    using 2 by simp
  ultimately have "length s - (p + length c) < length s"
    by linarith
  then show ?case by simp
qed simp

definition SplitString :: "string \<Rightarrow> string \<Rightarrow> string list \<Rightarrow> string list option" where
  "SplitString s c v = SplitString_loop s c v"

declare SplitString_loop.simps [simp del]

definition StringToNumber :: "string \<Rightarrow> u64" where
  "StringToNumber s = foldl (\<lambda>number c. number + word_of_int (if of_char c < (128 :: int) then of_char c else of_char c - 256)) 0 s"

definition trim_delims :: string where
  "trim_delims = [CHR '' '', CHR 0x09, CHR 0x0D, CHR 0x0A]"

definition Trim :: "string \<Rightarrow> bool \<Rightarrow> bool \<Rightarrow> string" where
  "Trim str bLeft bRight =
     (let s1 = (if bRight then rev (dropWhile (\<lambda>c. c \<in> set trim_delims) (rev str)) else str)
      in if bLeft then dropWhile (\<lambda>c. c \<in> set trim_delims) s1 else s1)"

section \<open>Fields\<close>

fun tokens_acc :: "string \<Rightarrow> string \<Rightarrow> string list" where
  "tokens_acc acc [] = (if acc = [] then [] else [acc])"
| "tokens_acc acc (c # s) =
     (if c = CHR ''_'' then (if acc = [] then tokens_acc [] s else acc # tokens_acc [] s)
      else tokens_acc (acc @ [c]) s)"

definition tokens :: "string \<Rightarrow> string list" where
  "tokens s = tokens_acc [] s"

text \<open>The loop that rebuilds a list value: every non-empty field followed by an underscore.\<close>

fun join_fields :: "string list \<Rightarrow> string" where
  "join_fields [] = []"
| "join_fields (x # xs) = (if x = [] then join_fields xs else x @ ''_'' @ join_fields xs)"

definition field :: "string \<Rightarrow> bool" where
  "field x \<longleftrightarrow> x \<noteq> [] \<and> CHR ''_'' \<notin> set x"

lemma tokens_acc_field: "CHR ''_'' \<notin> set x \<Longrightarrow> tokens_acc acc (x @ s) = tokens_acc (acc @ x) s"
  by (induction x arbitrary: acc) auto

lemma tokens_field_sep: "field x \<Longrightarrow> tokens (x @ ''_'' @ s) = x # tokens s"
  by (simp add: tokens_def tokens_acc_field field_def)

lemma tokens_single: "field x \<Longrightarrow> tokens x = [x]"
  using tokens_acc_field [of x "[]" "[]"] by (simp add: tokens_def field_def)

lemma tokens_Nil [simp]: "tokens [] = []"
  by (simp add: tokens_def)

lemma tokens_join: "\<forall>x \<in> set xs. field x \<Longrightarrow> tokens (join_fields xs) = xs"
proof (induction xs)
  case (Cons x xs)
  then have "x \<noteq> []" and "tokens (x @ ''_'' @ join_fields xs) = x # xs"
    using tokens_field_sep [of x "join_fields xs"] by (auto simp: field_def)
  then show ?case by simp
qed simp

lemma join_fields_eq_Nil: "join_fields xs = [] \<longleftrightarrow> (\<forall>x \<in> set xs. x = [])"
  by (induction xs) auto

lemma tokens_acc_fields: "CHR ''_'' \<notin> set acc \<Longrightarrow> x \<in> set (tokens_acc acc s) \<Longrightarrow> field x"
  by (induction acc s rule: tokens_acc.induct) (auto simp: field_def split: if_splits)

lemma tokens_fields: "x \<in> set (tokens s) \<Longrightarrow> field x"
  using tokens_acc_fields [of "[]"] by (simp add: tokens_def)

lemma find_us_None: "find_sub ''_'' s = None \<longleftrightarrow> CHR ''_'' \<notin> set s"
  by (induction s) (auto simp: find_sub.simps)

lemma find_us_Some: "find_sub ''_'' s = Some p \<Longrightarrow> CHR ''_'' \<notin> set (take p s) \<and> s = take p s @ ''_'' @ drop (Suc p) s"
proof (induction s arbitrary: p)
  case Nil
  then show ?case by (simp add: find_sub.simps)
next
  case (Cons a s)
  show ?case
  proof (cases "a = CHR ''_''")
    case True
    with Cons.prems show ?thesis by (simp add: find_sub.simps)
  next
    case False
    with Cons.prems obtain q where "find_sub ''_'' s = Some q" "p = Suc q"
      by (auto simp: find_sub.simps [of _ "a # s"])
    with Cons.IH False show ?thesis by auto
  qed
qed

lemma SplitString_tokens: "SplitString s ''_'' v = Some (v @ tokens s)"
  unfolding SplitString_def
proof (induction s arbitrary: v rule: length_induct)
  case (1 s)
  show ?case
  proof (cases "find_sub ''_'' s")
    case None
    then have "CHR ''_'' \<notin> set s"
      by (simp add: find_us_None)
    then have "tokens s = (if s = [] then [] else [s])"
      using tokens_single [of s] by (auto simp: field_def)
    with None show ?thesis
      by (simp add: SplitString_loop.simps [of s])
  next
    case (Some p)
    let ?x = "take p s" and ?r = "drop (Suc p) s"
    have x: "CHR ''_'' \<notin> set ?x" and s: "s = ?x @ ''_'' @ ?r"
      using find_us_Some [OF Some] by auto
    have "tokens s = (if ?x = [] then tokens ?r else ?x # tokens ?r)"
      using x tokens_acc_field [of ?x "[]" "''_'' @ ?r"]
      by (subst s) (simp add: tokens_def)
    moreover have "length ?r < length s"
      using find_sub_bound [OF Some] by auto
    ultimately show ?thesis
      using "1.IH" Some by (simp add: SplitString_loop.simps [of s] Let_def)
  qed
qed

section \<open>Decimal numbers\<close>

text \<open>\<open>std::to_string\<close> on an unsigned integer.\<close>

fun to_string :: "nat \<Rightarrow> string" where
  "to_string n = (if n < 10 then [char_of (48 + n)] else to_string (n div 10) @ [char_of (48 + n mod 10)])"

declare to_string.simps [simp del]

definition is_digit :: "char \<Rightarrow> bool" where
  "is_digit c \<longleftrightarrow> 48 \<le> (of_char c :: nat) \<and> (of_char c :: nat) \<le> 57"

definition digits_value :: "string \<Rightarrow> nat" where
  "digits_value s = foldl (\<lambda>n c. n * 10 + (of_char c - 48)) 0 s"

datatype num_error = InvalidArgument | OutOfRange

text \<open>
  \<open>std::stoul\<close> in base ten: leading white space, an optional sign, and the longest run of
  digits. A value that does not fit 64 bits is out of range; a minus sign negates modulo
  \<open>2 ^ 64\<close>.
\<close>

definition is_space :: "char \<Rightarrow> bool" where
  "is_space c \<longleftrightarrow> c = CHR '' '' \<or> 9 \<le> (of_char c :: nat) \<and> (of_char c :: nat) \<le> 13"

definition stoul :: "string \<Rightarrow> (num_error, nat) result" where
  "stoul s =
     (let s1 = dropWhile is_space s;
          neg = (s1 \<noteq> [] \<and> hd s1 = CHR ''-'');
          s2 = (if s1 \<noteq> [] \<and> (hd s1 = CHR ''-'' \<or> hd s1 = CHR ''+'') then tl s1 else s1);
          ds = takeWhile is_digit s2;
          n = digits_value ds
      in if ds = [] then Inl InvalidArgument
         else if n \<ge> 2 ^ 64 then Inl OutOfRange
         else Inr (if neg then (2 ^ 64 - n) mod 2 ^ 64 else n))"

lemma to_string_digits: "c \<in> set (to_string n) \<Longrightarrow> is_digit c"
proof (induction n rule: to_string.induct)
  case (1 n)
  have "is_digit (char_of (48 + m))" if "m < 10" for m :: nat
    using that by (simp add: is_digit_def)
  with 1 show ?case
    by (cases "n < 10") (auto simp: to_string.simps [of n])
qed

lemma to_string_nonempty [simp]: "to_string n \<noteq> []"
  by (simp add: to_string.simps)

lemma digits_value_snoc: "digits_value (s @ [c]) = digits_value s * 10 + (of_char c - 48)"
  by (simp add: digits_value_def)

lemma digits_value_to_string [simp]: "digits_value (to_string n) = n"
proof (induction n rule: to_string.induct)
  case (1 n)
  then show ?case
    by (cases "n < 10")
      (simp_all add: to_string.simps [of n] digits_value_snoc, simp add: digits_value_def)
qed

lemma to_string_inject: "to_string a = to_string b \<longleftrightarrow> a = b"
  by (metis digits_value_to_string)

lemma digit_not_special: "is_digit c \<Longrightarrow> \<not> is_space c \<and> c \<noteq> CHR ''-'' \<and> c \<noteq> CHR ''+'' \<and> c \<noteq> CHR ''_''"
  by (auto simp: is_digit_def is_space_def)

lemma stoul_to_string: "n < 2 ^ 64 \<Longrightarrow> stoul (to_string n) = Inr n"
proof -
  assume n: "n < 2 ^ 64"
  obtain c s where cs: "to_string n = c # s"
    by (cases "to_string n") auto
  then have "is_digit c"
    using to_string_digits [of c n] by simp
  then have "dropWhile is_space (to_string n) = to_string n" "hd (to_string n) \<noteq> CHR ''-''" "hd (to_string n) \<noteq> CHR ''+''"
    using digit_not_special [of c] by (auto simp: cs)
  moreover have "takeWhile is_digit (to_string n) = to_string n"
    using to_string_digits unfolding takeWhile_eq_all_conv by blast
  ultimately show ?thesis
    using n by (simp add: stoul_def Let_def del: takeWhile_eq_all_conv)
qed

lemma to_string_field: "field (to_string n)"
  using to_string_digits digit_not_special by (fastforce simp: field_def)

section \<open>Signed decimal numbers\<close>

text \<open>\<open>std::to_string\<close> and \<open>std::stol\<close> on 64-bit signed integers.\<close>

definition to_string_int :: "int \<Rightarrow> string" where
  "to_string_int i = (if i < 0 then CHR ''-'' # to_string (nat (- i)) else to_string (nat i))"

definition stol :: "string \<Rightarrow> (num_error, int) result" where
  "stol s =
     (let s1 = dropWhile is_space s;
          neg = (s1 \<noteq> [] \<and> hd s1 = CHR ''-'');
          s2 = (if s1 \<noteq> [] \<and> (hd s1 = CHR ''-'' \<or> hd s1 = CHR ''+'') then tl s1 else s1);
          ds = takeWhile is_digit s2;
          i = (if neg then - int (digits_value ds) else int (digits_value ds))
      in if ds = [] then Inl InvalidArgument
         else if i < - (2 ^ 63) \<or> i \<ge> 2 ^ 63 then Inl OutOfRange
         else Inr i)"

lemma takeWhile_digits_to_string: "takeWhile is_digit (to_string n) = to_string n"
  using to_string_digits unfolding takeWhile_eq_all_conv by blast

lemma to_string_hd: "\<exists>c s. to_string n = c # s \<and> \<not> is_space c \<and> c \<noteq> CHR ''-'' \<and> c \<noteq> CHR ''+''"
proof -
  obtain c s where cs: "to_string n = c # s"
    by (cases "to_string n") auto
  then have "is_digit c"
    using to_string_digits [of c n] by simp
  with cs digit_not_special show ?thesis by blast
qed

lemma stol_to_string_int:
  assumes "- (2 ^ 63) \<le> i" and "i < 2 ^ 63"
  shows "stol (to_string_int i) = Inr i"
proof -
  have minus: "\<not> is_space (CHR ''-'')"
    by (simp add: is_space_def)
  obtain c s where cs: "to_string (nat \<bar>i\<bar>) = c # s" "\<not> is_space c" "c \<noteq> CHR ''-''" "c \<noteq> CHR ''+''"
    using to_string_hd by blast
  have ds: "takeWhile is_digit (to_string (nat \<bar>i\<bar>)) = to_string (nat \<bar>i\<bar>)"
    by (rule takeWhile_digits_to_string)
  show ?thesis
  proof (cases "i < 0")
    case True
    then have "to_string_int i = CHR ''-'' # to_string (nat \<bar>i\<bar>)"
      by (simp add: to_string_int_def)
    with True ds minus assms show ?thesis
      by (simp add: stol_def Let_def del: takeWhile_eq_all_conv)
  next
    case False
    then have "to_string_int i = to_string (nat \<bar>i\<bar>)"
      by (simp add: to_string_int_def)
    moreover have "dropWhile is_space (to_string (nat \<bar>i\<bar>)) = to_string (nat \<bar>i\<bar>)"
      "hd (to_string (nat \<bar>i\<bar>)) \<noteq> CHR ''-''" "hd (to_string (nat \<bar>i\<bar>)) \<noteq> CHR ''+''"
      using cs by auto
    ultimately show ?thesis
      using False ds assms by (simp add: stol_def Let_def del: takeWhile_eq_all_conv)
  qed
qed

lemma to_string_int_nonempty [simp]: "to_string_int i \<noteq> []"
  by (simp add: to_string_int_def)

end
