(* ===== verification/Kv_Store.thy ===== *)
theory Kv_Store
  imports String_Util Storage_Spec
begin

text \<open>
  The transactional key-value layer: \<open>RocksDBReadWriter\<close> of
  \<open>db/rocksdb_read_write.cpp\<close> and \<open>RocksDBReader\<close> of \<open>db/rocksdb_read.cpp\<close>.
  RocksDB itself is not part of the repository: it is the parameter \<open>api\<close> of every
  operation, a record of the calls the code makes, and the locale \<open>rocksdb_contract\<close>
  states what the code relies on (a transaction reads its own writes over the committed
  data, commit publishes them, rollback drops them). \<open>mem_rocks\<close> is an instance.
  The lemmas of the locale give the behaviour of each operation over the map the
  transaction sees.
\<close>

section \<open>The RocksDB interface\<close>

datatype status = StOk | StNotFound | StIOError | StAborted | StOther

record 's rocksdb =
  BeginTransaction :: "'s \<Rightarrow> 's option"
  txn_Get :: "'s \<Rightarrow> string \<Rightarrow> status \<times> string"
  txn_GetForUpdate :: "'s \<Rightarrow> string \<Rightarrow> 's \<times> status \<times> string"
  txn_MultiGet :: "'s \<Rightarrow> string list \<Rightarrow> (status \<times> string) list"
  txn_Put :: "'s \<Rightarrow> string \<Rightarrow> string \<Rightarrow> 's \<times> status"
  txn_Delete :: "'s \<Rightarrow> string \<Rightarrow> 's \<times> status"
  txn_Commit :: "'s \<Rightarrow> 's \<times> status"
  txn_Rollback :: "'s \<Rightarrow> 's \<times> status"
  db_Get :: "'s \<Rightarrow> string \<Rightarrow> status \<times> string"
  db_MultiGet :: "'s \<Rightarrow> string list \<Rightarrow> (status \<times> string) list"

text \<open>Output parameters keep the caller's value on the branches that return before the store is asked.\<close>

text \<open>A read that meets an I/O error destroys the database object and ends the process.\<close>

datatype exit_error = ProcessExit

section \<open>RocksDBReadWriter\<close>

record 's rw =
  is_init_success :: bool
  txn_open :: bool
  store :: 's

type_synonym 's rw_result = "(exit_error, 's rw \<times> bool \<times> status) result"

definition TransactionInit :: "'s rocksdb \<Rightarrow> 's rw \<Rightarrow> 's rw \<times> bool" where
  "TransactionInit api w =
     (case BeginTransaction api (store w) of
        None \<Rightarrow> (w\<lparr>txn_open := False\<rparr>, False)
      | Some s \<Rightarrow> (w\<lparr>txn_open := True, store := s\<rparr>, True))"

definition TransactionCommit :: "'s rocksdb \<Rightarrow> 's rw \<Rightarrow> 's rw \<times> bool \<times> status" where
  "TransactionCommit api w =
     (if \<not> is_init_success w then (w, False, StAborted)
      else if \<not> txn_open w then (w, False, StAborted)
      else case txn_Commit api (store w) of (s, st) \<Rightarrow>
        if st \<noteq> StOk then (w\<lparr>store := s\<rparr>, False, st)
        else (w\<lparr>store := s, txn_open := False\<rparr>, True, st))"

text \<open>
  On a failing rollback the status variable of the caller keeps its value \<open>st0\<close>: the code
  stores the result in a local variable only.
\<close>

definition TransactionRollBack :: "'s rocksdb \<Rightarrow> 's rw \<Rightarrow> status \<Rightarrow> 's rw \<times> bool \<times> status" where
  "TransactionRollBack api w st0 =
     (if \<not> is_init_success w then (w, False, StAborted)
      else if \<not> txn_open w then (w, False, StAborted)
      else case txn_Rollback api (store w) of (s, st) \<Rightarrow>
        if st \<noteq> StOk then (w\<lparr>store := s\<rparr>, False, st0)
        else (w\<lparr>store := s, txn_open := False\<rparr>, True, st0))"

definition scan_statuses :: "status list \<Rightarrow> (exit_error, bool) result" where
  "scan_statuses sts =
     (if StIOError \<in> set sts then Inl ProcessExit else Inr (list_all (\<lambda>st. st = StOk) sts))"

definition RW_MultiReadData :: "'s rocksdb \<Rightarrow> 's rw \<Rightarrow> string list \<Rightarrow> string list \<Rightarrow>
    (exit_error, bool \<times> string list \<times> status list) result" where
  "RW_MultiReadData api w keys values =
     (if \<not> is_init_success w then Inr (False, values, [StAborted])
      else if \<not> txn_open w then Inr (False, values, [StAborted])
      else if keys = [] then Inr (False, values, [StAborted])
      else let res = txn_MultiGet api (store w) keys in
        bindE (scan_statuses (map fst res)) (\<lambda>flag. Inr (flag, map snd res, map fst res)))"

definition ReadForUpdate :: "'s rocksdb \<Rightarrow> 's rw \<Rightarrow> string \<Rightarrow>
    (exit_error, 's rw \<times> bool \<times> string \<times> status) result" where
  "ReadForUpdate api w key =
     (if \<not> is_init_success w then Inr (w, False, [], StAborted)
      else if \<not> txn_open w then Inr (w, False, [], StAborted)
      else if key = [] then Inr (w, False, [], StAborted)
      else case txn_GetForUpdate api (store w) key of (s, st, v) \<Rightarrow>
        if st = StOk then Inr (w\<lparr>store := s\<rparr>, True, v, st)
        else if st = StIOError then Inl ProcessExit
        else Inr (w\<lparr>store := s\<rparr>, False, v, st))"

definition RW_ReadData :: "'s rocksdb \<Rightarrow> 's rw \<Rightarrow> string \<Rightarrow> string \<Rightarrow> (exit_error, bool \<times> string \<times> status) result" where
  "RW_ReadData api w key val =
     (if \<not> is_init_success w then Inr (False, val, StAborted)
      else if \<not> txn_open w then Inr (False, val, StAborted)
      else if key = [] then Inr (False, val, StAborted)
      else case txn_Get api (store w) key of (st, v) \<Rightarrow>
        if st = StOk then Inr (True, v, st)
        else if st = StIOError then Inl ProcessExit
        else Inr (False, v, st))"

definition RW_WriteData :: "'s rocksdb \<Rightarrow> 's rw \<Rightarrow> string \<Rightarrow> string \<Rightarrow> 's rw \<times> bool \<times> status" where
  "RW_WriteData api w key val =
     (if \<not> is_init_success w then (w, False, StAborted)
      else if \<not> txn_open w then (w, False, StAborted)
      else if key = [] then (w, False, StAborted)
      else if val = [] then (w, False, StAborted)
      else case txn_Put api (store w) key val of (s, st) \<Rightarrow> (w\<lparr>store := s\<rparr>, st = StOk, st))"

definition RW_DeleteData :: "'s rocksdb \<Rightarrow> 's rw \<Rightarrow> string \<Rightarrow> 's rw \<times> bool \<times> status" where
  "RW_DeleteData api w key =
     (if \<not> is_init_success w then (w, False, StAborted)
      else if \<not> txn_open w then (w, False, StAborted)
      else if key = [] then (w, False, StAborted)
      else case txn_Delete api (store w) key of (s, st) \<Rightarrow> (w\<lparr>store := s\<rparr>, st = StOk, st))"

text \<open>
  A list value is split at the underscores (the separator is not empty, so the split
  returns), changed and written back field by field.
\<close>

definition split_fields :: "string \<Rightarrow> string list" where
  "split_fields s = (case SplitString s ''_'' [] of Some xs \<Rightarrow> xs | None \<Rightarrow> [])"

definition RW_MergeValue :: "'s rocksdb \<Rightarrow> 's rw \<Rightarrow> string \<Rightarrow> string \<Rightarrow> bool \<Rightarrow> 's rw_result" where
  "RW_MergeValue api w key val firstOrLast =
     (if \<not> is_init_success w then Inr (w, False, StAborted)
      else if \<not> txn_open w then Inr (w, False, StAborted)
      else if key = [] then Inr (w, False, StAborted)
      else if val = [] then Inr (w, False, StAborted)
      else bindE (ReadForUpdate api w key) (\<lambda>(w1, found, ret, st).
        if found then
          let xs = split_fields ret;
              xs' = (if val \<notin> set xs then (if firstOrLast then val # xs else xs @ [val]) else xs)
          in Inr (RW_WriteData api w1 key (join_fields xs'))
        else if st = StNotFound then Inr (RW_WriteData api w1 key val)
        else Inr (w1, False, st)))"

definition RW_RemoveMergeValue :: "'s rocksdb \<Rightarrow> 's rw \<Rightarrow> string \<Rightarrow> string \<Rightarrow> 's rw_result" where
  "RW_RemoveMergeValue api w key val =
     (if \<not> is_init_success w then Inr (w, False, StAborted)
      else if \<not> txn_open w then Inr (w, False, StAborted)
      else if key = [] then Inr (w, False, StAborted)
      else if val = [] then Inr (w, False, StAborted)
      else bindE (ReadForUpdate api w key) (\<lambda>(w1, found, ret, st).
        if found then
          let ret' = join_fields (removeAll val (split_fields ret))
          in if ret' = [] then Inr (RW_DeleteData api w1 key)
             else Inr (RW_WriteData api w1 key ret')
        else if st = StNotFound then Inr (w1, True, st)
        else Inr (w1, False, st)))"

section \<open>RocksDBReader\<close>

definition R_MultiReadData :: "'s rocksdb \<Rightarrow> 's rw \<Rightarrow> string list \<Rightarrow> string list \<Rightarrow>
    (exit_error, bool \<times> string list \<times> status list) result" where
  "R_MultiReadData api w keys values =
     (if \<not> is_init_success w then Inr (False, values, [StAborted])
      else if keys = [] then Inr (False, values, [StAborted])
      else let res = db_MultiGet api (store w) keys in
        bindE (scan_statuses (map fst res)) (\<lambda>flag. Inr (flag, map snd res, map fst res)))"

definition R_ReadData :: "'s rocksdb \<Rightarrow> 's rw \<Rightarrow> string \<Rightarrow> string \<Rightarrow> (exit_error, bool \<times> string \<times> status) result" where
  "R_ReadData api w key val =
     (if \<not> is_init_success w then Inr (False, val, StAborted)
      else if key = [] then Inr (False, val, StAborted)
      else case db_Get api (store w) key of (st, v) \<Rightarrow>
        if st = StOk then Inr (True, v, st)
        else if st = StIOError then Inl ProcessExit
        else Inr (False, v, st))"

lemmas kv_defs =
  TransactionInit_def TransactionCommit_def TransactionRollBack_def RW_MultiReadData_def
  ReadForUpdate_def RW_ReadData_def RW_WriteData_def RW_DeleteData_def RW_MergeValue_def
  RW_RemoveMergeValue_def R_MultiReadData_def R_ReadData_def

section \<open>What the code relies on\<close>

text \<open>
  \<open>good\<close> states are those in which the open transaction meets no conflict and no I/O
  error; \<open>view\<close> is what the transaction sees, \<open>committed\<close> what the database holds.
\<close>

locale rocksdb_contract =
  fixes api :: "'s rocksdb"
    and good :: "'s \<Rightarrow> bool"
    and view :: "'s \<Rightarrow> string \<rightharpoonup> string"
    and committed :: "'s \<Rightarrow> string \<rightharpoonup> string"
  assumes begin_law: "good s \<Longrightarrow> \<exists>s'. BeginTransaction api s = Some s' \<and> good s' \<and>
      view s' = committed s \<and> committed s' = committed s"
    and get_found: "good s \<Longrightarrow> view s k = Some v \<Longrightarrow> txn_Get api s k = (StOk, v)"
    and get_missing: "good s \<Longrightarrow> view s k = None \<Longrightarrow> fst (txn_Get api s k) = StNotFound"
    and update_law: "good s \<Longrightarrow> \<exists>s'. txn_GetForUpdate api s k = (s', txn_Get api s k) \<and> good s' \<and>
      view s' = view s \<and> committed s' = committed s"
    and multiget_law: "good s \<Longrightarrow> txn_MultiGet api s ks = map (txn_Get api s) ks"
    and put_law: "good s \<Longrightarrow> \<exists>s'. txn_Put api s k v = (s', StOk) \<and> good s' \<and>
      view s' = (view s)(k \<mapsto> v) \<and> committed s' = committed s"
    and delete_law: "good s \<Longrightarrow> \<exists>s'. txn_Delete api s k = (s', StOk) \<and> good s' \<and>
      view s' = (view s)(k := None) \<and> committed s' = committed s"
    and commit_law: "good s \<Longrightarrow> \<exists>s'. txn_Commit api s = (s', StOk) \<and> good s' \<and> committed s' = view s"
    and rollback_law: "good s \<Longrightarrow> \<exists>s'. txn_Rollback api s = (s', StOk) \<and> good s' \<and> committed s' = committed s"
    and db_found: "good s \<Longrightarrow> committed s k = Some v \<Longrightarrow> db_Get api s k = (StOk, v)"
    and db_missing: "good s \<Longrightarrow> committed s k = None \<Longrightarrow> fst (db_Get api s k) = StNotFound"
    and db_multiget_law: "good s \<Longrightarrow> db_MultiGet api s ks = map (db_Get api s) ks"

text \<open>A writer with an open transaction.\<close>

definition ready :: "('s \<Rightarrow> bool) \<Rightarrow> 's rw \<Rightarrow> bool" where
  "ready good w \<longleftrightarrow> is_init_success w \<and> txn_open w \<and> good (store w)"

text \<open>The list a key holds.\<close>

definition list_at :: "(string \<rightharpoonup> string) \<Rightarrow> string \<Rightarrow> string list" where
  "list_at m k = (case m k of None \<Rightarrow> [] | Some s \<Rightarrow> tokens s)"

lemma split_fields_tokens [simp]: "split_fields s = tokens s"
  by (simp add: split_fields_def SplitString_tokens)

lemma list_at_fields: "x \<in> set (list_at m k) \<Longrightarrow> field x"
  by (auto simp: list_at_def tokens_fields split: option.splits)

lemma list_at_upd: "list_at (m(k \<mapsto> v)) k' = (if k' = k then tokens v else list_at m k')"
  by (simp add: list_at_def)

lemma list_at_del: "list_at (m(k := None)) k' = (if k' = k then [] else list_at m k')"
  by (simp add: list_at_def)

definition merge_list :: "bool \<Rightarrow> string \<Rightarrow> string list \<Rightarrow> string list" where
  "merge_list firstOrLast v xs = (if v \<in> set xs then xs else if firstOrLast then v # xs else xs @ [v])"

context rocksdb_contract
begin

lemma write_ready:
  assumes "ready good w" and "k \<noteq> []" and "v \<noteq> []"
  shows "\<exists>w'. RW_WriteData api w k v = (w', True, StOk) \<and> ready good w' \<and>
    view (store w') = (view (store w))(k \<mapsto> v) \<and> committed (store w') = committed (store w)"
proof -
  obtain s' where "txn_Put api (store w) k v = (s', StOk)" "good s'"
    "view s' = (view (store w))(k \<mapsto> v)" "committed s' = committed (store w)"
    using put_law [of "store w" k v] assms(1) by (auto simp: ready_def)
  with assms show ?thesis
    by (simp add: RW_WriteData_def ready_def)
qed

lemma delete_ready:
  assumes "ready good w" and "k \<noteq> []"
  shows "\<exists>w'. RW_DeleteData api w k = (w', True, StOk) \<and> ready good w' \<and>
    view (store w') = (view (store w))(k := None) \<and> committed (store w') = committed (store w)"
proof -
  obtain s' where "txn_Delete api (store w) k = (s', StOk)" "good s'"
    "view s' = (view (store w))(k := None)" "committed s' = committed (store w)"
    using delete_law [of "store w" k] assms(1) by (auto simp: ready_def)
  with assms show ?thesis
    by (simp add: RW_DeleteData_def ready_def)
qed

lemma read_ready:
  assumes "ready good w" and "k \<noteq> []"
  shows "case view (store w) k of
      Some v \<Rightarrow> RW_ReadData api w k v0 = Inr (True, v, StOk)
    | None \<Rightarrow> \<exists>v. RW_ReadData api w k v0 = Inr (False, v, StNotFound)"
proof (cases "view (store w) k")
  case None
  then have "fst (txn_Get api (store w) k) = StNotFound"
    using get_missing assms(1) by (simp add: ready_def)
  then obtain v where "txn_Get api (store w) k = (StNotFound, v)"
    by (metis prod.collapse)
  with None assms show ?thesis
    by (simp add: RW_ReadData_def ready_def)
next
  case (Some v)
  with assms get_found show ?thesis
    by (simp add: RW_ReadData_def ready_def)
qed

lemma read_for_update_ready:
  assumes "ready good w" and "k \<noteq> []"
  shows "\<exists>w'. ready good w' \<and> view (store w') = view (store w) \<and> committed (store w') = committed (store w) \<and>
    (case view (store w) k of
       Some v \<Rightarrow> ReadForUpdate api w k = Inr (w', True, v, StOk)
     | None \<Rightarrow> \<exists>v. ReadForUpdate api w k = Inr (w', False, v, StNotFound))"
proof -
  obtain s' where s': "txn_GetForUpdate api (store w) k = (s', txn_Get api (store w) k)" "good s'"
    "view s' = view (store w)" "committed s' = committed (store w)"
    using update_law [of "store w" k] assms(1) by (auto simp: ready_def)
  have "case view (store w) k of Some v \<Rightarrow> txn_Get api (store w) k = (StOk, v)
      | None \<Rightarrow> \<exists>v. txn_Get api (store w) k = (StNotFound, v)"
    using get_found [of "store w" k] get_missing [of "store w" k] assms(1)
    by (auto simp: ready_def split: option.splits) (metis prod.collapse)
  with s' assms show ?thesis
    by (intro exI [of _ "w\<lparr>store := s'\<rparr>"])
      (auto simp: ReadForUpdate_def ready_def split: option.splits)
qed

lemma merge_ready:
  assumes "ready good w" and "k \<noteq> []" and v: "field v"
  shows "\<exists>w'. RW_MergeValue api w k v first = Inr (w', True, StOk) \<and> ready good w' \<and>
    committed (store w') = committed (store w) \<and>
    (\<forall>k'. k' \<noteq> k \<longrightarrow> view (store w') k' = view (store w) k') \<and>
    list_at (view (store w')) k = merge_list first v (list_at (view (store w)) k)"
proof -
  have vne: "v \<noteq> []" using v by (simp add: field_def)
  obtain w1 where w1: "ready good w1" "view (store w1) = view (store w)" "committed (store w1) = committed (store w)"
    and rd: "case view (store w) k of Some s \<Rightarrow> ReadForUpdate api w k = Inr (w1, True, s, StOk)
      | None \<Rightarrow> \<exists>s. ReadForUpdate api w k = Inr (w1, False, s, StNotFound)"
    using read_for_update_ready [OF assms(1,2)] by blast
  have g: "is_init_success w" "txn_open w"
    using assms(1) by (auto simp: ready_def)
  show ?thesis
  proof (cases "view (store w) k")
    case None
    with rd w1 g assms(2) vne write_ready [OF w1(1) assms(2) vne] show ?thesis
      by (auto simp: RW_MergeValue_def list_at_def merge_list_def tokens_single [OF v])
  next
    case (Some s)
    let ?xs = "merge_list first v (tokens s)"
    have fields: "\<forall>x \<in> set ?xs. field x" and ne: "v \<in> set ?xs"
      using v tokens_fields by (auto simp: merge_list_def)
    then have jne: "join_fields ?xs \<noteq> []"
      using vne by (auto simp: join_fields_eq_Nil)
    have run: "RW_MergeValue api w k v first = Inr (RW_WriteData api w1 k (join_fields ?xs))"
      using Some rd g assms(2) vne by (auto simp: RW_MergeValue_def Let_def merge_list_def)
    then show ?thesis
      using write_ready [OF w1(1) assms(2) jne] w1 Some
      by (auto simp: list_at_def tokens_join [OF fields])
  qed
qed

lemma remove_merge_ready:
  assumes "ready good w" and "k \<noteq> []" and v: "v \<noteq> []"
  shows "\<exists>w' st. RW_RemoveMergeValue api w k v = Inr (w', True, st) \<and> ready good w' \<and>
    committed (store w') = committed (store w) \<and>
    (\<forall>k'. k' \<noteq> k \<longrightarrow> view (store w') k' = view (store w) k') \<and>
    list_at (view (store w')) k = removeAll v (list_at (view (store w)) k) \<and>
    (list_at (view (store w')) k = [] \<longrightarrow> view (store w') k = None)"
proof -
  obtain w1 where w1: "ready good w1" "view (store w1) = view (store w)" "committed (store w1) = committed (store w)"
    and rd: "case view (store w) k of Some s \<Rightarrow> ReadForUpdate api w k = Inr (w1, True, s, StOk)
      | None \<Rightarrow> \<exists>s. ReadForUpdate api w k = Inr (w1, False, s, StNotFound)"
    using read_for_update_ready [OF assms(1,2)] by blast
  have g: "is_init_success w" "txn_open w"
    using assms(1) by (auto simp: ready_def)
  show ?thesis
  proof (cases "view (store w) k")
    case None
    with rd w1 g assms(2) v show ?thesis
      by (auto simp: RW_RemoveMergeValue_def list_at_def)
  next
    case (Some s)
    let ?xs = "removeAll v (tokens s)"
    have fields: "\<forall>x \<in> set ?xs. field x"
      using tokens_fields by auto
    then have jne: "join_fields ?xs = [] \<longleftrightarrow> ?xs = []"
      by (cases ?xs) (auto simp: join_fields_eq_Nil field_def)
    have run: "RW_RemoveMergeValue api w k v = Inr (if ?xs = [] then RW_DeleteData api w1 k
        else RW_WriteData api w1 k (join_fields ?xs))"
      using Some rd g assms(2) v jne by (simp add: RW_RemoveMergeValue_def Let_def)
    show ?thesis
    proof (cases "?xs = []")
      case True
      with run delete_ready [OF w1(1) assms(2)] w1 Some show ?thesis
        by (auto simp: list_at_def)
    next
      case False
      with run write_ready [OF w1(1) assms(2), of "join_fields ?xs"] jne w1 Some show ?thesis
        by (auto simp: list_at_def tokens_join [OF fields])
    qed
  qed
qed

lemma commit_ready:
  assumes "ready good w"
  shows "\<exists>w'. TransactionCommit api w = (w', True, StOk) \<and> \<not> txn_open w' \<and> is_init_success w' \<and>
    good (store w') \<and> committed (store w') = view (store w)"
  using commit_law [of "store w"] assms by (auto simp: TransactionCommit_def ready_def)

lemma rollback_ready:
  assumes "ready good w"
  shows "\<exists>w'. TransactionRollBack api w st0 = (w', True, st0) \<and> \<not> txn_open w' \<and> is_init_success w' \<and>
    good (store w') \<and> committed (store w') = committed (store w)"
  using rollback_law [of "store w"] assms by (auto simp: TransactionRollBack_def ready_def)

lemma init_ready:
  assumes "is_init_success w" and "good (store w)"
  shows "\<exists>w'. TransactionInit api w = (w', True) \<and> ready good w' \<and>
    view (store w') = committed (store w) \<and> committed (store w') = committed (store w)"
  using begin_law [OF assms(2)] assms(1) by (auto simp: TransactionInit_def ready_def)

lemma reader_read:
  assumes "is_init_success w" and "good (store w)" and "k \<noteq> []"
  shows "case committed (store w) k of
      Some v \<Rightarrow> R_ReadData api w k v0 = Inr (True, v, StOk)
    | None \<Rightarrow> \<exists>v. R_ReadData api w k v0 = Inr (False, v, StNotFound)"
proof (cases "committed (store w) k")
  case None
  then obtain v where "db_Get api (store w) k = (StNotFound, v)"
    using db_missing [OF assms(2) None] by (metis prod.collapse)
  with None assms show ?thesis
    by (simp add: R_ReadData_def)
next
  case (Some v)
  with assms db_found show ?thesis
    by (simp add: R_ReadData_def)
qed

end

section \<open>The transaction as a key-value store\<close>

definition txn_lookup :: "'s rocksdb \<Rightarrow> 's rw \<Rightarrow> string \<Rightarrow> string option" where
  "txn_lookup api w k = (case RW_ReadData api w k [] of Inr (True, v, _) \<Rightarrow> Some v | _ \<Rightarrow> None)"

definition txn_store :: "'s rocksdb \<Rightarrow> string \<Rightarrow> string \<Rightarrow> 's rw \<Rightarrow> 's rw option" where
  "txn_store api k v w = (case RW_WriteData api w k v of (w', True, _) \<Rightarrow> Some w' | _ \<Rightarrow> None)"

context rocksdb_contract
begin

lemma txn_lookup_view: "ready good w \<Longrightarrow> k \<noteq> [] \<Longrightarrow> txn_lookup api w k = view (store w) k"
  using read_ready [of w k "[]"] by (auto simp: txn_lookup_def split: option.splits)

lemma txn_store_view:
  assumes "ready good w" and "k \<noteq> []" and "v \<noteq> []"
  shows "\<exists>w'. txn_store api k v w = Some w' \<and> ready good w' \<and> view (store w') = (view (store w))(k \<mapsto> v)"
  using write_ready [OF assms] by (auto simp: txn_store_def)

end

sublocale rocksdb_contract \<subseteq> kv: storage "ready good" "\<lambda>k v. k \<noteq> [] \<and> v \<noteq> []" "\<lambda>k. k \<noteq> []"
  "txn_lookup api" "txn_store api"
proof unfold_locales
  show "\<exists>w'. txn_store api k v w = Some w' \<and> ready good w'" if "ready good w" "k \<noteq> [] \<and> v \<noteq> []" for w k v
    using txn_store_view [of w k v] that by blast
  show "txn_lookup api w' k' = (if k' = k then Some v else txn_lookup api w k')"
    if "ready good w" "k \<noteq> [] \<and> v \<noteq> []" "k' \<noteq> []" "txn_store api k v w = Some w'" for w w' k v k'
    using txn_store_view [of w k v] that by (auto simp: txn_lookup_view)
qed

section \<open>An instance\<close>

text \<open>
  Committed data and the batch of the open transaction; an entry \<open>Some None\<close> of the batch
  is a pending deletion.
\<close>

record mem_db =
  base :: "string \<rightharpoonup> string"
  batch :: "string \<rightharpoonup> string option"

definition mem_view :: "mem_db \<Rightarrow> string \<rightharpoonup> string" where
  "mem_view s = (\<lambda>k. case batch s k of None \<Rightarrow> base s k | Some r \<Rightarrow> r)"

definition mem_read :: "(string \<rightharpoonup> string) \<Rightarrow> string \<Rightarrow> status \<times> string" where
  "mem_read m k = (case m k of None \<Rightarrow> (StNotFound, []) | Some v \<Rightarrow> (StOk, v))"

definition mem_rocks :: "mem_db rocksdb" where
  "mem_rocks =
     \<lparr>BeginTransaction = (\<lambda>s. Some (s\<lparr>batch := Map.empty\<rparr>)),
      txn_Get = (\<lambda>s. mem_read (mem_view s)),
      txn_GetForUpdate = (\<lambda>s k. (s, mem_read (mem_view s) k)),
      txn_MultiGet = (\<lambda>s. map (mem_read (mem_view s))),
      txn_Put = (\<lambda>s k v. (s\<lparr>batch := (batch s)(k \<mapsto> Some v)\<rparr>, StOk)),
      txn_Delete = (\<lambda>s k. (s\<lparr>batch := (batch s)(k \<mapsto> None)\<rparr>, StOk)),
      txn_Commit = (\<lambda>s. (\<lparr>base = mem_view s, batch = Map.empty\<rparr>, StOk)),
      txn_Rollback = (\<lambda>s. (s\<lparr>batch := Map.empty\<rparr>, StOk)),
      db_Get = (\<lambda>s. mem_read (base s)),
      db_MultiGet = (\<lambda>s. map (mem_read (base s)))\<rparr>"

interpretation mem: rocksdb_contract mem_rocks "\<lambda>s. True" mem_view base
  by unfold_locales (auto simp: mem_rocks_def mem_view_def mem_read_def fun_eq_iff split: option.splits)

definition mem_empty :: "mem_db rw" where
  "mem_empty = \<lparr>is_init_success = True, txn_open = True, store = \<lparr>base = Map.empty, batch = Map.empty\<rparr>\<rparr>"

lemma ready_mem_empty [simp]: "ready (\<lambda>s. True) mem_empty"
  by (simp add: ready_def mem_empty_def)

lemma mem_contract: "rocksdb_contract mem_rocks (\<lambda>s. True) mem_view base"
  by unfold_locales

end
