(* ===== verification/Db_Api.thy ===== *)
theory Db_Api
  imports Kv_Store
begin

text \<open>
  The database interface of the node, \<open>db/db_api.cpp\<close>: the key families, the virtual
  \<open>ReadData\<close> and \<open>MultiReadData\<close> of \<open>DBReader\<close> and \<open>DBReadWriter\<close>, every
  getter of \<open>DBReader\<close> over a reader (the record \<open>db_reader\<close> is the virtual table) and
  every setter of \<open>DBReadWriter\<close>. Output parameters are passed in and returned, so a
  branch that leaves one alone is visible. What the operations mean is shown in
  \<open>Db_Tables\<close>.
\<close>

section \<open>Key families\<close>

definition kBlockHash2BlockHeightKey :: string where
  "kBlockHash2BlockHeightKey = ''blkhs2blkht_''"

definition kBlockHeight2BlockHashKey :: string where
  "kBlockHeight2BlockHashKey = ''blkht2blkhs_''"

definition kBlockHeight2SumHash :: string where
  "kBlockHeight2SumHash = ''blkht2sumhs_''"

definition kTopThousandSumhashKey :: string where
  "kTopThousandSumhashKey = ''topthousandsumhs_''"

definition kBlockHeight2thousandSumHash :: string where
  "kBlockHeight2thousandSumHash = ''thousandsblkht2sumhs_''"

definition kBlockHash2BlcokRawKey :: string where
  "kBlockHash2BlcokRawKey = ''blkhs2blkraw_''"

definition kBlockTopKey :: string where
  "kBlockTopKey = ''blktop_''"

definition kAddress2UtxoKey :: string where
  "kAddress2UtxoKey = ''addr2utxo_''"

definition kTransactionHash2TransactionRawKey :: string where
  "kTransactionHash2TransactionRawKey = ''txhs2txraw_''"

definition kTransactionHash2BlockHashKey :: string where
  "kTransactionHash2BlockHashKey = ''txhs2blkhs_''"

definition kAddress2TransactionRawKey :: string where
  "kAddress2TransactionRawKey = ''addr2txraw_''"

definition kAddress2BlcokHashKey :: string where
  "kAddress2BlcokHashKey = ''addr2blkhs_''"

definition kAddress2TransactionTopKey :: string where
  "kAddress2TransactionTopKey = ''addr2txtop_''"

definition kAddress2BalanceKey :: string where
  "kAddress2BalanceKey = ''addr2bal_''"

definition kStakeAddrKey :: string where
  "kStakeAddrKey = ''stakeaddr_''"

definition kMutliSignKey :: string where
  "kMutliSignKey = ''mutlisign_''"

definition kBonusUtxoKey :: string where
  "kBonusUtxoKey = ''bonusutxo_''"

definition kBonusAddrKey :: string where
  "kBonusAddrKey = ''bonusaddr_''"

definition kBonusAddr2InvestAddrKey :: string where
  "kBonusAddr2InvestAddrKey = ''bonusaddr2investaddr_''"

definition kInvestAddr2BonusAddrKey :: string where
  "kInvestAddr2BonusAddrKey = ''investaddr2bonusaddr_''"

definition kBonusAddrInvestAddr2InvestAddrUtxo :: string where
  "kBonusAddrInvestAddr2InvestAddrUtxo = ''invest_nodeaddr2investaddrutxo_''"

definition kInvestUtxoKey :: string where
  "kInvestUtxoKey = ''investutxo_''"

definition kM2 :: string where
  "kM2 = ''M2_''"

definition kDM :: string where
  "kDM = ''DM_''"

definition kTotalInvestAmount :: string where
  "kTotalInvestAmount = ''totalinvestamount_''"

definition kInitVersionKey :: string where
  "kInitVersionKey = ''initver_''"

definition kSignNumberKey :: string where
  "kSignNumberKey = ''signnumber_''"

definition kBlockNumberKey :: string where
  "kBlockNumberKey = ''blocknumber_''"

definition kSignAddrKey :: string where
  "kSignAddrKey = ''signaddr_''"

definition kburnAmountKey :: string where
  "kburnAmountKey = ''burnamount_''"

definition kEvmAllDeployerAddr :: string where
  "kEvmAllDeployerAddr = ''allevmdeployeraddr_''"

definition kDeployerAddr2ContractAddr :: string where
  "kDeployerAddr2ContractAddr = ''deployeraddr2contractaddr_''"

definition kContractAddr2ContractCode :: string where
  "kContractAddr2ContractCode = ''contractaddr2contractcode_''"

definition kContractAddr2DeployUtxo :: string where
  "kContractAddr2DeployUtxo = ''contractaddr2deployutxo_''"

definition kContractAddr2LatestUtxo :: string where
  "kContractAddr2LatestUtxo = ''contractaddr2latestutxo_''"

definition kContractMptK :: string where
  "kContractMptK = ''contractmpt_''"

lemmas key_defs =
  kBlockHash2BlockHeightKey_def
  kBlockHeight2BlockHashKey_def
  kBlockHeight2SumHash_def
  kTopThousandSumhashKey_def
  kBlockHeight2thousandSumHash_def
  kBlockHash2BlcokRawKey_def
  kBlockTopKey_def
  kAddress2UtxoKey_def
  kTransactionHash2TransactionRawKey_def
  kTransactionHash2BlockHashKey_def
  kAddress2TransactionRawKey_def
  kAddress2BlcokHashKey_def
  kAddress2TransactionTopKey_def
  kAddress2BalanceKey_def
  kStakeAddrKey_def
  kMutliSignKey_def
  kBonusUtxoKey_def
  kBonusAddrKey_def
  kBonusAddr2InvestAddrKey_def
  kInvestAddr2BonusAddrKey_def
  kBonusAddrInvestAddr2InvestAddrUtxo_def
  kInvestUtxoKey_def
  kM2_def
  kDM_def
  kTotalInvestAmount_def
  kInitVersionKey_def
  kSignNumberKey_def
  kBlockNumberKey_def
  kSignAddrKey_def
  kburnAmountKey_def
  kEvmAllDeployerAddr_def
  kDeployerAddr2ContractAddr_def
  kContractAddr2ContractCode_def
  kContractAddr2DeployUtxo_def
  kContractAddr2LatestUtxo_def
  kContractMptK_def

section \<open>Status values and exceptions\<close>

datatype DBStatus =
    DB_SUCCESS | DB_ERROR | DB_PARAM_NULL | DB_NOT_FOUND | DB_IS_EXIST | DB_DESERIALIZATION_FAILED

text \<open>
  Besides a status an operation can end the process, let an exception of the number
  parser escape, or never return (the height loop below).
\<close>

datatype db_error = DbExit exit_error | DbNumber num_error | DbDiverges

definition lift_exit :: "(exit_error, 'a) result \<Rightarrow> (db_error, 'a) result" where
  "lift_exit r = (case r of Inl e \<Rightarrow> Inl (DbExit e) | Inr x \<Rightarrow> Inr x)"

definition lift_num :: "(num_error, 'a) result \<Rightarrow> (db_error, 'a) result" where
  "lift_num r = (case r of Inl e \<Rightarrow> Inl (DbNumber e) | Inr x \<Rightarrow> Inr x)"

lemma lift_exit_Inr [simp]: "lift_exit (Inr x) = Inr x"
  by (simp add: lift_exit_def)

lemma lift_num_Inr [simp]: "lift_num (Inr x) = Inr x"
  by (simp add: lift_num_def)

abbreviation dec :: "'a::len word \<Rightarrow> string" where
  "dec n \<equiv> to_string (unat n)"

section \<open>Readers\<close>

text \<open>The two virtual methods through which every getter reads.\<close>

record db_reader =
  ReadData :: "string \<Rightarrow> string \<Rightarrow> (db_error, DBStatus \<times> string) result"
  MultiReadData :: "string list \<Rightarrow> string list \<Rightarrow> (db_error, DBStatus \<times> string list) result"

definition read_status :: "bool \<times> string \<times> status \<Rightarrow> DBStatus \<times> string" where
  "read_status r = (case r of (ok, v, st) \<Rightarrow>
     if ok then (DB_SUCCESS, v) else if st = StNotFound then (DB_NOT_FOUND, []) else (DB_ERROR, v))"

definition multi_status :: "nat \<Rightarrow> bool \<times> string list \<times> status list \<Rightarrow> DBStatus \<times> string list" where
  "multi_status n r = (case r of (ok, vs, sts) \<Rightarrow>
     (if ok then (if n \<noteq> length vs then DB_ERROR else DB_SUCCESS)
      else if StNotFound \<in> set sts then DB_NOT_FOUND else DB_ERROR, vs))"

definition DBReader_ReadData :: "'s rocksdb \<Rightarrow> 's rw \<Rightarrow> string \<Rightarrow> string \<Rightarrow> (db_error, DBStatus \<times> string) result" where
  "DBReader_ReadData api w key value =
     (if key = [] then Inr (DB_PARAM_NULL, value)
      else bindE (lift_exit (R_ReadData api w key value)) (\<lambda>r. Inr (read_status r)))"

definition DBReader_MultiReadData :: "'s rocksdb \<Rightarrow> 's rw \<Rightarrow> string list \<Rightarrow> string list \<Rightarrow>
    (db_error, DBStatus \<times> string list) result" where
  "DBReader_MultiReadData api w keys values =
     (if keys = [] then Inr (DB_PARAM_NULL, values)
      else bindE (lift_exit (R_MultiReadData api w keys values)) (\<lambda>r. Inr (multi_status (length keys) r)))"

definition DBReadWriter_ReadData :: "'s rocksdb \<Rightarrow> 's rw \<Rightarrow> string \<Rightarrow> string \<Rightarrow> (db_error, DBStatus \<times> string) result" where
  "DBReadWriter_ReadData api w key value =
     (if key = [] then Inr (DB_PARAM_NULL, value)
      else bindE (lift_exit (RW_ReadData api w key value)) (\<lambda>r. Inr (read_status r)))"

definition DBReadWriter_MultiReadData :: "'s rocksdb \<Rightarrow> 's rw \<Rightarrow> string list \<Rightarrow> string list \<Rightarrow>
    (db_error, DBStatus \<times> string list) result" where
  "DBReadWriter_MultiReadData api w keys values =
     (if keys = [] then Inr (DB_PARAM_NULL, values)
      else bindE (lift_exit (RW_MultiReadData api w keys values)) (\<lambda>r. Inr (multi_status (length keys) r)))"

definition DBReader :: "'s rocksdb \<Rightarrow> 's rw \<Rightarrow> db_reader" where
  "DBReader api w = \<lparr>ReadData = DBReader_ReadData api w, MultiReadData = DBReader_MultiReadData api w\<rparr>"

definition DBReadWriter_reader :: "'s rocksdb \<Rightarrow> 's rw \<Rightarrow> db_reader" where
  "DBReadWriter_reader api w =
     \<lparr>ReadData = DBReadWriter_ReadData api w, MultiReadData = DBReadWriter_MultiReadData api w\<rparr>"

text \<open>
  The three shapes of a getter's body: split the value at underscores into the output
  vector, parse it as a number, or hand the value over.
\<close>

type_synonym 'a getter = "(db_error, DBStatus \<times> 'a) result"

definition split_to :: "string \<Rightarrow> string list \<Rightarrow> string list" where
  "split_to value out = (case SplitString value ''_'' out of Some xs \<Rightarrow> xs | None \<Rightarrow> out)"

definition read_list :: "db_reader \<Rightarrow> string \<Rightarrow> string list \<Rightarrow> string list getter" where
  "read_list rd db_key out = bindE (ReadData rd db_key []) (\<lambda>(ret, value).
     Inr (ret, if ret = DB_SUCCESS then split_to value out else out))"

definition read_unsigned :: "db_reader \<Rightarrow> string \<Rightarrow> 'w::len word \<Rightarrow> 'w word getter" where
  "read_unsigned rd db_key out = bindE (ReadData rd db_key []) (\<lambda>(ret, value).
     if ret = DB_SUCCESS then bindE (lift_num (stoul value)) (\<lambda>n. Inr (ret, word_of_nat n))
     else Inr (ret, out))"

section \<open>Getters of DBReader\<close>

definition GetBlockHeightByBlockHash :: "db_reader \<Rightarrow> string \<Rightarrow> u32 \<Rightarrow> u32 getter" where
  "GetBlockHeightByBlockHash rd blockHash out =
     (if blockHash = [] then Inr (DB_PARAM_NULL, out)
      else read_unsigned rd (kBlockHash2BlockHeightKey @ blockHash) out)"

definition GetBlockHashsByBlockHeight :: "db_reader \<Rightarrow> u64 \<Rightarrow> string list \<Rightarrow> string list getter" where
  "GetBlockHashsByBlockHeight rd blockHeight out =
     read_list rd (kBlockHeight2BlockHashKey @ dec blockHeight) out"

definition GetBlockByBlockHash :: "db_reader \<Rightarrow> string \<Rightarrow> string \<Rightarrow> string getter" where
  "GetBlockByBlockHash rd blockHash out =
     (if blockHash = [] then Inr (DB_PARAM_NULL, out)
      else ReadData rd (kBlockHash2BlcokRawKey @ blockHash) out)"

definition GetSumHashByHeight :: "db_reader \<Rightarrow> u64 \<Rightarrow> string \<Rightarrow> string getter" where
  "GetSumHashByHeight rd height out =
     (if height mod 100 \<noteq> 0 \<or> height = 0 then Inr (DB_PARAM_NULL, out)
      else ReadData rd (kBlockHeight2SumHash @ dec height) out)"

definition GetCheckBlockHashsByBlockHeight :: "db_reader \<Rightarrow> u64 \<Rightarrow> string \<Rightarrow> string getter" where
  "GetCheckBlockHashsByBlockHeight rd blockHeight out =
     (if blockHeight mod 1000 \<noteq> 0 \<or> blockHeight = 0 then Inr (DB_PARAM_NULL, out)
      else ReadData rd (kBlockHeight2thousandSumHash @ dec blockHeight) out)"

definition GetTopThousandSumhash :: "db_reader \<Rightarrow> u64 \<Rightarrow> u64 getter" where
  "GetTopThousandSumhash rd out =
     read_unsigned rd kTopThousandSumhashKey out"

definition GetBlockTop :: "db_reader \<Rightarrow> u64 \<Rightarrow> u64 getter" where
  "GetBlockTop rd out =
     read_unsigned rd kBlockTopKey out"

definition GetUtxoHashsByAddress :: "db_reader \<Rightarrow> string \<Rightarrow> string list \<Rightarrow> string list getter" where
  "GetUtxoHashsByAddress rd address out =
     read_list rd (kAddress2UtxoKey @ address) out"

definition GetUtxoValueByUtxoHashs :: "db_reader \<Rightarrow> string \<Rightarrow> string \<Rightarrow> string \<Rightarrow> string getter" where
  "GetUtxoValueByUtxoHashs rd utxoHash address out =
     ReadData rd (address @ ''_'' @ utxoHash) out"

definition GetTransactionByHash :: "db_reader \<Rightarrow> string \<Rightarrow> string \<Rightarrow> string getter" where
  "GetTransactionByHash rd txHash out =
     ReadData rd (kTransactionHash2TransactionRawKey @ txHash) out"

definition GetBlockHashByTransactionHash :: "db_reader \<Rightarrow> string \<Rightarrow> string \<Rightarrow> string getter" where
  "GetBlockHashByTransactionHash rd txHash out =
     ReadData rd (kTransactionHash2BlockHashKey @ txHash) out"

definition GetTransactionByAddress :: "db_reader \<Rightarrow> string \<Rightarrow> u32 \<Rightarrow> string \<Rightarrow> string getter" where
  "GetTransactionByAddress rd address txNum out =
     ReadData rd (kAddress2TransactionRawKey @ address @ ''_'' @ dec txNum) out"

definition GetBlockHashByAddress :: "db_reader \<Rightarrow> string \<Rightarrow> u32 \<Rightarrow> string \<Rightarrow> string getter" where
  "GetBlockHashByAddress rd address txNum out =
     ReadData rd (kAddress2BlcokHashKey @ address @ ''_'' @ dec txNum) out"

definition GetTransactionTopByAddress :: "db_reader \<Rightarrow> string \<Rightarrow> u32 \<Rightarrow> u32 getter" where
  "GetTransactionTopByAddress rd address out =
     read_unsigned rd (kAddress2TransactionTopKey @ address) out"

definition GetBalanceByAddress :: "db_reader \<Rightarrow> string \<Rightarrow> int \<Rightarrow> int getter" where
  "GetBalanceByAddress rd address out =
     bindE (ReadData rd (kAddress2BalanceKey @ address) []) (\<lambda>(ret, value).
     if ret = DB_SUCCESS then bindE (lift_num (stol value)) (\<lambda>i. Inr (ret, i)) else Inr (ret, out))"

definition GetStakeAddress :: "db_reader \<Rightarrow> string list \<Rightarrow> string list getter" where
  "GetStakeAddress rd out =
     read_list rd kStakeAddrKey out"

definition GetStakeAddressUtxo :: "db_reader \<Rightarrow> string \<Rightarrow> string list \<Rightarrow> string list getter" where
  "GetStakeAddressUtxo rd address out =
     read_list rd (kStakeAddrKey @ address) out"

definition GetMutliSignAddress :: "db_reader \<Rightarrow> string list \<Rightarrow> string list getter" where
  "GetMutliSignAddress rd out =
     read_list rd kMutliSignKey out"

definition GetMutliSignAddressUtxo :: "db_reader \<Rightarrow> string \<Rightarrow> string list \<Rightarrow> string list getter" where
  "GetMutliSignAddressUtxo rd address out =
     read_list rd (kMutliSignKey @ address) out"

definition GetBonusaddr :: "db_reader \<Rightarrow> string list \<Rightarrow> string list getter" where
  "GetBonusaddr rd out =
     read_list rd kBonusAddrKey out"

definition GetInvestAddrsByBonusAddr :: "db_reader \<Rightarrow> string \<Rightarrow> string list \<Rightarrow> string list getter" where
  "GetInvestAddrsByBonusAddr rd bonusAddr out =
     read_list rd (kBonusAddr2InvestAddrKey @ bonusAddr) out"

definition GetBonusAddrByInvestAddr :: "db_reader \<Rightarrow> string \<Rightarrow> string list \<Rightarrow> string list getter" where
  "GetBonusAddrByInvestAddr rd address out =
     read_list rd (kInvestAddr2BonusAddrKey @ address) out"

definition GetBonusAddrInvestUtxosByBonusAddr :: "db_reader \<Rightarrow> string \<Rightarrow> string \<Rightarrow> string list \<Rightarrow> string list getter" where
  "GetBonusAddrInvestUtxosByBonusAddr rd addr address out =
     read_list rd (kBonusAddrInvestAddr2InvestAddrUtxo @ addr @ ''_'' @ address) out"

definition GetBonusUtxoByPeriod :: "db_reader \<Rightarrow> u64 \<Rightarrow> string list \<Rightarrow> string list getter" where
  "GetBonusUtxoByPeriod rd period out =
     read_list rd (kBonusUtxoKey @ dec period) out"

definition GetInvestUtxoByPeriod :: "db_reader \<Rightarrow> u64 \<Rightarrow> string list \<Rightarrow> string list getter" where
  "GetInvestUtxoByPeriod rd period out =
     read_list rd (kInvestUtxoKey @ dec period) out"

definition GetSignNumberByPeriod :: "db_reader \<Rightarrow> u64 \<Rightarrow> string \<Rightarrow> u64 \<Rightarrow> u64 getter" where
  "GetSignNumberByPeriod rd period address out =
     read_unsigned rd (kSignNumberKey @ dec period @ address) out"

definition GetBlockNumberByPeriod :: "db_reader \<Rightarrow> u64 \<Rightarrow> u64 \<Rightarrow> u64 getter" where
  "GetBlockNumberByPeriod rd period out =
     read_unsigned rd (kBlockNumberKey @ dec period) out"

definition GetSignAddrByPeriod :: "db_reader \<Rightarrow> u64 \<Rightarrow> string list \<Rightarrow> string list getter" where
  "GetSignAddrByPeriod rd period out =
     read_list rd (kSignAddrKey @ dec period) out"

definition GetburnAmountByPeriod :: "db_reader \<Rightarrow> u64 \<Rightarrow> u64 \<Rightarrow> u64 getter" where
  "GetburnAmountByPeriod rd period out =
     read_unsigned rd (kburnAmountKey @ dec period) out"

definition GetDM :: "db_reader \<Rightarrow> u64 \<Rightarrow> u64 getter" where
  "GetDM rd out =
     read_unsigned rd kDM out"

definition GetTotalInvestAmount :: "db_reader \<Rightarrow> u64 \<Rightarrow> u64 getter" where
  "GetTotalInvestAmount rd out =
     read_unsigned rd kTotalInvestAmount out"

definition GetM2 :: "db_reader \<Rightarrow> u64 \<Rightarrow> u64 getter" where
  "GetM2 rd out =
     read_unsigned rd kM2 out"

definition GetAllEvmDeployerAddr :: "db_reader \<Rightarrow> string list \<Rightarrow> string list getter" where
  "GetAllEvmDeployerAddr rd out =
     read_list rd kEvmAllDeployerAddr out"

definition GetContractAddrByDeployerAddr :: "db_reader \<Rightarrow> string \<Rightarrow> string list \<Rightarrow> string list getter" where
  "GetContractAddrByDeployerAddr rd deployerAddr out =
     read_list rd (kDeployerAddr2ContractAddr @ deployerAddr) out"

definition GetContractCodeByContractAddr :: "db_reader \<Rightarrow> string \<Rightarrow> string \<Rightarrow> string getter" where
  "GetContractCodeByContractAddr rd contractAddr out =
     ReadData rd (kContractAddr2ContractCode @ contractAddr) out"

definition GetContractDeployUtxoByContractAddr :: "db_reader \<Rightarrow> string \<Rightarrow> string \<Rightarrow> string getter" where
  "GetContractDeployUtxoByContractAddr rd contractAddr out =
     ReadData rd (kContractAddr2DeployUtxo @ contractAddr) out"

definition GetLatestUtxoByContractAddr :: "db_reader \<Rightarrow> string \<Rightarrow> string \<Rightarrow> string getter" where
  "GetLatestUtxoByContractAddr rd contractAddr out =
     ReadData rd (kContractAddr2LatestUtxo @ contractAddr) out"

definition GetMptValueByMptKey :: "db_reader \<Rightarrow> string \<Rightarrow> string \<Rightarrow> string getter" where
  "GetMptValueByMptKey rd mptKey out =
     ReadData rd (kContractMptK @ mptKey) out"

definition GetInitVer :: "db_reader \<Rightarrow> string \<Rightarrow> string getter" where
  "GetInitVer rd out =
     bindE (ReadData rd kInitVersionKey []) (\<lambda>(ret, tmpversion).
     Inr (ret, if ret = DB_SUCCESS then tmpversion else out))"

definition GetBlockHashByBlockHeight :: "db_reader \<Rightarrow> u64 \<Rightarrow> string \<Rightarrow> string getter" where
  "GetBlockHashByBlockHeight rd blockHeight hash =
     bindE (GetBlockHashsByBlockHeight rd blockHeight []) (\<lambda>(ret, hashes).
       Inr (ret, if ret = DB_SUCCESS \<and> hashes \<noteq> [] then hashes ! 0 else hash))"

text \<open>
  The loop over the heights compares a 64-bit counter with \<open>endHeight\<close>; with the largest
  value the comparison never fails and the loop does not end.
\<close>

definition heights :: "u64 \<Rightarrow> u64 \<Rightarrow> (db_error, u64 list) result" where
  "heights startHeight endHeight =
     (if unat endHeight = 2 ^ 64 - 1 then Inl DbDiverges
      else Inr (map word_of_nat [unat startHeight..<Suc (unat endHeight)]))"

definition GetBlockHashesByBlockHeight :: "db_reader \<Rightarrow> u64 \<Rightarrow> u64 \<Rightarrow> string list \<Rightarrow> string list getter" where
  "GetBlockHashesByBlockHeight rd startHeight endHeight blockHashes =
     bindE (heights startHeight endHeight) (\<lambda>hs.
     bindE (MultiReadData rd (map (\<lambda>h. kBlockHeight2BlockHashKey @ dec h) hs) []) (\<lambda>(ret, values).
       if values = [] \<and> ret \<noteq> DB_SUCCESS then Inr (ret, blockHashes)
       else Inr (ret, concat (map (\<lambda>value. split_to value []) values))))"

definition GetBlocksByBlockHash :: "db_reader \<Rightarrow> string list \<Rightarrow> string list \<Rightarrow> string list getter" where
  "GetBlocksByBlockHash rd blockHashes blocks =
     MultiReadData rd (map (\<lambda>hash. kBlockHash2BlcokRawKey @ hash) blockHashes) blocks"

lemmas getter_defs =
  GetBlockHeightByBlockHash_def
  GetBlockHashsByBlockHeight_def
  GetBlockByBlockHash_def
  GetSumHashByHeight_def
  GetCheckBlockHashsByBlockHeight_def
  GetTopThousandSumhash_def
  GetBlockTop_def
  GetUtxoHashsByAddress_def
  GetUtxoValueByUtxoHashs_def
  GetTransactionByHash_def
  GetBlockHashByTransactionHash_def
  GetTransactionByAddress_def
  GetBlockHashByAddress_def
  GetTransactionTopByAddress_def
  GetBalanceByAddress_def
  GetStakeAddress_def
  GetStakeAddressUtxo_def
  GetMutliSignAddress_def
  GetMutliSignAddressUtxo_def
  GetBonusaddr_def
  GetInvestAddrsByBonusAddr_def
  GetBonusAddrByInvestAddr_def
  GetBonusAddrInvestUtxosByBonusAddr_def
  GetBonusUtxoByPeriod_def
  GetInvestUtxoByPeriod_def
  GetSignNumberByPeriod_def
  GetBlockNumberByPeriod_def
  GetSignAddrByPeriod_def
  GetburnAmountByPeriod_def
  GetDM_def
  GetTotalInvestAmount_def
  GetM2_def
  GetAllEvmDeployerAddr_def
  GetContractAddrByDeployerAddr_def
  GetContractCodeByContractAddr_def
  GetContractDeployUtxoByContractAddr_def
  GetLatestUtxoByContractAddr_def
  GetMptValueByMptKey_def
  GetInitVer_def

section \<open>DBReadWriter\<close>

text \<open>
  The bonus cache of \<open>db/cache.h\<close> is a process-wide object that two of the setters
  touch; its state travels with the writer.
\<close>

record BonusAddrInfo =
  dirty :: bool
  amount :: u64
  utxos :: "string set"
  time :: u64

definition new_BonusAddrInfo :: BonusAddrInfo where
  "new_BonusAddrInfo = \<lparr>dirty = True, amount = 0, utxos = {}, time = 0\<rparr>"

type_synonym bonus_cache = "string \<rightharpoonup> BonusAddrInfo"

text \<open>\<open>bonus_addr_[bonusAddr]\<close>: the map inserts a fresh entry when there is none.\<close>

definition bonus_entry :: "bonus_cache \<Rightarrow> string \<Rightarrow> BonusAddrInfo" where
  "bonus_entry c bonusAddr = (case c bonusAddr of None \<Rightarrow> new_BonusAddrInfo | Some i \<Rightarrow> i)"

definition isDirty :: "bonus_cache \<Rightarrow> string \<Rightarrow> bool \<Rightarrow> bonus_cache" where
  "isDirty c bonusAddr d = c(bonusAddr \<mapsto> (bonus_entry c bonusAddr)\<lparr>dirty := d\<rparr>)"

record 's db_writer =
  auto_oper_trans :: bool
  db_read_writer :: "'s rw"
  bonus :: bonus_cache

type_synonym 's setter = "(db_error, 's db_writer \<times> DBStatus) result"

definition done_status :: "'s db_writer \<Rightarrow> 's rw \<times> bool \<times> status \<Rightarrow> 's db_writer \<times> DBStatus" where
  "done_status d r = (case r of (w, ok, st) \<Rightarrow>
     (d\<lparr>db_read_writer := w\<rparr>, if ok then DB_SUCCESS else DB_ERROR))"

definition MergeValue :: "'s rocksdb \<Rightarrow> 's db_writer \<Rightarrow> string \<Rightarrow> string \<Rightarrow> bool \<Rightarrow> 's setter" where
  "MergeValue api d key value firstOrLast =
     bindE (lift_exit (RW_MergeValue api (db_read_writer d) key value firstOrLast)) (\<lambda>r. Inr (done_status d r))"

definition RemoveMergeValue :: "'s rocksdb \<Rightarrow> 's db_writer \<Rightarrow> string \<Rightarrow> string \<Rightarrow> 's setter" where
  "RemoveMergeValue api d key value =
     bindE (lift_exit (RW_RemoveMergeValue api (db_read_writer d) key value)) (\<lambda>r. Inr (done_status d r))"

definition WriteData :: "'s rocksdb \<Rightarrow> 's db_writer \<Rightarrow> string \<Rightarrow> string \<Rightarrow> 's setter" where
  "WriteData api d key value = Inr (done_status d (RW_WriteData api (db_read_writer d) key value))"

definition DeleteData :: "'s rocksdb \<Rightarrow> 's db_writer \<Rightarrow> string \<Rightarrow> 's setter" where
  "DeleteData api d key = Inr (done_status d (RW_DeleteData api (db_read_writer d) key))"

subsection \<open>Transactions\<close>

definition DBReadWriter_TransactionRollBack :: "'s rocksdb \<Rightarrow> 's db_writer \<Rightarrow> 's db_writer \<times> DBStatus" where
  "DBReadWriter_TransactionRollBack api d =
     (if auto_oper_trans d then
        (case TransactionRollBack api (db_read_writer d) StOk of (w, ok, st) \<Rightarrow>
          (d\<lparr>db_read_writer := w\<rparr>, if \<not> ok then DB_ERROR else DB_SUCCESS))
      else (d, DB_SUCCESS))"

definition ReTransactionInit :: "'s rocksdb \<Rightarrow> 's db_writer \<Rightarrow> 's db_writer \<times> DBStatus" where
  "ReTransactionInit api d =
     (case DBReadWriter_TransactionRollBack api d of (d1, ret) \<Rightarrow>
        if ret \<noteq> DB_SUCCESS then (d1, ret)
        else case TransactionInit api (db_read_writer d1) of (w, ok) \<Rightarrow>
          (d1\<lparr>auto_oper_trans := True, db_read_writer := w\<rparr>, if ok then DB_SUCCESS else DB_ERROR))"

definition DBReadWriter_TransactionCommit :: "'s rocksdb \<Rightarrow> 's db_writer \<Rightarrow> 's db_writer \<times> DBStatus" where
  "DBReadWriter_TransactionCommit api d =
     (case TransactionCommit api (db_read_writer d) of (w, ok, st) \<Rightarrow>
        if ok then (d\<lparr>db_read_writer := w, auto_oper_trans := False\<rparr>, DB_SUCCESS)
        else (d\<lparr>db_read_writer := w\<rparr>, DB_ERROR))"

text \<open>The constructor, on a database \<open>s\<close> that is open or not.\<close>

definition DBReadWriter :: "'s rocksdb \<Rightarrow> bool \<Rightarrow> 's \<Rightarrow> bonus_cache \<Rightarrow> 's db_writer" where
  "DBReadWriter api init s c =
     fst (ReTransactionInit api
       \<lparr>auto_oper_trans = False,
        db_read_writer = \<lparr>is_init_success = init, txn_open = False, store = s\<rparr>, bonus = c\<rparr>)"

definition DBReadWriter_delete :: "'s rocksdb \<Rightarrow> 's db_writer \<Rightarrow> 's db_writer" where
  "DBReadWriter_delete api d = fst (DBReadWriter_TransactionRollBack api d)"

section \<open>Setters of DBReadWriter\<close>

definition SetBlockHeightByBlockHash :: "'s rocksdb \<Rightarrow> 's db_writer \<Rightarrow> string \<Rightarrow> u32 \<Rightarrow> 's setter" where
  "SetBlockHeightByBlockHash api d blockHash blockHeight =
     WriteData api d (kBlockHash2BlockHeightKey @ blockHash) (dec blockHeight)"

definition DeleteBlockHeightByBlockHash :: "'s rocksdb \<Rightarrow> 's db_writer \<Rightarrow> string \<Rightarrow> 's setter" where
  "DeleteBlockHeightByBlockHash api d blockHash =
     DeleteData api d (kBlockHash2BlockHeightKey @ blockHash)"

definition SetBlockHashByBlockHeight :: "'s rocksdb \<Rightarrow> 's db_writer \<Rightarrow> u32 \<Rightarrow> string \<Rightarrow> bool \<Rightarrow> 's setter" where
  "SetBlockHashByBlockHeight api d blockHeight blockHash isMainBlock =
     MergeValue api d (kBlockHeight2BlockHashKey @ dec blockHeight) blockHash isMainBlock"

definition RemoveBlockHashByBlockHeight :: "'s rocksdb \<Rightarrow> 's db_writer \<Rightarrow> u32 \<Rightarrow> string \<Rightarrow> 's setter" where
  "RemoveBlockHashByBlockHeight api d blockHeight blockHash =
     RemoveMergeValue api d (kBlockHeight2BlockHashKey @ dec blockHeight) blockHash"

definition SetBlockByBlockHash :: "'s rocksdb \<Rightarrow> 's db_writer \<Rightarrow> string \<Rightarrow> string \<Rightarrow> 's setter" where
  "SetBlockByBlockHash api d blockHash block =
     WriteData api d (kBlockHash2BlcokRawKey @ blockHash) block"

definition DeleteBlockByBlockHash :: "'s rocksdb \<Rightarrow> 's db_writer \<Rightarrow> string \<Rightarrow> 's setter" where
  "DeleteBlockByBlockHash api d blockHash =
     DeleteData api d (kBlockHash2BlcokRawKey @ blockHash)"

definition SetSumHashByHeight :: "'s rocksdb \<Rightarrow> 's db_writer \<Rightarrow> u64 \<Rightarrow> string \<Rightarrow> 's setter" where
  "SetSumHashByHeight api d height sumHash =
     WriteData api d (kBlockHeight2SumHash @ dec height) sumHash"

definition RemoveSumHashByHeight :: "'s rocksdb \<Rightarrow> 's db_writer \<Rightarrow> u64 \<Rightarrow> 's setter" where
  "RemoveSumHashByHeight api d height =
     DeleteData api d (kBlockHeight2SumHash @ dec height)"

definition SetCheckBlockHashsByBlockHeight :: "'s rocksdb \<Rightarrow> 's db_writer \<Rightarrow> u64 \<Rightarrow> string \<Rightarrow> 's setter" where
  "SetCheckBlockHashsByBlockHeight api d blockHeight sumHash =
     WriteData api d (kBlockHeight2thousandSumHash @ dec blockHeight) sumHash"

definition RemoveCheckBlockHashsByBlockHeight :: "'s rocksdb \<Rightarrow> 's db_writer \<Rightarrow> u64 \<Rightarrow> 's setter" where
  "RemoveCheckBlockHashsByBlockHeight api d blockHeight =
     DeleteData api d (kBlockHeight2thousandSumHash @ dec blockHeight)"

definition SetTopThousandSumhash :: "'s rocksdb \<Rightarrow> 's db_writer \<Rightarrow> u64 \<Rightarrow> 's setter" where
  "SetTopThousandSumhash api d thousandNum =
     WriteData api d kTopThousandSumhashKey (dec thousandNum)"

definition RemoveTopThousandSumhash :: "'s rocksdb \<Rightarrow> 's db_writer \<Rightarrow> u64 \<Rightarrow> 's setter" where
  "RemoveTopThousandSumhash api d thousandNum =
     DeleteData api d kTopThousandSumhashKey"

definition SetBlockTop :: "'s rocksdb \<Rightarrow> 's db_writer \<Rightarrow> u32 \<Rightarrow> 's setter" where
  "SetBlockTop api d blockHeight =
     WriteData api d kBlockTopKey (dec blockHeight)"

definition SetUtxoHashsByAddress :: "'s rocksdb \<Rightarrow> 's db_writer \<Rightarrow> string \<Rightarrow> string \<Rightarrow> 's setter" where
  "SetUtxoHashsByAddress api d address utxoHash =
     MergeValue api d (kAddress2UtxoKey @ address) utxoHash False"

definition RemoveUtxoHashsByAddress :: "'s rocksdb \<Rightarrow> 's db_writer \<Rightarrow> string \<Rightarrow> string \<Rightarrow> 's setter" where
  "RemoveUtxoHashsByAddress api d address utxoHash =
     RemoveMergeValue api d (kAddress2UtxoKey @ address) utxoHash"

definition SetUtxoValueByUtxoHashs :: "'s rocksdb \<Rightarrow> 's db_writer \<Rightarrow> string \<Rightarrow> string \<Rightarrow> string \<Rightarrow> 's setter" where
  "SetUtxoValueByUtxoHashs api d utxoHash address balance =
     WriteData api d (address @ ''_'' @ utxoHash) balance"

definition RemoveUtxoValueByUtxoHashs :: "'s rocksdb \<Rightarrow> 's db_writer \<Rightarrow> string \<Rightarrow> string \<Rightarrow> string \<Rightarrow> 's setter" where
  "RemoveUtxoValueByUtxoHashs api d utxoHash address balance =
     DeleteData api d (address @ ''_'' @ utxoHash)"

definition SetTransactionByHash :: "'s rocksdb \<Rightarrow> 's db_writer \<Rightarrow> string \<Rightarrow> string \<Rightarrow> 's setter" where
  "SetTransactionByHash api d txHash txRaw =
     WriteData api d (kTransactionHash2TransactionRawKey @ txHash) txRaw"

definition DeleteTransactionByHash :: "'s rocksdb \<Rightarrow> 's db_writer \<Rightarrow> string \<Rightarrow> 's setter" where
  "DeleteTransactionByHash api d txHash =
     DeleteData api d (kTransactionHash2TransactionRawKey @ txHash)"

definition SetBlockHashByTransactionHash :: "'s rocksdb \<Rightarrow> 's db_writer \<Rightarrow> string \<Rightarrow> string \<Rightarrow> 's setter" where
  "SetBlockHashByTransactionHash api d txHash blockHash =
     WriteData api d (kTransactionHash2BlockHashKey @ txHash) blockHash"

definition DeleteBlockHashByTransactionHash :: "'s rocksdb \<Rightarrow> 's db_writer \<Rightarrow> string \<Rightarrow> 's setter" where
  "DeleteBlockHashByTransactionHash api d txHash =
     DeleteData api d (kTransactionHash2BlockHashKey @ txHash)"

definition SetTransactionByAddress :: "'s rocksdb \<Rightarrow> 's db_writer \<Rightarrow> string \<Rightarrow> u32 \<Rightarrow> string \<Rightarrow> 's setter" where
  "SetTransactionByAddress api d address txNum txRaw =
     WriteData api d (kAddress2TransactionRawKey @ address @ ''_'' @ dec txNum) txRaw"

definition DeleteTransactionByAddress :: "'s rocksdb \<Rightarrow> 's db_writer \<Rightarrow> string \<Rightarrow> u32 \<Rightarrow> 's setter" where
  "DeleteTransactionByAddress api d address txNum =
     DeleteData api d (kAddress2TransactionRawKey @ address @ ''_'' @ dec txNum)"

definition SetBlockHashByAddress :: "'s rocksdb \<Rightarrow> 's db_writer \<Rightarrow> string \<Rightarrow> u32 \<Rightarrow> string \<Rightarrow> 's setter" where
  "SetBlockHashByAddress api d address txNum blockHash =
     WriteData api d (kAddress2BlcokHashKey @ address @ ''_'' @ dec txNum) blockHash"

definition DeleteBlockHashByAddress :: "'s rocksdb \<Rightarrow> 's db_writer \<Rightarrow> string \<Rightarrow> u32 \<Rightarrow> 's setter" where
  "DeleteBlockHashByAddress api d address txNum =
     DeleteData api d (kAddress2BlcokHashKey @ address @ ''_'' @ dec txNum)"

definition SetTransactionTopByAddress :: "'s rocksdb \<Rightarrow> 's db_writer \<Rightarrow> string \<Rightarrow> u32 \<Rightarrow> 's setter" where
  "SetTransactionTopByAddress api d address txIndex =
     WriteData api d (kAddress2TransactionTopKey @ address) (dec txIndex)"

definition SetBalanceByAddress :: "'s rocksdb \<Rightarrow> 's db_writer \<Rightarrow> string \<Rightarrow> u64 \<Rightarrow> 's setter" where
  "SetBalanceByAddress api d address balance =
     WriteData api d (kAddress2BalanceKey @ address) (to_string_int (sint balance))"

definition DeleteBalanceByAddress :: "'s rocksdb \<Rightarrow> 's db_writer \<Rightarrow> string \<Rightarrow> 's setter" where
  "DeleteBalanceByAddress api d address =
     DeleteData api d (kAddress2BalanceKey @ address)"

definition SetStakeAddresses :: "'s rocksdb \<Rightarrow> 's db_writer \<Rightarrow> string \<Rightarrow> 's setter" where
  "SetStakeAddresses api d address =
     MergeValue api d kStakeAddrKey address False"

definition RemoveStakeAddresses :: "'s rocksdb \<Rightarrow> 's db_writer \<Rightarrow> string \<Rightarrow> 's setter" where
  "RemoveStakeAddresses api d address =
     RemoveMergeValue api d kStakeAddrKey address"

definition SetMutliSignAddresses :: "'s rocksdb \<Rightarrow> 's db_writer \<Rightarrow> string \<Rightarrow> 's setter" where
  "SetMutliSignAddresses api d address =
     MergeValue api d kMutliSignKey address False"

definition RemoveMutliSignAddresses :: "'s rocksdb \<Rightarrow> 's db_writer \<Rightarrow> string \<Rightarrow> 's setter" where
  "RemoveMutliSignAddresses api d address =
     RemoveMergeValue api d kMutliSignKey address"

definition SetStakeAddressUtxo :: "'s rocksdb \<Rightarrow> 's db_writer \<Rightarrow> string \<Rightarrow> string \<Rightarrow> 's setter" where
  "SetStakeAddressUtxo api d stakeAddr utxo =
     MergeValue api d (kStakeAddrKey @ stakeAddr) utxo False"

definition RemoveStakeAddressUtxo :: "'s rocksdb \<Rightarrow> 's db_writer \<Rightarrow> string \<Rightarrow> string \<Rightarrow> 's setter" where
  "RemoveStakeAddressUtxo api d stakeAddr utxo =
     RemoveMergeValue api d (kStakeAddrKey @ stakeAddr) utxo"

definition SetMutliSignAddressUtxo :: "'s rocksdb \<Rightarrow> 's db_writer \<Rightarrow> string \<Rightarrow> string \<Rightarrow> 's setter" where
  "SetMutliSignAddressUtxo api d address utxo =
     MergeValue api d (kMutliSignKey @ address) utxo False"

definition RemoveMutliSignAddressUtxo :: "'s rocksdb \<Rightarrow> 's db_writer \<Rightarrow> string \<Rightarrow> string \<Rightarrow> 's setter" where
  "RemoveMutliSignAddressUtxo api d address utxo =
     RemoveMergeValue api d (kMutliSignKey @ address) utxo"

definition SetBonusAddr :: "'s rocksdb \<Rightarrow> 's db_writer \<Rightarrow> string \<Rightarrow> 's setter" where
  "SetBonusAddr api d bonusAddr =
     MergeValue api d kBonusAddrKey bonusAddr False"

definition RemoveBonusAddr :: "'s rocksdb \<Rightarrow> 's db_writer \<Rightarrow> string \<Rightarrow> 's setter" where
  "RemoveBonusAddr api d bonusAddr =
     RemoveMergeValue api d kBonusAddrKey bonusAddr"

definition SetInvestAddrByBonusAddr :: "'s rocksdb \<Rightarrow> 's db_writer \<Rightarrow> string \<Rightarrow> string \<Rightarrow> 's setter" where
  "SetInvestAddrByBonusAddr api d bonusAddr investAddr =
     MergeValue api d (kBonusAddr2InvestAddrKey @ bonusAddr) investAddr False"

definition RemoveInvestAddrByBonusAddr :: "'s rocksdb \<Rightarrow> 's db_writer \<Rightarrow> string \<Rightarrow> string \<Rightarrow> 's setter" where
  "RemoveInvestAddrByBonusAddr api d bonusAddr investAddr =
     RemoveMergeValue api d (kBonusAddr2InvestAddrKey @ bonusAddr) investAddr"

definition SetBonusAddrByInvestAddr :: "'s rocksdb \<Rightarrow> 's db_writer \<Rightarrow> string \<Rightarrow> string \<Rightarrow> 's setter" where
  "SetBonusAddrByInvestAddr api d investAddr bonusAddr =
     MergeValue api d (kInvestAddr2BonusAddrKey @ investAddr) bonusAddr False"

definition RemoveBonusAddrByInvestAddr :: "'s rocksdb \<Rightarrow> 's db_writer \<Rightarrow> string \<Rightarrow> string \<Rightarrow> 's setter" where
  "RemoveBonusAddrByInvestAddr api d investAddr bonusAddr =
     RemoveMergeValue api d (kInvestAddr2BonusAddrKey @ investAddr) bonusAddr"

definition SetBonusAddrInvestAddrUtxoByBonusAddr :: "'s rocksdb \<Rightarrow> 's db_writer \<Rightarrow> string \<Rightarrow> string \<Rightarrow> string \<Rightarrow> 's setter" where
  "SetBonusAddrInvestAddrUtxoByBonusAddr api d bonusAddr investAddr utxo =
     MergeValue api (d\<lparr>bonus := isDirty (bonus d) bonusAddr True\<rparr>) (kBonusAddrInvestAddr2InvestAddrUtxo @ bonusAddr @ ''_'' @ investAddr) utxo False"

definition RemoveBonusAddrInvestAddrUtxoByBonusAddr :: "'s rocksdb \<Rightarrow> 's db_writer \<Rightarrow> string \<Rightarrow> string \<Rightarrow> string \<Rightarrow> 's setter" where
  "RemoveBonusAddrInvestAddrUtxoByBonusAddr api d bonusAddr investAddr utxo =
     RemoveMergeValue api (d\<lparr>bonus := isDirty (bonus d) bonusAddr True\<rparr>) (kBonusAddrInvestAddr2InvestAddrUtxo @ bonusAddr @ ''_'' @ investAddr) utxo"

definition SetBonusUtxoByPeriod :: "'s rocksdb \<Rightarrow> 's db_writer \<Rightarrow> u64 \<Rightarrow> string \<Rightarrow> 's setter" where
  "SetBonusUtxoByPeriod api d period utxo =
     MergeValue api d (kBonusUtxoKey @ dec period) utxo False"

definition RemoveBonusUtxoByPeriod :: "'s rocksdb \<Rightarrow> 's db_writer \<Rightarrow> u64 \<Rightarrow> string \<Rightarrow> 's setter" where
  "RemoveBonusUtxoByPeriod api d period utxo =
     RemoveMergeValue api d (kBonusUtxoKey @ dec period) utxo"

definition SetInvestUtxoByPeriod :: "'s rocksdb \<Rightarrow> 's db_writer \<Rightarrow> u64 \<Rightarrow> string \<Rightarrow> 's setter" where
  "SetInvestUtxoByPeriod api d period utxo =
     MergeValue api d (kInvestUtxoKey @ dec period) utxo False"

definition RemoveInvestUtxoByPeriod :: "'s rocksdb \<Rightarrow> 's db_writer \<Rightarrow> u64 \<Rightarrow> string \<Rightarrow> 's setter" where
  "RemoveInvestUtxoByPeriod api d period utxo =
     RemoveMergeValue api d (kInvestUtxoKey @ dec period) utxo"

definition SetEvmDeployerAddr :: "'s rocksdb \<Rightarrow> 's db_writer \<Rightarrow> string \<Rightarrow> 's setter" where
  "SetEvmDeployerAddr api d deployerAddr =
     MergeValue api d kEvmAllDeployerAddr deployerAddr False"

definition RemoveEvmDeployerAddr :: "'s rocksdb \<Rightarrow> 's db_writer \<Rightarrow> string \<Rightarrow> 's setter" where
  "RemoveEvmDeployerAddr api d deployerAddr =
     RemoveMergeValue api d kEvmAllDeployerAddr deployerAddr"

definition SetContractAddrByDeployerAddr :: "'s rocksdb \<Rightarrow> 's db_writer \<Rightarrow> string \<Rightarrow> string \<Rightarrow> 's setter" where
  "SetContractAddrByDeployerAddr api d deployerAddr contractAddr =
     MergeValue api d (kDeployerAddr2ContractAddr @ deployerAddr) contractAddr False"

definition RemoveContractAddrByDeployerAddr :: "'s rocksdb \<Rightarrow> 's db_writer \<Rightarrow> string \<Rightarrow> string \<Rightarrow> 's setter" where
  "RemoveContractAddrByDeployerAddr api d deployerAddr contractAddr =
     RemoveMergeValue api d (kDeployerAddr2ContractAddr @ deployerAddr) contractAddr"

definition SetContractCodeByContractAddr :: "'s rocksdb \<Rightarrow> 's db_writer \<Rightarrow> string \<Rightarrow> string \<Rightarrow> 's setter" where
  "SetContractCodeByContractAddr api d contractAddr contractCode =
     WriteData api d (kContractAddr2ContractCode @ contractAddr) contractCode"

definition RemoveContractCodeByContractAddr :: "'s rocksdb \<Rightarrow> 's db_writer \<Rightarrow> string \<Rightarrow> 's setter" where
  "RemoveContractCodeByContractAddr api d contractAddr =
     DeleteData api d (kContractAddr2ContractCode @ contractAddr)"

definition SetContractDeployUtxoByContractAddr :: "'s rocksdb \<Rightarrow> 's db_writer \<Rightarrow> string \<Rightarrow> string \<Rightarrow> 's setter" where
  "SetContractDeployUtxoByContractAddr api d contractAddr contractDeployUtxo =
     WriteData api d (kContractAddr2DeployUtxo @ contractAddr) contractDeployUtxo"

definition RemoveContractDeployUtxoByContractAddr :: "'s rocksdb \<Rightarrow> 's db_writer \<Rightarrow> string \<Rightarrow> 's setter" where
  "RemoveContractDeployUtxoByContractAddr api d contractAddr =
     DeleteData api d (kContractAddr2DeployUtxo @ contractAddr)"

definition SetLatestUtxoByContractAddr :: "'s rocksdb \<Rightarrow> 's db_writer \<Rightarrow> string \<Rightarrow> string \<Rightarrow> 's setter" where
  "SetLatestUtxoByContractAddr api d contractAddr utxo =
     WriteData api d (kContractAddr2LatestUtxo @ contractAddr) utxo"

definition RemoveLatestUtxoByContractAddr :: "'s rocksdb \<Rightarrow> 's db_writer \<Rightarrow> string \<Rightarrow> 's setter" where
  "RemoveLatestUtxoByContractAddr api d contractAddr =
     DeleteData api d (kContractAddr2LatestUtxo @ contractAddr)"

definition SetMptValueByMptKey :: "'s rocksdb \<Rightarrow> 's db_writer \<Rightarrow> string \<Rightarrow> string \<Rightarrow> 's setter" where
  "SetMptValueByMptKey api d mptKey MptValue =
     WriteData api d (kContractMptK @ mptKey) MptValue"

definition RemoveMptValueByMptKey :: "'s rocksdb \<Rightarrow> 's db_writer \<Rightarrow> string \<Rightarrow> 's setter" where
  "RemoveMptValueByMptKey api d mptKey =
     DeleteData api d (kContractMptK @ mptKey)"

definition SetSignNumberByPeriod :: "'s rocksdb \<Rightarrow> 's db_writer \<Rightarrow> u64 \<Rightarrow> string \<Rightarrow> u64 \<Rightarrow> 's setter" where
  "SetSignNumberByPeriod api d period address SignNumber =
     WriteData api d (kSignNumberKey @ dec period @ address) (dec SignNumber)"

definition RemoveSignNumberByPeriod :: "'s rocksdb \<Rightarrow> 's db_writer \<Rightarrow> u64 \<Rightarrow> string \<Rightarrow> 's setter" where
  "RemoveSignNumberByPeriod api d period address =
     DeleteData api d (kSignNumberKey @ dec period @ address)"

definition SetBlockNumberByPeriod :: "'s rocksdb \<Rightarrow> 's db_writer \<Rightarrow> u64 \<Rightarrow> u64 \<Rightarrow> 's setter" where
  "SetBlockNumberByPeriod api d period BlockNumber =
     WriteData api d (kBlockNumberKey @ dec period) (dec BlockNumber)"

definition RemoveBlockNumberByPeriod :: "'s rocksdb \<Rightarrow> 's db_writer \<Rightarrow> u64 \<Rightarrow> 's setter" where
  "RemoveBlockNumberByPeriod api d period =
     DeleteData api d (kBlockNumberKey @ dec period)"

definition SetSignAddrByPeriod :: "'s rocksdb \<Rightarrow> 's db_writer \<Rightarrow> u64 \<Rightarrow> string \<Rightarrow> 's setter" where
  "SetSignAddrByPeriod api d period addr =
     MergeValue api d (kSignAddrKey @ dec period) addr False"

definition RemoveSignAddrberByPeriod :: "'s rocksdb \<Rightarrow> 's db_writer \<Rightarrow> u64 \<Rightarrow> string \<Rightarrow> 's setter" where
  "RemoveSignAddrberByPeriod api d period addr =
     RemoveMergeValue api d (kSignAddrKey @ dec period) addr"

definition SetburnAmountByPeriod :: "'s rocksdb \<Rightarrow> 's db_writer \<Rightarrow> u64 \<Rightarrow> u64 \<Rightarrow> 's setter" where
  "SetburnAmountByPeriod api d period burnAmount =
     WriteData api d (kburnAmountKey @ dec period) (dec burnAmount)"

definition RemoveburnAmountByPeriod :: "'s rocksdb \<Rightarrow> 's db_writer \<Rightarrow> u64 \<Rightarrow> u64 \<Rightarrow> 's setter" where
  "RemoveburnAmountByPeriod api d period burnAmount =
     DeleteData api d (kburnAmountKey @ dec period)"

definition SetDM :: "'s rocksdb \<Rightarrow> 's db_writer \<Rightarrow> u64 \<Rightarrow> 's setter" where
  "SetDM api d totalBurn =
     WriteData api d kDM (dec totalBurn)"

definition SetTotalInvestAmount :: "'s rocksdb \<Rightarrow> 's db_writer \<Rightarrow> u64 \<Rightarrow> 's setter" where
  "SetTotalInvestAmount api d totalInvest =
     WriteData api d kTotalInvestAmount (dec totalInvest)"

definition SetTotalCirculation :: "'s rocksdb \<Rightarrow> 's db_writer \<Rightarrow> u64 \<Rightarrow> 's setter" where
  "SetTotalCirculation api d totalCirculation =
     WriteData api d kM2 (dec totalCirculation)"

definition SetInitVer :: "'s rocksdb \<Rightarrow> 's db_writer \<Rightarrow> string \<Rightarrow> 's setter" where
  "SetInitVer api d version =
     WriteData api d kInitVersionKey version"

lemmas setter_defs =
  SetBlockHeightByBlockHash_def
  DeleteBlockHeightByBlockHash_def
  SetBlockHashByBlockHeight_def
  RemoveBlockHashByBlockHeight_def
  SetBlockByBlockHash_def
  DeleteBlockByBlockHash_def
  SetSumHashByHeight_def
  RemoveSumHashByHeight_def
  SetCheckBlockHashsByBlockHeight_def
  RemoveCheckBlockHashsByBlockHeight_def
  SetTopThousandSumhash_def
  RemoveTopThousandSumhash_def
  SetBlockTop_def
  SetUtxoHashsByAddress_def
  RemoveUtxoHashsByAddress_def
  SetUtxoValueByUtxoHashs_def
  RemoveUtxoValueByUtxoHashs_def
  SetTransactionByHash_def
  DeleteTransactionByHash_def
  SetBlockHashByTransactionHash_def
  DeleteBlockHashByTransactionHash_def
  SetTransactionByAddress_def
  DeleteTransactionByAddress_def
  SetBlockHashByAddress_def
  DeleteBlockHashByAddress_def
  SetTransactionTopByAddress_def
  SetBalanceByAddress_def
  DeleteBalanceByAddress_def
  SetStakeAddresses_def
  RemoveStakeAddresses_def
  SetMutliSignAddresses_def
  RemoveMutliSignAddresses_def
  SetStakeAddressUtxo_def
  RemoveStakeAddressUtxo_def
  SetMutliSignAddressUtxo_def
  RemoveMutliSignAddressUtxo_def
  SetBonusAddr_def
  RemoveBonusAddr_def
  SetInvestAddrByBonusAddr_def
  RemoveInvestAddrByBonusAddr_def
  SetBonusAddrByInvestAddr_def
  RemoveBonusAddrByInvestAddr_def
  SetBonusAddrInvestAddrUtxoByBonusAddr_def
  RemoveBonusAddrInvestAddrUtxoByBonusAddr_def
  SetBonusUtxoByPeriod_def
  RemoveBonusUtxoByPeriod_def
  SetInvestUtxoByPeriod_def
  RemoveInvestUtxoByPeriod_def
  SetEvmDeployerAddr_def
  RemoveEvmDeployerAddr_def
  SetContractAddrByDeployerAddr_def
  RemoveContractAddrByDeployerAddr_def
  SetContractCodeByContractAddr_def
  RemoveContractCodeByContractAddr_def
  SetContractDeployUtxoByContractAddr_def
  RemoveContractDeployUtxoByContractAddr_def
  SetLatestUtxoByContractAddr_def
  RemoveLatestUtxoByContractAddr_def
  SetMptValueByMptKey_def
  RemoveMptValueByMptKey_def
  SetSignNumberByPeriod_def
  RemoveSignNumberByPeriod_def
  SetBlockNumberByPeriod_def
  RemoveBlockNumberByPeriod_def
  SetSignAddrByPeriod_def
  RemoveSignAddrberByPeriod_def
  SetburnAmountByPeriod_def
  RemoveburnAmountByPeriod_def
  SetDM_def
  SetTotalInvestAmount_def
  SetTotalCirculation_def
  SetInitVer_def

end
