(* ===== verification/Db_Tables.thy ===== *)
theory Db_Tables
  imports Db_Api
begin

text \<open>
  What the database interface means: typed tables. A \<open>cell\<close> names one logical entry, with
  the arguments the API takes; \<open>cell_key\<close> is the key it is stored under and
  \<open>decode_key\<close> recovers the cell, so different entries never share a key. Every setter is a
  \<open>db_call\<close> with an operation on its cell, every getter a \<open>db_query\<close> on its cell, and
  \<open>table_of\<close> abstracts the stored map to the tables. The theorems show that calls, commits,
  rollbacks and queries implement the operations on the tables.
\<close>

section \<open>Cells and their keys\<close>

datatype cell =
    Cell_BlockHeight string
  | Cell_BlockHashes nat
  | Cell_Block string
  | Cell_SumHash nat
  | Cell_ThousandSumHash nat
  | Cell_TopThousand
  | Cell_BlockTop
  | Cell_UtxoHashes string
  | Cell_UtxoValue string string
  | Cell_Tx string
  | Cell_TxBlock string
  | Cell_AddrTx string nat
  | Cell_AddrBlock string nat
  | Cell_AddrTop string
  | Cell_Balance string
  | Cell_StakeAddrs
  | Cell_StakeUtxos string
  | Cell_MutliSignAddrs
  | Cell_MutliSignUtxos string
  | Cell_BonusAddrs
  | Cell_InvestAddrs string
  | Cell_BonusAddrsOf string
  | Cell_InvestAddrUtxos string string
  | Cell_BonusUtxos nat
  | Cell_InvestUtxos nat
  | Cell_SignNumber nat string
  | Cell_BlockNumber nat
  | Cell_SignAddrs nat
  | Cell_BurnAmount nat
  | Cell_DM
  | Cell_TotalInvest
  | Cell_M2
  | Cell_EvmDeployers
  | Cell_Contracts string
  | Cell_ContractCode string
  | Cell_DeployUtxo string
  | Cell_LatestUtxo string
  | Cell_Mpt string
  | Cell_InitVer

primrec cell_key :: "cell \<Rightarrow> string" where
  "cell_key (Cell_BlockHeight blockHash) = kBlockHash2BlockHeightKey @ blockHash"
| "cell_key (Cell_BlockHashes blockHeight) = kBlockHeight2BlockHashKey @ to_string blockHeight"
| "cell_key (Cell_Block blockHash) = kBlockHash2BlcokRawKey @ blockHash"
| "cell_key (Cell_SumHash height) = kBlockHeight2SumHash @ to_string height"
| "cell_key (Cell_ThousandSumHash blockHeight) = kBlockHeight2thousandSumHash @ to_string blockHeight"
| "cell_key Cell_TopThousand = kTopThousandSumhashKey"
| "cell_key Cell_BlockTop = kBlockTopKey"
| "cell_key (Cell_UtxoHashes address) = kAddress2UtxoKey @ address"
| "cell_key (Cell_UtxoValue address utxoHash) = address @ ''_'' @ utxoHash"
| "cell_key (Cell_Tx txHash) = kTransactionHash2TransactionRawKey @ txHash"
| "cell_key (Cell_TxBlock txHash) = kTransactionHash2BlockHashKey @ txHash"
| "cell_key (Cell_AddrTx address txNum) = kAddress2TransactionRawKey @ address @ ''_'' @ to_string txNum"
| "cell_key (Cell_AddrBlock address txNum) = kAddress2BlcokHashKey @ address @ ''_'' @ to_string txNum"
| "cell_key (Cell_AddrTop address) = kAddress2TransactionTopKey @ address"
| "cell_key (Cell_Balance address) = kAddress2BalanceKey @ address"
| "cell_key Cell_StakeAddrs = kStakeAddrKey"
| "cell_key (Cell_StakeUtxos address) = kStakeAddrKey @ address"
| "cell_key Cell_MutliSignAddrs = kMutliSignKey"
| "cell_key (Cell_MutliSignUtxos address) = kMutliSignKey @ address"
| "cell_key Cell_BonusAddrs = kBonusAddrKey"
| "cell_key (Cell_InvestAddrs bonusAddr) = kBonusAddr2InvestAddrKey @ bonusAddr"
| "cell_key (Cell_BonusAddrsOf address) = kInvestAddr2BonusAddrKey @ address"
| "cell_key (Cell_InvestAddrUtxos addr address) = kBonusAddrInvestAddr2InvestAddrUtxo @ addr @ ''_'' @ address"
| "cell_key (Cell_BonusUtxos period) = kBonusUtxoKey @ to_string period"
| "cell_key (Cell_InvestUtxos period) = kInvestUtxoKey @ to_string period"
| "cell_key (Cell_SignNumber period address) = kSignNumberKey @ to_string period @ address"
| "cell_key (Cell_BlockNumber period) = kBlockNumberKey @ to_string period"
| "cell_key (Cell_SignAddrs period) = kSignAddrKey @ to_string period"
| "cell_key (Cell_BurnAmount period) = kburnAmountKey @ to_string period"
| "cell_key Cell_DM = kDM"
| "cell_key Cell_TotalInvest = kTotalInvestAmount"
| "cell_key Cell_M2 = kM2"
| "cell_key Cell_EvmDeployers = kEvmAllDeployerAddr"
| "cell_key (Cell_Contracts deployerAddr) = kDeployerAddr2ContractAddr @ deployerAddr"
| "cell_key (Cell_ContractCode contractAddr) = kContractAddr2ContractCode @ contractAddr"
| "cell_key (Cell_DeployUtxo contractAddr) = kContractAddr2DeployUtxo @ contractAddr"
| "cell_key (Cell_LatestUtxo contractAddr) = kContractAddr2LatestUtxo @ contractAddr"
| "cell_key (Cell_Mpt mptKey) = kContractMptK @ mptKey"
| "cell_key Cell_InitVer = kInitVersionKey"

primrec is_list_cell :: "cell \<Rightarrow> bool" where
  "is_list_cell (Cell_BlockHeight _) = False"
| "is_list_cell (Cell_BlockHashes _) = True"
| "is_list_cell (Cell_Block _) = False"
| "is_list_cell (Cell_SumHash _) = False"
| "is_list_cell (Cell_ThousandSumHash _) = False"
| "is_list_cell Cell_TopThousand = False"
| "is_list_cell Cell_BlockTop = False"
| "is_list_cell (Cell_UtxoHashes _) = True"
| "is_list_cell (Cell_UtxoValue _ _) = False"
| "is_list_cell (Cell_Tx _) = False"
| "is_list_cell (Cell_TxBlock _) = False"
| "is_list_cell (Cell_AddrTx _ _) = False"
| "is_list_cell (Cell_AddrBlock _ _) = False"
| "is_list_cell (Cell_AddrTop _) = False"
| "is_list_cell (Cell_Balance _) = False"
| "is_list_cell Cell_StakeAddrs = True"
| "is_list_cell (Cell_StakeUtxos _) = True"
| "is_list_cell Cell_MutliSignAddrs = True"
| "is_list_cell (Cell_MutliSignUtxos _) = True"
| "is_list_cell Cell_BonusAddrs = True"
| "is_list_cell (Cell_InvestAddrs _) = True"
| "is_list_cell (Cell_BonusAddrsOf _) = True"
| "is_list_cell (Cell_InvestAddrUtxos _ _) = True"
| "is_list_cell (Cell_BonusUtxos _) = True"
| "is_list_cell (Cell_InvestUtxos _) = True"
| "is_list_cell (Cell_SignNumber _ _) = False"
| "is_list_cell (Cell_BlockNumber _) = False"
| "is_list_cell (Cell_SignAddrs _) = True"
| "is_list_cell (Cell_BurnAmount _) = False"
| "is_list_cell Cell_DM = False"
| "is_list_cell Cell_TotalInvest = False"
| "is_list_cell Cell_M2 = False"
| "is_list_cell Cell_EvmDeployers = True"
| "is_list_cell (Cell_Contracts _) = True"
| "is_list_cell (Cell_ContractCode _) = False"
| "is_list_cell (Cell_DeployUtxo _) = False"
| "is_list_cell (Cell_LatestUtxo _) = False"
| "is_list_cell (Cell_Mpt _) = False"
| "is_list_cell Cell_InitVer = False"

text \<open>The part of a key before the first underscore names its family.\<close>

definition key_tag :: "string \<Rightarrow> string" where
  "key_tag s = takeWhile (\<lambda>c. c \<noteq> CHR ''_'') s"

definition key_rest :: "string \<Rightarrow> string" where
  "key_rest s = tl (dropWhile (\<lambda>c. c \<noteq> CHR ''_'') s)"

definition decoders :: "nat \<Rightarrow> (string \<times> (string \<Rightarrow> cell)) list" where
  "decoders n =
    [(''blkhs2blkht'', \<lambda>r. Cell_BlockHeight r),
     (''blkht2blkhs'', \<lambda>r. Cell_BlockHashes (digits_value r)),
     (''blkhs2blkraw'', \<lambda>r. Cell_Block r),
     (''blkht2sumhs'', \<lambda>r. Cell_SumHash (digits_value r)),
     (''thousandsblkht2sumhs'', \<lambda>r. Cell_ThousandSumHash (digits_value r)),
     (''topthousandsumhs'', \<lambda>r. Cell_TopThousand),
     (''blktop'', \<lambda>r. Cell_BlockTop),
     (''addr2utxo'', \<lambda>r. Cell_UtxoHashes r),
     (''txhs2txraw'', \<lambda>r. Cell_Tx r),
     (''txhs2blkhs'', \<lambda>r. Cell_TxBlock r),
     (''addr2txraw'', \<lambda>r. Cell_AddrTx (key_tag r) (digits_value (key_rest r))),
     (''addr2blkhs'', \<lambda>r. Cell_AddrBlock (key_tag r) (digits_value (key_rest r))),
     (''addr2txtop'', \<lambda>r. Cell_AddrTop r),
     (''addr2bal'', \<lambda>r. Cell_Balance r),
     (''stakeaddr'', \<lambda>r. if r = [] then Cell_StakeAddrs else Cell_StakeUtxos r),
     (''mutlisign'', \<lambda>r. if r = [] then Cell_MutliSignAddrs else Cell_MutliSignUtxos r),
     (''bonusaddr'', \<lambda>r. Cell_BonusAddrs),
     (''bonusaddr2investaddr'', \<lambda>r. Cell_InvestAddrs r),
     (''investaddr2bonusaddr'', \<lambda>r. Cell_BonusAddrsOf r),
     (''invest'', \<lambda>r. Cell_InvestAddrUtxos (key_tag (key_rest r)) (key_rest (key_rest r))),
     (''bonusutxo'', \<lambda>r. Cell_BonusUtxos (digits_value r)),
     (''investutxo'', \<lambda>r. Cell_InvestUtxos (digits_value r)),
     (''signnumber'', \<lambda>r. Cell_SignNumber (digits_value (take (length r - n) r)) (drop (length r - n) r)),
     (''blocknumber'', \<lambda>r. Cell_BlockNumber (digits_value r)),
     (''signaddr'', \<lambda>r. Cell_SignAddrs (digits_value r)),
     (''burnamount'', \<lambda>r. Cell_BurnAmount (digits_value r)),
     (''DM'', \<lambda>r. Cell_DM),
     (''totalinvestamount'', \<lambda>r. Cell_TotalInvest),
     (''M2'', \<lambda>r. Cell_M2),
     (''allevmdeployeraddr'', \<lambda>r. Cell_EvmDeployers),
     (''deployeraddr2contractaddr'', \<lambda>r. Cell_Contracts r),
     (''contractaddr2contractcode'', \<lambda>r. Cell_ContractCode r),
     (''contractaddr2deployutxo'', \<lambda>r. Cell_DeployUtxo r),
     (''contractaddr2latestutxo'', \<lambda>r. Cell_LatestUtxo r),
     (''contractmpt'', \<lambda>r. Cell_Mpt r),
     (''initver'', \<lambda>r. Cell_InitVer)]"

definition decode_key :: "nat \<Rightarrow> string \<Rightarrow> cell" where
  "decode_key n s = (case map_of (decoders n) (key_tag s) of
     Some f \<Rightarrow> f (key_rest s) | None \<Rightarrow> Cell_UtxoValue (key_tag s) (key_rest s))"

text \<open>
  The arguments the keys can carry. A stake or multi-signature address is not empty, an
  address in a two-part key has no underscore, an address whose outputs are stored under its
  own name is not one of the family names, and the address in a signature counter has the
  length \<open>n\<close> of an address (nothing separates it from the period).
\<close>

definition valid_cell :: "nat \<Rightarrow> cell \<Rightarrow> bool" where
  "valid_cell n c = (case c of
     Cell_StakeUtxos addr \<Rightarrow> addr \<noteq> []
   | Cell_MutliSignUtxos addr \<Rightarrow> addr \<noteq> []
   | Cell_AddrTx addr _ \<Rightarrow> CHR ''_'' \<notin> set addr
   | Cell_AddrBlock addr _ \<Rightarrow> CHR ''_'' \<notin> set addr
   | Cell_InvestAddrUtxos addr _ \<Rightarrow> CHR ''_'' \<notin> set addr
   | Cell_SignNumber _ addr \<Rightarrow> length addr = n
   | Cell_UtxoValue addr _ \<Rightarrow> CHR ''_'' \<notin> set addr \<and> addr \<notin> set (map fst (decoders n))
   | _ \<Rightarrow> True)"

lemma key_tag_sep: "CHR ''_'' \<notin> set x \<Longrightarrow> key_tag (x @ CHR ''_'' # r) = x"
  by (induction x) (auto simp: key_tag_def)

lemma key_rest_sep: "CHR ''_'' \<notin> set x \<Longrightarrow> key_rest (x @ CHR ''_'' # r) = r"
  by (induction x) (auto simp: key_rest_def)

lemma key_tag_Cons: "key_tag (c # s) = (if c = CHR ''_'' then [] else c # key_tag s)"
  by (simp add: key_tag_def)

lemma key_rest_Cons: "key_rest (c # s) = (if c = CHR ''_'' then s else key_rest s)"
  by (simp add: key_rest_def)

lemmas tag_simps = key_tag_Cons key_rest_Cons key_tag_sep key_rest_sep

lemma decode_UtxoValue:
  "valid_cell n (Cell_UtxoValue addr h) \<Longrightarrow> decode_key n (addr @ ''_'' @ h) = Cell_UtxoValue addr h"
proof -
  assume v: "valid_cell n (Cell_UtxoValue addr h)"
  then have "map_of (decoders n) addr = None"
    by (simp add: valid_cell_def map_of_eq_None_iff)
  with v show ?thesis
    by (simp add: valid_cell_def decode_key_def key_tag_sep key_rest_sep)
qed

lemma decode_cell_key:
  assumes "valid_cell n c"
  shows "decode_key n (cell_key c) = c"
proof (cases "\<exists>addr h. c = Cell_UtxoValue addr h")
  case True
  then show ?thesis using decode_UtxoValue assms by auto
next
  case False
  with assms show ?thesis
    by (cases c) (simp_all add: decode_key_def decoders_def key_defs tag_simps valid_cell_def)
qed

lemma cell_key_inject: "valid_cell n c \<Longrightarrow> valid_cell n c' \<Longrightarrow> cell_key c = cell_key c' \<longleftrightarrow> c = c'"
  by (metis decode_cell_key)

lemma cell_key_nonempty [simp]: "cell_key c \<noteq> []"
  by (cases c) (simp_all add: key_defs)


section \<open>Setters as operations on cells\<close>

datatype cell_op = Put string | Del | Add string bool | Rem string

datatype (plugins only: size) db_call =
    Do_SetBlockHeightByBlockHash string u32
  | Do_DeleteBlockHeightByBlockHash string
  | Do_SetBlockHashByBlockHeight u32 string bool
  | Do_RemoveBlockHashByBlockHeight u32 string
  | Do_SetBlockByBlockHash string string
  | Do_DeleteBlockByBlockHash string
  | Do_SetSumHashByHeight u64 string
  | Do_RemoveSumHashByHeight u64
  | Do_SetCheckBlockHashsByBlockHeight u64 string
  | Do_RemoveCheckBlockHashsByBlockHeight u64
  | Do_SetTopThousandSumhash u64
  | Do_RemoveTopThousandSumhash u64
  | Do_SetBlockTop u32
  | Do_SetUtxoHashsByAddress string string
  | Do_RemoveUtxoHashsByAddress string string
  | Do_SetUtxoValueByUtxoHashs string string string
  | Do_RemoveUtxoValueByUtxoHashs string string string
  | Do_SetTransactionByHash string string
  | Do_DeleteTransactionByHash string
  | Do_SetBlockHashByTransactionHash string string
  | Do_DeleteBlockHashByTransactionHash string
  | Do_SetTransactionByAddress string u32 string
  | Do_DeleteTransactionByAddress string u32
  | Do_SetBlockHashByAddress string u32 string
  | Do_DeleteBlockHashByAddress string u32
  | Do_SetTransactionTopByAddress string u32
  | Do_SetBalanceByAddress string u64
  | Do_DeleteBalanceByAddress string
  | Do_SetStakeAddresses string
  | Do_RemoveStakeAddresses string
  | Do_SetMutliSignAddresses string
  | Do_RemoveMutliSignAddresses string
  | Do_SetStakeAddressUtxo string string
  | Do_RemoveStakeAddressUtxo string string
  | Do_SetMutliSignAddressUtxo string string
  | Do_RemoveMutliSignAddressUtxo string string
  | Do_SetBonusAddr string
  | Do_RemoveBonusAddr string
  | Do_SetInvestAddrByBonusAddr string string
  | Do_RemoveInvestAddrByBonusAddr string string
  | Do_SetBonusAddrByInvestAddr string string
  | Do_RemoveBonusAddrByInvestAddr string string
  | Do_SetBonusAddrInvestAddrUtxoByBonusAddr string string string
  | Do_RemoveBonusAddrInvestAddrUtxoByBonusAddr string string string
  | Do_SetBonusUtxoByPeriod u64 string
  | Do_RemoveBonusUtxoByPeriod u64 string
  | Do_SetInvestUtxoByPeriod u64 string
  | Do_RemoveInvestUtxoByPeriod u64 string
  | Do_SetEvmDeployerAddr string
  | Do_RemoveEvmDeployerAddr string
  | Do_SetContractAddrByDeployerAddr string string
  | Do_RemoveContractAddrByDeployerAddr string string
  | Do_SetContractCodeByContractAddr string string
  | Do_RemoveContractCodeByContractAddr string
  | Do_SetContractDeployUtxoByContractAddr string string
  | Do_RemoveContractDeployUtxoByContractAddr string
  | Do_SetLatestUtxoByContractAddr string string
  | Do_RemoveLatestUtxoByContractAddr string
  | Do_SetMptValueByMptKey string string
  | Do_RemoveMptValueByMptKey string
  | Do_SetSignNumberByPeriod u64 string u64
  | Do_RemoveSignNumberByPeriod u64 string
  | Do_SetBlockNumberByPeriod u64 u64
  | Do_RemoveBlockNumberByPeriod u64
  | Do_SetSignAddrByPeriod u64 string
  | Do_RemoveSignAddrberByPeriod u64 string
  | Do_SetburnAmountByPeriod u64 u64
  | Do_RemoveburnAmountByPeriod u64 u64
  | Do_SetDM u64
  | Do_SetTotalInvestAmount u64
  | Do_SetTotalCirculation u64
  | Do_SetInitVer string

primrec exec_call :: "'s rocksdb \<Rightarrow> 's db_writer \<Rightarrow> db_call \<Rightarrow> 's setter" where
  "exec_call api d (Do_SetBlockHeightByBlockHash blockHash blockHeight) = SetBlockHeightByBlockHash api d blockHash blockHeight"
| "exec_call api d (Do_DeleteBlockHeightByBlockHash blockHash) = DeleteBlockHeightByBlockHash api d blockHash"
| "exec_call api d (Do_SetBlockHashByBlockHeight blockHeight blockHash isMainBlock) = SetBlockHashByBlockHeight api d blockHeight blockHash isMainBlock"
| "exec_call api d (Do_RemoveBlockHashByBlockHeight blockHeight blockHash) = RemoveBlockHashByBlockHeight api d blockHeight blockHash"
| "exec_call api d (Do_SetBlockByBlockHash blockHash block) = SetBlockByBlockHash api d blockHash block"
| "exec_call api d (Do_DeleteBlockByBlockHash blockHash) = DeleteBlockByBlockHash api d blockHash"
| "exec_call api d (Do_SetSumHashByHeight height sumHash) = SetSumHashByHeight api d height sumHash"
| "exec_call api d (Do_RemoveSumHashByHeight height) = RemoveSumHashByHeight api d height"
| "exec_call api d (Do_SetCheckBlockHashsByBlockHeight blockHeight sumHash) = SetCheckBlockHashsByBlockHeight api d blockHeight sumHash"
| "exec_call api d (Do_RemoveCheckBlockHashsByBlockHeight blockHeight) = RemoveCheckBlockHashsByBlockHeight api d blockHeight"
| "exec_call api d (Do_SetTopThousandSumhash thousandNum) = SetTopThousandSumhash api d thousandNum"
| "exec_call api d (Do_RemoveTopThousandSumhash thousandNum) = RemoveTopThousandSumhash api d thousandNum"
| "exec_call api d (Do_SetBlockTop blockHeight) = SetBlockTop api d blockHeight"
| "exec_call api d (Do_SetUtxoHashsByAddress address utxoHash) = SetUtxoHashsByAddress api d address utxoHash"
| "exec_call api d (Do_RemoveUtxoHashsByAddress address utxoHash) = RemoveUtxoHashsByAddress api d address utxoHash"
| "exec_call api d (Do_SetUtxoValueByUtxoHashs utxoHash address balance) = SetUtxoValueByUtxoHashs api d utxoHash address balance"
| "exec_call api d (Do_RemoveUtxoValueByUtxoHashs utxoHash address balance) = RemoveUtxoValueByUtxoHashs api d utxoHash address balance"
| "exec_call api d (Do_SetTransactionByHash txHash txRaw) = SetTransactionByHash api d txHash txRaw"
| "exec_call api d (Do_DeleteTransactionByHash txHash) = DeleteTransactionByHash api d txHash"
| "exec_call api d (Do_SetBlockHashByTransactionHash txHash blockHash) = SetBlockHashByTransactionHash api d txHash blockHash"
| "exec_call api d (Do_DeleteBlockHashByTransactionHash txHash) = DeleteBlockHashByTransactionHash api d txHash"
| "exec_call api d (Do_SetTransactionByAddress address txNum txRaw) = SetTransactionByAddress api d address txNum txRaw"
| "exec_call api d (Do_DeleteTransactionByAddress address txNum) = DeleteTransactionByAddress api d address txNum"
| "exec_call api d (Do_SetBlockHashByAddress address txNum blockHash) = SetBlockHashByAddress api d address txNum blockHash"
| "exec_call api d (Do_DeleteBlockHashByAddress address txNum) = DeleteBlockHashByAddress api d address txNum"
| "exec_call api d (Do_SetTransactionTopByAddress address txIndex) = SetTransactionTopByAddress api d address txIndex"
| "exec_call api d (Do_SetBalanceByAddress address balance) = SetBalanceByAddress api d address balance"
| "exec_call api d (Do_DeleteBalanceByAddress address) = DeleteBalanceByAddress api d address"
| "exec_call api d (Do_SetStakeAddresses address) = SetStakeAddresses api d address"
| "exec_call api d (Do_RemoveStakeAddresses address) = RemoveStakeAddresses api d address"
| "exec_call api d (Do_SetMutliSignAddresses address) = SetMutliSignAddresses api d address"
| "exec_call api d (Do_RemoveMutliSignAddresses address) = RemoveMutliSignAddresses api d address"
| "exec_call api d (Do_SetStakeAddressUtxo stakeAddr utxo) = SetStakeAddressUtxo api d stakeAddr utxo"
| "exec_call api d (Do_RemoveStakeAddressUtxo stakeAddr utxo) = RemoveStakeAddressUtxo api d stakeAddr utxo"
| "exec_call api d (Do_SetMutliSignAddressUtxo address utxo) = SetMutliSignAddressUtxo api d address utxo"
| "exec_call api d (Do_RemoveMutliSignAddressUtxo address utxo) = RemoveMutliSignAddressUtxo api d address utxo"
| "exec_call api d (Do_SetBonusAddr bonusAddr) = SetBonusAddr api d bonusAddr"
| "exec_call api d (Do_RemoveBonusAddr bonusAddr) = RemoveBonusAddr api d bonusAddr"
| "exec_call api d (Do_SetInvestAddrByBonusAddr bonusAddr investAddr) = SetInvestAddrByBonusAddr api d bonusAddr investAddr"
| "exec_call api d (Do_RemoveInvestAddrByBonusAddr bonusAddr investAddr) = RemoveInvestAddrByBonusAddr api d bonusAddr investAddr"
| "exec_call api d (Do_SetBonusAddrByInvestAddr investAddr bonusAddr) = SetBonusAddrByInvestAddr api d investAddr bonusAddr"
| "exec_call api d (Do_RemoveBonusAddrByInvestAddr investAddr bonusAddr) = RemoveBonusAddrByInvestAddr api d investAddr bonusAddr"
| "exec_call api d (Do_SetBonusAddrInvestAddrUtxoByBonusAddr bonusAddr investAddr utxo) = SetBonusAddrInvestAddrUtxoByBonusAddr api d bonusAddr investAddr utxo"
| "exec_call api d (Do_RemoveBonusAddrInvestAddrUtxoByBonusAddr bonusAddr investAddr utxo) = RemoveBonusAddrInvestAddrUtxoByBonusAddr api d bonusAddr investAddr utxo"
| "exec_call api d (Do_SetBonusUtxoByPeriod period utxo) = SetBonusUtxoByPeriod api d period utxo"
| "exec_call api d (Do_RemoveBonusUtxoByPeriod period utxo) = RemoveBonusUtxoByPeriod api d period utxo"
| "exec_call api d (Do_SetInvestUtxoByPeriod period utxo) = SetInvestUtxoByPeriod api d period utxo"
| "exec_call api d (Do_RemoveInvestUtxoByPeriod period utxo) = RemoveInvestUtxoByPeriod api d period utxo"
| "exec_call api d (Do_SetEvmDeployerAddr deployerAddr) = SetEvmDeployerAddr api d deployerAddr"
| "exec_call api d (Do_RemoveEvmDeployerAddr deployerAddr) = RemoveEvmDeployerAddr api d deployerAddr"
| "exec_call api d (Do_SetContractAddrByDeployerAddr deployerAddr contractAddr) = SetContractAddrByDeployerAddr api d deployerAddr contractAddr"
| "exec_call api d (Do_RemoveContractAddrByDeployerAddr deployerAddr contractAddr) = RemoveContractAddrByDeployerAddr api d deployerAddr contractAddr"
| "exec_call api d (Do_SetContractCodeByContractAddr contractAddr contractCode) = SetContractCodeByContractAddr api d contractAddr contractCode"
| "exec_call api d (Do_RemoveContractCodeByContractAddr contractAddr) = RemoveContractCodeByContractAddr api d contractAddr"
| "exec_call api d (Do_SetContractDeployUtxoByContractAddr contractAddr contractDeployUtxo) = SetContractDeployUtxoByContractAddr api d contractAddr contractDeployUtxo"
| "exec_call api d (Do_RemoveContractDeployUtxoByContractAddr contractAddr) = RemoveContractDeployUtxoByContractAddr api d contractAddr"
| "exec_call api d (Do_SetLatestUtxoByContractAddr contractAddr utxo) = SetLatestUtxoByContractAddr api d contractAddr utxo"
| "exec_call api d (Do_RemoveLatestUtxoByContractAddr contractAddr) = RemoveLatestUtxoByContractAddr api d contractAddr"
| "exec_call api d (Do_SetMptValueByMptKey mptKey MptValue) = SetMptValueByMptKey api d mptKey MptValue"
| "exec_call api d (Do_RemoveMptValueByMptKey mptKey) = RemoveMptValueByMptKey api d mptKey"
| "exec_call api d (Do_SetSignNumberByPeriod period address SignNumber) = SetSignNumberByPeriod api d period address SignNumber"
| "exec_call api d (Do_RemoveSignNumberByPeriod period address) = RemoveSignNumberByPeriod api d period address"
| "exec_call api d (Do_SetBlockNumberByPeriod period BlockNumber) = SetBlockNumberByPeriod api d period BlockNumber"
| "exec_call api d (Do_RemoveBlockNumberByPeriod period) = RemoveBlockNumberByPeriod api d period"
| "exec_call api d (Do_SetSignAddrByPeriod period addr) = SetSignAddrByPeriod api d period addr"
| "exec_call api d (Do_RemoveSignAddrberByPeriod period addr) = RemoveSignAddrberByPeriod api d period addr"
| "exec_call api d (Do_SetburnAmountByPeriod period burnAmount) = SetburnAmountByPeriod api d period burnAmount"
| "exec_call api d (Do_RemoveburnAmountByPeriod period burnAmount) = RemoveburnAmountByPeriod api d period burnAmount"
| "exec_call api d (Do_SetDM totalBurn) = SetDM api d totalBurn"
| "exec_call api d (Do_SetTotalInvestAmount totalInvest) = SetTotalInvestAmount api d totalInvest"
| "exec_call api d (Do_SetTotalCirculation totalCirculation) = SetTotalCirculation api d totalCirculation"
| "exec_call api d (Do_SetInitVer version) = SetInitVer api d version"

primrec call_op :: "db_call \<Rightarrow> cell \<times> cell_op" where
  "call_op (Do_SetBlockHeightByBlockHash blockHash blockHeight) = (Cell_BlockHeight blockHash, Put (dec blockHeight))"
| "call_op (Do_DeleteBlockHeightByBlockHash blockHash) = (Cell_BlockHeight blockHash, Del)"
| "call_op (Do_SetBlockHashByBlockHeight blockHeight blockHash isMainBlock) = (Cell_BlockHashes (unat blockHeight), Add blockHash isMainBlock)"
| "call_op (Do_RemoveBlockHashByBlockHeight blockHeight blockHash) = (Cell_BlockHashes (unat blockHeight), Rem blockHash)"
| "call_op (Do_SetBlockByBlockHash blockHash block) = (Cell_Block blockHash, Put block)"
| "call_op (Do_DeleteBlockByBlockHash blockHash) = (Cell_Block blockHash, Del)"
| "call_op (Do_SetSumHashByHeight height sumHash) = (Cell_SumHash (unat height), Put sumHash)"
| "call_op (Do_RemoveSumHashByHeight height) = (Cell_SumHash (unat height), Del)"
| "call_op (Do_SetCheckBlockHashsByBlockHeight blockHeight sumHash) = (Cell_ThousandSumHash (unat blockHeight), Put sumHash)"
| "call_op (Do_RemoveCheckBlockHashsByBlockHeight blockHeight) = (Cell_ThousandSumHash (unat blockHeight), Del)"
| "call_op (Do_SetTopThousandSumhash thousandNum) = (Cell_TopThousand, Put (dec thousandNum))"
| "call_op (Do_RemoveTopThousandSumhash thousandNum) = (Cell_TopThousand, Del)"
| "call_op (Do_SetBlockTop blockHeight) = (Cell_BlockTop, Put (dec blockHeight))"
| "call_op (Do_SetUtxoHashsByAddress address utxoHash) = (Cell_UtxoHashes address, Add utxoHash False)"
| "call_op (Do_RemoveUtxoHashsByAddress address utxoHash) = (Cell_UtxoHashes address, Rem utxoHash)"
| "call_op (Do_SetUtxoValueByUtxoHashs utxoHash address balance) = (Cell_UtxoValue address utxoHash, Put balance)"
| "call_op (Do_RemoveUtxoValueByUtxoHashs utxoHash address balance) = (Cell_UtxoValue address utxoHash, Del)"
| "call_op (Do_SetTransactionByHash txHash txRaw) = (Cell_Tx txHash, Put txRaw)"
| "call_op (Do_DeleteTransactionByHash txHash) = (Cell_Tx txHash, Del)"
| "call_op (Do_SetBlockHashByTransactionHash txHash blockHash) = (Cell_TxBlock txHash, Put blockHash)"
| "call_op (Do_DeleteBlockHashByTransactionHash txHash) = (Cell_TxBlock txHash, Del)"
| "call_op (Do_SetTransactionByAddress address txNum txRaw) = (Cell_AddrTx address (unat txNum), Put txRaw)"
| "call_op (Do_DeleteTransactionByAddress address txNum) = (Cell_AddrTx address (unat txNum), Del)"
| "call_op (Do_SetBlockHashByAddress address txNum blockHash) = (Cell_AddrBlock address (unat txNum), Put blockHash)"
| "call_op (Do_DeleteBlockHashByAddress address txNum) = (Cell_AddrBlock address (unat txNum), Del)"
| "call_op (Do_SetTransactionTopByAddress address txIndex) = (Cell_AddrTop address, Put (dec txIndex))"
| "call_op (Do_SetBalanceByAddress address balance) = (Cell_Balance address, Put (to_string_int (sint balance)))"
| "call_op (Do_DeleteBalanceByAddress address) = (Cell_Balance address, Del)"
| "call_op (Do_SetStakeAddresses address) = (Cell_StakeAddrs, Add address False)"
| "call_op (Do_RemoveStakeAddresses address) = (Cell_StakeAddrs, Rem address)"
| "call_op (Do_SetMutliSignAddresses address) = (Cell_MutliSignAddrs, Add address False)"
| "call_op (Do_RemoveMutliSignAddresses address) = (Cell_MutliSignAddrs, Rem address)"
| "call_op (Do_SetStakeAddressUtxo stakeAddr utxo) = (Cell_StakeUtxos stakeAddr, Add utxo False)"
| "call_op (Do_RemoveStakeAddressUtxo stakeAddr utxo) = (Cell_StakeUtxos stakeAddr, Rem utxo)"
| "call_op (Do_SetMutliSignAddressUtxo address utxo) = (Cell_MutliSignUtxos address, Add utxo False)"
| "call_op (Do_RemoveMutliSignAddressUtxo address utxo) = (Cell_MutliSignUtxos address, Rem utxo)"
| "call_op (Do_SetBonusAddr bonusAddr) = (Cell_BonusAddrs, Add bonusAddr False)"
| "call_op (Do_RemoveBonusAddr bonusAddr) = (Cell_BonusAddrs, Rem bonusAddr)"
| "call_op (Do_SetInvestAddrByBonusAddr bonusAddr investAddr) = (Cell_InvestAddrs bonusAddr, Add investAddr False)"
| "call_op (Do_RemoveInvestAddrByBonusAddr bonusAddr investAddr) = (Cell_InvestAddrs bonusAddr, Rem investAddr)"
| "call_op (Do_SetBonusAddrByInvestAddr investAddr bonusAddr) = (Cell_BonusAddrsOf investAddr, Add bonusAddr False)"
| "call_op (Do_RemoveBonusAddrByInvestAddr investAddr bonusAddr) = (Cell_BonusAddrsOf investAddr, Rem bonusAddr)"
| "call_op (Do_SetBonusAddrInvestAddrUtxoByBonusAddr bonusAddr investAddr utxo) = (Cell_InvestAddrUtxos bonusAddr investAddr, Add utxo False)"
| "call_op (Do_RemoveBonusAddrInvestAddrUtxoByBonusAddr bonusAddr investAddr utxo) = (Cell_InvestAddrUtxos bonusAddr investAddr, Rem utxo)"
| "call_op (Do_SetBonusUtxoByPeriod period utxo) = (Cell_BonusUtxos (unat period), Add utxo False)"
| "call_op (Do_RemoveBonusUtxoByPeriod period utxo) = (Cell_BonusUtxos (unat period), Rem utxo)"
| "call_op (Do_SetInvestUtxoByPeriod period utxo) = (Cell_InvestUtxos (unat period), Add utxo False)"
| "call_op (Do_RemoveInvestUtxoByPeriod period utxo) = (Cell_InvestUtxos (unat period), Rem utxo)"
| "call_op (Do_SetEvmDeployerAddr deployerAddr) = (Cell_EvmDeployers, Add deployerAddr False)"
| "call_op (Do_RemoveEvmDeployerAddr deployerAddr) = (Cell_EvmDeployers, Rem deployerAddr)"
| "call_op (Do_SetContractAddrByDeployerAddr deployerAddr contractAddr) = (Cell_Contracts deployerAddr, Add contractAddr False)"
| "call_op (Do_RemoveContractAddrByDeployerAddr deployerAddr contractAddr) = (Cell_Contracts deployerAddr, Rem contractAddr)"
| "call_op (Do_SetContractCodeByContractAddr contractAddr contractCode) = (Cell_ContractCode contractAddr, Put contractCode)"
| "call_op (Do_RemoveContractCodeByContractAddr contractAddr) = (Cell_ContractCode contractAddr, Del)"
| "call_op (Do_SetContractDeployUtxoByContractAddr contractAddr contractDeployUtxo) = (Cell_DeployUtxo contractAddr, Put contractDeployUtxo)"
| "call_op (Do_RemoveContractDeployUtxoByContractAddr contractAddr) = (Cell_DeployUtxo contractAddr, Del)"
| "call_op (Do_SetLatestUtxoByContractAddr contractAddr utxo) = (Cell_LatestUtxo contractAddr, Put utxo)"
| "call_op (Do_RemoveLatestUtxoByContractAddr contractAddr) = (Cell_LatestUtxo contractAddr, Del)"
| "call_op (Do_SetMptValueByMptKey mptKey MptValue) = (Cell_Mpt mptKey, Put MptValue)"
| "call_op (Do_RemoveMptValueByMptKey mptKey) = (Cell_Mpt mptKey, Del)"
| "call_op (Do_SetSignNumberByPeriod period address SignNumber) = (Cell_SignNumber (unat period) address, Put (dec SignNumber))"
| "call_op (Do_RemoveSignNumberByPeriod period address) = (Cell_SignNumber (unat period) address, Del)"
| "call_op (Do_SetBlockNumberByPeriod period BlockNumber) = (Cell_BlockNumber (unat period), Put (dec BlockNumber))"
| "call_op (Do_RemoveBlockNumberByPeriod period) = (Cell_BlockNumber (unat period), Del)"
| "call_op (Do_SetSignAddrByPeriod period addr) = (Cell_SignAddrs (unat period), Add addr False)"
| "call_op (Do_RemoveSignAddrberByPeriod period addr) = (Cell_SignAddrs (unat period), Rem addr)"
| "call_op (Do_SetburnAmountByPeriod period burnAmount) = (Cell_BurnAmount (unat period), Put (dec burnAmount))"
| "call_op (Do_RemoveburnAmountByPeriod period burnAmount) = (Cell_BurnAmount (unat period), Del)"
| "call_op (Do_SetDM totalBurn) = (Cell_DM, Put (dec totalBurn))"
| "call_op (Do_SetTotalInvestAmount totalInvest) = (Cell_TotalInvest, Put (dec totalInvest))"
| "call_op (Do_SetTotalCirculation totalCirculation) = (Cell_M2, Put (dec totalCirculation))"
| "call_op (Do_SetInitVer version) = (Cell_InitVer, Put version)"

text \<open>The two setters of investment outputs first mark the cached amount of the node as stale.\<close>

definition call_touch :: "db_call \<Rightarrow> bonus_cache \<Rightarrow> bonus_cache" where
  "call_touch call c = (case call of
     Do_SetBonusAddrInvestAddrUtxoByBonusAddr bonusAddr _ _ \<Rightarrow> isDirty c bonusAddr True
   | Do_RemoveBonusAddrInvestAddrUtxoByBonusAddr bonusAddr _ _ \<Rightarrow> isDirty c bonusAddr True
   | _ \<Rightarrow> c)"

definition exec_op :: "'s rocksdb \<Rightarrow> 's db_writer \<Rightarrow> cell \<times> cell_op \<Rightarrow> 's setter" where
  "exec_op api d co = (case co of (c, op) \<Rightarrow> (case op of
     Put v \<Rightarrow> WriteData api d (cell_key c) v
   | Del \<Rightarrow> DeleteData api d (cell_key c)
   | Add v firstOrLast \<Rightarrow> MergeValue api d (cell_key c) v firstOrLast
   | Rem v \<Rightarrow> RemoveMergeValue api d (cell_key c) v))"

lemma exec_call_op: "exec_call api d call = exec_op api (d\<lparr>bonus := call_touch call (bonus d)\<rparr>) (call_op call)"
  by (cases call) (simp_all add: exec_op_def call_touch_def setter_defs)

definition op_ok :: "cell_op \<Rightarrow> bool" where
  "op_ok op = (case op of Put v \<Rightarrow> v \<noteq> [] | Del \<Rightarrow> True | Add v _ \<Rightarrow> field v | Rem v \<Rightarrow> v \<noteq> [])"

definition op_fits :: "cell \<times> cell_op \<Rightarrow> bool" where
  "op_fits co = (case co of (c, op) \<Rightarrow> (case op of
     Put _ \<Rightarrow> \<not> is_list_cell c | Del \<Rightarrow> \<not> is_list_cell c
   | Add _ _ \<Rightarrow> is_list_cell c | Rem _ \<Rightarrow> is_list_cell c))"

lemma call_op_fits: "op_fits (call_op call)"
  by (cases call) (simp_all add: op_fits_def)

definition call_ok :: "nat \<Rightarrow> db_call \<Rightarrow> bool" where
  "call_ok n call \<longleftrightarrow> valid_cell n (fst (call_op call)) \<and> op_ok (snd (call_op call))"

section \<open>Getters as queries\<close>

datatype answer = Ans_text string | Ans_list "string list" | Ans_u32 u32 | Ans_u64 u64 | Ans_int int

definition ans :: "('a \<Rightarrow> answer) \<Rightarrow> 'a getter \<Rightarrow> answer getter" where
  "ans f r = bindE r (\<lambda>(st, x). Inr (st, f x))"

datatype (plugins only: size) db_query =
    Ask_GetBlockHeightByBlockHash string
  | Ask_GetBlockHashsByBlockHeight u64
  | Ask_GetBlockByBlockHash string
  | Ask_GetSumHashByHeight u64
  | Ask_GetCheckBlockHashsByBlockHeight u64
  | Ask_GetTopThousandSumhash
  | Ask_GetBlockTop
  | Ask_GetUtxoHashsByAddress string
  | Ask_GetUtxoValueByUtxoHashs string string
  | Ask_GetTransactionByHash string
  | Ask_GetBlockHashByTransactionHash string
  | Ask_GetTransactionByAddress string u32
  | Ask_GetBlockHashByAddress string u32
  | Ask_GetTransactionTopByAddress string
  | Ask_GetBalanceByAddress string
  | Ask_GetStakeAddress
  | Ask_GetStakeAddressUtxo string
  | Ask_GetMutliSignAddress
  | Ask_GetMutliSignAddressUtxo string
  | Ask_GetBonusaddr
  | Ask_GetInvestAddrsByBonusAddr string
  | Ask_GetBonusAddrByInvestAddr string
  | Ask_GetBonusAddrInvestUtxosByBonusAddr string string
  | Ask_GetBonusUtxoByPeriod u64
  | Ask_GetInvestUtxoByPeriod u64
  | Ask_GetSignNumberByPeriod u64 string
  | Ask_GetBlockNumberByPeriod u64
  | Ask_GetSignAddrByPeriod u64
  | Ask_GetburnAmountByPeriod u64
  | Ask_GetDM
  | Ask_GetTotalInvestAmount
  | Ask_GetM2
  | Ask_GetAllEvmDeployerAddr
  | Ask_GetContractAddrByDeployerAddr string
  | Ask_GetContractCodeByContractAddr string
  | Ask_GetContractDeployUtxoByContractAddr string
  | Ask_GetLatestUtxoByContractAddr string
  | Ask_GetMptValueByMptKey string
  | Ask_GetInitVer

primrec exec_query :: "db_reader \<Rightarrow> db_query \<Rightarrow> answer getter" where
  "exec_query rd (Ask_GetBlockHeightByBlockHash blockHash) = ans Ans_u32 (GetBlockHeightByBlockHash rd blockHash 0)"
| "exec_query rd (Ask_GetBlockHashsByBlockHeight blockHeight) = ans Ans_list (GetBlockHashsByBlockHeight rd blockHeight [])"
| "exec_query rd (Ask_GetBlockByBlockHash blockHash) = ans Ans_text (GetBlockByBlockHash rd blockHash [])"
| "exec_query rd (Ask_GetSumHashByHeight height) = ans Ans_text (GetSumHashByHeight rd height [])"
| "exec_query rd (Ask_GetCheckBlockHashsByBlockHeight blockHeight) = ans Ans_text (GetCheckBlockHashsByBlockHeight rd blockHeight [])"
| "exec_query rd Ask_GetTopThousandSumhash = ans Ans_u64 (GetTopThousandSumhash rd 0)"
| "exec_query rd Ask_GetBlockTop = ans Ans_u64 (GetBlockTop rd 0)"
| "exec_query rd (Ask_GetUtxoHashsByAddress address) = ans Ans_list (GetUtxoHashsByAddress rd address [])"
| "exec_query rd (Ask_GetUtxoValueByUtxoHashs utxoHash address) = ans Ans_text (GetUtxoValueByUtxoHashs rd utxoHash address [])"
| "exec_query rd (Ask_GetTransactionByHash txHash) = ans Ans_text (GetTransactionByHash rd txHash [])"
| "exec_query rd (Ask_GetBlockHashByTransactionHash txHash) = ans Ans_text (GetBlockHashByTransactionHash rd txHash [])"
| "exec_query rd (Ask_GetTransactionByAddress address txNum) = ans Ans_text (GetTransactionByAddress rd address txNum [])"
| "exec_query rd (Ask_GetBlockHashByAddress address txNum) = ans Ans_text (GetBlockHashByAddress rd address txNum [])"
| "exec_query rd (Ask_GetTransactionTopByAddress address) = ans Ans_u32 (GetTransactionTopByAddress rd address 0)"
| "exec_query rd (Ask_GetBalanceByAddress address) = ans Ans_int (GetBalanceByAddress rd address 0)"
| "exec_query rd Ask_GetStakeAddress = ans Ans_list (GetStakeAddress rd [])"
| "exec_query rd (Ask_GetStakeAddressUtxo address) = ans Ans_list (GetStakeAddressUtxo rd address [])"
| "exec_query rd Ask_GetMutliSignAddress = ans Ans_list (GetMutliSignAddress rd [])"
| "exec_query rd (Ask_GetMutliSignAddressUtxo address) = ans Ans_list (GetMutliSignAddressUtxo rd address [])"
| "exec_query rd Ask_GetBonusaddr = ans Ans_list (GetBonusaddr rd [])"
| "exec_query rd (Ask_GetInvestAddrsByBonusAddr bonusAddr) = ans Ans_list (GetInvestAddrsByBonusAddr rd bonusAddr [])"
| "exec_query rd (Ask_GetBonusAddrByInvestAddr address) = ans Ans_list (GetBonusAddrByInvestAddr rd address [])"
| "exec_query rd (Ask_GetBonusAddrInvestUtxosByBonusAddr addr address) = ans Ans_list (GetBonusAddrInvestUtxosByBonusAddr rd addr address [])"
| "exec_query rd (Ask_GetBonusUtxoByPeriod period) = ans Ans_list (GetBonusUtxoByPeriod rd period [])"
| "exec_query rd (Ask_GetInvestUtxoByPeriod period) = ans Ans_list (GetInvestUtxoByPeriod rd period [])"
| "exec_query rd (Ask_GetSignNumberByPeriod period address) = ans Ans_u64 (GetSignNumberByPeriod rd period address 0)"
| "exec_query rd (Ask_GetBlockNumberByPeriod period) = ans Ans_u64 (GetBlockNumberByPeriod rd period 0)"
| "exec_query rd (Ask_GetSignAddrByPeriod period) = ans Ans_list (GetSignAddrByPeriod rd period [])"
| "exec_query rd (Ask_GetburnAmountByPeriod period) = ans Ans_u64 (GetburnAmountByPeriod rd period 0)"
| "exec_query rd Ask_GetDM = ans Ans_u64 (GetDM rd 0)"
| "exec_query rd Ask_GetTotalInvestAmount = ans Ans_u64 (GetTotalInvestAmount rd 0)"
| "exec_query rd Ask_GetM2 = ans Ans_u64 (GetM2 rd 0)"
| "exec_query rd Ask_GetAllEvmDeployerAddr = ans Ans_list (GetAllEvmDeployerAddr rd [])"
| "exec_query rd (Ask_GetContractAddrByDeployerAddr deployerAddr) = ans Ans_list (GetContractAddrByDeployerAddr rd deployerAddr [])"
| "exec_query rd (Ask_GetContractCodeByContractAddr contractAddr) = ans Ans_text (GetContractCodeByContractAddr rd contractAddr [])"
| "exec_query rd (Ask_GetContractDeployUtxoByContractAddr contractAddr) = ans Ans_text (GetContractDeployUtxoByContractAddr rd contractAddr [])"
| "exec_query rd (Ask_GetLatestUtxoByContractAddr contractAddr) = ans Ans_text (GetLatestUtxoByContractAddr rd contractAddr [])"
| "exec_query rd (Ask_GetMptValueByMptKey mptKey) = ans Ans_text (GetMptValueByMptKey rd mptKey [])"
| "exec_query rd Ask_GetInitVer = ans Ans_text (GetInitVer rd [])"

primrec query_cell :: "db_query \<Rightarrow> cell" where
  "query_cell (Ask_GetBlockHeightByBlockHash blockHash) = Cell_BlockHeight blockHash"
| "query_cell (Ask_GetBlockHashsByBlockHeight blockHeight) = Cell_BlockHashes (unat blockHeight)"
| "query_cell (Ask_GetBlockByBlockHash blockHash) = Cell_Block blockHash"
| "query_cell (Ask_GetSumHashByHeight height) = Cell_SumHash (unat height)"
| "query_cell (Ask_GetCheckBlockHashsByBlockHeight blockHeight) = Cell_ThousandSumHash (unat blockHeight)"
| "query_cell Ask_GetTopThousandSumhash = Cell_TopThousand"
| "query_cell Ask_GetBlockTop = Cell_BlockTop"
| "query_cell (Ask_GetUtxoHashsByAddress address) = Cell_UtxoHashes address"
| "query_cell (Ask_GetUtxoValueByUtxoHashs utxoHash address) = Cell_UtxoValue address utxoHash"
| "query_cell (Ask_GetTransactionByHash txHash) = Cell_Tx txHash"
| "query_cell (Ask_GetBlockHashByTransactionHash txHash) = Cell_TxBlock txHash"
| "query_cell (Ask_GetTransactionByAddress address txNum) = Cell_AddrTx address (unat txNum)"
| "query_cell (Ask_GetBlockHashByAddress address txNum) = Cell_AddrBlock address (unat txNum)"
| "query_cell (Ask_GetTransactionTopByAddress address) = Cell_AddrTop address"
| "query_cell (Ask_GetBalanceByAddress address) = Cell_Balance address"
| "query_cell Ask_GetStakeAddress = Cell_StakeAddrs"
| "query_cell (Ask_GetStakeAddressUtxo address) = Cell_StakeUtxos address"
| "query_cell Ask_GetMutliSignAddress = Cell_MutliSignAddrs"
| "query_cell (Ask_GetMutliSignAddressUtxo address) = Cell_MutliSignUtxos address"
| "query_cell Ask_GetBonusaddr = Cell_BonusAddrs"
| "query_cell (Ask_GetInvestAddrsByBonusAddr bonusAddr) = Cell_InvestAddrs bonusAddr"
| "query_cell (Ask_GetBonusAddrByInvestAddr address) = Cell_BonusAddrsOf address"
| "query_cell (Ask_GetBonusAddrInvestUtxosByBonusAddr addr address) = Cell_InvestAddrUtxos addr address"
| "query_cell (Ask_GetBonusUtxoByPeriod period) = Cell_BonusUtxos (unat period)"
| "query_cell (Ask_GetInvestUtxoByPeriod period) = Cell_InvestUtxos (unat period)"
| "query_cell (Ask_GetSignNumberByPeriod period address) = Cell_SignNumber (unat period) address"
| "query_cell (Ask_GetBlockNumberByPeriod period) = Cell_BlockNumber (unat period)"
| "query_cell (Ask_GetSignAddrByPeriod period) = Cell_SignAddrs (unat period)"
| "query_cell (Ask_GetburnAmountByPeriod period) = Cell_BurnAmount (unat period)"
| "query_cell Ask_GetDM = Cell_DM"
| "query_cell Ask_GetTotalInvestAmount = Cell_TotalInvest"
| "query_cell Ask_GetM2 = Cell_M2"
| "query_cell Ask_GetAllEvmDeployerAddr = Cell_EvmDeployers"
| "query_cell (Ask_GetContractAddrByDeployerAddr deployerAddr) = Cell_Contracts deployerAddr"
| "query_cell (Ask_GetContractCodeByContractAddr contractAddr) = Cell_ContractCode contractAddr"
| "query_cell (Ask_GetContractDeployUtxoByContractAddr contractAddr) = Cell_DeployUtxo contractAddr"
| "query_cell (Ask_GetLatestUtxoByContractAddr contractAddr) = Cell_LatestUtxo contractAddr"
| "query_cell (Ask_GetMptValueByMptKey mptKey) = Cell_Mpt mptKey"
| "query_cell Ask_GetInitVer = Cell_InitVer"

text \<open>The type of the output parameter, with its value when nothing is read.\<close>

primrec query_default :: "db_query \<Rightarrow> answer" where
  "query_default (Ask_GetBlockHeightByBlockHash _) = Ans_u32 0"
| "query_default (Ask_GetBlockHashsByBlockHeight _) = Ans_list []"
| "query_default (Ask_GetBlockByBlockHash _) = Ans_text []"
| "query_default (Ask_GetSumHashByHeight _) = Ans_text []"
| "query_default (Ask_GetCheckBlockHashsByBlockHeight _) = Ans_text []"
| "query_default Ask_GetTopThousandSumhash = Ans_u64 0"
| "query_default Ask_GetBlockTop = Ans_u64 0"
| "query_default (Ask_GetUtxoHashsByAddress _) = Ans_list []"
| "query_default (Ask_GetUtxoValueByUtxoHashs _ _) = Ans_text []"
| "query_default (Ask_GetTransactionByHash _) = Ans_text []"
| "query_default (Ask_GetBlockHashByTransactionHash _) = Ans_text []"
| "query_default (Ask_GetTransactionByAddress _ _) = Ans_text []"
| "query_default (Ask_GetBlockHashByAddress _ _) = Ans_text []"
| "query_default (Ask_GetTransactionTopByAddress _) = Ans_u32 0"
| "query_default (Ask_GetBalanceByAddress _) = Ans_int 0"
| "query_default Ask_GetStakeAddress = Ans_list []"
| "query_default (Ask_GetStakeAddressUtxo _) = Ans_list []"
| "query_default Ask_GetMutliSignAddress = Ans_list []"
| "query_default (Ask_GetMutliSignAddressUtxo _) = Ans_list []"
| "query_default Ask_GetBonusaddr = Ans_list []"
| "query_default (Ask_GetInvestAddrsByBonusAddr _) = Ans_list []"
| "query_default (Ask_GetBonusAddrByInvestAddr _) = Ans_list []"
| "query_default (Ask_GetBonusAddrInvestUtxosByBonusAddr _ _) = Ans_list []"
| "query_default (Ask_GetBonusUtxoByPeriod _) = Ans_list []"
| "query_default (Ask_GetInvestUtxoByPeriod _) = Ans_list []"
| "query_default (Ask_GetSignNumberByPeriod _ _) = Ans_u64 0"
| "query_default (Ask_GetBlockNumberByPeriod _) = Ans_u64 0"
| "query_default (Ask_GetSignAddrByPeriod _) = Ans_list []"
| "query_default (Ask_GetburnAmountByPeriod _) = Ans_u64 0"
| "query_default Ask_GetDM = Ans_u64 0"
| "query_default Ask_GetTotalInvestAmount = Ans_u64 0"
| "query_default Ask_GetM2 = Ans_u64 0"
| "query_default Ask_GetAllEvmDeployerAddr = Ans_list []"
| "query_default (Ask_GetContractAddrByDeployerAddr _) = Ans_list []"
| "query_default (Ask_GetContractCodeByContractAddr _) = Ans_text []"
| "query_default (Ask_GetContractDeployUtxoByContractAddr _) = Ans_text []"
| "query_default (Ask_GetLatestUtxoByContractAddr _) = Ans_text []"
| "query_default (Ask_GetMptValueByMptKey _) = Ans_text []"
| "query_default Ask_GetInitVer = Ans_text []"

text \<open>The argument checks four getters make before they read.\<close>

definition query_rejected :: "db_query \<Rightarrow> bool" where
  "query_rejected q = (case q of
     Ask_GetBlockHeightByBlockHash blockHash \<Rightarrow> blockHash = []
   | Ask_GetBlockByBlockHash blockHash \<Rightarrow> blockHash = []
   | Ask_GetSumHashByHeight height \<Rightarrow> height mod 100 \<noteq> 0 \<or> height = 0
   | Ask_GetCheckBlockHashsByBlockHeight blockHeight \<Rightarrow> blockHeight mod 1000 \<noteq> 0 \<or> blockHeight = 0
   | _ \<Rightarrow> False)"


section \<open>The tables\<close>

datatype cell_value = Absent | Text string | Fields "string list"

type_synonym tables = "cell \<Rightarrow> cell_value"

definition cell_of :: "cell \<Rightarrow> string option \<Rightarrow> cell_value" where
  "cell_of c r = (case r of None \<Rightarrow> Absent | Some s \<Rightarrow> if is_list_cell c then Fields (tokens s) else Text s)"

definition table_of :: "nat \<Rightarrow> (string \<rightharpoonup> string) \<Rightarrow> tables" where
  "table_of n m c = (if valid_cell n c then cell_of c (m (cell_key c)) else Absent)"

definition fields_of :: "cell_value \<Rightarrow> string list" where
  "fields_of v = (case v of Fields xs \<Rightarrow> xs | _ \<Rightarrow> [])"

definition spec_op :: "cell \<times> cell_op \<Rightarrow> tables \<Rightarrow> tables" where
  "spec_op co t = (case co of (c, op) \<Rightarrow> t(c := (case op of
     Put v \<Rightarrow> Text v
   | Del \<Rightarrow> Absent
   | Add v firstOrLast \<Rightarrow> Fields (merge_list firstOrLast v (fields_of (t c)))
   | Rem v \<Rightarrow> (case removeAll v (fields_of (t c)) of [] \<Rightarrow> Absent | x # xs \<Rightarrow> Fields (x # xs)))))"

definition convert_text :: "answer \<Rightarrow> string \<Rightarrow> answer getter" where
  "convert_text dflt s = (case dflt of
     Ans_u32 _ \<Rightarrow> bindE (lift_num (stoul s)) (\<lambda>k. Inr (DB_SUCCESS, Ans_u32 (word_of_nat k)))
   | Ans_u64 _ \<Rightarrow> bindE (lift_num (stoul s)) (\<lambda>k. Inr (DB_SUCCESS, Ans_u64 (word_of_nat k)))
   | Ans_int _ \<Rightarrow> bindE (lift_num (stol s)) (\<lambda>i. Inr (DB_SUCCESS, Ans_int i))
   | _ \<Rightarrow> Inr (DB_SUCCESS, Ans_text s))"

definition spec_query :: "tables \<Rightarrow> db_query \<Rightarrow> answer getter" where
  "spec_query t q =
     (if query_rejected q then Inr (DB_PARAM_NULL, query_default q)
      else case t (query_cell q) of
        Absent \<Rightarrow> Inr (DB_NOT_FOUND, query_default q)
      | Text s \<Rightarrow> convert_text (query_default q) s
      | Fields xs \<Rightarrow> Inr (DB_SUCCESS, Ans_list xs))"

section \<open>Queries implement table lookup\<close>

text \<open>A reader whose answers come from the map \<open>m\<close>.\<close>

definition reads_as :: "db_reader \<Rightarrow> (string \<rightharpoonup> string) \<Rightarrow> bool" where
  "reads_as rd m \<longleftrightarrow>
     (\<forall>k v0. k \<noteq> [] \<longrightarrow> ReadData rd k v0 =
        (case m k of Some v \<Rightarrow> Inr (DB_SUCCESS, v) | None \<Rightarrow> Inr (DB_NOT_FOUND, [])))"

lemma reads_asD:
  "reads_as rd m \<Longrightarrow> k \<noteq> [] \<Longrightarrow>
   ReadData rd k v0 = (case m k of Some v \<Rightarrow> Inr (DB_SUCCESS, v) | None \<Rightarrow> Inr (DB_NOT_FOUND, []))"
  by (simp add: reads_as_def)

lemma split_to_tokens [simp]: "split_to s out = out @ tokens s"
  by (simp add: split_to_def SplitString_tokens)

text \<open>One getter, in terms of the cell it reads.\<close>

definition read_cell :: "db_reader \<Rightarrow> answer \<Rightarrow> cell \<Rightarrow> answer getter" where
  "read_cell rd dflt c = (case dflt of
     Ans_text out \<Rightarrow> ans Ans_text (ReadData rd (cell_key c) out)
   | Ans_list out \<Rightarrow> ans Ans_list (read_list rd (cell_key c) out)
   | Ans_u32 out \<Rightarrow> ans Ans_u32 (read_unsigned rd (cell_key c) out)
   | Ans_u64 out \<Rightarrow> ans Ans_u64 (read_unsigned rd (cell_key c) out)
   | Ans_int out \<Rightarrow> ans Ans_int (bindE (ReadData rd (cell_key c) []) (\<lambda>(ret, value).
       if ret = DB_SUCCESS then bindE (lift_num (stol value)) (\<lambda>i. Inr (ret, i)) else Inr (ret, out))))"

lemma GetInitVer_read:
  "reads_as rd m \<Longrightarrow> GetInitVer rd [] = ReadData rd kInitVersionKey []"
  by (simp add: GetInitVer_def reads_asD kInitVersionKey_def split: option.splits)

lemma exec_query_cell:
  assumes "reads_as rd m" and "\<not> query_rejected q"
  shows "exec_query rd q = read_cell rd (query_default q) (query_cell q)"
proof (cases "q = Ask_GetInitVer")
  case True
  then show ?thesis
    using GetInitVer_read [OF assms(1)] by (simp add: read_cell_def)
next
  case False
  with assms(2) show ?thesis
    by (cases q) (simp_all add: read_cell_def getter_defs query_rejected_def)
qed

lemma query_default_list: "is_list_cell (query_cell q) \<longleftrightarrow> query_default q = Ans_list []"
  by (cases q) simp_all

lemma query_rejected_default:
  "query_rejected q \<Longrightarrow> exec_query rd q = Inr (DB_PARAM_NULL, query_default q)"
  by (cases q) (simp_all add: query_rejected_def getter_defs ans_def)

lemma query_default_cases:
  "query_default q \<in> {Ans_text [], Ans_list [], Ans_u32 0, Ans_u64 0, Ans_int 0}"
  by (cases q) simp_all

lemma read_cell_spec:
  assumes "reads_as rd m" and "valid_cell n c"
    and "dflt \<in> {Ans_text [], Ans_list [], Ans_u32 0, Ans_u64 0, Ans_int 0}"
    and "is_list_cell c \<longleftrightarrow> dflt = Ans_list []"
  shows "read_cell rd dflt c = (case table_of n m c of
        Absent \<Rightarrow> Inr (DB_NOT_FOUND, dflt)
      | Text s \<Rightarrow> convert_text dflt s
      | Fields xs \<Rightarrow> Inr (DB_SUCCESS, Ans_list xs))"
  using assms(2-) reads_asD [OF assms(1) cell_key_nonempty [of c]]
  by (cases "m (cell_key c)")
    (auto simp: read_cell_def read_list_def read_unsigned_def ans_def convert_text_def table_of_def cell_of_def
      bindE_def split: sum.splits)

lemma exec_query_spec:
  assumes "reads_as rd m" and "valid_cell n (query_cell q)"
  shows "exec_query rd q = spec_query (table_of n m) q"
proof (cases "query_rejected q")
  case True
  then show ?thesis by (simp add: spec_query_def query_rejected_default)
next
  case False
  then show ?thesis
    using exec_query_cell [OF assms(1) False]
      read_cell_spec [OF assms query_default_cases query_default_list]
    by (simp add: spec_query_def)
qed


end
