(* ===== verification/Db_Session.thy ===== *)
theory Db_Session
  imports Db_Tables
begin

text \<open>
  Sessions of the database: a \<open>DBReadWriter\<close> is opened, a sequence of setter calls runs in
  its transaction, and the transaction is committed, or rolled back when the object is
  destroyed. Over the contract of RocksDB the calls implement the table operations of
  \<open>Db_Tables\<close>; other readers see them only after the commit.
\<close>

section \<open>Calls\<close>

fun exec_calls :: "'s rocksdb \<Rightarrow> 's db_writer \<Rightarrow> db_call list \<Rightarrow> (db_error, 's db_writer) result" where
  "exec_calls api d [] = Inr d"
| "exec_calls api d (call # calls) = bindE (exec_call api d call) (\<lambda>(d', st). exec_calls api d' calls)"

definition spec_calls :: "db_call list \<Rightarrow> tables \<Rightarrow> tables" where
  "spec_calls calls t = fold spec_op (map call_op calls) t"

lemma table_of_other:
  assumes "valid_cell n c" and "c' \<noteq> c" and "\<And>k. k \<noteq> cell_key c \<Longrightarrow> m' k = m k"
  shows "table_of n m' c' = table_of n m c'"
proof (cases "valid_cell n c'")
  case True
  then have "cell_key c' \<noteq> cell_key c"
    using assms(1,2) cell_key_inject by blast
  then show ?thesis
    by (simp add: table_of_def assms(3))
qed (simp add: table_of_def)

lemma table_of_change:
  assumes "valid_cell n c" and "\<And>k. k \<noteq> cell_key c \<Longrightarrow> m' k = m k"
  shows "table_of n m' = (table_of n m)(c := cell_of c (m' (cell_key c)))"
proof
  fix c'
  show "table_of n m' c' = ((table_of n m)(c := cell_of c (m' (cell_key c)))) c'"
    using table_of_other [OF assms(1) _ assms(2), of c'] assms(1)
    by (cases "c' = c") (simp_all add: table_of_def [of n m' c])
qed

lemma cell_of_list_at:
  "is_list_cell c \<Longrightarrow> fields_of (cell_of c (m (cell_key c))) = list_at m (cell_key c)"
  by (simp add: cell_of_def fields_of_def list_at_def split: option.splits)

lemma cell_of_nonempty:
  "is_list_cell c \<Longrightarrow> list_at m (cell_key c) \<noteq> [] \<Longrightarrow> cell_of c (m (cell_key c)) = Fields (list_at m (cell_key c))"
  by (simp add: cell_of_def list_at_def split: option.splits)

lemma merge_list_nonempty [simp]: "merge_list b v xs \<noteq> []"
  by (auto simp: merge_list_def)

text \<open>A writer whose transaction is open and will be rolled back by the destructor.\<close>

definition writer_ready :: "('s \<Rightarrow> bool) \<Rightarrow> 's db_writer \<Rightarrow> bool" where
  "writer_ready good d \<longleftrightarrow> auto_oper_trans d \<and> ready good (db_read_writer d)"

abbreviation wstore :: "'s db_writer \<Rightarrow> 's" where
  "wstore d \<equiv> store (db_read_writer d)"

context rocksdb_contract
begin

lemma exec_op_refines:
  assumes w: "writer_ready good d" and c: "valid_cell n c" and ok: "op_ok op" and fits: "op_fits (c, op)"
  shows "\<exists>d'. exec_op api d (c, op) = Inr (d', DB_SUCCESS) \<and> writer_ready good d' \<and> bonus d' = bonus d \<and>
    committed (wstore d') = committed (wstore d) \<and>
    table_of n (view (wstore d')) = spec_op (c, op) (table_of n (view (wstore d)))"
proof -
  let ?w = "db_read_writer d" and ?k = "cell_key c"
  have r: "ready good ?w" and k: "?k \<noteq> []"
    using w by (auto simp: writer_ready_def)
  note upd = writer_ready_def done_status_def exec_op_def spec_op_def
  show ?thesis
  proof (cases op)
    case (Put v)
    then obtain w' where "RW_WriteData api ?w ?k v = (w', True, StOk)" "ready good w'"
      "view (store w') = (view (store ?w))(?k \<mapsto> v)" "committed (store w') = committed (store ?w)"
      using write_ready [OF r k, of v] ok by (auto simp: op_ok_def)
    with Put w fits c show ?thesis
      by (auto simp: upd WriteData_def op_fits_def cell_of_def
          table_of_change [of n c "(view (store ?w))(?k \<mapsto> v)" "view (store ?w)"])
  next
    case Del
    obtain w' where "RW_DeleteData api ?w ?k = (w', True, StOk)" "ready good w'"
      "view (store w') = (view (store ?w))(?k := None)" "committed (store w') = committed (store ?w)"
      using delete_ready [OF r k] by auto
    with Del w c show ?thesis
      by (auto simp: upd DeleteData_def cell_of_def
          table_of_change [of n c "(view (store ?w))(?k := None)" "view (store ?w)"])
  next
    case (Add v b)
    have v: "field v" and l: "is_list_cell c"
      using ok fits Add by (auto simp: op_ok_def op_fits_def)
    obtain w' where "RW_MergeValue api ?w ?k v b = Inr (w', True, StOk)" "ready good w'"
      and com: "committed (store w') = committed (store ?w)"
      and other: "\<forall>k'. k' \<noteq> ?k \<longrightarrow> view (store w') k' = view (store ?w) k'"
      and lst: "list_at (view (store w')) ?k = merge_list b v (list_at (view (store ?w)) ?k)"
      using merge_ready [OF r k v, of b] by auto
    moreover have "table_of n (view (store w')) = spec_op (c, op) (table_of n (view (store ?w)))"
      using table_of_change [OF c, of "view (store w')" "view (store ?w)"] other
        cell_of_nonempty [OF l, of "view (store w')"] cell_of_list_at [OF l, of "view (store ?w)"]
      by (simp add: lst Add spec_op_def table_of_def c)
    ultimately show ?thesis
      using Add w by (auto simp: writer_ready_def done_status_def exec_op_def MergeValue_def)
  next
    case (Rem v)
    have v: "v \<noteq> []" and l: "is_list_cell c"
      using ok fits Rem by (auto simp: op_ok_def op_fits_def)
    obtain w' st where "RW_RemoveMergeValue api ?w ?k v = Inr (w', True, st)" "ready good w'"
      and com: "committed (store w') = committed (store ?w)"
      and other: "\<forall>k'. k' \<noteq> ?k \<longrightarrow> view (store w') k' = view (store ?w) k'"
      and lst: "list_at (view (store w')) ?k = removeAll v (list_at (view (store ?w)) ?k)"
      and del: "list_at (view (store w')) ?k = [] \<longrightarrow> view (store w') ?k = None"
      using remove_merge_ready [OF r k v] by auto
    moreover have "table_of n (view (store w')) = spec_op (c, op) (table_of n (view (store ?w)))"
      using table_of_change [OF c, of "view (store w')" "view (store ?w)"] other del lst
        cell_of_nonempty [OF l, of "view (store w')"] cell_of_list_at [OF l, of "view (store ?w)"]
      by (auto simp: Rem spec_op_def table_of_def c cell_of_def [of c None] split: list.splits)
    ultimately show ?thesis
      using Rem w by (auto simp: writer_ready_def done_status_def exec_op_def RemoveMergeValue_def)
  qed
qed

lemma exec_call_refines:
  assumes "writer_ready good d" and "call_ok n call"
  shows "\<exists>d'. exec_call api d call = Inr (d', DB_SUCCESS) \<and> writer_ready good d' \<and>
    bonus d' = call_touch call (bonus d) \<and> committed (wstore d') = committed (wstore d) \<and>
    table_of n (view (wstore d')) = spec_op (call_op call) (table_of n (view (wstore d)))"
proof -
  obtain c op where co: "call_op call = (c, op)"
    by (cases "call_op call")
  let ?d = "d\<lparr>bonus := call_touch call (bonus d)\<rparr>"
  have "writer_ready good ?d"
    using assms(1) by (simp add: writer_ready_def)
  moreover have "valid_cell n c" "op_ok op" "op_fits (c, op)"
    using assms(2) call_op_fits [of call] co by (auto simp: call_ok_def)
  ultimately show ?thesis
    using exec_op_refines [of ?d n c op] by (simp add: exec_call_op co)
qed

lemma exec_calls_refines:
  "writer_ready good d \<Longrightarrow> \<forall>call \<in> set calls. call_ok n call \<Longrightarrow>
   \<exists>d'. exec_calls api d calls = Inr d' \<and> writer_ready good d' \<and> committed (wstore d') = committed (wstore d) \<and>
     bonus d' = fold call_touch calls (bonus d) \<and>
     table_of n (view (wstore d')) = spec_calls calls (table_of n (view (wstore d)))"
proof (induction calls arbitrary: d)
  case Nil
  then show ?case by (simp add: spec_calls_def)
next
  case (Cons call calls)
  then obtain d1 where d1: "exec_call api d call = Inr (d1, DB_SUCCESS)" "writer_ready good d1"
    "committed (wstore d1) = committed (wstore d)" "bonus d1 = call_touch call (bonus d)"
    "table_of n (view (wstore d1)) = spec_op (call_op call) (table_of n (view (wstore d)))"
    using exec_call_refines [of d n call] by auto
  with Cons.IH [OF d1(2)] Cons.prems show ?case
    by (simp add: spec_calls_def)
qed

section \<open>Opening, committing, dropping\<close>

lemma open_writer:
  assumes "good s"
  shows "writer_ready good (DBReadWriter api True s c) \<and>
    view (wstore (DBReadWriter api True s c)) = committed s \<and>
    committed (wstore (DBReadWriter api True s c)) = committed s \<and> bonus (DBReadWriter api True s c) = c"
  using init_ready [of "\<lparr>is_init_success = True, txn_open = False, store = s\<rparr>"] assms
  by (auto simp: DBReadWriter_def ReTransactionInit_def DBReadWriter_TransactionRollBack_def writer_ready_def)

lemma commit_writer:
  assumes "writer_ready good d"
  shows "\<exists>d'. DBReadWriter_TransactionCommit api d = (d', DB_SUCCESS) \<and> \<not> auto_oper_trans d' \<and>
    is_init_success (db_read_writer d') \<and> good (wstore d') \<and> bonus d' = bonus d \<and>
    committed (wstore d') = view (wstore d)"
  using commit_ready [of "db_read_writer d"] assms
  by (auto simp: DBReadWriter_TransactionCommit_def writer_ready_def)

lemma delete_writer:
  assumes "writer_ready good d"
  shows "is_init_success (db_read_writer (DBReadWriter_delete api d)) \<and> good (wstore (DBReadWriter_delete api d)) \<and>
    committed (wstore (DBReadWriter_delete api d)) = committed (wstore d)"
  using rollback_ready [of "db_read_writer d" StOk] assms
  by (auto simp: DBReadWriter_delete_def DBReadWriter_TransactionRollBack_def writer_ready_def)

section \<open>Readers\<close>

lemma DBReader_reads:
  assumes "is_init_success w" and "good (store w)"
  shows "reads_as (DBReader api w) (committed (store w))"
  unfolding reads_as_def
proof (intro allI impI)
  fix k v0 :: string
  assume "k \<noteq> []"
  then show "ReadData (DBReader api w) k v0 =
      (case committed (store w) k of Some v \<Rightarrow> Inr (DB_SUCCESS, v) | None \<Rightarrow> Inr (DB_NOT_FOUND, []))"
    using reader_read [OF assms, of k v0]
    by (auto simp: DBReader_def DBReader_ReadData_def read_status_def split: option.splits)
qed

lemma DBReadWriter_reads:
  assumes "ready good w"
  shows "reads_as (DBReadWriter_reader api w) (view (store w))"
  unfolding reads_as_def
proof (intro allI impI)
  fix k v0 :: string
  assume "k \<noteq> []"
  then show "ReadData (DBReadWriter_reader api w) k v0 =
      (case view (store w) k of Some v \<Rightarrow> Inr (DB_SUCCESS, v) | None \<Rightarrow> Inr (DB_NOT_FOUND, []))"
    using read_ready [OF assms, of k v0]
    by (auto simp: DBReadWriter_reader_def DBReadWriter_ReadData_def read_status_def split: option.splits)
qed

lemma DBReader_query:
  assumes "is_init_success w" and "good (store w)" and "valid_cell n (query_cell q)"
  shows "exec_query (DBReader api w) q = spec_query (table_of n (committed (store w))) q"
  using exec_query_spec [OF DBReader_reads] assms by blast

lemma DBReadWriter_query:
  assumes "ready good w" and "valid_cell n (query_cell q)"
  shows "exec_query (DBReadWriter_reader api w) q = spec_query (table_of n (view (store w))) q"
  using exec_query_spec [OF DBReadWriter_reads] assms by blast

end

section \<open>Numbers\<close>

text \<open>The cells that hold numbers hold the decimal text the setters write.\<close>

definition is_u64_text :: "string \<Rightarrow> bool" where
  "is_u64_text s \<longleftrightarrow> (\<exists>k < 2 ^ 64. s = to_string k)"

definition is_i64_text :: "string \<Rightarrow> bool" where
  "is_i64_text s \<longleftrightarrow> (\<exists>i. - (2 ^ 63) \<le> i \<and> i < 2 ^ 63 \<and> s = to_string_int i)"

definition numeral_text :: "cell \<Rightarrow> string \<Rightarrow> bool" where
  "numeral_text c s = (case c of
     Cell_Balance _ \<Rightarrow> is_i64_text s
   | _ \<Rightarrow> (c \<in> {Cell_TopThousand, Cell_BlockTop, Cell_DM, Cell_TotalInvest, Cell_M2} \<or>
       (\<exists>h. c \<in> {Cell_BlockHeight h, Cell_AddrTop h}) \<or>
       (\<exists>p a. c \<in> {Cell_SignNumber p a, Cell_BlockNumber p, Cell_BurnAmount p})) \<longrightarrow>
      is_u64_text s)"

definition tables_ok :: "tables \<Rightarrow> bool" where
  "tables_ok t \<longleftrightarrow> (\<forall>c s. t c = Text s \<longrightarrow> numeral_text c s)"

lemma is_u64_text_u32 [simp]: "is_u64_text (dec (x :: u32))"
  using unsigned_less [of x, where ?'a = nat] unfolding is_u64_text_def by (intro exI [of _ "unat x"]) simp

lemma is_u64_text_u64 [simp]: "is_u64_text (dec (x :: u64))"
  using unsigned_less [of x, where ?'a = nat] unfolding is_u64_text_def by (intro exI [of _ "unat x"]) simp

lemma is_i64_text_sint [simp]: "is_i64_text (to_string_int (sint (x :: u64)))"
  using sint_greater_eq [of x] sint_less [of x] unfolding is_i64_text_def
  by (intro exI [of _ "sint x"]) simp

lemma is_u64_text_stoul: "is_u64_text s \<Longrightarrow> \<exists>k. stoul s = Inr k"
  using stoul_to_string unfolding is_u64_text_def by blast

lemma is_i64_text_stol: "is_i64_text s \<Longrightarrow> \<exists>i. stol s = Inr i"
  using stol_to_string_int unfolding is_i64_text_def by blast

lemma call_op_numeral: "call_op call = (c, Put v) \<Longrightarrow> numeral_text c v"
  by (cases call) (auto simp: numeral_text_def)

lemma spec_op_ok:
  assumes "tables_ok t" and "\<And>c v. co = (c, Put v) \<Longrightarrow> numeral_text c v"
  shows "tables_ok (spec_op co t)"
  using assms by (cases co; cases "snd co") (auto simp: tables_ok_def spec_op_def split: list.splits)

lemma spec_calls_ok: "tables_ok t \<Longrightarrow> tables_ok (spec_calls calls t)"
  unfolding spec_calls_def
proof (induction calls arbitrary: t)
  case (Cons call calls)
  then show ?case
    using spec_op_ok [OF Cons.prems, of "call_op call"] call_op_numeral by simp
qed simp

lemma query_numeral:
  assumes "numeral_text (query_cell q) s"
  shows "\<exists>r. convert_text (query_default q) s = Inr r"
  using assms
  by (cases q) (auto simp: numeral_text_def convert_text_def dest!: is_u64_text_stoul is_i64_text_stol)

lemma spec_query_total: "tables_ok t \<Longrightarrow> \<exists>r. spec_query t q = Inr r"
  using query_numeral by (auto simp: spec_query_def tables_ok_def split: cell_value.splits)

section \<open>Block hashes over a range of heights\<close>

context rocksdb_contract
begin

lemma DBReader_multi:
  assumes "is_init_success w" and "good (store w)" and "ks \<noteq> []"
    and "\<forall>k \<in> set ks. committed (store w) k \<noteq> None"
  shows "MultiReadData (DBReader api w) ks vs = Inr (DB_SUCCESS, map (\<lambda>k. the (committed (store w) k)) ks)"
proof -
  have get: "db_Get api (store w) k = (StOk, the (committed (store w) k))" if "k \<in> set ks" for k
    using that assms db_found by auto
  then have *: "map (db_Get api (store w)) ks = map (\<lambda>k. (StOk, the (committed (store w) k))) ks"
    by simp
  show ?thesis
    using assms(1-3) db_multiget_law [OF assms(2), of ks]
    by (auto simp: DBReader_def DBReader_MultiReadData_def R_MultiReadData_def multi_status_def scan_statuses_def
        * comp_def list_all_iff)
qed

end

section \<open>Properties\<close>

text \<open>
  C5: Over RocksDB, a writer that runs any sequence of valid setter calls in its transaction
  has every call succeed; its own getters at once answer from the tables with all the calls
  applied in order, while every other reader still answers from the tables as they were; the
  commit succeeds, and after it every getter of every reader answers from the updated tables.
\<close>

theorem db_session_commit:
  assumes "rocksdb_contract api good view committed" and "good s"
    and "\<forall>call \<in> set calls. call_ok n call"
  shows "\<exists>d d'. exec_calls api (DBReadWriter api True s cache) calls = Inr d \<and>
    DBReadWriter_TransactionCommit api d = (d', DB_SUCCESS) \<and>
    (\<forall>q. valid_cell n (query_cell q) \<longrightarrow>
       exec_query (DBReadWriter_reader api (db_read_writer d)) q =
         spec_query (spec_calls calls (table_of n (committed s))) q \<and>
       exec_query (DBReader api (db_read_writer d)) q = spec_query (table_of n (committed s)) q \<and>
       exec_query (DBReader api (db_read_writer d')) q =
         spec_query (spec_calls calls (table_of n (committed s))) q)"
proof -
  note c = assms(1)
  let ?d0 = "DBReadWriter api True s cache"
  have d0: "writer_ready good ?d0" "view (wstore ?d0) = committed s" "committed (wstore ?d0) = committed s"
    using rocksdb_contract.open_writer [OF c assms(2)] by blast+
  obtain d where d: "exec_calls api ?d0 calls = Inr d" "writer_ready good d"
    "committed (wstore d) = committed s"
    "table_of n (view (wstore d)) = spec_calls calls (table_of n (committed s))"
    using rocksdb_contract.exec_calls_refines [OF c d0(1) assms(3)] d0 by auto
  obtain d' where d': "DBReadWriter_TransactionCommit api d = (d', DB_SUCCESS)"
    "is_init_success (db_read_writer d')" "good (wstore d')" "committed (wstore d') = view (wstore d)"
    using rocksdb_contract.commit_writer [OF c d(2)] by blast
  have r: "ready good (db_read_writer d)" "is_init_success (db_read_writer d)" "good (wstore d)"
    using d(2) by (auto simp: writer_ready_def ready_def)
  show ?thesis
    using d d' rocksdb_contract.DBReadWriter_query [OF c r(1)]
      rocksdb_contract.DBReader_query [OF c r(2,3)] rocksdb_contract.DBReader_query [OF c d'(2,3)]
    by (intro exI [of _ d] exI [of _ d']) simp
qed

definition mem0 :: mem_db where
  "mem0 = \<lparr>base = Map.empty, batch = Map.empty\<rparr>"

lemma table_of_empty [simp]: "table_of n Map.empty c = Absent"
  by (simp add: table_of_def cell_of_def)

theorem db_session_commit_witness:
  "\<exists>d d'. exec_calls mem_rocks (DBReadWriter mem_rocks True mem0 Map.empty)
      [Do_SetBlockTop 7, Do_SetBlockHashByBlockHeight 7 ''a'' False, Do_SetBlockHashByBlockHeight 7 ''b'' True] = Inr d \<and>
    DBReadWriter_TransactionCommit mem_rocks d = (d', DB_SUCCESS) \<and>
    exec_query (DBReader mem_rocks (db_read_writer d)) Ask_GetBlockTop = Inr (DB_NOT_FOUND, Ans_u64 0) \<and>
    exec_query (DBReader mem_rocks (db_read_writer d')) Ask_GetBlockTop = Inr (DB_SUCCESS, Ans_u64 7) \<and>
    exec_query (DBReader mem_rocks (db_read_writer d')) (Ask_GetBlockHashsByBlockHeight 7) =
      Inr (DB_SUCCESS, Ans_list [''b'', ''a''])"
proof -
  let ?calls = "[Do_SetBlockTop 7, Do_SetBlockHashByBlockHeight 7 ''a'' False, Do_SetBlockHashByBlockHeight 7 ''b'' True]"
  have ok: "\<forall>call \<in> set ?calls. call_ok 34 call"
    by (simp add: call_ok_def op_ok_def field_def valid_cell_def)
  have q: "spec_query (spec_calls ?calls (table_of 34 Map.empty)) Ask_GetBlockTop = Inr (DB_SUCCESS, Ans_u64 7)"
    "spec_query (spec_calls ?calls (table_of 34 Map.empty)) (Ask_GetBlockHashsByBlockHeight 7) =
      Inr (DB_SUCCESS, Ans_list [''b'', ''a''])"
    "spec_query (table_of 34 Map.empty) Ask_GetBlockTop = Inr (DB_NOT_FOUND, Ans_u64 0)"
    by (simp_all add: spec_query_def spec_calls_def spec_op_def query_rejected_def convert_text_def
        stoul_to_string fields_of_def merge_list_def)
  have v: "valid_cell 34 (query_cell Ask_GetBlockTop)"
    "valid_cell 34 (query_cell (Ask_GetBlockHashsByBlockHeight 7))"
    by (simp_all add: valid_cell_def)
  have b: "base mem0 = Map.empty"
    by (simp add: mem0_def)
  show ?thesis
    using db_session_commit [OF mem_contract TrueI ok, of mem0 Map.empty, unfolded b] v q by metis
qed

text \<open>
  C6: A writer destroyed without a commit leaves no trace: whatever valid calls it ran, every
  getter of every reader answers afterwards as before it was opened.
\<close>

theorem db_session_rollback:
  assumes "rocksdb_contract api good view committed" and "good s"
    and "\<forall>call \<in> set calls. call_ok n call"
  shows "\<exists>d. exec_calls api (DBReadWriter api True s cache) calls = Inr d \<and>
    (\<forall>q. valid_cell n (query_cell q) \<longrightarrow>
       exec_query (DBReader api (db_read_writer (DBReadWriter_delete api d))) q =
         spec_query (table_of n (committed s)) q)"
proof -
  note c = assms(1)
  let ?d0 = "DBReadWriter api True s cache"
  have d0: "writer_ready good ?d0" "committed (wstore ?d0) = committed s"
    using rocksdb_contract.open_writer [OF c assms(2)] by blast+
  obtain d where d: "exec_calls api ?d0 calls = Inr d" "writer_ready good d" "committed (wstore d) = committed s"
    using rocksdb_contract.exec_calls_refines [OF c d0(1) assms(3)] d0 by auto
  note del = rocksdb_contract.delete_writer [OF c d(2)]
  show ?thesis
    using d del rocksdb_contract.DBReader_query [OF c, of "db_read_writer (DBReadWriter_delete api d)" n]
    by (intro exI [of _ d]) simp
qed

theorem db_session_rollback_witness:
  "\<exists>d. exec_calls mem_rocks (DBReadWriter mem_rocks True mem0 Map.empty) [Do_SetBlockTop 7] = Inr d \<and>
    exec_query (DBReader mem_rocks (db_read_writer (DBReadWriter_delete mem_rocks d))) Ask_GetBlockTop =
      Inr (DB_NOT_FOUND, Ans_u64 0)"
proof -
  have ok: "\<forall>call \<in> set [Do_SetBlockTop 7]. call_ok 34 call"
    by (simp add: call_ok_def op_ok_def valid_cell_def)
  have q: "spec_query (table_of 34 Map.empty) Ask_GetBlockTop = Inr (DB_NOT_FOUND, Ans_u64 0)"
    by (simp add: spec_query_def query_rejected_def)
  have v: "valid_cell 34 (query_cell Ask_GetBlockTop)" and b: "base mem0 = Map.empty"
    by (simp_all add: valid_cell_def mem0_def)
  show ?thesis
    using db_session_rollback [OF mem_contract TrueI ok, of mem0 Map.empty, unfolded b] v q by metis
qed

text \<open>
  Two different logical entries are never stored under the same key, whatever families
  they belong to; the key determines the family and the arguments.
\<close>

theorem db_keys_determine_cells:
  assumes "valid_cell n c" and "valid_cell n c'" and "c \<noteq> c'"
  shows "cell_key c \<noteq> cell_key c'"
  using assms cell_key_inject by blast

theorem db_keys_determine_cells_witness:
  "cell_key (Cell_InvestAddrUtxos ''a'' ''b_c'') \<noteq> cell_key (Cell_UtxoValue ''investaddr'' ''b_c'')"
  using db_keys_determine_cells [of 34 "Cell_InvestAddrUtxos ''a'' ''b_c''" "Cell_UtxoValue ''investaddr'' ''b_c''"]
  by (simp add: valid_cell_def decoders_def)

text \<open>
  Nothing separates the period from the address in the key of a signature counter: with
  addresses of different lengths two counters share a key.
\<close>

lemma sign_number_keys_collide:
  "cell_key (Cell_SignNumber 1 ''2a'') = cell_key (Cell_SignNumber 12 ''a'')"
  by (simp add: kSignNumberKey_def to_string.simps char_of_def bit_simps)

text \<open>
  C7: Numeric entries only ever hold decimal text that their getters accept: if this is so of
  the database when a writer opens, then after any committed sequence of valid calls no
  getter of any reader lets an exception of the number parser escape.
\<close>

theorem db_queries_never_throw:
  assumes "rocksdb_contract api good view committed" and "good s"
    and "\<forall>call \<in> set calls. call_ok n call" and "tables_ok (table_of n (committed s))"
  shows "\<exists>d d'. exec_calls api (DBReadWriter api True s cache) calls = Inr d \<and>
    DBReadWriter_TransactionCommit api d = (d', DB_SUCCESS) \<and>
    tables_ok (table_of n (committed (wstore d'))) \<and>
    (\<forall>q. valid_cell n (query_cell q) \<longrightarrow> (\<exists>r. exec_query (DBReader api (db_read_writer d')) q = Inr r))"
proof -
  note c = assms(1)
  let ?d0 = "DBReadWriter api True s cache"
  have d0: "writer_ready good ?d0" "view (wstore ?d0) = committed s"
    using rocksdb_contract.open_writer [OF c assms(2)] by blast+
  obtain d where d: "exec_calls api ?d0 calls = Inr d" "writer_ready good d"
    "table_of n (view (wstore d)) = spec_calls calls (table_of n (committed s))"
    using rocksdb_contract.exec_calls_refines [OF c d0(1) assms(3)] d0 by auto
  obtain d' where d': "DBReadWriter_TransactionCommit api d = (d', DB_SUCCESS)"
    "is_init_success (db_read_writer d')" "good (wstore d')" "committed (wstore d') = view (wstore d)"
    using rocksdb_contract.commit_writer [OF c d(2)] by blast
  have ok: "tables_ok (table_of n (committed (wstore d')))"
    using spec_calls_ok [OF assms(4)] d(3) d'(4) by simp
  show ?thesis
    using d(1) d' ok spec_query_total [OF ok] rocksdb_contract.DBReader_query [OF c d'(2,3)]
    by (intro exI [of _ d] exI [of _ d']) simp
qed

theorem db_queries_never_throw_witness:
  "\<exists>d d'. exec_calls mem_rocks (DBReadWriter mem_rocks True mem0 Map.empty) [Do_SetDM 5] = Inr d \<and>
    DBReadWriter_TransactionCommit mem_rocks d = (d', DB_SUCCESS) \<and>
    (\<exists>r. exec_query (DBReader mem_rocks (db_read_writer d')) Ask_GetDM = Inr r)"
proof -
  have ok: "\<forall>call \<in> set [Do_SetDM 5]. call_ok 34 call"
    by (simp add: call_ok_def op_ok_def valid_cell_def)
  have t: "tables_ok (table_of 34 (base mem0))"
    by (simp add: tables_ok_def mem0_def)
  have v: "valid_cell 34 (query_cell Ask_GetDM)"
    by (simp add: valid_cell_def)
  show ?thesis
    using db_queries_never_throw [OF mem_contract TrueI ok t, of Map.empty] v by blast
qed

text \<open>
  For a range of heights that all have blocks, \<open>GetBlockHashesByBlockHeight\<close> returns the
  hashes of each height, in the order of the heights and within a height in the stored order.
\<close>

theorem db_hashes_by_height_range:
  assumes "rocksdb_contract api good view committed" and "is_init_success w" and "good (store w)"
    and "unat a \<le> unat b" and "unat b < 2 ^ 64 - 1"
    and "\<forall>h \<in> {unat a..unat b}. table_of n (committed (store w)) (Cell_BlockHashes h) = Fields (hs h)"
  shows "GetBlockHashesByBlockHeight (DBReader api w) a b out =
    Inr (DB_SUCCESS, concat (map hs [unat a..<Suc (unat b)]))"
proof -
  let ?m = "committed (store w)" and ?r = "[unat a..<Suc (unat b)]"
  let ?ks = "map (\<lambda>h. cell_key (Cell_BlockHashes h)) ?r"
  have tok: "\<exists>s. ?m (cell_key (Cell_BlockHashes h)) = Some s \<and> tokens s = hs h" if "h \<in> set ?r" for h
  proof -
    have "table_of n ?m (Cell_BlockHashes h) = Fields (hs h)"
      using assms(6) that by auto
    then show ?thesis
      by (auto simp: table_of_def cell_of_def valid_cell_def split: option.splits)
  qed
  have keys: "map (\<lambda>h. kBlockHeight2BlockHashKey @ dec h) (map word_of_nat ?r :: u64 list) = ?ks"
    using assms(5) by (auto simp: unat_of_nat)
  have "?ks \<noteq> []"
    using assms(4) by simp
  moreover have "\<forall>k \<in> set ?ks. ?m k \<noteq> None"
    using tok by fastforce
  ultimately have multi: "MultiReadData (DBReader api w) ?ks [] = Inr (DB_SUCCESS, map (\<lambda>k. the (?m k)) ?ks)"
    using rocksdb_contract.DBReader_multi [OF assms(1-3)] by blast
  have hs: "map (\<lambda>h. tokens (the (?m (cell_key (Cell_BlockHashes h))))) ?r = map hs ?r"
    using tok by (intro map_cong [OF refl]) fastforce
  have "heights a b = Inr (map word_of_nat ?r)"
    using assms(5) by (simp add: heights_def)
  then have "GetBlockHashesByBlockHeight (DBReader api w) a b out =
      Inr (DB_SUCCESS, concat (map (\<lambda>value. split_to value []) (map (\<lambda>k. the (?m k)) ?ks)))"
    using multi by (simp add: GetBlockHashesByBlockHeight_def keys del: map_map upt_Suc)
  then show ?thesis
    using hs by (simp add: comp_def del: upt_Suc map_eq_conv)
qed

theorem db_hashes_by_height_range_witness:
  "GetBlockHashesByBlockHeight (DBReader mem_rocks \<lparr>is_init_success = True, txn_open = False,
      store = \<lparr>base = [cell_key (Cell_BlockHashes 4) \<mapsto> ''x_y_''], batch = Map.empty\<rparr>\<rparr>) 4 4 [] =
    Inr (DB_SUCCESS, [''x'', ''y''])"
  using db_hashes_by_height_range [OF mem_contract, of "\<lparr>is_init_success = True, txn_open = False,
      store = \<lparr>base = [cell_key (Cell_BlockHashes 4) \<mapsto> ''x_y_''], batch = Map.empty\<rparr>\<rparr>" 4 4 34 "\<lambda>h. [''x'', ''y'']" "[]"]
  by (simp add: table_of_def valid_cell_def cell_of_def tokens_def)

end
