(* ===== verification/Net_Frame.thy ===== *)
theory Net_Frame
  imports Tfs_Prelude
begin

text \<open>
  The wire format of the node: \<open>Pack\<close> of \<open>net/pack.cpp\<close>, \<open>Util::adler32\<close> of
  \<open>utils/util.cpp\<close> and the receiving half of \<open>SocketBuf\<close> of \<open>net/socket_buf.cpp\<close>. A
  message is a length word, the data, a checksum, a flag word and an end mark; the receiver
  gets the stream in arbitrary pieces and cuts it into messages, resynchronising at the end
  mark when a length or a checksum is wrong.
\<close>

unbundle bit_operations_syntax

section \<open>Words in memory order\<close>

text \<open>\<open>memcpy\<close> of a \<open>uint32_t\<close> on the little-endian machines the node runs on.\<close>

definition le32 :: "u32 \<Rightarrow> bytes" where
  "le32 w = [ucast w, ucast (drop_bit 8 w), ucast (drop_bit 16 w), ucast (drop_bit 24 w)]"

definition read_le32 :: "bytes \<Rightarrow> u32" where
  "read_le32 bs = ucast (bs ! 0) OR push_bit 8 (ucast (bs ! 1)) OR
     push_bit 16 (ucast (bs ! 2)) OR push_bit 24 (ucast (bs ! 3))"

lemma length_le32 [simp]: "length (le32 w) = 4"
  by (simp add: le32_def)

lemma read_le32_le32 [simp]: "read_le32 (le32 w @ bs) = w"
proof (rule bit_word_eqI)
  fix n
  assume n: "n < LENGTH(32)"
  consider "n < 8" | "8 \<le> n" "n < 16" | "16 \<le> n" "n < 24" | "24 \<le> n" "n < 32"
    using n by force
  then show "bit (read_le32 (le32 w @ bs)) n \<longleftrightarrow> bit w n"
    by cases (auto simp: read_le32_def le32_def nth_append bit_simps)
qed

lemma read_le32_exact [simp]: "read_le32 (le32 w) = w"
  using read_le32_le32 [of w "[]"] by simp

section \<open>Packets\<close>

definition END_FLAG :: u32 where
  "END_FLAG = 7777777"

record NetPack =
  pk_len :: u32
  pk_data :: bytes
  pk_checkSum :: u32
  pk_flag :: u32
  pk_endFlag :: u32

definition new_NetPack :: NetPack where
  "new_NetPack = \<lparr>pk_len = 0, pk_data = [], pk_checkSum = 0, pk_flag = 0, pk_endFlag = END_FLAG\<rparr>"

datatype net_error = BufferOverflow | BadAlloc

text \<open>The bytes \<open>PackagToBuff\<close> writes from the start of the buffer.\<close>

definition PackagToBuff :: "NetPack \<Rightarrow> bytes" where
  "PackagToBuff pack = le32 (pk_len pack) @ pk_data pack @ le32 (pk_checkSum pack) @
     le32 (pk_flag pack) @ le32 (pk_endFlag pack)"

text \<open>
  The buffer has \<open>len + 4\<close> zero bytes, computed in \<open>int\<close>; writing past its end is an
  error, a shorter packet leaves zeros behind.
\<close>

definition PackagToStr :: "NetPack \<Rightarrow> (net_error, bytes) result" where
  "PackagToStr pack =
     (let buffSize = sint (pk_len pack + 4); out = PackagToBuff pack
      in if buffSize < 0 then Inl BadAlloc
         else if nat buffSize < length out then Inl BufferOverflow
         else Inr (out @ replicate (nat buffSize - length out) 0))"

definition ApartPack :: "NetPack \<Rightarrow> bytes \<Rightarrow> NetPack \<times> bool" where
  "ApartPack pk pack =
     (if length pack < 12 then (pk, False)
      else let n = length pack - 12 in
        (pk\<lparr>pk_len := word_of_nat (length pack), pk_data := take n pack,
            pk_checkSum := read_le32 (drop n pack), pk_flag := read_le32 (drop (n + 4) pack),
            pk_endFlag := read_le32 (drop (n + 8) pack)\<rparr>, True))"

definition MOD_ADLER :: u32 where
  "MOD_ADLER = 65521"

definition adler_step :: "u32 \<times> u32 \<Rightarrow> byte \<Rightarrow> u32 \<times> u32" where
  "adler_step s d = (case s of (a, b) \<Rightarrow>
     let a' = (a + ucast d) mod MOD_ADLER in (a', (b + a') mod MOD_ADLER))"

definition adler32 :: "bytes \<Rightarrow> u32" where
  "adler32 data = (case foldl adler_step (1, 0) data of (a, b) \<Rightarrow> push_bit 16 b OR a)"

text \<open>\<open>ser\<close> is the serialised \<open>CommonMsg\<close>; the serialisation itself is protobuf's.\<close>

definition PackCommonMsg :: "bytes \<Rightarrow> 8 word \<Rightarrow> NetPack \<Rightarrow> NetPack" where
  "PackCommonMsg ser priority pack =
     pack\<lparr>pk_data := ser, pk_len := word_of_nat (length ser + 12), pk_checkSum := adler32 ser,
          pk_flag := scast priority AND 0xF\<rparr>"

section \<open>The receive buffer\<close>

text \<open>The first position at which the four bytes of the end mark stand.\<close>

fun find_flag :: "bytes \<Rightarrow> nat option" where
  "find_flag bs =
     (if length bs < 4 then None
      else if read_le32 bs = END_FLAG then Some 0
      else map_option Suc (find_flag (tl bs)))"

declare find_flag.simps [simp del]

definition CorrectCache :: "bytes \<Rightarrow> bytes" where
  "CorrectCache cache =
     (if length cache < 4 then []
      else case find_flag cache of Some i \<Rightarrow> drop (i + 4) cache | None \<Rightarrow> [])"

definition VerifyCache :: "bytes \<Rightarrow> nat \<Rightarrow> bytes" where
  "VerifyCache cache currMsgLen = (if currMsgLen > 100 * 1000 * 1000 then CorrectCache cache else cache)"

lemma length_CorrectCache: "length (CorrectCache c) \<le> length c"
  by (simp add: CorrectCache_def split: option.splits)

lemma length_VerifyCache: "length (VerifyCache c n) \<le> length c"
  by (simp add: VerifyCache_def length_CorrectCache)

text \<open>
  The loop of \<open>AddDataToReadBuf\<close>: the cache, the length of the current message (which is
  kept when \<open>VerifyCache\<close> changes the cache) and the messages handed on so far.
\<close>

function read_loop :: "bytes \<Rightarrow> nat \<Rightarrow> bytes list \<Rightarrow> bytes \<times> bytes list \<times> bool" where
  "read_loop cache currMsgLen out =
     (if 4 + currMsgLen \<le> length cache then
        let cache1 = drop 4 cache; readData = take currMsgLen cache1 in
        if length readData < 12 then (CorrectCache cache1, out, False)
        else if adler32 (take (length readData - 12) readData) \<noteq> read_le32 (drop (length readData - 12) cache1)
        then (CorrectCache cache1, out, False)
        else let cache2 = drop currMsgLen cache1; out' = out @ [readData] in
          if length cache2 < 4 then (cache2, out', True)
          else let n = unat (read_le32 cache2) in read_loop (VerifyCache cache2 n) n out'
      else (cache, out, True))"
  by pat_completeness auto
termination
proof (relation "measure (\<lambda>(cache, n, out). length cache)", goal_cases)
  case (2 cache n out c1 rd c2 out' m)
  then have "length c2 < length cache"
    by simp
  then show ?case
    using length_VerifyCache [of c2 m] by simp
qed simp

declare read_loop.simps [simp del]

text \<open>One call of \<open>AddDataToReadBuf\<close>: the new cache, the messages handed on, the result.\<close>

definition AddDataToReadBuf :: "bytes \<Rightarrow> bytes \<Rightarrow> bytes \<times> bytes list \<times> bool" where
  "AddDataToReadBuf cache data =
     (if data = [] then (cache, [], False)
      else let cache1 = cache @ data in
        if 4 \<le> length cache1 then
          let n = unat (read_le32 cache1) in read_loop (VerifyCache cache1 n) n []
        else (cache1, [], True))"

section \<open>Framing\<close>

definition valid_msg :: "bytes \<Rightarrow> bool" where
  "valid_msg m \<longleftrightarrow> 12 \<le> length m \<and> length m \<le> 100 * 1000 * 1000 \<and>
     adler32 (take (length m - 12) m) = read_le32 (drop (length m - 12) m)"

definition frame :: "bytes \<Rightarrow> bytes" where
  "frame m = le32 (word_of_nat (length m)) @ m"

lemma length_frame [simp]: "length (frame m) = 4 + length m"
  by (simp add: frame_def)

lemma read_le32_take: "4 \<le> length c \<Longrightarrow> read_le32 (c @ r) = read_le32 c"
  by (auto simp: read_le32_def nth_append)

lemma valid_msg_len: "valid_msg m \<Longrightarrow> unat (word_of_nat (length m) :: u32) = length m"
  by (simp add: valid_msg_def unat_of_nat)

lemma frame_header:
  assumes "valid_msg m" and "c @ r = frame m @ s" and "4 \<le> length c"
  shows "unat (read_le32 c) = length m"
proof -
  have "read_le32 c = read_le32 (frame m @ s)"
    using assms(2,3) read_le32_take [of c r] by simp
  then show ?thesis
    using valid_msg_len [OF assms(1)] by (simp add: frame_def)
qed

lemma VerifyCache_valid: "valid_msg m \<Longrightarrow> VerifyCache c (length m) = c"
  by (simp add: VerifyCache_def valid_msg_def)

text \<open>The loop on a cache that starts with a whole message, and on one that does not.\<close>

lemma read_loop_short: "length c < 4 + n \<Longrightarrow> read_loop c n out = (c, out, True)"
  by (simp add: read_loop.simps)

lemma read_loop_message:
  assumes "valid_msg m"
  shows "read_loop (frame m @ s) (length m) out =
    (if length s < 4 then (s, out @ [m], True)
     else let n = unat (read_le32 s) in read_loop (VerifyCache s n) n (out @ [m]))"
proof -
  have "drop 4 (frame m @ s) = m @ s"
    by (simp add: frame_def)
  moreover have "read_le32 (drop (length m - 12) (m @ s)) = read_le32 (drop (length m - 12) m)"
    using assms by (simp add: valid_msg_def read_le32_take)
  ultimately show ?thesis
    using assms by (simp add: read_loop.simps [of "frame m @ s"] valid_msg_def Let_def)
qed

definition process :: "bytes \<Rightarrow> bytes list \<Rightarrow> bytes \<times> bytes list \<times> bool" where
  "process c out = (if length c < 4 then (c, out, True)
     else let n = unat (read_le32 c) in read_loop (VerifyCache c n) n out)"

lemma AddDataToReadBuf_process: "d \<noteq> [] \<Longrightarrow> AddDataToReadBuf c d = process (c @ d) []"
  by (simp add: AddDataToReadBuf_def process_def Let_def)

lemma process_message: "valid_msg m \<Longrightarrow> process (frame m @ s) out = process s (out @ [m])"
proof -
  assume m: "valid_msg m"
  then have "unat (read_le32 (frame m @ s)) = length m"
    using frame_header [of m "frame m @ s" "[]" s] by simp
  then show ?thesis
    using read_loop_message [OF m, of s out] VerifyCache_valid [OF m]
    by (simp add: process_def)
qed

lemma process_partial:
  assumes "valid_msg m" and "c @ r = frame m @ s" and "length c < length (frame m)"
  shows "process c out = (c, out, True)"
  using assms frame_header [OF assms(1,2)] VerifyCache_valid [OF assms(1)]
  by (simp add: process_def read_loop_short)

lemma process_stream:
  assumes "\<forall>m \<in> set ms. valid_msg m" and "c @ r = concat (map frame ms)"
  shows "\<exists>k c'. process c out = (c', out @ take k ms, True) \<and> k \<le> length ms \<and>
    c' @ r = concat (map frame (drop k ms)) \<and> (r = [] \<longrightarrow> k = length ms)"
  using assms
proof (induction ms arbitrary: c out)
  case Nil
  then show ?case by (simp add: process_def)
next
  case (Cons m ms)
  have m: "valid_msg m" using Cons.prems by simp
  show ?case
  proof (cases "length c < length (frame m)")
    case True
    then have "process c out = (c, out, True)"
      using process_partial [OF m _ True] Cons.prems(2) by simp
    moreover have "r \<noteq> []"
      using True Cons.prems(2) by (auto dest: arg_cong [of _ _ length])
    ultimately show ?thesis
      using Cons.prems(2) by (intro exI [of _ 0] exI [of _ c]) simp
  next
    case False
    define s where "s = drop (length (frame m)) c"
    have "take (length (frame m)) (c @ r) = frame m"
      using Cons.prems(2) by (simp del: length_frame)
    then have "take (length (frame m)) c = frame m"
      using False by simp
    then have c: "c = frame m @ s"
      unfolding s_def by (metis append_take_drop_id)
    then have s: "c = frame m @ s" "s @ r = concat (map frame ms)"
      using Cons.prems(2) by auto
    from Cons.IH [OF _ s(2), of "out @ [m]"] Cons.prems(1)
    obtain k c' where "process s (out @ [m]) = (c', (out @ [m]) @ take k ms, True)" "k \<le> length ms"
      "c' @ r = concat (map frame (drop k ms))" "r = [] \<longrightarrow> k = length ms"
      by auto
    then show ?thesis
      using process_message [OF m, of s out] s(1)
      by (intro exI [of _ "Suc k"] exI [of _ c']) simp
  qed
qed

section \<open>From sender to receiver\<close>

definition wire_msg :: "bytes \<Rightarrow> 8 word \<Rightarrow> bytes" where
  "wire_msg ser priority = ser @ le32 (adler32 ser) @ le32 (scast priority AND 0xF) @ le32 END_FLAG"

lemma length_wire_msg [simp]: "length (wire_msg ser pr) = length ser + 12"
  by (simp add: wire_msg_def)

lemma valid_wire_msg: "length ser \<le> 100 * 1000 * 1000 - 12 \<Longrightarrow> valid_msg (wire_msg ser pr)"
  by (simp add: valid_msg_def) (simp add: wire_msg_def)

lemma sint_small: "unat (w :: u32) < 2 ^ 31 \<Longrightarrow> sint w = int (unat w)"
proof -
  assume "unat w < 2 ^ 31"
  then have "int (unat w) < int (2 ^ 31)"
    by (simp only: of_nat_less_iff)
  then have "int (unat w) < 2 ^ 31"
    by (simp only: of_nat_power of_nat_numeral)
  moreover have "- (2 ^ 31) \<le> int (unat w)"
    by (rule order_trans [of _ 0]) simp_all
  ultimately have "signed_take_bit 31 (int (unat w)) = int (unat w)"
    by (intro signed_take_bit_int_eq_self)
  moreover have "sint w = signed_take_bit 31 (uint w)"
    by (simp only: sint_uint) simp
  ultimately show ?thesis
    by simp
qed

lemma PackagToStr_wire:
  assumes "length ser \<le> 100 * 1000 * 1000 - 12"
  shows "PackagToStr (PackCommonMsg ser pr new_NetPack) = Inr (frame (wire_msg ser pr))"
proof -
  have "unat (word_of_nat (length ser + 12) + 4 :: u32) = length ser + 16"
  proof -
    have "(word_of_nat (length ser + 12) + 4 :: u32) = word_of_nat (length ser + 16)"
      by simp
    then show ?thesis
      using assms by (simp only: unat_of_nat) simp
  qed
  then have "sint (word_of_nat (length ser + 12) + 4 :: u32) = int (length ser + 16)"
    using assms by (subst sint_small) simp_all
  then show ?thesis
    by (simp add: PackagToStr_def PackCommonMsg_def PackagToBuff_def new_NetPack_def frame_def wire_msg_def
        Let_def nat_add_distrib)
qed

lemma ApartPack_wire:
  "ApartPack new_NetPack (wire_msg ser pr) = (PackCommonMsg ser pr new_NetPack, True)"
  by (simp add: ApartPack_def PackCommonMsg_def new_NetPack_def Let_def) (simp add: wire_msg_def)

text \<open>A stream received piece by piece.\<close>

fun feed :: "bytes \<Rightarrow> bytes list \<Rightarrow> bytes \<times> bytes list \<times> bool" where
  "feed c [] = (c, [], True)"
| "feed c (d # ds) = (case AddDataToReadBuf c d of (c1, o1, b1) \<Rightarrow>
     case feed c1 ds of (c2, o2, b2) \<Rightarrow> (c2, o1 @ o2, b1 \<and> b2))"

lemma feed_stream:
  assumes "\<forall>m \<in> set ms. valid_msg m" and "\<forall>d \<in> set ds. d \<noteq> []"
    and "c @ concat ds = concat (map frame ms)" and "ds \<noteq> [] \<or> ms = []"
  shows "feed c ds = ([], ms, True)"
  using assms
proof (induction ds arbitrary: c ms)
  case Nil
  then show ?case by simp
next
  case (Cons d ds)
  have d: "d \<noteq> []" using Cons.prems by simp
  from process_stream [OF Cons.prems(1), of "c @ d" "concat ds" "[]"] Cons.prems(3)
  obtain k c' where k: "process (c @ d) [] = (c', take k ms, True)" "k \<le> length ms"
    "c' @ concat ds = concat (map frame (drop k ms))" "concat ds = [] \<longrightarrow> k = length ms"
    by auto
  have "feed c' ds = ([], drop k ms, True)"
  proof (rule Cons.IH)
    show "\<forall>m \<in> set (drop k ms). valid_msg m"
      using Cons.prems(1) by (meson in_set_dropD)
    show "ds \<noteq> [] \<or> drop k ms = []"
      using k(4) by auto
  qed (use Cons.prems k in auto)
  then show ?case
    using k(1) AddDataToReadBuf_process [OF d, of c] by simp
qed

section \<open>Resynchronisation\<close>

lemma find_flag_append: "find_flag bs = Some i \<Longrightarrow> find_flag (bs @ s) = Some i"
proof (induction bs arbitrary: i rule: find_flag.induct)
  case (1 bs)
  have len: "\<not> length bs < 4"
    using "1.prems" by (auto simp: find_flag.simps [of bs])
  then have ne: "bs \<noteq> []"
    by auto
  have hd: "read_le32 (bs @ s) = read_le32 bs"
    using len by (simp add: read_le32_take)
  show ?case
  proof (cases "read_le32 bs = END_FLAG")
    case True
    with "1.prems" len hd show ?thesis
      by (simp add: find_flag.simps [of bs] find_flag.simps [of "bs @ s"])
  next
    case False
    with "1.prems" len obtain j where "find_flag (tl bs) = Some j" "i = Suc j"
      by (auto simp: find_flag.simps [of bs])
    with "1.IH" [OF len False] False len hd ne show ?thesis
      by (simp add: find_flag.simps [of "bs @ s"])
  qed
qed

lemma CorrectCache_frame:
  assumes "find_flag m = Some (length m - 4)" and "4 \<le> length m"
  shows "CorrectCache (m @ s) = s"
  using find_flag_append [OF assms(1), of s] assms(2) by (simp add: CorrectCache_def)

section \<open>Properties\<close>

text \<open>
  C8: Messages packed by the sender arrive: however the concatenation of the packed messages
  is cut into non-empty pieces, the receiver hands on exactly the sent messages, in order,
  every call succeeds, nothing stays in the buffer, and unpacking each message gives the
  packet that was sent.
\<close>

theorem net_stream_delivers:
  assumes "\<forall>(ser, pr) \<in> set ps. length ser \<le> 100 * 1000 * 1000 - 12"
    and "map (\<lambda>(ser, pr). PackagToStr (PackCommonMsg ser pr new_NetPack)) ps = map Inr bs"
    and "concat chunks = concat bs" and "\<forall>d \<in> set chunks. d \<noteq> []"
  shows "\<exists>out. feed [] chunks = ([], out, True) \<and>
    map (ApartPack new_NetPack) out = map (\<lambda>(ser, pr). (PackCommonMsg ser pr new_NetPack, True)) ps"
proof -
  let ?ms = "map (\<lambda>(ser, pr). wire_msg ser pr) ps"
  have "map (Inr :: bytes \<Rightarrow> (net_error, bytes) result) bs = map Inr (map frame ?ms)"
    unfolding assms(2) [symmetric] using assms(1) PackagToStr_wire by auto
  moreover have "inj (Inr :: bytes \<Rightarrow> (net_error, bytes) result)"
    by simp
  ultimately have bs: "bs = map frame ?ms"
    using inj_map_eq_map by blast
  have ms: "\<forall>m \<in> set ?ms. valid_msg m"
    using assms(1) valid_wire_msg by auto
  have "chunks \<noteq> [] \<or> ?ms = []"
    using assms(3) bs by (cases ps) (auto simp: frame_def le32_def)
  then have "feed [] chunks = ([], ?ms, True)"
    using assms(3,4) bs by (intro feed_stream [OF ms]) simp_all
  then show ?thesis
    using ApartPack_wire by (intro exI [of _ ?ms]) (simp add: comp_def split_def)
qed

theorem net_stream_delivers_witness:
  "\<exists>b1 b2 out. PackagToStr (PackCommonMsg [1, 2, 3] 5 new_NetPack) = Inr b1 \<and>
    PackagToStr (PackCommonMsg [9] 0 new_NetPack) = Inr b2 \<and>
    feed [] [take 7 (b1 @ b2), drop 7 (b1 @ b2)] = ([], out, True) \<and>
    map (ApartPack new_NetPack) out =
      [(PackCommonMsg [1, 2, 3] 5 new_NetPack, True), (PackCommonMsg [9] 0 new_NetPack, True)]"
proof -
  let ?b1 = "frame (wire_msg [1, 2, 3] 5)" and ?b2 = "frame (wire_msg [9] 0)"
  have b: "PackagToStr (PackCommonMsg [1, 2, 3] 5 new_NetPack) = Inr ?b1"
    "PackagToStr (PackCommonMsg [9] 0 new_NetPack) = Inr ?b2"
    by (simp_all add: PackagToStr_wire)
  have l: "length (?b1 @ ?b2) = 36"
    by simp
  have "\<forall>d \<in> set [take 7 (?b1 @ ?b2), drop 7 (?b1 @ ?b2)]. d \<noteq> []"
    using l by (auto simp del: append_eq_append_conv length_append simp flip: length_greater_0_conv)
  then show ?thesis
    using net_stream_delivers [of "[([1, 2, 3], 5), ([9], 0)]" "[?b1, ?b2]"
        "[take 7 (?b1 @ ?b2), drop 7 (?b1 @ ?b2)]"] b
    by auto
qed

text \<open>
  C9: A message whose checksum is wrong is dropped and the stream recovers: the receiver
  reports the error, hands nothing on and skips exactly to the end mark of the bad message,
  so that with the next piece every message that follows it is delivered.
\<close>

theorem net_resynchronises:
  assumes "12 \<le> length m" and "length m \<le> 100 * 1000 * 1000"
    and "adler32 (take (length m - 12) m) \<noteq> read_le32 (drop (length m - 12) m)"
    and "find_flag m = Some (length m - 4)"
    and "\<forall>g \<in> set ms. valid_msg g" and "s @ d = concat (map frame ms)" and "d \<noteq> []"
  shows "AddDataToReadBuf [] (frame m @ s) = (s, [], False) \<and> AddDataToReadBuf s d = ([], ms, True)"
proof
  have len: "unat (word_of_nat (length m) :: u32) = length m"
    using assms(2) by (simp add: unat_of_nat)
  have n: "unat (read_le32 (frame m @ s)) = length m"
    by (simp add: frame_def len)
  have ck: "read_le32 (drop (length m - 12) (m @ s)) = read_le32 (drop (length m - 12) m)"
    using assms(1) by (simp add: read_le32_take)
  have "drop 4 (frame m @ s) = m @ s"
    by (simp add: frame_def)
  then have "read_loop (frame m @ s) (length m) [] = (CorrectCache (m @ s), [], False)"
    using assms(1,3) ck by (simp add: read_loop.simps [of "frame m @ s"] Let_def)
  then show "AddDataToReadBuf [] (frame m @ s) = (s, [], False)"
    using CorrectCache_frame [OF assms(4)] assms(1,2) n
    by (auto simp: AddDataToReadBuf_def VerifyCache_def frame_def le32_def)
  show "AddDataToReadBuf s d = ([], ms, True)"
    using process_stream [OF assms(5), of "s @ d" "[]" "[]"] assms(6)
    by (auto simp: AddDataToReadBuf_process [OF assms(7)])
qed

theorem net_resynchronises_witness:
  "AddDataToReadBuf [] (frame ([7] @ le32 0 @ le32 0 @ le32 END_FLAG) @ [13]) = ([13], [], False)"
proof -
  let ?m = "[7] @ le32 0 @ le32 0 @ le32 END_FLAG"
  have g: "valid_msg (wire_msg [7] 0)"
    by (rule valid_wire_msg) simp
  have len: "12 \<le> length ?m" "length ?m \<le> 100 * 1000 * 1000"
    by simp_all
  have bad: "adler32 (take (length ?m - 12) ?m) \<noteq> read_le32 (drop (length ?m - 12) ?m)"
    by code_simp
  have mark: "find_flag ?m = Some (length ?m - 4)"
    by code_simp
  have "[13] @ tl (frame (wire_msg [7] 0)) = concat (map frame [wire_msg [7] 0])"
    by (simp add: frame_def le32_def)
  moreover have "tl (frame (wire_msg [7] 0)) \<noteq> []"
    by (simp add: frame_def le32_def)
  ultimately show ?thesis
    using net_resynchronises [OF len bad mark, of "[wire_msg [7] 0]" "[13]"] g by simp
qed

end
