(* ===== verification/Ord_Map.thy ===== *)
theory Ord_Map
  imports Tfs_Prelude "HOL-Library.List_Lexorder" "HOL-Library.Char_ord"
begin

text \<open>
  \<open>std::map\<close> as the code uses it: the list of its entries in the order of the keys, which is
  the order in which iterators visit them. \<open>om_wf\<close> says that the keys are strictly
  increasing; every operation keeps it. The locale \<open>ordered_map\<close> is the contract clients
  rely on, interpreted once for all key types.
\<close>

type_synonym ('k, 'v) omap = "('k \<times> 'v) list"

definition om_wf :: "('k::linorder, 'v) omap \<Rightarrow> bool" where
  "om_wf m \<longleftrightarrow> sorted_wrt (<) (map fst m)"

abbreviation om_find :: "('k, 'v) omap \<Rightarrow> 'k \<Rightarrow> 'v option" where
  "om_find m k \<equiv> map_of m k"

text \<open>\<open>m[k] = v\<close>.\<close>

fun om_insert :: "'k::linorder \<Rightarrow> 'v \<Rightarrow> ('k, 'v) omap \<Rightarrow> ('k, 'v) omap" where
  "om_insert k v [] = [(k, v)]"
| "om_insert k v ((k', v') # m) =
     (if k < k' then (k, v) # (k', v') # m
      else if k = k' then (k, v) # m
      else (k', v') # om_insert k v m)"

definition om_erase :: "'k \<Rightarrow> ('k, 'v) omap \<Rightarrow> ('k, 'v) omap" where
  "om_erase k m = filter (\<lambda>e. fst e \<noteq> k) m"

text \<open>\<open>std::find_if\<close> over the entries in order.\<close>

definition om_find_if :: "('k \<times> 'v \<Rightarrow> bool) \<Rightarrow> ('k, 'v) omap \<Rightarrow> ('k \<times> 'v) option" where
  "om_find_if P m = List.find P m"

lemma om_wf_filter: "om_wf m \<Longrightarrow> om_wf (filter P m)"
  by (induction m) (auto simp: om_wf_def)

lemma om_find_insert: "om_find (om_insert k v m) = (om_find m)(k \<mapsto> v)"
  by (induction k v m rule: om_insert.induct) (auto simp: fun_eq_iff)

lemma om_find_erase: "om_find (om_erase k m) = (om_find m)(k := None)"
  by (induction m) (auto simp: om_erase_def fun_eq_iff)

lemma set_om_insert: "fst ` set (om_insert k v m) = insert k (fst ` set m)"
  by (induction k v m rule: om_insert.induct) auto

lemma om_wf_insert: "om_wf m \<Longrightarrow> om_wf (om_insert k v m)"
proof (induction k v m rule: om_insert.induct)
  case (2 k v k' v' m)
  have "\<forall>x \<in> fst ` set (om_insert k v m). k' < x" if "k' < k"
    using 2(2) that by (auto simp: set_om_insert om_wf_def)
  with 2 show ?case
    by (auto simp: om_wf_def)
qed (simp add: om_wf_def)

lemma om_wf_erase: "om_wf m \<Longrightarrow> om_wf (om_erase k m)"
  by (induction m) (auto simp: om_wf_def om_erase_def)

lemma om_wf_Nil [simp]: "om_wf []"
  by (simp add: om_wf_def)

lemma om_wf_distinct: "om_wf m \<Longrightarrow> distinct (map fst m)"
  using strict_sorted_iff [of "map fst m"] by (simp add: om_wf_def)

lemma om_find_in: "om_wf m \<Longrightarrow> (k, v) \<in> set m \<longleftrightarrow> om_find m k = Some v"
  using om_wf_distinct map_of_eq_Some_iff by metis

lemma length_om_insert: "length (om_insert k v m) = (if om_find m k = None then Suc (length m) else length m)"
  if "om_wf m"
  using that
proof (induction k v m rule: om_insert.induct)
  case (2 k v k' v' m)
  then have "om_wf m"
    by (simp add: om_wf_def)
  moreover have "om_find m k = None" if "k < k'"
    using 2(2) that by (force simp: om_wf_def map_of_eq_None_iff)
  ultimately show ?case
    using 2(1) by auto
qed simp

lemma om_find_if_Some: "om_find_if P m = Some e \<Longrightarrow> e \<in> set m \<and> P e"
  by (auto simp: om_find_if_def find_Some_iff)

lemma om_find_if_None: "om_find_if P m = None \<longleftrightarrow> (\<forall>e \<in> set m. \<not> P e)"
  by (auto simp: om_find_if_def find_None_iff)

locale ordered_map =
  fixes wf :: "'m \<Rightarrow> bool"
    and find :: "'m \<Rightarrow> 'k \<Rightarrow> 'v option"
    and ins :: "'k \<Rightarrow> 'v \<Rightarrow> 'm \<Rightarrow> 'm"
    and del :: "'k \<Rightarrow> 'm \<Rightarrow> 'm"
  assumes wf_ins: "wf m \<Longrightarrow> wf (ins k v m)"
    and wf_del: "wf m \<Longrightarrow> wf (del k m)"
    and find_ins: "find (ins k v m) = (find m)(k \<mapsto> v)"
    and find_del: "find (del k m) = (find m)(k := None)"
begin

lemma find_ins_all: "find (fold (\<lambda>(k, v). ins k v) kvs m) = find m ++ map_of (rev kvs)"
proof (induction kvs arbitrary: m)
  case (Cons kv kvs)
  then show ?case
    by (cases kv) (auto simp: find_ins map_add_def fun_eq_iff split: option.splits)
qed simp

lemma wf_ins_all: "wf m \<Longrightarrow> wf (fold (\<lambda>(k, v). ins k v) kvs m)"
  by (induction kvs arbitrary: m) (auto simp: wf_ins split: prod.splits)

lemma find_ins_del: "find (ins k v (del k m)) = find (ins k v m)"
  by (simp add: find_ins find_del)

end

interpretation om: ordered_map om_wf om_find om_insert om_erase
  by unfold_locales (auto simp: fun_eq_iff om_wf_insert om_wf_erase om_find_insert om_find_erase)

end
