(* ===== verification/Net_Buffer.thy ===== *)
theory Net_Buffer
  imports Net_Frame Ord_Map "HOL-Library.Multiset"
begin

text \<open>
  The buffers between the sockets and the worker threads: \<open>SocketBuf\<close> and \<open>BufferCrol\<close>
  of \<open>net/socket_buf.cpp\<close>, the blocking priority queue \<open>MsgQueue\<close> of
  \<open>net/msg_queue.h\<close>, the keys of \<open>net_data\<close> and the write loop \<open>net_tcp::Send\<close> of
  \<open>net/api.cpp\<close>. The kernel's answers to \<open>write\<close> are an argument of the loop.
\<close>

unbundle bit_operations_syntax

section \<open>Endpoint keys\<close>

definition DataPackPortAndIp :: "u16 \<Rightarrow> u32 \<Rightarrow> u64" where
  "DataPackPortAndIp port ip = push_bit 32 (ucast port) OR ucast ip"

definition DataPackPortAndIpToInt :: "u64 \<Rightarrow> u16 \<times> u32" where
  "DataPackPortAndIpToInt portAndIp =
     (ucast (drop_bit 32 portAndIp), ucast (drop_bit 32 (push_bit 32 portAndIp)))"

lemma port_ip_roundtrip: "DataPackPortAndIpToInt (DataPackPortAndIp port ip) = (port, ip)"
proof -
  have "(ucast (drop_bit 32 (DataPackPortAndIp port ip)) :: u16) = port"
    by (rule bit_word_eqI) (auto simp: DataPackPortAndIp_def bit_simps dest: bit_imp_le_length)
  moreover have "(ucast (drop_bit 32 (push_bit 32 (DataPackPortAndIp port ip))) :: u32) = ip"
    by (rule bit_word_eqI) (auto simp: DataPackPortAndIp_def bit_simps dest: bit_imp_le_length)
  ultimately show ?thesis
    by (simp add: DataPackPortAndIpToInt_def)
qed

lemma port_ip_inject: "DataPackPortAndIp p i = DataPackPortAndIp p' i' \<longleftrightarrow> p = p' \<and> i = i'"
  by (metis port_ip_roundtrip prod.inject)

section \<open>The message queue\<close>

datatype DataType = E_READ | E_WORK | E_WRITE

record MsgData =
  md_type :: DataType
  md_fd :: int
  md_port :: u16
  md_ip :: u32
  md_data :: bytes
  md_pack :: NetPack
  md_id :: bytes

definition msg_priority :: "MsgData \<Rightarrow> nat" where
  "msg_priority d = unat (pk_flag (md_pack d) AND 0xF)"

text \<open>
  The standard priority queue keeps no order among messages of equal priority: its content
  is a multiset, and \<open>top\<close> is any message of the highest priority.
\<close>

record MsgQueue =
  mq_items :: "MsgData multiset"
  mq_maxSize :: nat

definition new_MsgQueue :: MsgQueue where
  "new_MsgQueue = \<lparr>mq_items = {#}, mq_maxSize = 10000 * 5\<rparr>"

definition IsFull :: "MsgQueue \<Rightarrow> bool" where
  "IsFull q \<longleftrightarrow> size (mq_items q) = mq_maxSize q"

definition IsEmpty :: "MsgQueue \<Rightarrow> bool" where
  "IsEmpty q \<longleftrightarrow> mq_items q = {#}"

text \<open>\<open>None\<close>: the thread waits until there is room.\<close>

definition Push :: "MsgData \<Rightarrow> MsgQueue \<Rightarrow> MsgQueue option" where
  "Push d q = (if IsFull q then None else Some (q\<lparr>mq_items := add_mset d (mq_items q)\<rparr>))"

text \<open>A thread that waits for a message gets one of the highest priority and removes it.\<close>

definition is_top :: "MsgQueue \<Rightarrow> MsgData \<Rightarrow> bool" where
  "is_top q d \<longleftrightarrow> d \<in># mq_items q \<and> (\<forall>x \<in># mq_items q. msg_priority x \<le> msg_priority d)"

inductive TryWaitTop :: "MsgQueue \<Rightarrow> MsgData \<Rightarrow> MsgQueue \<Rightarrow> bool" where
  "is_top q d \<Longrightarrow> TryWaitTop q d (q\<lparr>mq_items := mq_items q - {#d#}\<rparr>)"

inductive_cases TryWaitTopE: "TryWaitTop q d q'"
inductive_simps TryWaitTop_iff: "TryWaitTop q d q'"

text \<open>\<open>MsgQueue::Pop\<close> only turns its argument, a pointer, into a truth value.\<close>

definition Pop :: "bool \<Rightarrow> MsgQueue \<Rightarrow> MsgQueue \<times> bool" where
  "Pop ret_nonnull q = (q, ret_nonnull)"

section \<open>Socket buffers\<close>

record SocketBuf =
  sb_fd :: int
  sb_portAndIp :: u64
  sb_cache :: bytes
  sb_sendCache :: bytes

definition new_SocketBuf :: SocketBuf where
  "new_SocketBuf = \<lparr>sb_fd = 0, sb_portAndIp = 0, sb_cache = [], sb_sendCache = []\<rparr>"

definition SendPkToMessQueue :: "SocketBuf \<Rightarrow> bytes \<Rightarrow> MsgData" where
  "SendPkToMessQueue sb data = (case DataPackPortAndIpToInt (sb_portAndIp sb) of (port, ip) \<Rightarrow>
     \<lparr>md_type = E_WORK, md_fd = sb_fd sb, md_port = port, md_ip = ip, md_data = data,
      md_pack = fst (ApartPack new_NetPack data), md_id = []\<rparr>)"

fun push_all :: "MsgData list \<Rightarrow> MsgQueue \<Rightarrow> MsgQueue option" where
  "push_all [] q = Some q"
| "push_all (d # ds) q = (case Push d q of None \<Rightarrow> None | Some q' \<Rightarrow> push_all ds q')"

definition SocketBuf_AddData :: "SocketBuf \<Rightarrow> bytes \<Rightarrow> SocketBuf \<times> MsgData list \<times> bool" where
  "SocketBuf_AddData sb data = (case AddDataToReadBuf (sb_cache sb) data of (c, out, ok) \<Rightarrow>
     (sb\<lparr>sb_cache := c\<rparr>, map (SendPkToMessQueue sb) out, ok))"

definition GetSendMsg :: "SocketBuf \<Rightarrow> bytes" where
  "GetSendMsg sb = sb_sendCache sb"

definition IsSendCacheEmpty :: "SocketBuf \<Rightarrow> bool" where
  "IsSendCacheEmpty sb \<longleftrightarrow> length (sb_sendCache sb) = 0"

definition PushSendMsg :: "SocketBuf \<Rightarrow> bytes \<Rightarrow> SocketBuf" where
  "PushSendMsg sb data = sb\<lparr>sb_sendCache := sb_sendCache sb @ data\<rparr>"

text \<open>
  The conversion of a \<open>size_t\<close> to an \<open>int\<close>, which the send path applies to every buffer
  size: only the low 32 bits survive, read as a signed number.
\<close>

definition int32 :: "int \<Rightarrow> int" where
  "int32 i = sint (word_of_int i :: 32 word)"

text \<open>
  \<open>n\<close> is an \<open>int\<close>; a negative \<open>n\<close> turns into a huge \<open>size_t\<close> in \<open>erase\<close> and clears the
  buffer.
\<close>

definition PopNSendMsg :: "SocketBuf \<Rightarrow> int \<Rightarrow> SocketBuf" where
  "PopNSendMsg sb n =
     (if int32 (int (length (sb_sendCache sb))) \<ge> n
      then sb\<lparr>sb_sendCache := (if n < 0 then [] else drop (nat n) (sb_sendCache sb))\<rparr>
      else sb\<lparr>sb_sendCache := []\<rparr>)"

section \<open>The buffer table\<close>

type_synonym BufferMap = "(u64, SocketBuf) omap"

definition GetWriteBufferQueue :: "BufferMap \<Rightarrow> u64 \<Rightarrow> bytes" where
  "GetWriteBufferQueue bm portAndIp =
     (case om_find bm portAndIp of None \<Rightarrow> [] | Some sb \<Rightarrow> GetSendMsg sb)"

definition AddReadBufferQueue :: "BufferMap \<Rightarrow> u64 \<Rightarrow> bytes \<Rightarrow> BufferMap \<times> MsgData list \<times> bool" where
  "AddReadBufferQueue bm portAndIp buf =
     (if buf = [] then (bm, [], False)
      else case om_find bm portAndIp of
        None \<Rightarrow> (bm, [], False)
      | Some sb \<Rightarrow> (case SocketBuf_AddData sb buf of (sb', out, ok) \<Rightarrow> (om_insert portAndIp sb' bm, out, ok)))"

definition AddReadBufferQueue_ip :: "BufferMap \<Rightarrow> u32 \<Rightarrow> u16 \<Rightarrow> bytes \<Rightarrow> BufferMap \<times> MsgData list \<times> bool" where
  "AddReadBufferQueue_ip bm ip port buf = AddReadBufferQueue bm (DataPackPortAndIp port ip) buf"

definition AddBuffer :: "BufferMap \<Rightarrow> u64 \<Rightarrow> int \<Rightarrow> BufferMap \<times> bool" where
  "AddBuffer bm portAndIp fd =
     (if portAndIp = 0 \<or> fd \<le> 0 then (bm, False)
      else case om_find bm portAndIp of
        Some _ \<Rightarrow> (bm, False)
      | None \<Rightarrow> (om_insert portAndIp (new_SocketBuf\<lparr>sb_fd := fd, sb_portAndIp := portAndIp\<rparr>) bm, True))"

definition AddBuffer_ip :: "BufferMap \<Rightarrow> u32 \<Rightarrow> u16 \<Rightarrow> int \<Rightarrow> BufferMap \<times> bool" where
  "AddBuffer_ip bm ip port fd = AddBuffer bm (DataPackPortAndIp port ip) fd"

definition DeleteBuffer :: "BufferMap \<Rightarrow> u64 \<Rightarrow> BufferMap \<times> bool" where
  "DeleteBuffer bm portAndIp =
     (if portAndIp = 0 then (bm, False)
      else case om_find bm portAndIp of
        Some _ \<Rightarrow> (om_erase portAndIp bm, True)
      | None \<Rightarrow> (bm, False))"

definition DeleteBuffer_ip :: "BufferMap \<Rightarrow> u32 \<Rightarrow> u16 \<Rightarrow> BufferMap \<times> bool" where
  "DeleteBuffer_ip bm ip port = DeleteBuffer bm (DataPackPortAndIp port ip)"

definition DeleteBuffer_fd :: "BufferMap \<Rightarrow> int \<Rightarrow> BufferMap \<times> bool" where
  "DeleteBuffer_fd bm fd =
     (if fd \<le> 0 then (bm, False)
      else case om_find_if (\<lambda>e. sb_fd (snd e) = fd) bm of
        None \<Rightarrow> (bm, False)
      | Some e \<Rightarrow> (om_erase (fst e) bm, True))"

definition PopNWriteBufferQueue :: "BufferMap \<Rightarrow> u64 \<Rightarrow> int \<Rightarrow> BufferMap" where
  "PopNWriteBufferQueue bm portAndIp n =
     (case om_find bm portAndIp of
        Some sb \<Rightarrow> om_insert portAndIp (PopNSendMsg sb n) bm
      | None \<Rightarrow> bm)"

definition IsExists :: "BufferMap \<Rightarrow> u64 \<Rightarrow> bool" where
  "IsExists bm portAndIp \<longleftrightarrow> om_find bm portAndIp \<noteq> None"

definition IsExists_ip :: "BufferMap \<Rightarrow> u32 \<Rightarrow> u16 \<Rightarrow> bool" where
  "IsExists_ip bm ip port = IsExists bm (DataPackPortAndIp port ip)"

definition GetSocketBuf :: "BufferMap \<Rightarrow> u32 \<Rightarrow> u16 \<Rightarrow> SocketBuf option" where
  "GetSocketBuf bm ip port = om_find bm (DataPackPortAndIp port ip)"

definition AddWritePack :: "BufferMap \<Rightarrow> u64 \<Rightarrow> bytes \<Rightarrow> BufferMap \<times> bool" where
  "AddWritePack bm portAndIp iosMsg =
     (if length iosMsg = 0 then (bm, False)
      else case om_find bm portAndIp of
        None \<Rightarrow> (bm, False)
      | Some sb \<Rightarrow> (om_insert portAndIp (PushSendMsg sb iosMsg) bm, True))"

text \<open>The variant with address and port ignores the result of the call and reports success.\<close>

definition AddWritePack_ip :: "BufferMap \<Rightarrow> u32 \<Rightarrow> u16 \<Rightarrow> bytes \<Rightarrow> BufferMap \<times> bool" where
  "AddWritePack_ip bm ip port iosMsg = (fst (AddWritePack bm (DataPackPortAndIp port ip) iosMsg), True)"

definition IsCacheEmpty :: "BufferMap \<Rightarrow> u32 \<Rightarrow> u16 \<Rightarrow> bool" where
  "IsCacheEmpty bm ip port =
     (case om_find bm (DataPackPortAndIp port ip) of None \<Rightarrow> True | Some sb \<Rightarrow> IsSendCacheEmpty sb)"

section \<open>Writing to a socket\<close>

text \<open>
  What the kernel answers to one \<open>write\<close>: some bytes taken, interrupted, would block, or
  another error.
\<close>

datatype write_result = Written nat | Interrupted | WouldBlock | WriteFailed

text \<open>
  The \<open>int\<close> that \<open>net_tcp::Send\<close> returns; the answer -2 stands apart, because \<open>Send\<close> deletes
  the peer of the descriptor before it.
\<close>

datatype send_result = SendRet int | SendFailed

text \<open>
  The loop of \<open>net_tcp::Send\<close> over the kernel's answers: the bytes that went out and the
  result; \<open>None\<close> when the answers run out first. \<open>bytesLeft\<close> is an \<open>int\<close>, \<open>len\<close> a \<open>size_t\<close>.
\<close>

fun Send_loop :: "nat \<Rightarrow> bytes \<Rightarrow> bytes \<Rightarrow> int \<Rightarrow> write_result list \<Rightarrow> (bytes \<times> send_result) option" where
  "Send_loop len sent ptr bytesLeft ws =
     (if \<not> bytesLeft > 0 then Some (sent, SendRet (int32 (int len)))
      else case ws of
        [] \<Rightarrow> None
      | Written n # ws' \<Rightarrow>
          (let writtenBytes = min n (nat bytesLeft)
           in Send_loop len (sent @ take writtenBytes ptr) (drop writtenBytes ptr)
                (bytesLeft - int writtenBytes) ws')
      | Interrupted # ws' \<Rightarrow> Send_loop len sent ptr bytesLeft ws'
      | WouldBlock # ws' \<Rightarrow> Some (sent, SendRet (int32 (int len - bytesLeft)))
      | WriteFailed # ws' \<Rightarrow> Some (sent, SendFailed))"

declare Send_loop.simps [simp del]

definition net_Send :: "int \<Rightarrow> bytes \<Rightarrow> write_result list \<Rightarrow> (bytes \<times> send_result) option" where
  "net_Send sockfd buf ws =
     (if sockfd < 0 then Some ([], SendRet (-1))
      else Send_loop (length buf) [] buf (int32 (int (length buf))) ws)"

lemma int32_id: "- (2 ^ 31) \<le> i \<Longrightarrow> i < 2 ^ 31 \<Longrightarrow> int32 i = i"
  unfolding int32_def sint_sbintrunc' by (rule signed_take_bit_int_eq_self) simp_all

lemma int32_small: "0 \<le> i \<Longrightarrow> i < 2 ^ 31 \<Longrightarrow> int32 i = i"
  by (rule int32_id) simp_all

lemma int32_wraps:
  assumes "2 ^ 31 \<le> i" and "i < 2 ^ 32"
  shows "int32 i = i - 2 ^ 32"
proof -
  have "(word_of_int i :: 32 word) = word_of_int (i - 2 ^ 32)"
    by (simp only: word_of_int_eq_iff take_bit_eq_mod) simp
  then have "int32 i = int32 (i - 2 ^ 32)"
    by (simp only: int32_def)
  also have "\<dots> = i - 2 ^ 32"
    using assms by (intro int32_id) simp_all
  finally show ?thesis .
qed

lemma Send_loop_ends: "bytesLeft \<le> 0 \<Longrightarrow> Send_loop len sent ptr bytesLeft ws = Some (sent, SendRet (int32 (int len)))"
  by (subst Send_loop.simps) simp

lemma Send_loop_steps:
  assumes "0 < bytesLeft"
  shows "Send_loop len sent ptr bytesLeft (Written n # ws) =
      Send_loop len (sent @ take (min n (nat bytesLeft)) ptr) (drop (min n (nat bytesLeft)) ptr)
        (bytesLeft - int (min n (nat bytesLeft))) ws"
    and "Send_loop len sent ptr bytesLeft (Interrupted # ws) = Send_loop len sent ptr bytesLeft ws"
    and "Send_loop len sent ptr bytesLeft (WouldBlock # ws) = Some (sent, SendRet (int32 (int len - bytesLeft)))"
  using assms by (subst Send_loop.simps, simp add: Let_def)+

text \<open>
  Below 2 GiB the loop writes a prefix of the buffer and returns its length.
\<close>

lemma Send_loop_prefix:
  assumes "Send_loop len sent ptr (int (length ptr)) ws = Some (out, r)"
    and "len = length sent + length ptr" and "len < 2 ^ 31"
  shows "\<exists>k. out = sent @ take k ptr \<and> k \<le> length ptr \<and> (r = SendRet (int (length out)) \<or> r = SendFailed)"
  using assms
proof (induction ws arbitrary: sent ptr)
  case Nil
  then show ?case
    by (subst (asm) Send_loop.simps) (auto simp: int32_small split: if_splits)
next
  case (Cons a ws)
  show ?case
  proof (cases "ptr = []")
    case True
    then show ?thesis
      using Cons.prems by (subst (asm) Send_loop.simps) (auto simp: int32_small)
  next
    case False
    then have step: "Send_loop len sent ptr (int (length ptr)) (a # ws) =
      (case a of
        Written n \<Rightarrow> Send_loop len (sent @ take (min n (length ptr)) ptr) (drop (min n (length ptr)) ptr)
          (int (length (drop (min n (length ptr)) ptr))) ws
      | Interrupted \<Rightarrow> Send_loop len sent ptr (int (length ptr)) ws
      | WouldBlock \<Rightarrow> Some (sent, SendRet (int32 (int (length sent))))
      | WriteFailed \<Rightarrow> Some (sent, SendFailed))"
      using Cons.prems(2)
      by (subst Send_loop.simps) (auto simp: Let_def of_nat_diff split: write_result.splits)
    show ?thesis
    proof (cases a)
      case (Written n)
      let ?m = "min n (length ptr)"
      obtain k where k: "out = (sent @ take ?m ptr) @ take k (drop ?m ptr)" "k \<le> length (drop ?m ptr)"
        "r = SendRet (int (length out)) \<or> r = SendFailed"
        using Cons.IH [of "sent @ take ?m ptr" "drop ?m ptr"] Cons.prems step Written by auto
      have "out = sent @ take (?m + k) ptr"
        using k(1) by (simp only: take_add append_assoc)
      with k show ?thesis
        by (intro exI [of _ "?m + k"]) auto
    next
      case Interrupted
      then show ?thesis using Cons.IH [of sent ptr] Cons.prems step by auto
    qed (use Cons.prems step in \<open>auto simp: int32_small intro: exI [of _ 0]\<close>)
  qed
qed

text \<open>The loop ends as soon as the kernel has taken as many bytes as there are.\<close>

fun taken :: "write_result list \<Rightarrow> nat" where
  "taken [] = 0"
| "taken (Written n # ws) = n + taken ws"
| "taken (_ # ws) = taken ws"

lemma Send_loop_returns:
  "bytesLeft \<le> int (taken ws) \<Longrightarrow> \<exists>r. Send_loop len sent ptr bytesLeft ws = Some r"
proof (induction ws arbitrary: sent ptr bytesLeft)
  case Nil
  then show ?case by (subst Send_loop.simps) simp
next
  case (Cons a ws)
  then show ?case
    by (subst Send_loop.simps) (auto simp: Let_def min_def split: write_result.splits)
qed

lemma net_Send_prefix:
  assumes "net_Send sockfd buf ws = Some (out, r)" and "0 \<le> sockfd" and "length buf < 2 ^ 31"
  shows "\<exists>k. out = take k buf \<and> k \<le> length buf \<and> (r = SendRet (int (length out)) \<or> r = SendFailed)"
  using Send_loop_prefix [of "length buf" "[]" buf ws out r] assms by (simp add: net_Send_def int32_small)

lemma Send_not_failed:
  "WriteFailed \<notin> set ws \<Longrightarrow> Send_loop len sent ptr bytesLeft ws = Some (out, r) \<Longrightarrow> r \<noteq> SendFailed"
  by (induction ws arbitrary: sent ptr bytesLeft)
    (subst (asm) Send_loop.simps, auto simp: Let_def split: if_splits write_result.splits)+

text \<open>From 2 GiB to 4 GiB the size is negative as an \<open>int\<close>: nothing is written.\<close>

lemma net_Send_wraps:
  assumes "2 ^ 31 \<le> length buf" and "length buf < 2 ^ 32" and "0 \<le> sockfd"
  shows "net_Send sockfd buf ws = Some ([], SendRet (int (length buf) - 2 ^ 32))"
proof -
  have "int32 (int (length buf)) = int (length buf) - 2 ^ 32"
    using assms(1,2) by (intro int32_wraps) simp_all
  moreover have "\<not> int (length buf) - 2 ^ 32 > 0"
    using assms(2) by simp
  ultimately show ?thesis
    using assms(3) unfolding net_Send_def by (subst Send_loop.simps) simp
qed

end
