(* ===== verification/Peer_Node.thy ===== *)
theory Peer_Node
  imports Net_Buffer String_Util
begin

text \<open>
  The peers of the node: the table of \<open>net/peer_node.cpp\<close>, the snapshots of the
  consensus node lists of \<open>net/unregister_node.cpp\<close>, and the worker that writes to a
  peer's socket, \<open>WorkThreads::HandleNetWrite\<close> of \<open>net/work_thread.cpp\<close>. One record
  holds the process-wide objects these operations share: the peer table, the buffer table,
  the descriptors registered with epoll and the open descriptors, the node lists and the
  list of phone connections.
\<close>

section \<open>Nodes\<close>

datatype ConnKind = NOTYET | DRTO2O | PASSIV

definition HEART_PROBES :: int where
  "HEART_PROBES = 3"

record Node =
  address :: string
  pub :: string
  sign :: string
  identity :: string
  name :: string
  logo :: string
  ver :: string
  listenIp :: u32
  listenPort :: u32
  publicIp :: u32
  publicPort :: u32
  height :: u32
  connKind :: ConnKind
  fd :: int
  pulse :: int

definition new_Node :: Node where
  "new_Node = \<lparr>address = [], pub = [], sign = [], identity = [], name = [], logo = [], ver = [],
     listenIp = 0, listenPort = 0, publicIp = 0, publicPort = 0, height = 0, connKind = NOTYET,
     fd = -1, pulse = HEART_PROBES\<rparr>"

definition ResetHeart :: "Node \<Rightarrow> Node" where
  "ResetHeart node = node\<lparr>pulse := HEART_PROBES\<rparr>"

definition IsConnected :: "Node \<Rightarrow> bool" where
  "IsConnected node \<longleftrightarrow> fd node > 0 \<or> fd node = -2"

definition SetHeight :: "Node \<Rightarrow> u32 \<Rightarrow> Node" where
  "SetHeight node h = node\<lparr>height := h\<rparr>"

section \<open>The shared state\<close>

type_synonym node_counts = "(string, int) omap"

record net =
  nodeMap :: "(string, Node) omap"
  buffers :: BufferMap
  epoll :: "int set"
  open_fds :: "int set"
  stakeNodelist :: "(u64, node_counts) omap"
  unStakeNodelist :: "(u64, node_counts) omap"
  phoneList :: "int list"

text \<open>
  What comes from outside: the chain height callback (\<open>None\<close> when it fails), the two limits
  of \<open>ca/global.h\<close>, and the two regular expressions of the configuration check.
\<close>

record peer_env =
  calculateChainHeightCallback :: "u64 option"
  KMinSyncQualNodes :: u32
  KChainHighThreshold :: u32
  name_pattern :: "string \<Rightarrow> bool"
  logo_pattern :: "string \<Rightarrow> bool"

datatype peer_error = DerefEnd

definition DeleteEpollEvent :: "int \<Rightarrow> net \<Rightarrow> net" where
  "DeleteEpollEvent f s = s\<lparr>epoll := epoll s - {f}\<rparr>"

definition close_fd :: "int \<Rightarrow> net \<Rightarrow> net" where
  "close_fd f s = s\<lparr>open_fds := open_fds s - {f}\<rparr>"

section \<open>Consensus node lists\<close>

fun erase_first :: "string \<Rightarrow> (u64, node_counts) omap \<Rightarrow> (u64, node_counts) omap option" where
  "erase_first addr [] = None"
| "erase_first addr ((t, m) # l) =
     (if om_find m addr \<noteq> None then Some ((t, om_erase addr m) # l)
      else map_option (\<lambda>l'. (t, m) # l') (erase_first addr l))"

definition DeleteSpiltNodeList :: "string \<Rightarrow> net \<Rightarrow> net" where
  "DeleteSpiltNodeList addr s =
     (if stakeNodelist s = [] \<or> unStakeNodelist s = [] then s
      else case erase_first addr (stakeNodelist s) of
        Some l \<Rightarrow> s\<lparr>stakeNodelist := l\<rparr>
      | None \<Rightarrow> (case erase_first addr (unStakeNodelist s) of
          Some l \<Rightarrow> s\<lparr>unStakeNodelist := l\<rparr> | None \<Rightarrow> s))"

text \<open>\<open>std::map::insert\<close> of a range keeps entries that are already there.\<close>

definition om_insert_new :: "'k::linorder \<times> 'v \<Rightarrow> ('k, 'v) omap \<Rightarrow> ('k, 'v) omap" where
  "om_insert_new e m = (case om_find m (fst e) of Some _ \<Rightarrow> m | None \<Rightarrow> om_insert (fst e) (snd e) m)"

definition GetConsensusStakeNodelist :: "net \<Rightarrow> node_counts \<Rightarrow> node_counts" where
  "GetConsensusStakeNodelist s consensus =
     (if stakeNodelist s = [] then consensus
      else fold om_insert_new (snd (last (stakeNodelist s))) consensus)"

definition GetConsensusNodelist :: "net \<Rightarrow> node_counts \<Rightarrow> node_counts" where
  "GetConsensusNodelist s consensus =
     (if stakeNodelist s = [] \<or> unStakeNodelist s = [] then consensus
      else fold (\<lambda>(k, v). om_insert k v) (snd (last (unStakeNodelist s)))
             (fold om_insert_new (snd (last (stakeNodelist s))) consensus))"

text \<open>Erasing the first element of an empty map is undefined: an error value.\<close>

definition ClearSplitNodeListData :: "net \<Rightarrow> (peer_error, net) result" where
  "ClearSplitNodeListData s =
     (if stakeNodelist s = [] \<or> unStakeNodelist s = [] then Inl DerefEnd
      else Inr (s\<lparr>stakeNodelist := tl (stakeNodelist s), unStakeNodelist := tl (unStakeNodelist s)\<rparr>))"

text \<open>
  \<open>qualified addr\<close>: the address has a pledge and enough investment, as the database and the
  bonus cache answer; \<open>nowTime\<close> is the clock.
\<close>

definition splitAndInsertData :: "(string \<Rightarrow> bool) \<Rightarrow> u64 \<Rightarrow> node_counts \<Rightarrow> net \<Rightarrow> net" where
  "splitAndInsertData qualified nowTime syncNodeCount s =
     (let stake = fold om_insert_new (filter (\<lambda>e. qualified (fst e)) syncNodeCount) [];
          unstake = fold om_insert_new (filter (\<lambda>e. \<not> qualified (fst e)) syncNodeCount) []
      in s\<lparr>stakeNodelist := om_insert nowTime stake (stakeNodelist s),
           unStakeNodelist := om_insert nowTime unstake (unStakeNodelist s)\<rparr>)"

text \<open>The end of \<open>StartSyncNode\<close>: a new snapshot, then the oldest is dropped when there are two.\<close>

definition store_snapshot :: "(string \<Rightarrow> bool) \<Rightarrow> u64 \<Rightarrow> node_counts \<Rightarrow> net \<Rightarrow> (peer_error, net) result" where
  "store_snapshot qualified nowTime syncNodeCount s =
     (let s1 = splitAndInsertData qualified nowTime syncNodeCount s
      in if length (stakeNodelist s1) = 2 \<or> length (unStakeNodelist s1) = 2
         then ClearSplitNodeListData s1 else Inr s1)"

section \<open>The peer table\<close>

definition Dverify :: "string \<Rightarrow> nat \<Rightarrow> nat \<Rightarrow> (string \<Rightarrow> bool) \<Rightarrow> int option" where
  "Dverify param minnum maxnum regex =
     (if length param \<ge> minnum \<and> length param \<le> maxnum
      then (if param \<noteq> [] \<and> \<not> regex param then Some (-1) else None)
      else Some (-2))"

definition Verify :: "peer_env \<Rightarrow> Node \<Rightarrow> int" where
  "Verify env node =
     (case Dverify (name node) 0 45 (name_pattern env) of
        Some e \<Rightarrow> e
      | None \<Rightarrow> (case Dverify (logo node) 0 512 (logo_pattern env) of Some e \<Rightarrow> e | None \<Rightarrow> 0))"

definition too_high :: "peer_env \<Rightarrow> u64 \<Rightarrow> Node \<Rightarrow> net \<Rightarrow> bool" where
  "too_high env chainHeight node s \<longleftrightarrow>
     length (nodeMap s) \<ge> unat (KMinSyncQualNodes env) \<and>
     (ucast (height node) :: u64) > chainHeight + ucast (KChainHighThreshold env)"

definition PeerNode_Add :: "peer_env \<Rightarrow> Node \<Rightarrow> net \<Rightarrow> net \<times> bool" where
  "PeerNode_Add env node s =
     (case calculateChainHeightCallback env of
        None \<Rightarrow> (s, False)
      | Some chainHeight \<Rightarrow>
          if too_high env chainHeight node s then (s, False)
          else if length (address node) = 0 then (s, False)
          else if Verify env node \<noteq> 0 then (s, False)
          else case om_find (nodeMap s) (address node) of
            Some _ \<Rightarrow> (s, False)
          | None \<Rightarrow> (s\<lparr>nodeMap := om_insert (address node) node (nodeMap s)\<rparr>, True))"

definition PeerNode_Update :: "peer_env \<Rightarrow> Node \<Rightarrow> net \<Rightarrow> net \<times> bool" where
  "PeerNode_Update env node s =
     (case calculateChainHeightCallback env of
        None \<Rightarrow> (s, False)
      | Some chainHeight \<Rightarrow>
          if too_high env chainHeight node s then (s, False)
          else case om_find (nodeMap s) (address node) of
            None \<Rightarrow> (s, False)
          | Some _ \<Rightarrow> (s\<lparr>nodeMap := om_insert (address node) node (nodeMap s)\<rparr>, True))"

definition AddOrUpdate :: "Node \<Rightarrow> net \<Rightarrow> net \<times> bool" where
  "AddOrUpdate node s = (s\<lparr>nodeMap := om_insert (address node) node (nodeMap s)\<rparr>, True)"

definition drop_buffer_ip :: "u32 \<Rightarrow> u16 \<Rightarrow> net \<Rightarrow> net" where
  "drop_buffer_ip ip port s = s\<lparr>buffers := fst (DeleteBuffer_ip (buffers s) ip port)\<rparr>"

definition drop_buffer_fd :: "int \<Rightarrow> net \<Rightarrow> net" where
  "drop_buffer_fd f s = s\<lparr>buffers := fst (DeleteBuffer_fd (buffers s) f)\<rparr>"

text \<open>
  What \<open>DeleteNode\<close> and \<open>DeleteByFd\<close> do to the tables. The port of a node is 32 bits wide
  and is cut to 16 where a buffer is addressed.
\<close>

definition forget_node :: "string \<Rightarrow> Node \<Rightarrow> net \<Rightarrow> net" where
  "forget_node addr node s =
     (let s1 = DeleteSpiltNodeList addr (drop_buffer_ip (publicIp node) (ucast (publicPort node)) s)
      in s1\<lparr>nodeMap := om_erase addr (nodeMap s1)\<rparr>)"

definition DeleteNode :: "string \<Rightarrow> net \<Rightarrow> net" where
  "DeleteNode addr s =
     (case om_find (nodeMap s) addr of
        None \<Rightarrow> s
      | Some node \<Rightarrow>
          forget_node addr node
            (if fd node > 0 then close_fd (fd node) (DeleteEpollEvent (fd node) s) else s))"

definition CloseFd :: "int \<Rightarrow> net \<Rightarrow> net" where
  "CloseFd f s = (if f \<le> 0 then s else close_fd f (DeleteEpollEvent f (drop_buffer_fd f s)))"

text \<open>
  The iterator is read before it is compared with \<open>end()\<close>: without a node for the
  descriptor the code reads past the map.
\<close>

definition DeleteByFd :: "int \<Rightarrow> net \<Rightarrow> (peer_error, net) result" where
  "DeleteByFd f s =
     (case om_find_if (\<lambda>e. fd (snd e) = f) (nodeMap s) of
        None \<Rightarrow> Inl DerefEnd
      | Some (addr, node) \<Rightarrow>
          let s1 = forget_node addr node s
          in Inr (if f > 0 then close_fd f (DeleteEpollEvent f s1) else s1))"

definition FindNodeByFd :: "int \<Rightarrow> net \<Rightarrow> Node option" where
  "FindNodeByFd f s = map_option snd (om_find_if (\<lambda>e. fd (snd e) = f) (nodeMap s))"

definition PeerNodeVerifyNodeId :: "int \<Rightarrow> string \<Rightarrow> net \<Rightarrow> bool" where
  "PeerNodeVerifyNodeId f peerId s =
     (case FindNodeByFd f s of None \<Rightarrow> False | Some node \<Rightarrow> peerId = address node)"

definition FindNode :: "string \<Rightarrow> net \<Rightarrow> Node option" where
  "FindNode addr s = om_find (nodeMap s) addr"

datatype NodeType = NODE_ALL | NODE_PUBLIC

definition GetNodelist :: "NodeType \<Rightarrow> bool \<Rightarrow> net \<Rightarrow> Node list" where
  "GetNodelist type mustAlive s =
     (if type = NODE_ALL \<or> type = NODE_PUBLIC
      then filter (\<lambda>n. \<not> mustAlive \<or> IsConnected n) (map snd (nodeMap s)) else [])"

definition GetNodelistSize :: "net \<Rightarrow> nat" where
  "GetNodelistSize s = length (nodeMap s)"

text \<open>\<open>cfd\<close> and \<open>connectPort\<close> are what opening the connection returns.\<close>

definition ConnectNode :: "int \<Rightarrow> u16 \<Rightarrow> Node \<Rightarrow> net \<Rightarrow> net \<times> Node \<times> int" where
  "ConnectNode cfd connectPort node s =
     (if fd node > 0 then (s, node, -1)
      else let node1 = node\<lparr>connKind := DRTO2O\<rparr> in
        if cfd \<le> 0 then (s, node1, -2)
        else (s\<lparr>buffers := fst (AddBuffer_ip (buffers s) (publicIp node) connectPort cfd),
                epoll := insert cfd (epoll s), open_fds := insert cfd (open_fds s)\<rparr>,
              node1\<lparr>fd := cfd, publicPort := ucast connectPort\<rparr>, 0))"

definition DisconnectNode :: "Node \<Rightarrow> net \<Rightarrow> net \<times> int" where
  "DisconnectNode node s =
     (if fd node \<le> 0 then (s, -1)
      else (drop_buffer_ip (publicIp node) (ucast (publicPort node))
              (close_fd (fd node) (DeleteEpollEvent (fd node) s)), 0))"

definition DisconnectNode_fd :: "u32 \<Rightarrow> u16 \<Rightarrow> int \<Rightarrow> net \<Rightarrow> net \<times> int" where
  "DisconnectNode_fd ip port f s =
     (if f \<le> 0 then (s, -1)
      else (drop_buffer_ip ip port (close_fd f (DeleteEpollEvent f s)), 0))"

text \<open>\<open>GenerateAddr\<close> is an argument: the address derivation is in the prebuilt library.\<close>

definition UpdateAddress :: "(string \<Rightarrow> string) \<Rightarrow> peer_env \<Rightarrow> string \<Rightarrow> string \<Rightarrow> net \<Rightarrow> net \<times> int" where
  "UpdateAddress GenerateAddr env oldPub newPub s =
     (if length oldPub = 0 \<or> length newPub = 0 then (s, -1)
      else let oldAddr = GenerateAddr oldPub; newAddr = GenerateAddr newPub in
        case FindNode oldAddr s of
          None \<Rightarrow> (s, -2)
        | Some node \<Rightarrow>
            let node' = node\<lparr>address := newAddr, identity := newPub\<rparr> in
            (case PeerNode_Add env node' (DeleteNode oldAddr s) of (s', ok) \<Rightarrow> (s', if ok then 0 else -3)))"

text \<open>
  The key under which \<open>UnregisterNode::Add\<close> files a node: nothing separates address and
  port.
\<close>

definition unregister_key :: "Node \<Rightarrow> string" where
  "unregister_key node = to_string (unat (publicIp node)) @ to_string (unat (publicPort node))"

definition UnregisterNode_Add :: "Node \<Rightarrow> (string, Node) omap \<Rightarrow> (string, Node) omap \<times> int" where
  "UnregisterNode_Add node nodes =
     (let key = unregister_key node in
      if length key = 0 then (nodes, -1)
      else case om_find nodes key of
        Some _ \<Rightarrow> (nodes, -2)
      | None \<Rightarrow> (om_insert key node nodes, 0))"

section \<open>Writing to a peer\<close>

text \<open>
  \<open>HandleNetWrite\<close> with the kernel's answers \<open>ws\<close>: \<open>None\<close> while the kernel has not
  answered, otherwise the new state, the bytes that went out and the result. A failing write
  deletes the peer of the descriptor. The returned count and the size it is compared with are
  \<open>int\<close>s.
\<close>

definition finish_phone :: "MsgData \<Rightarrow> net \<Rightarrow> net" where
  "finish_phone data s =
     (if md_fd data \<in> set (phoneList s)
      then (DeleteEpollEvent (md_fd data) (drop_buffer_ip (md_ip data) (md_port data)
             (close_fd (md_fd data) s)))\<lparr>phoneList := remove1 (md_fd data) (phoneList s)\<rparr>
      else s)"

definition HandleNetWrite :: "MsgData \<Rightarrow> write_result list \<Rightarrow> net \<Rightarrow> (peer_error, net \<times> bytes \<times> bool) result option" where
  "HandleNetWrite data ws s =
     (let port_and_ip = DataPackPortAndIp (md_port data) (md_ip data) in
      if \<not> IsExists (buffers s) port_and_ip then Some (Inr (s, [], False))
      else if md_fd data < 0 then Some (Inr (s, [], False))
      else let buff = GetWriteBufferQueue (buffers s) port_and_ip in
        if length buff = 0 then Some (Inr (s, [], True))
        else case net_Send (md_fd data) buff ws of
          None \<Rightarrow> None
        | Some (out, SendFailed) \<Rightarrow> Some (bindE (DeleteByFd (md_fd data) s) (\<lambda>s'. Inr (s', out, False)))
        | Some (out, SendRet ret) \<Rightarrow>
            if ret = -1 then Some (Inr (s, out, False))
            else if ret > 0 \<and> ret < int32 (int (length buff))
            then Some (Inr (s\<lparr>buffers := PopNWriteBufferQueue (buffers s) port_and_ip ret\<rparr>, out, True))
            else if ret = int32 (int (length buff))
            then Some (Inr (finish_phone data
                   (s\<lparr>buffers := PopNWriteBufferQueue (buffers s) port_and_ip ret\<rparr>), out, True))
            else Some (Inr (s, out, False)))"

section \<open>Invariant\<close>

definition entries_ok :: "('v \<Rightarrow> 'k) \<Rightarrow> ('k::linorder, 'v) omap \<Rightarrow> bool" where
  "entries_ok f m \<longleftrightarrow> om_wf m \<and> (\<forall>(k, v) \<in> set m. f v = k)"

lemma entries_ok_find: "entries_ok f m \<Longrightarrow> om_find m k = Some v \<Longrightarrow> f v = k"
  by (auto simp: entries_ok_def dest: map_of_SomeD)

lemma entries_ok_insert: "entries_ok f m \<Longrightarrow> f v = k \<Longrightarrow> entries_ok f (om_insert k v m)"
proof -
  assume m: "entries_ok f m" and v: "f v = k"
  have wf: "om_wf (om_insert k v m)"
    using m by (simp add: entries_ok_def om_wf_insert)
  have "f v' = k'" if "(k', v') \<in> set (om_insert k v m)" for k' v'
    using that m v om_find_in [OF wf] by (auto simp: om_find_insert split: if_splits intro: entries_ok_find)
  with wf show ?thesis
    by (auto simp: entries_ok_def)
qed

lemma entries_ok_erase: "entries_ok f m \<Longrightarrow> entries_ok f (om_erase k m)"
  by (auto simp: entries_ok_def om_wf_erase) (auto simp: om_erase_def)

definition lists_ok :: "net \<Rightarrow> bool" where
  "lists_ok s \<longleftrightarrow> om_wf (stakeNodelist s) \<and> om_wf (unStakeNodelist s) \<and>
     map fst (stakeNodelist s) = map fst (unStakeNodelist s) \<and> length (stakeNodelist s) \<le> 1"

definition net_wf :: "net \<Rightarrow> bool" where
  "net_wf s \<longleftrightarrow> entries_ok address (nodeMap s) \<and> entries_ok sb_portAndIp (buffers s) \<and> lists_ok s"

lemma erase_first_keys: "erase_first addr l = Some l' \<Longrightarrow> map fst l' = map fst l"
  by (induction addr l arbitrary: l' rule: erase_first.induct) (auto split: if_splits)

lemma om_wf_keys: "map fst l' = map fst l \<Longrightarrow> om_wf l' = om_wf l"
  by (simp add: om_wf_def)

lemma DeleteSpiltNodeList_same [simp]:
  "nodeMap (DeleteSpiltNodeList a s) = nodeMap s" "buffers (DeleteSpiltNodeList a s) = buffers s"
  "epoll (DeleteSpiltNodeList a s) = epoll s" "open_fds (DeleteSpiltNodeList a s) = open_fds s"
  by (simp_all add: DeleteSpiltNodeList_def split: option.splits)

lemma lists_ok_keys:
  assumes "map fst (stakeNodelist s') = map fst (stakeNodelist s)"
    and "map fst (unStakeNodelist s') = map fst (unStakeNodelist s)" and "lists_ok s"
  shows "lists_ok s'"
proof -
  have "length (stakeNodelist s') = length (stakeNodelist s)"
    using assms(1) by (metis length_map)
  with assms show ?thesis
    by (simp add: lists_ok_def om_wf_def)
qed

lemma lists_ok_DeleteSpilt: "lists_ok s \<Longrightarrow> lists_ok (DeleteSpiltNodeList a s)"
  by (rule lists_ok_keys [of _ s])
    (auto simp: DeleteSpiltNodeList_def split: option.splits dest: erase_first_keys)

lemma buffers_ok_DeleteBuffer:
  "entries_ok sb_portAndIp bm \<Longrightarrow> entries_ok sb_portAndIp (fst (DeleteBuffer_ip bm ip port))"
  "entries_ok sb_portAndIp bm \<Longrightarrow> entries_ok sb_portAndIp (fst (DeleteBuffer_fd bm f))"
  by (auto simp: DeleteBuffer_ip_def DeleteBuffer_def DeleteBuffer_fd_def entries_ok_erase split: option.splits)

lemma buffers_ok_AddBuffer:
  "entries_ok sb_portAndIp bm \<Longrightarrow> entries_ok sb_portAndIp (fst (AddBuffer_ip bm ip port f))"
  by (auto simp: AddBuffer_ip_def AddBuffer_def intro!: entries_ok_insert split: option.splits)

lemma buffers_ok_AddWrite:
  "entries_ok sb_portAndIp bm \<Longrightarrow> entries_ok sb_portAndIp (fst (AddWritePack_ip bm ip port m))"
  by (auto simp: AddWritePack_ip_def AddWritePack_def PushSendMsg_def intro!: entries_ok_insert
      dest: entries_ok_find split: option.splits)

lemma buffers_ok_Pop:
  "entries_ok sb_portAndIp bm \<Longrightarrow> entries_ok sb_portAndIp (PopNWriteBufferQueue bm k n)"
  by (auto simp: PopNWriteBufferQueue_def PopNSendMsg_def intro!: entries_ok_insert
      dest: entries_ok_find split: option.splits)

lemma buffers_ok_Read:
  "entries_ok sb_portAndIp bm \<Longrightarrow> entries_ok sb_portAndIp (fst (AddReadBufferQueue_ip bm ip port buf))"
  by (auto simp: AddReadBufferQueue_ip_def AddReadBufferQueue_def SocketBuf_AddData_def intro!: entries_ok_insert
      dest: entries_ok_find split: option.splits prod.splits)

lemmas buffers_ok = buffers_ok_DeleteBuffer buffers_ok_AddBuffer buffers_ok_AddWrite buffers_ok_Pop buffers_ok_Read

text \<open>A new snapshot leaves one snapshot, or replaces the one of the same time.\<close>

lemma om_insert_keys: "map fst l = map fst l' \<Longrightarrow> map fst (om_insert k v l) = map fst (om_insert k v' l')"
proof (induction k v l arbitrary: l' rule: om_insert.induct)
  case (2 k v k1 v1 l)
  then show ?case by (cases l') auto
qed auto

lemma store_snapshot_ok:
  assumes "lists_ok s"
  shows "\<exists>s'. store_snapshot qf t cnt s = Inr s' \<and> lists_ok s' \<and> length (stakeNodelist s') = 1 \<and>
    nodeMap s' = nodeMap s \<and> buffers s' = buffers s"
proof -
  let ?s1 = "splitAndInsertData qf t cnt s"
  have keys: "map fst (stakeNodelist ?s1) = map fst (unStakeNodelist ?s1)"
    using assms by (simp add: splitAndInsertData_def Let_def lists_ok_def om_insert_keys)
  have wf: "om_wf (stakeNodelist ?s1)" "om_wf (unStakeNodelist ?s1)"
    using assms by (simp_all add: splitAndInsertData_def Let_def lists_ok_def om_wf_insert)
  have len: "length (stakeNodelist ?s1) = 1 \<or> length (stakeNodelist ?s1) = 2"
    using assms length_om_insert [of "stakeNodelist s" t]
    by (cases "stakeNodelist s") (auto simp: splitAndInsertData_def Let_def lists_ok_def)
  have len2: "length (unStakeNodelist ?s1) = length (stakeNodelist ?s1)"
    using keys by (metis length_map)
  have same: "nodeMap ?s1 = nodeMap s" "buffers ?s1 = buffers s"
    by (simp_all add: splitAndInsertData_def Let_def)
  show ?thesis
  proof (cases "length (stakeNodelist ?s1) = 1")
    case True
    then show ?thesis
      using keys wf len2 same by (simp add: store_snapshot_def Let_def lists_ok_def)
  next
    case False
    with len obtain a b c d where l: "stakeNodelist ?s1 = [a, b]" "unStakeNodelist ?s1 = [c, d]"
      using len2 by (auto simp: length_Suc_conv numeral_2_eq_2)
    then show ?thesis
      using keys wf same
      by (simp add: store_snapshot_def Let_def lists_ok_def ClearSplitNodeListData_def om_wf_def)
  qed
qed

section \<open>The operations as a step relation\<close>

text \<open>
  Every public operation that changes the shared state is one step; the threads interleave
  them under the locks.
\<close>

inductive net_step :: "peer_env \<Rightarrow> net \<Rightarrow> net \<Rightarrow> bool" for env where
  add: "net_step env s (fst (PeerNode_Add env node s))"
| update: "net_step env s (fst (PeerNode_Update env node s))"
| add_or_update: "net_step env s (fst (AddOrUpdate node s))"
| delete_node: "net_step env s (DeleteNode addr s)"
| close: "net_step env s (CloseFd f s)"
| delete_by_fd: "DeleteByFd f s = Inr s' \<Longrightarrow> net_step env s s'"
| connect: "net_step env s (fst (ConnectNode cfd port node s))"
| disconnect: "net_step env s (fst (DisconnectNode node s))"
| disconnect_fd: "net_step env s (fst (DisconnectNode_fd ip port f s))"
| receive: "net_step env s (s\<lparr>buffers := fst (AddReadBufferQueue_ip (buffers s) ip port buf)\<rparr>)"
| enqueue: "net_step env s (s\<lparr>buffers := fst (AddWritePack_ip (buffers s) ip port msg)\<rparr>)"
| send: "HandleNetWrite data ws s = Some (Inr (s', out, ok)) \<Longrightarrow> net_step env s s'"
| snapshot: "store_snapshot qf t cnt s = Inr s' \<Longrightarrow> net_step env s s'"

definition net0 :: net where
  "net0 = \<lparr>nodeMap = [], buffers = [], epoll = {}, open_fds = {}, stakeNodelist = [],
     unStakeNodelist = [], phoneList = []\<rparr>"

definition net_reachable :: "peer_env \<Rightarrow> net \<Rightarrow> bool" where
  "net_reachable env s \<longleftrightarrow> (net_step env)\<^sup>*\<^sup>* net0 s"

lemma net_wf_net0: "net_wf net0"
  by (simp add: net_wf_def net0_def entries_ok_def lists_ok_def)

lemma net_wf_fds [simp]:
  "net_wf (close_fd f s) = net_wf s" "net_wf (DeleteEpollEvent f s) = net_wf s"
  by (simp_all add: net_wf_def close_fd_def DeleteEpollEvent_def lists_ok_def)

lemma net_wf_buffers: "net_wf s \<Longrightarrow> entries_ok sb_portAndIp bm \<Longrightarrow> net_wf (s\<lparr>buffers := bm\<rparr>)"
  by (simp add: net_wf_def lists_ok_def)

lemma net_wf_nodes: "net_wf s \<Longrightarrow> entries_ok address nm \<Longrightarrow> net_wf (s\<lparr>nodeMap := nm\<rparr>)"
  by (simp add: net_wf_def lists_ok_def)

lemma net_wf_drop:
  "net_wf s \<Longrightarrow> net_wf (drop_buffer_ip ip port s)" "net_wf s \<Longrightarrow> net_wf (drop_buffer_fd f s)"
  unfolding drop_buffer_ip_def drop_buffer_fd_def
  by (rule net_wf_buffers; simp add: net_wf_def buffers_ok)+

lemma net_wf_DeleteSpilt: "net_wf s \<Longrightarrow> net_wf (DeleteSpiltNodeList a s)"
  by (simp add: net_wf_def lists_ok_DeleteSpilt)

lemma net_wf_erase: "net_wf s \<Longrightarrow> net_wf (s\<lparr>nodeMap := om_erase a (nodeMap s)\<rparr>)"
  by (rule net_wf_nodes) (simp_all add: net_wf_def entries_ok_erase)

lemma net_wf_insert: "net_wf s \<Longrightarrow> net_wf (s\<lparr>nodeMap := om_insert (address n) n (nodeMap s)\<rparr>)"
  by (rule net_wf_nodes) (simp_all add: net_wf_def entries_ok_insert)

lemma net_wf_phone: "net_wf (s\<lparr>phoneList := l\<rparr>) = net_wf s"
  by (simp add: net_wf_def lists_ok_def)

lemma net_wf_forget: "net_wf s \<Longrightarrow> net_wf (forget_node a n s)"
  unfolding forget_node_def Let_def by (intro net_wf_erase net_wf_DeleteSpilt net_wf_drop)

lemma net_wf_DeleteNode: "net_wf s \<Longrightarrow> net_wf (DeleteNode addr s)"
  by (auto simp: DeleteNode_def split: option.splits intro!: net_wf_forget)

lemma net_wf_DeleteByFd: "net_wf s \<Longrightarrow> DeleteByFd f s = Inr s' \<Longrightarrow> net_wf s'"
  by (auto simp: DeleteByFd_def Let_def split: option.splits prod.splits if_splits intro!: net_wf_forget)

lemma net_wf_HandleNetWrite:
  assumes "net_wf s" and "HandleNetWrite data ws s = Some (Inr (s', out, ok))"
  shows "net_wf s'"
proof -
  let ?k = "DataPackPortAndIp (md_port data) (md_ip data)"
  have pop: "net_wf (s\<lparr>buffers := PopNWriteBufferQueue (buffers s) ?k n\<rparr>)" for n
    using assms(1) by (intro net_wf_buffers) (auto simp: net_wf_def buffers_ok)
  have fin: "net_wf t \<Longrightarrow> net_wf (finish_phone data t)" for t
    by (simp add: finish_phone_def net_wf_phone net_wf_drop)
  show ?thesis
    using assms pop fin net_wf_DeleteByFd [OF assms(1)]
    by (auto simp: HandleNetWrite_def Let_def split: if_splits option.splits send_result.splits)
qed

lemma net_wf_step: "net_step env s s' \<Longrightarrow> net_wf s \<Longrightarrow> net_wf s'"
proof (induction rule: net_step.induct)
  case (add s node)
  then show ?case by (auto simp: PeerNode_Add_def net_wf_insert split: option.splits)
next
  case (update s node)
  then show ?case by (auto simp: PeerNode_Update_def net_wf_insert split: option.splits)
next
  case (connect s cfd port node)
  then have "net_wf (s\<lparr>buffers := fst (AddBuffer_ip (buffers s) (publicIp node) port cfd)\<rparr>)"
    by (intro net_wf_buffers) (auto simp: net_wf_def buffers_ok)
  with connect show ?case
    by (simp add: ConnectNode_def Let_def net_wf_def lists_ok_def)
next
  case (snapshot qf t cnt s s')
  then show ?case
    using store_snapshot_ok [of s qf t cnt] by (auto simp: net_wf_def)
next
  case (add_or_update s node)
  then show ?case by (simp add: AddOrUpdate_def net_wf_insert)
next
  case (delete_node s addr)
  then show ?case by (rule net_wf_DeleteNode)
next
  case (close s f)
  then show ?case by (simp add: CloseFd_def net_wf_drop)
next
  case (delete_by_fd f s s')
  then show ?case using net_wf_DeleteByFd by blast
next
  case (disconnect s node)
  then show ?case by (simp add: DisconnectNode_def net_wf_drop)
next
  case (disconnect_fd s ip port f)
  then show ?case by (simp add: DisconnectNode_fd_def net_wf_drop)
next
  case (receive s ip port buf)
  then show ?case by (intro net_wf_buffers) (simp_all add: net_wf_def buffers_ok)
next
  case (enqueue s ip port msg)
  then show ?case by (intro net_wf_buffers) (simp_all add: net_wf_def buffers_ok)
next
  case (send data ws s s' out ok)
  then show ?case using net_wf_HandleNetWrite by blast
qed

lemma net_reachable_wf: "net_reachable env s \<Longrightarrow> net_wf s"
  unfolding net_reachable_def
  by (induction rule: rtranclp_induct) (auto simp: net_wf_net0 intro: net_wf_step)

section \<open>Snapshots and queries\<close>

lemma find_insert_new: "om_find (om_insert_new e m) = (\<lambda>k. case om_find m k of Some v \<Rightarrow> Some v | None \<Rightarrow> map_of [e] k)"
  by (auto simp: om_insert_new_def om_find_insert fun_eq_iff split: option.splits)

lemma find_fold_insert_new:
  "om_find (fold om_insert_new l m) = (\<lambda>k. case om_find m k of Some v \<Rightarrow> Some v | None \<Rightarrow> map_of l k)"
proof (induction l arbitrary: m)
  case (Cons e l)
  show ?case
    by (cases e) (auto simp: Cons.IH find_insert_new fun_eq_iff split: option.splits)
qed (auto simp: fun_eq_iff split: option.splits)

lemma wf_fold_insert_new: "om_wf m \<Longrightarrow> om_wf (fold om_insert_new l m)"
  by (induction l arbitrary: m) (auto simp: om_insert_new_def om_wf_insert split: option.splits)

lemma find_fold_insert:
  "om_wf l \<Longrightarrow> om_find (fold (\<lambda>(k, v). om_insert k v) l m) = om_find m ++ om_find l"
proof -
  assume "om_wf l"
  then have "map_of (rev l) = map_of l"
    using om_wf_distinct [of l] by (subst map_of_inject_set) (simp_all add: rev_map [symmetric])
  moreover have "map_of (fold (\<lambda>(k, v). om_insert k v) l m) = map_of m ++ map_of (rev l)"
    using om.find_ins_all [of l m] by (simp add: fun_eq_iff)
  ultimately show ?thesis
    by simp
qed

lemma om_insert_not_Nil [simp]: "om_insert k v m \<noteq> []"
  by (induction k v m rule: om_insert.induct) auto

lemma last_om_insert: "\<forall>k' \<in> fst ` set m. k' \<le> k \<Longrightarrow> om_wf m \<Longrightarrow> last (om_insert k v m) = (k, v)"
proof (induction k v m rule: om_insert.induct)
  case (2 k v k' v' m)
  have m: "om_wf m" "\<forall>x \<in> fst ` set m. k' < x"
    using 2(3) by (auto simp: om_wf_def)
  consider "k = k'" | "k' < k"
    using 2(2) by fastforce
  then show ?case
  proof cases
    case 1
    then have "m = []"
      using 2(2) m(2) by (cases m) auto
    with 1 show ?thesis by simp
  next
    case b: 2
    then show ?thesis
      using 2(1,2) m(1) by auto
  qed
qed simp

lemma last_tl: "length l = 2 \<Longrightarrow> last (tl l) = last l"
  by (cases l) auto

text \<open>The newest snapshot after \<open>store_snapshot\<close>.\<close>

lemma store_snapshot_last:
  assumes "lists_ok s" and "\<forall>k \<in> fst ` set (stakeNodelist s). k \<le> t"
    and "store_snapshot qf t cnt s = Inr s'"
  shows "stakeNodelist s' \<noteq> [] \<and> unStakeNodelist s' \<noteq> [] \<and>
    snd (last (stakeNodelist s')) = fold om_insert_new (filter (\<lambda>e. qf (fst e)) cnt) [] \<and>
    snd (last (unStakeNodelist s')) = fold om_insert_new (filter (\<lambda>e. \<not> qf (fst e)) cnt) []"
proof -
  let ?s1 = "splitAndInsertData qf t cnt s"
  have keys: "fst ` set (unStakeNodelist s) = fst ` set (stakeNodelist s)"
    using assms(1) by (metis lists_ok_def set_map)
  have l1: "snd (last (stakeNodelist ?s1)) = fold om_insert_new (filter (\<lambda>e. qf (fst e)) cnt) []"
    using assms(1,2) last_om_insert [of "stakeNodelist s" t]
    by (simp add: splitAndInsertData_def Let_def lists_ok_def)
  have l2: "snd (last (unStakeNodelist ?s1)) = fold om_insert_new (filter (\<lambda>e. \<not> qf (fst e)) cnt) []"
    using assms(1,2) keys last_om_insert [of "unStakeNodelist s" t]
    by (simp add: splitAndInsertData_def Let_def lists_ok_def)
  have len: "length (stakeNodelist ?s1) = length (unStakeNodelist ?s1)"
    using assms(1) om_insert_keys [of "stakeNodelist s" "unStakeNodelist s" t]
    by (simp add: splitAndInsertData_def Let_def lists_ok_def) (metis length_map)
  obtain s2 where "store_snapshot qf t cnt s = Inr s2" "lists_ok s2" "length (stakeNodelist s2) = 1"
    using store_snapshot_ok [OF assms(1)] by blast
  with assms(3) have s': "length (stakeNodelist s') = 1" "map fst (stakeNodelist s') = map fst (unStakeNodelist s')"
    by (auto simp: lists_ok_def)
  then have ne: "stakeNodelist s' \<noteq> []" "unStakeNodelist s' \<noteq> []"
    by auto
  have "last (stakeNodelist s') = last (stakeNodelist ?s1) \<and> last (unStakeNodelist s') = last (unStakeNodelist ?s1)"
    using assms(3) len last_tl
    by (auto simp: store_snapshot_def Let_def ClearSplitNodeListData_def split: if_splits)
  with l1 l2 ne show ?thesis by simp
qed

lemma map_of_filter_key: "map_of (filter (\<lambda>e. P (fst e)) m) k = (if P k then map_of m k else None)"
  by (induction m) auto

section \<open>Streams\<close>

text \<open>
  The life of one outgoing connection: a fresh buffer, messages queued for it, and writes in
  whatever portions the kernel takes, with no failing write and never with 2 GiB or more
  waiting when the writer runs: the writer handles the size as an \<open>int\<close>. \<open>p\<close> is everything
  queued, \<open>w\<close> everything the socket took.
\<close>

inductive out_stream_of :: "u32 \<Rightarrow> u16 \<Rightarrow> net \<Rightarrow> bytes \<Rightarrow> bytes \<Rightarrow> bool" for ip port where
  fresh: "IsExists_ip (buffers s) ip port \<Longrightarrow> IsCacheEmpty (buffers s) ip port \<Longrightarrow>
    out_stream_of ip port s [] []"
| queued: "out_stream_of ip port s p w \<Longrightarrow>
    out_stream_of ip port (s\<lparr>buffers := fst (AddWritePack_ip (buffers s) ip port msg)\<rparr>) (p @ msg) w"
| written: "out_stream_of ip port s p w \<Longrightarrow> md_ip data = ip \<Longrightarrow> md_port data = port \<Longrightarrow>
    md_fd data \<notin> set (phoneList s) \<Longrightarrow> WriteFailed \<notin> set ws \<Longrightarrow>
    length (GetWriteBufferQueue (buffers s) (DataPackPortAndIp port ip)) < 2 ^ 31 \<Longrightarrow>
    HandleNetWrite data ws s = Some (Inr (s', out, ok)) \<Longrightarrow> out_stream_of ip port s' p (w @ out)"

lemma Pop_queue:
  assumes "IsExists bm k" and "n \<le> length (GetWriteBufferQueue bm k)"
    and "length (GetWriteBufferQueue bm k) < 2 ^ 31"
  shows "IsExists (PopNWriteBufferQueue bm k (int n)) k \<and>
    GetWriteBufferQueue (PopNWriteBufferQueue bm k (int n)) k = drop n (GetWriteBufferQueue bm k)"
  using assms
  by (auto simp: IsExists_def PopNWriteBufferQueue_def GetWriteBufferQueue_def GetSendMsg_def PopNSendMsg_def
      om_find_insert int32_small)

lemma HandleNetWrite_body:
  assumes "IsExists (buffers s) k" and "k = DataPackPortAndIp (md_port data) (md_ip data)"
    and "0 \<le> md_fd data" and "md_fd data \<notin> set (phoneList s)" and "GetWriteBufferQueue (buffers s) k \<noteq> []"
    and "net_Send (md_fd data) (GetWriteBufferQueue (buffers s) k) ws = Some (out, SendRet ret)"
  shows "HandleNetWrite data ws s = Some (Inr (
     if ret \<noteq> -1 \<and> (0 < ret \<and> ret < int32 (int (length (GetWriteBufferQueue (buffers s) k))) \<or>
          ret = int32 (int (length (GetWriteBufferQueue (buffers s) k))))
     then (s\<lparr>buffers := PopNWriteBufferQueue (buffers s) k ret\<rparr>, out, True) else (s, out, False)))"
  using assms(1,3-6) unfolding HandleNetWrite_def Let_def assms(2) [symmetric]
  by (simp add: finish_phone_def)

lemma HandleNetWrite_stream:
  assumes ex: "IsExists (buffers s) k" and k: "k = DataPackPortAndIp (md_port data) (md_ip data)"
    and ph: "md_fd data \<notin> set (phoneList s)" and ws: "WriteFailed \<notin> set ws"
    and small: "length (GetWriteBufferQueue (buffers s) k) < 2 ^ 31"
    and run: "HandleNetWrite data ws s = Some (Inr (s', out, ok))"
  shows "IsExists (buffers s') k \<and>
    GetWriteBufferQueue (buffers s) k = out @ GetWriteBufferQueue (buffers s') k"
proof -
  let ?b = "GetWriteBufferQueue (buffers s) k"
  show ?thesis
  proof (cases "md_fd data < 0 \<or> ?b = []")
    case True
    then show ?thesis
      using run ex k by (auto simp: HandleNetWrite_def Let_def split: if_splits)
  next
    case False
    then have b: "?b \<noteq> []" and f: "0 \<le> md_fd data" by auto
    obtain o1 r where r: "net_Send (md_fd data) ?b ws = Some (o1, r)"
      using run ex b f unfolding HandleNetWrite_def Let_def k [symmetric]
      by (cases "net_Send (md_fd data) ?b ws") auto
    then obtain j where j: "o1 = take j ?b" "j \<le> length ?b" "r = SendRet (int (length o1))"
      using net_Send_prefix [OF r f small] Send_not_failed [OF ws] f by (auto simp: net_Send_def)
    then have len: "length o1 = j" by simp
    let ?pop = "PopNWriteBufferQueue (buffers s) k (int j)"
    have pop: "IsExists ?pop k" "GetWriteBufferQueue ?pop k = drop j ?b"
      using Pop_queue [OF ex j(2) small] by auto
    have size: "int32 (int (length ?b)) = int (length ?b)"
      using small by (simp add: int32_small)
    have "(s', out) = (if j = 0 then s else s\<lparr>buffers := ?pop\<rparr>, o1)"
      using run HandleNetWrite_body [OF ex k f ph b r [unfolded j(3)]] j(2) len b size
      by (auto split: if_splits)
    then have s': "buffers s' = (if j = 0 then buffers s else ?pop)" and "out = o1"
      by auto
    with pop ex j(1) show ?thesis
      by (cases "j = 0") simp_all
  qed
qed

text \<open>
  With 2 GiB or more waiting (and less than 4 GiB) the size is negative as an \<open>int\<close>: the
  writer sends nothing, empties the buffer and reports success.
\<close>

theorem big_buffer_lost:
  assumes "IsExists (buffers s) k" and "k = DataPackPortAndIp (md_port data) (md_ip data)"
    and "0 \<le> md_fd data" and "md_fd data \<notin> set (phoneList s)"
    and "2 ^ 31 \<le> length (GetWriteBufferQueue (buffers s) k)"
    and "length (GetWriteBufferQueue (buffers s) k) < 2 ^ 32 - 1"
  shows "\<exists>s'. HandleNetWrite data ws s = Some (Inr (s', [], True)) \<and> GetWriteBufferQueue (buffers s') k = []"
proof -
  let ?b = "GetWriteBufferQueue (buffers s) k"
  have ne: "?b \<noteq> []" and up: "length ?b < 2 ^ 32" using assms(5,6) by auto
  have size: "int32 (int (length ?b)) = int (length ?b) - 2 ^ 32"
    using assms(5) up by (intro int32_wraps) simp_all
  have neg: "int (length ?b) - 2 ^ 32 < -1" using assms(6) by simp
  obtain sb where sb: "om_find (buffers s) k = Some sb" using assms(1) by (auto simp: IsExists_def)
  have pop: "GetWriteBufferQueue (PopNWriteBufferQueue (buffers s) k (int (length ?b) - 2 ^ 32)) k = []"
    using neg size sb unfolding PopNWriteBufferQueue_def PopNSendMsg_def GetWriteBufferQueue_def GetSendMsg_def
    by (simp add: om_find_insert)
  show ?thesis
    using HandleNetWrite_body [OF assms(1-4) ne net_Send_wraps [OF assms(5) up assms(3)], of ws] pop neg size
    by simp
qed

lemma AddWrite_queue:
  assumes "IsExists_ip bm ip port"
  shows "IsExists_ip (fst (AddWritePack_ip bm ip port msg)) ip port \<and>
    GetWriteBufferQueue (fst (AddWritePack_ip bm ip port msg)) (DataPackPortAndIp port ip) =
      GetWriteBufferQueue bm (DataPackPortAndIp port ip) @ msg"
  using assms
  by (auto simp: IsExists_ip_def IsExists_def AddWritePack_ip_def AddWritePack_def GetWriteBufferQueue_def
      GetSendMsg_def PushSendMsg_def om_find_insert)

lemma out_stream_inv:
  "out_stream_of ip port s p w \<Longrightarrow> IsExists_ip (buffers s) ip port \<and>
   p = w @ GetWriteBufferQueue (buffers s) (DataPackPortAndIp port ip)"
proof (induction rule: out_stream_of.induct)
  case (fresh s)
  then show ?case
    by (auto simp: IsExists_ip_def IsExists_def IsCacheEmpty_def IsSendCacheEmpty_def GetWriteBufferQueue_def GetSendMsg_def)
next
  case (queued s p w msg)
  then show ?case
    using AddWrite_queue [of "buffers s" ip port msg] by simp
next
  case (written s p w data ws s' out ok)
  let ?k = "DataPackPortAndIp port ip"
  have ih: "IsExists (buffers s) ?k" "p = w @ GetWriteBufferQueue (buffers s) ?k"
    using written.IH unfolding IsExists_ip_def by blast+
  have k: "?k = DataPackPortAndIp (md_port data) (md_ip data)"
    by (simp only: written.hyps)
  have step: "IsExists (buffers s') ?k"
    "GetWriteBufferQueue (buffers s) ?k = out @ GetWriteBufferQueue (buffers s') ?k"
    using HandleNetWrite_stream [OF ih(1) k written.hyps(4,5,6,7)] by blast+
  show ?case
    using step(1) unfolding IsExists_ip_def ih(2) step(2) by simp
qed

section \<open>Properties\<close>

text \<open>
  C11: Every state of the network layer that any interleaving of its operations can reach is
  well-formed: the peer table maps an address to the node of that address, the buffer table
  maps an endpoint to the buffer of that endpoint, and the two node lists keep the same
  snapshot times, at most one; in particular the code that drops the oldest snapshot never
  erases from an empty map, and one snapshot remains.
\<close>

theorem net_invariant:
  assumes "net_reachable env s"
  shows "net_wf s \<and> (\<exists>s'. store_snapshot qf t cnt s = Inr s' \<and> net_wf s' \<and>
    length (stakeNodelist s') = 1 \<and> length (unStakeNodelist s') = 1)"
proof -
  have wf: "net_wf s"
    using assms by (rule net_reachable_wf)
  then obtain s' where s': "store_snapshot qf t cnt s = Inr s'" "length (stakeNodelist s') = 1"
    using store_snapshot_ok [of s qf t cnt] by (auto simp: net_wf_def)
  have wf': "net_wf s'"
    using net_wf_step [OF snapshot [OF s'(1)] wf] .
  then have "map fst (unStakeNodelist s') = map fst (stakeNodelist s')"
    by (simp add: net_wf_def lists_ok_def)
  then have "length (unStakeNodelist s') = 1"
    using s'(2) by (metis length_map)
  with wf wf' s' show ?thesis by blast
qed

definition env0 :: peer_env where
  "env0 = \<lparr>calculateChainHeightCallback = Some 5, KMinSyncQualNodes = 100, KChainHighThreshold = 1000,
     name_pattern = (\<lambda>_. True), logo_pattern = (\<lambda>_. True)\<rparr>"

theorem net_invariant_witness:
  "net_reachable env0 (fst (PeerNode_Add env0 (new_Node\<lparr>address := ''a'', fd := 4\<rparr>) net0)) \<and>
   net_wf (fst (PeerNode_Add env0 (new_Node\<lparr>address := ''a'', fd := 4\<rparr>) net0))"
proof -
  let ?s = "fst (PeerNode_Add env0 (new_Node\<lparr>address := ''a'', fd := 4\<rparr>) net0)"
  have "net_reachable env0 ?s"
    unfolding net_reachable_def by (rule r_into_rtranclp) (rule add)
  then show ?thesis
    using net_invariant [of env0 ?s "\<lambda>_. True" 1 "[]"] by blast
qed

text \<open>
  Deleting a peer removes exactly that peer: afterwards its address is unknown, its
  descriptor is closed and no longer watched, its buffer is gone, and every other peer is
  found as before.
\<close>

theorem delete_node_removes_peer:
  assumes "FindNode addr s = Some node" and "fd node > 0" and "publicIp node \<noteq> 0"
  shows "FindNode addr (DeleteNode addr s) = None \<and>
    (\<forall>a. a \<noteq> addr \<longrightarrow> FindNode a (DeleteNode addr s) = FindNode a s) \<and>
    fd node \<notin> open_fds (DeleteNode addr s) \<and> fd node \<notin> epoll (DeleteNode addr s) \<and>
    \<not> IsExists_ip (buffers (DeleteNode addr s)) (publicIp node) (ucast (publicPort node))"
proof -
  have "DataPackPortAndIp (ucast (publicPort node)) (publicIp node) \<noteq> DataPackPortAndIp 0 0"
    using assms(3) by (simp add: port_ip_inject)
  then have key: "DataPackPortAndIp (ucast (publicPort node)) (publicIp node) \<noteq> 0"
    by (simp add: DataPackPortAndIp_def)
  have del: "DeleteNode addr s = forget_node addr node (close_fd (fd node) (DeleteEpollEvent (fd node) s))"
    using assms(1,2) by (simp add: DeleteNode_def FindNode_def)
  show ?thesis
    unfolding del using key
    by (auto simp: forget_node_def Let_def FindNode_def om_find_erase drop_buffer_ip_def close_fd_def
        DeleteEpollEvent_def IsExists_ip_def IsExists_def DeleteBuffer_ip_def DeleteBuffer_def split: option.splits)
qed

theorem delete_node_removes_peer_witness:
  "FindNode ''a'' (DeleteNode ''a'' (net0\<lparr>nodeMap := [(''a'', new_Node\<lparr>address := ''a'', fd := 4, publicIp := 9\<rparr>)]\<rparr>)) = None"
  using delete_node_removes_peer [of "''a''" "net0\<lparr>nodeMap := [(''a'', new_Node\<lparr>address := ''a'', fd := 4, publicIp := 9\<rparr>)]\<rparr>"
      "new_Node\<lparr>address := ''a'', fd := 4, publicIp := 9\<rparr>"]
  by (simp add: FindNode_def)

text \<open>
  C16: \<open>DeleteByFd\<close> reads the iterator past the end of the peer table exactly when no peer
  has the descriptor, which is the case for every connection that has not yet registered.
\<close>

theorem delete_by_fd_reads_end:
  "DeleteByFd f s = Inl DerefEnd \<longleftrightarrow> (\<forall>node \<in> set (GetNodelist NODE_ALL False s). fd node \<noteq> f)"
proof -
  have "DeleteByFd f s = Inl DerefEnd \<longleftrightarrow> om_find_if (\<lambda>e. fd (snd e) = f) (nodeMap s) = None"
    by (auto simp: DeleteByFd_def Let_def split: option.splits)
  then show ?thesis
    by (auto simp: om_find_if_None GetNodelist_def)
qed

theorem delete_by_fd_reads_end_witness:
  "DeleteByFd 7 net0 = Inl DerefEnd"
  using delete_by_fd_reads_end [of 7 net0] by (simp add: GetNodelist_def net0_def)

text \<open>
  A new snapshot of the node counts, taken at the latest time, is what the consensus
  queries answer: together the stake and the other list give every counted address with its
  count and nothing else, and the stake list gives exactly the qualified ones.
\<close>

theorem consensus_lists_partition:
  assumes "net_reachable env s" and "\<forall>k \<in> fst ` set (stakeNodelist s). k \<le> t"
    and "store_snapshot qualified t counts s = Inr s'"
  shows "om_find (GetConsensusNodelist s' []) a = om_find counts a \<and>
    om_find (GetConsensusStakeNodelist s' []) a = (if qualified a then om_find counts a else None)"
proof -
  have ok: "lists_ok s"
    using net_reachable_wf [OF assms(1)] by (simp add: net_wf_def)
  note l = store_snapshot_last [OF ok assms(2,3)]
  let ?u = "fold om_insert_new (filter (\<lambda>e. \<not> qualified (fst e)) counts) []"
  have u: "om_find ?u a = (if qualified a then None else om_find counts a)"
    using map_of_filter_key [of "\<lambda>k. \<not> qualified k" counts a] by (simp add: find_fold_insert_new)
  have st: "om_find (GetConsensusStakeNodelist s' []) a = (if qualified a then om_find counts a else None)"
    using l by (simp add: GetConsensusStakeNodelist_def find_fold_insert_new map_of_filter_key)
  have "om_find (GetConsensusNodelist s' []) =
      om_find (fold om_insert_new (snd (last (stakeNodelist s'))) []) ++ om_find ?u"
    using l find_fold_insert [OF wf_fold_insert_new [OF om_wf_Nil]] by (simp add: GetConsensusNodelist_def)
  then have "om_find (GetConsensusNodelist s' []) a = om_find counts a"
    using l u map_of_filter_key [of "\<lambda>k. \<not> qualified k" counts a]
    by (auto simp: map_add_def find_fold_insert_new map_of_filter_key split: option.splits if_splits)
  with st show ?thesis by blast
qed

theorem consensus_lists_partition_witness:
  "\<exists>s'. store_snapshot (\<lambda>a. a = ''x'') 3 [(''x'', 2), (''y'', 1)] net0 = Inr s' \<and>
    om_find (GetConsensusNodelist s' []) ''y'' = Some 1 \<and>
    om_find (GetConsensusStakeNodelist s' []) ''y'' = None"
proof -
  have r: "net_reachable env0 net0"
    by (simp add: net_reachable_def)
  obtain s' where s': "store_snapshot (\<lambda>a. a = ''x'') 3 [(''x'', 2), (''y'', 1)] net0 = Inr s'"
    using store_snapshot_ok [of net0 "\<lambda>a. a = ''x''" 3 "[(''x'', 2), (''y'', 1)]"] net_wf_net0
    by (auto simp: net_wf_def)
  show ?thesis
    using consensus_lists_partition [OF r _ s', of "''y''"] s' by (simp add: net0_def)
qed

text \<open>
  C10: The outgoing byte stream of a connection is exactly the queued messages in order: at
  any moment of its life, whatever portions the kernel took, everything queued is what the
  socket took followed by what still waits in the buffer. The life is that of a connection
  whose writes do not fail, which is not in the list of phones, and for which less than 2 GiB
  wait whenever the writer runs.
\<close>

theorem out_stream_order:
  assumes "out_stream_of ip port s p w"
  shows "p = w @ GetWriteBufferQueue (buffers s) (DataPackPortAndIp port ip)"
  using out_stream_inv [OF assms] by blast

theorem out_stream_order_witness:
  "\<exists>s. out_stream_of 9 8 s [1, 2, 3] [1, 2] \<and> GetWriteBufferQueue (buffers s) (DataPackPortAndIp 8 9) = [3]"
proof -
  let ?k = "DataPackPortAndIp 8 9"
  let ?s0 = "net0\<lparr>buffers := fst (AddBuffer_ip [] 9 8 5)\<rparr>"
  let ?d = "\<lparr>md_type = E_WRITE, md_fd = 5, md_port = 8, md_ip = 9, md_data = [], md_pack = new_NetPack, md_id = []\<rparr>"
  let ?ws = "[Interrupted, Written 2, WouldBlock]"
  define s1 where "s1 = ?s0\<lparr>buffers := fst (AddWritePack_ip (buffers ?s0) 9 8 [1, 2, 3])\<rparr>"
  have "?k \<noteq> 0"
    by (simp add: DataPackPortAndIp_def)
  then have fresh: "out_stream_of 9 8 ?s0 [] []"
    by (intro out_stream_of.fresh) (simp_all add: IsExists_ip_def IsExists_def AddBuffer_ip_def AddBuffer_def
        IsCacheEmpty_def IsSendCacheEmpty_def new_SocketBuf_def)
  from queued [OF this, of "[1, 2, 3]"] have st: "out_stream_of 9 8 s1 [1, 2, 3] []"
    by (simp only: append_Nil s1_def)
  have ex: "IsExists (buffers s1) ?k" and b: "GetWriteBufferQueue (buffers s1) ?k = [1, 2, 3]"
    using out_stream_inv [OF st] by (simp_all add: IsExists_ip_def)
  have ph: "phoneList s1 = []"
    by (simp add: s1_def net0_def)
  have send: "net_Send (md_fd ?d) (GetWriteBufferQueue (buffers s1) ?k) ?ws = Some ([1, 2], SendRet 2)"
    unfolding net_Send_def b by (simp add: Send_loop_steps int32_small)
  have size: "int32 (int (length (GetWriteBufferQueue (buffers s1) ?k))) = 3"
    unfolding b by (simp add: int32_small)
  have pre: "?k = DataPackPortAndIp (md_port ?d) (md_ip ?d)" "0 \<le> md_fd ?d" "md_fd ?d \<notin> set (phoneList s1)"
    "GetWriteBufferQueue (buffers s1) ?k \<noteq> []"
    unfolding b ph by simp_all
  have "HandleNetWrite ?d ?ws s1 =
      Some (Inr (s1\<lparr>buffers := PopNWriteBufferQueue (buffers s1) ?k 2\<rparr>, [1, 2], True))"
    using HandleNetWrite_body [OF ex pre send] unfolding size by simp
  from out_stream_of.written [OF st _ _ _ _ _ this] b ph
  have fin: "out_stream_of 9 8 (s1\<lparr>buffers := PopNWriteBufferQueue (buffers s1) ?k 2\<rparr>) [1, 2, 3] [1, 2]"
    by simp
  show ?thesis
    using fin out_stream_order [OF fin] by auto
qed

end
