(* ===== verification/Tx_Conflict.thy ===== *)
theory Tx_Conflict
  imports Ord_Map "HOL-Library.Multiset"
begin

text \<open>
  Double spending: the pending table of \<open>ca/double_spend_cache.cpp\<close> and the conflict
  checks of \<open>ca/checker.cpp\<close>. Transactions and blocks are the fields of the protobuf
  messages that this code reads; the address derivation \<open>GenerateAddr\<close>, the classification
  \<open>GetTransactionType\<close> and the clock are arguments.
\<close>

section \<open>Transactions and blocks\<close>

datatype TxType =
    kTxTypeGenesis | kTxTypeUnknown | kTxTypeTx | kTxTypeStake | kTxTypeUnstake | kTxTypeInvest
  | kTxTypeDisinvest | kTxTypeDeclaration | kTxTypeDeployContract | kTxTypeCallContract | kTxTypeBonus

datatype TransactionType = kTransactionType_Unknown | kTransactionType_Genesis | kTransactionType_Tx

datatype vrfAgentType = vrfAgentType_defalut | vrfAgentType_vrf | vrfAgentType_local

record CSign =
  sign_sign :: string
  sign_pub :: string

record CTxPrevOutput =
  prev_hash :: string
  prev_n :: u32

record CTxInput =
  vin_prevouts :: "CTxPrevOutput list"
  vin_sign :: CSign
  vin_sequence :: u32

text \<open>The value is a signed 64-bit integer, read by \<open>sint\<close>.\<close>

record CTxOutput =
  out_value :: "64 word"
  out_addr :: string

record CTxUtxo =
  utxo_owner :: "string list"
  utxo_vin :: "CTxInput list"
  utxo_vout :: "CTxOutput list"
  utxo_multisign :: "CSign list"

record CTransaction =
  tx_version :: u32
  tx_time :: u64
  tx_identity :: string
  tx_hash :: string
  tx_utxo :: CTxUtxo
  tx_sort :: string
  tx_consensus :: u32
  tx_type :: TxType
  tx_data :: string
  tx_info :: string
  tx_verifysign :: "CSign list"

abbreviation tx_owners :: "CTransaction \<Rightarrow> string list" where
  "tx_owners tx \<equiv> utxo_owner (tx_utxo tx)"

abbreviation tx_vins :: "CTransaction \<Rightarrow> CTxInput list" where
  "tx_vins tx \<equiv> utxo_vin (tx_utxo tx)"

abbreviation tx_vouts :: "CTransaction \<Rightarrow> CTxOutput list" where
  "tx_vouts tx \<equiv> utxo_vout (tx_utxo tx)"

abbreviation vin_pub :: "CTxInput \<Rightarrow> string" where
  "vin_pub vin \<equiv> sign_pub (vin_sign vin)"

text \<open>A message after \<open>Clear\<close>; the transaction type of number zero is the unknown one.\<close>

abbreviation no_sign :: CSign where
  "no_sign \<equiv> \<lparr>sign_sign = [], sign_pub = []\<rparr>"

definition empty_tx :: CTransaction where
  "empty_tx = \<lparr>tx_version = 0, tx_time = 0, tx_identity = [], tx_hash = [],
     tx_utxo = \<lparr>utxo_owner = [], utxo_vin = [], utxo_vout = [], utxo_multisign = []\<rparr>, tx_sort = [],
     tx_consensus = 0, tx_type = kTxTypeUnknown, tx_data = [], tx_info = [], tx_verifysign = []\<rparr>"

record CBlock =
  blk_version :: u32
  blk_hash :: string
  blk_prevhash :: string
  blk_height :: int
  blk_time :: u64
  blk_merkleroot :: string
  blk_sign :: "CSign list"
  blk_txs :: "CTransaction list"
  blk_data :: string

text \<open>The two orders on blocks: newest first, and oldest first.\<close>

definition CBlockCompare :: "CBlock \<Rightarrow> CBlock \<Rightarrow> bool" where
  "CBlockCompare a b =
     (if blk_height a > blk_height b then True
      else if blk_height a = blk_height b then (if blk_time a > blk_time b then True else False)
      else False)"

definition BlockTimeAscending :: "CBlock \<Rightarrow> CBlock \<Rightarrow> bool" where
  "BlockTimeAscending a b =
     (if blk_height a = blk_height b then blk_time a < blk_time b
      else if blk_height a < blk_height b then True else False)"

section \<open>std::set_intersection\<close>

fun set_intersection :: "'a::linorder list \<Rightarrow> 'a list \<Rightarrow> 'a list" where
  "set_intersection (x # xs) (y # ys) =
     (if x < y then set_intersection xs (y # ys)
      else if y < x then set_intersection (x # xs) ys
      else x # set_intersection xs ys)"
| "set_intersection _ _ = []"

lemma set_set_intersection:
  "sorted xs \<Longrightarrow> sorted ys \<Longrightarrow> set (set_intersection xs ys) = set xs \<inter> set ys"
proof (induction xs ys rule: set_intersection.induct)
  case (1 x xs y ys)
  consider "x < y" | "y < x" | "x = y"
    by fastforce
  then show ?case
  proof cases
    case a: 1
    then have "x \<notin> set (y # ys)"
      using 1(5) by auto
    with a 1 show ?thesis by auto
  next
    case b: 2
    then have "y \<notin> set (x # xs)"
      using 1(4) by auto
    with b 1 show ?thesis by auto
  next
    case 3
    then have "set (set_intersection xs ys) = set xs \<inter> set ys"
      using 1 by simp
    moreover have "x \<in> set xs \<or> x \<notin> set xs" by blast
    ultimately show ?thesis
      using 3 by auto
  qed
qed auto

definition common :: "'a::linorder list \<Rightarrow> 'a list \<Rightarrow> 'a list" where
  "common xs ys = set_intersection (sort xs) (sort ys)"

lemma common_Nil_iff: "common xs ys = [] \<longleftrightarrow> set xs \<inter> set ys = {}"
  using set_set_intersection [of "sort xs" "sort ys"] by (auto simp: common_def)

section \<open>The pending table\<close>

record doubleSpendsuc =
  ds_time :: u64
  utxoVec :: "string list"

type_synonym pending = "(string, doubleSpendsuc) omap"

definition AddFromAddr :: "string \<times> doubleSpendsuc \<Rightarrow> pending \<Rightarrow> pending \<times> int" where
  "AddFromAddr usings p =
     (case om_find p (fst usings) of
        Some e \<Rightarrow> if common (utxoVec (snd usings)) (utxoVec e) \<noteq> [] then (p, -1) else (p, 0)
      | None \<Rightarrow> (om_insert (fst usings) (snd usings) p, 0))"

definition Remove :: "u64 \<Rightarrow> pending \<Rightarrow> pending" where
  "Remove txtimeKey p = filter (\<lambda>e. ds_time (snd e) \<noteq> txtimeKey) p"

text \<open>Entries older than thirty seconds; the sum is taken in 64 bits.\<close>

definition expired :: "u64 \<Rightarrow> doubleSpendsuc \<Rightarrow> bool" where
  "expired now e \<longleftrightarrow> ds_time e + 1000000 * 30 < now"

definition CheckLoop :: "u64 \<Rightarrow> pending \<Rightarrow> pending" where
  "CheckLoop now p =
     (let toRemove = map (\<lambda>e. ds_time (snd e)) (filter (\<lambda>e. expired now (snd e)) p)
      in fold Remove toRemove p)"

datatype tx_error = NoOwner

text \<open>\<open>owner(0)\<close> of a transaction without owners reads outside the repeated field.\<close>

fun detect :: "pending \<Rightarrow> CTransaction list \<Rightarrow> (tx_error, u64 list) result" where
  "detect p [] = Inr []"
| "detect p (tx # txs) = (case tx_owners tx of
     [] \<Rightarrow> Inl NoOwner
   | a # _ \<Rightarrow> bindE (detect p txs) (\<lambda>ts. Inr (case om_find p a of
       Some e \<Rightarrow> if tx_time tx = ds_time e then ds_time e # ts else ts
     | None \<Rightarrow> ts)))"

definition Detection :: "CBlock \<Rightarrow> pending \<Rightarrow> (tx_error, pending) result" where
  "Detection block p = bindE (detect p (blk_txs block)) (\<lambda>toRemove. Inr (fold Remove toRemove p))"

lemma fold_Remove: "fold Remove ts p = filter (\<lambda>e. ds_time (snd e) \<notin> set ts) p"
  by (induction ts arbitrary: p) (auto simp: Remove_def intro!: filter_cong)

lemma CheckLoop_filter: "CheckLoop now p = filter (\<lambda>e. \<not> expired now (snd e)) p"
  unfolding CheckLoop_def Let_def fold_Remove
  by (rule filter_cong) (auto simp: expired_def)

section \<open>Conflicts\<close>

type_synonym GenerateAddr_t = "string \<Rightarrow> string"

definition utxo_keys :: "GenerateAddr_t \<Rightarrow> CTransaction \<Rightarrow> string list" where
  "utxo_keys GenerateAddr tx =
     concat (map (\<lambda>vin. map (\<lambda>prevout. prev_hash prevout @ ''_'' @ GenerateAddr (vin_pub vin)) (vin_prevouts vin)) (tx_vins tx))"

definition CheckConflict_tx :: "GenerateAddr_t \<Rightarrow> CTransaction \<Rightarrow> CTransaction \<Rightarrow> bool" where
  "CheckConflict_tx GenerateAddr tx1 tx2 \<longleftrightarrow>
     common (utxo_keys GenerateAddr tx1) (utxo_keys GenerateAddr tx2) \<noteq> []"

definition CheckConflict_cache :: "GenerateAddr_t \<Rightarrow> CTransaction \<Rightarrow> CTransaction list \<Rightarrow> bool" where
  "CheckConflict_cache GenerateAddr tx cache = list_ex (\<lambda>t. CheckConflict_tx GenerateAddr t tx) cache"

text \<open>Here the type of \<open>tx\<close>, not of the transaction of the block, is checked.\<close>

definition CheckConflict_blocks :: "GenerateAddr_t \<Rightarrow> (CTransaction \<Rightarrow> TransactionType) \<Rightarrow> CTransaction \<Rightarrow> CBlock list \<Rightarrow> bool" where
  "CheckConflict_blocks GenerateAddr GetTransactionType tx blocks =
     list_ex (\<lambda>block. list_ex (\<lambda>curTx. GetTransactionType tx = kTransactionType_Tx \<and>
       CheckConflict_tx GenerateAddr curTx tx) (blk_txs block)) blocks"

text \<open>The first transaction of the first block that conflicts with one of the second.\<close>

definition CheckConflict_block :: "GenerateAddr_t \<Rightarrow> (CTransaction \<Rightarrow> TransactionType) \<Rightarrow> CBlock \<Rightarrow> CBlock \<Rightarrow> CTransaction option" where
  "CheckConflict_block GenerateAddr GetTransactionType block1 block2 =
     List.find (\<lambda>tx1. GetTransactionType tx1 = kTransactionType_Tx \<and>
       list_ex (\<lambda>tx2. GetTransactionType tx2 = kTransactionType_Tx \<and>
         CheckConflict_tx GenerateAddr tx1 tx2) (blk_txs block2)) (blk_txs block1)"

definition CheckConflict_block_blocks :: "GenerateAddr_t \<Rightarrow> (CTransaction \<Rightarrow> TransactionType) \<Rightarrow> CBlock \<Rightarrow> CBlock list \<Rightarrow> CTransaction option" where
  "CheckConflict_block_blocks GenerateAddr GetTransactionType block blocks =
     (case List.find (\<lambda>cur. CheckConflict_block GenerateAddr GetTransactionType cur block \<noteq> None) blocks of
        None \<Rightarrow> None
      | Some cur \<Rightarrow> CheckConflict_block GenerateAddr GetTransactionType cur block)"

section \<open>Double spending inside a block\<close>

type_synonym pool = "(string, CTransaction list) omap"

text \<open>
  The condition is written without parentheses: \<open>&&\<close> binds tighter, so an investment
  withdrawal is skipped whether its output is known or not.
\<close>

definition pool_skip :: "pool \<Rightarrow> string \<Rightarrow> TxType \<Rightarrow> bool" where
  "pool_skip pool utxo txType \<longleftrightarrow>
     (om_find pool utxo \<noteq> None \<and> txType = kTxTypeUnstake) \<or> txType = kTxTypeDisinvest"

definition pool_add :: "string \<times> CTransaction \<Rightarrow> pool \<Rightarrow> pool" where
  "pool_add ut pool = (case ut of (utxo, tx) \<Rightarrow>
     if pool_skip pool utxo (tx_type tx) then pool
     else om_insert utxo ((case om_find pool utxo of None \<Rightarrow> [] | Some l \<Rightarrow> l) @ [tx]) pool)"

definition spends :: "GenerateAddr_t \<Rightarrow> CBlock \<Rightarrow> (string \<times> CTransaction) list" where
  "spends GenerateAddr block = concat (map (\<lambda>tx. map (\<lambda>u. (u, tx)) (utxo_keys GenerateAddr tx)) (blk_txs block))"

text \<open>
  \<open>time_sort\<close> is \<open>std::sort\<close> by time; it may order transactions of equal time in any way.
\<close>

definition CheckConflict_double :: "(CTransaction list \<Rightarrow> CTransaction list) \<Rightarrow> GenerateAddr_t \<Rightarrow> CBlock \<Rightarrow> CTransaction list" where
  "CheckConflict_double time_sort GenerateAddr block =
     concat (map (\<lambda>e. if length (snd e) > 1 then tl (time_sort (snd e)) else [])
       (fold pool_add (spends GenerateAddr block) []))"

lemma pool_find:
  assumes "\<forall>(u, tx) \<in> set occ. tx_type tx \<notin> {kTxTypeUnstake, kTxTypeDisinvest}"
  shows "om_find (fold pool_add occ pool) u =
    (let l = map snd (filter (\<lambda>e. fst e = u) occ) in
     case om_find pool u of Some l0 \<Rightarrow> Some (l0 @ l) | None \<Rightarrow> if l = [] then None else Some l)"
  using assms
proof (induction occ arbitrary: pool)
  case Nil
  then show ?case by (simp split: option.splits)
next
  case (Cons e occ)
  obtain v tx where e: "e = (v, tx)" by (cases e)
  have "pool_add e pool = om_insert v ((case om_find pool v of None \<Rightarrow> [] | Some l \<Rightarrow> l) @ [tx]) pool"
    using Cons.prems by (simp add: e pool_add_def pool_skip_def)
  with Cons show ?case
    by (auto simp: e om_find_insert Let_def split: option.splits)
qed

lemma pool_wf: "om_wf pool \<Longrightarrow> om_wf (fold pool_add occ pool)"
  by (induction occ arbitrary: pool) (auto simp: pool_add_def om_wf_insert split: prod.splits)

lemma filter_key_short: "(\<forall>u. length (filter (\<lambda>e. fst e = u) occ) \<le> 1) \<longleftrightarrow> distinct (map fst occ)"
proof (induction occ)
  case (Cons e occ)
  have "(\<forall>u. length (filter (\<lambda>x. fst x = u) (e # occ)) \<le> 1) \<longleftrightarrow>
      (\<forall>u. length (filter (\<lambda>x. fst x = u) occ) \<le> 1) \<and> filter (\<lambda>x. fst x = fst e) occ = []"
    by (force simp: le_Suc_eq)
  also have "filter (\<lambda>x. fst x = fst e) occ = [] \<longleftrightarrow> fst e \<notin> set (map fst occ)"
    by (induction occ) auto
  finally show ?case
    using Cons.IH by auto
qed simp

lemma only_disinvest_pool:
  "\<forall>(u, tx) \<in> set occ. tx_type tx = kTxTypeDisinvest \<Longrightarrow> fold pool_add occ pool = pool"
  by (induction occ arbitrary: pool) (auto simp: pool_add_def pool_skip_def)

section \<open>Properties\<close>

text \<open>
  While an address is pending, a further transaction of it is refused exactly when it
  uses an output of the pending one; the table does not change in either case. An address
  that is not pending is accepted and recorded.
\<close>

theorem double_spend_guard:
  "case om_find p a of
     Some e \<Rightarrow> AddFromAddr (a, u) p = (p, if set (utxoVec u) \<inter> set (utxoVec e) \<noteq> {} then -1 else 0)
   | None \<Rightarrow> AddFromAddr (a, u) p = (om_insert a u p, 0) \<and>
       (\<forall>u'. set (utxoVec u') \<inter> set (utxoVec u) \<noteq> {} \<longrightarrow>
          snd (AddFromAddr (a, u') (om_insert a u p)) = -1)"
  by (auto simp: AddFromAddr_def common_Nil_iff om_find_insert split: option.splits)

theorem double_spend_guard_witness:
  "snd (AddFromAddr (''a'', \<lparr>ds_time = 2, utxoVec = [''x'', ''y'']\<rparr>)
      (om_insert ''a'' \<lparr>ds_time = 1, utxoVec = [''y'']\<rparr> [])) = -1"
  using double_spend_guard [of "''a''" "\<lparr>ds_time = 1, utxoVec = [''y'']\<rparr>" "[]"] by auto

text \<open>
  A second transaction of a pending address that uses other outputs is accepted but not
  recorded: the very same transaction, or any other spend of those outputs that avoids the
  recorded ones, is accepted again.
\<close>

theorem double_spend_not_recorded:
  assumes "om_find p a = Some e" and "set (utxoVec u) \<inter> set (utxoVec e) = {}"
  shows "AddFromAddr (a, u) p = (p, 0) \<and> AddFromAddr (a, u) (fst (AddFromAddr (a, u) p)) = (p, 0)"
  using assms by (auto simp: AddFromAddr_def common_Nil_iff)

theorem double_spend_not_recorded_witness:
  "AddFromAddr (''a'', \<lparr>ds_time = 2, utxoVec = [''x'']\<rparr>) [(''a'', \<lparr>ds_time = 1, utxoVec = [''y'']\<rparr>)] =
     ([(''a'', \<lparr>ds_time = 1, utxoVec = [''y'']\<rparr>)], 0)"
  using double_spend_not_recorded [of "[(''a'', \<lparr>ds_time = 1, utxoVec = [''y'']\<rparr>)]" "''a''"
      "\<lparr>ds_time = 1, utxoVec = [''y'']\<rparr>" "\<lparr>ds_time = 2, utxoVec = [''x'']\<rparr>"]
  by simp

text \<open>
  The periodic check drops exactly the entries older than thirty seconds, whatever
  entries share their time.
\<close>

theorem check_loop_drops_expired:
  "om_wf p \<Longrightarrow> om_wf (CheckLoop now p) \<and>
   om_find (CheckLoop now p) a =
     (case om_find p a of Some e \<Rightarrow> if expired now e then None else Some e | None \<Rightarrow> None)"
proof -
  assume wf: "om_wf p"
  have "sorted_wrt (<) (map fst (filter Q p))" for Q :: "string \<times> doubleSpendsuc \<Rightarrow> bool"
    using wf by (induction p) (auto simp: om_wf_def)
  then have wf': "om_wf (CheckLoop now p)"
    by (simp add: CheckLoop_filter om_wf_def)
  have iff: "om_find (CheckLoop now p) a = Some e \<longleftrightarrow> om_find p a = Some e \<and> \<not> expired now e" for e
    unfolding om_find_in [OF wf', symmetric] om_find_in [OF wf, symmetric] by (simp add: CheckLoop_filter)
  have "om_find (CheckLoop now p) a =
      (case om_find p a of Some e \<Rightarrow> if expired now e then None else Some e | None \<Rightarrow> None)"
  proof (cases "om_find (CheckLoop now p) a")
    case None
    then have "om_find p a = Some e \<Longrightarrow> expired now e" for e
      using iff [of e] by simp
    with None show ?thesis
      by (simp split: option.split)
  next
    case (Some e)
    then have "om_find p a = Some e" "\<not> expired now e"
      using iff [of e] by blast+
    with Some show ?thesis by simp
  qed
  with wf' show ?thesis by blast
qed

theorem check_loop_drops_expired_witness:
  "om_find (CheckLoop 40000000 [(''a'', \<lparr>ds_time = 1, utxoVec = []\<rparr>), (''b'', \<lparr>ds_time = 20000000, utxoVec = []\<rparr>)]) ''a'' = None"
  using check_loop_drops_expired [of "[(''a'', \<lparr>ds_time = 1, utxoVec = []\<rparr>), (''b'', \<lparr>ds_time = 20000000, utxoVec = []\<rparr>)]"
      40000000 "''a''"]
  by (simp add: om_wf_def expired_def)

text \<open>
  Two blocks are reported to conflict exactly when an ordinary transaction of the first
  and one of the second spend a common output; the reported transaction is such a one.
\<close>

theorem block_conflict_iff:
  "(CheckConflict_block G T b1 b2 \<noteq> None) =
     (\<exists>tx1 \<in> set (blk_txs b1). \<exists>tx2 \<in> set (blk_txs b2). T tx1 = kTransactionType_Tx \<and>
        T tx2 = kTransactionType_Tx \<and> set (utxo_keys G tx1) \<inter> set (utxo_keys G tx2) \<noteq> {})"
  by (auto simp: CheckConflict_block_def CheckConflict_tx_def common_Nil_iff find_None_iff list_ex_iff)

text \<open>
  C16: In a block without stake or investment withdrawals the check reports nothing exactly
  when no output is spent twice, whichever way the sort orders transactions of equal time.
\<close>

theorem double_spent_complete:
  assumes "\<forall>l. mset (time_sort l) = mset l"
    and "\<forall>tx \<in> set (blk_txs block). tx_type tx \<notin> {kTxTypeUnstake, kTxTypeDisinvest}"
  shows "CheckConflict_double time_sort G block = [] \<longleftrightarrow> distinct (map fst (spends G block))"
proof -
  let ?occ = "spends G block" and ?pool = "fold pool_add (spends G block) []"
  have ty: "\<forall>(u, tx) \<in> set ?occ. tx_type tx \<notin> {kTxTypeUnstake, kTxTypeDisinvest}"
    using assms(2) by (auto simp: spends_def)
  have len: "length (time_sort l) = length l" for l
    using assms(1) by (metis size_mset)
  have wf: "om_wf ?pool"
    by (simp add: pool_wf)
  have find: "om_find ?pool u = (let l = map snd (filter (\<lambda>e. fst e = u) ?occ) in if l = [] then None else Some l)" for u
    using pool_find [OF ty, of "[]" u] by simp
  have "CheckConflict_double time_sort G block = [] \<longleftrightarrow> (\<forall>(u, l) \<in> set ?pool. length l \<le> 1)"
  proof -
    have "tl l = [] \<longleftrightarrow> length l \<le> 1" for l :: "CTransaction list"
      by (cases l) auto
    then have "tl (time_sort l) = [] \<longleftrightarrow> length l \<le> 1" for l
      by (simp only: len)
    then have "(if length (snd e) > 1 then tl (time_sort (snd e)) else []) = [] \<longleftrightarrow> length (snd e) \<le> 1"
      for e :: "string \<times> CTransaction list"
      by simp
    then show ?thesis
      unfolding CheckConflict_double_def concat_eq_Nil_conv by (auto simp only: set_map ball_simps split_def)
  qed
  also have "\<dots> \<longleftrightarrow> (\<forall>u l. om_find ?pool u = Some l \<longrightarrow> length l \<le> 1)"
    using om_find_in [OF wf] by fastforce
  also have "\<dots> \<longleftrightarrow> (\<forall>u. length (filter (\<lambda>e. fst e = u) ?occ) \<le> 1)"
    by (auto simp: find Let_def) (metis le0 list.size(3))
  finally show ?thesis
    unfolding filter_key_short .
qed

definition tx_of :: "TxType \<Rightarrow> u64 \<Rightarrow> string list \<Rightarrow> CTransaction" where
  "tx_of ty t us = empty_tx\<lparr>tx_time := t, tx_type := ty, tx_utxo := \<lparr>utxo_owner = [],
     utxo_vin = [\<lparr>vin_prevouts = map (\<lambda>h. \<lparr>prev_hash = h, prev_n = 0\<rparr>) us, vin_sign = \<lparr>sign_sign = [], sign_pub = ''k''\<rparr>, vin_sequence = 0\<rparr>],
     utxo_vout = [], utxo_multisign = []\<rparr>\<rparr>"

definition block_of :: "CTransaction list \<Rightarrow> CBlock" where
  "block_of txs = \<lparr>blk_version = 0, blk_hash = [], blk_prevhash = [], blk_height = 0, blk_time = 0, blk_merkleroot = [], blk_sign = [], blk_txs = txs, blk_data = []\<rparr>"

theorem double_spent_complete_witness:
  "CheckConflict_double (sort_key tx_time) id (block_of [tx_of kTxTypeTx 1 [''u''], tx_of kTxTypeTx 2 [''u'']]) \<noteq> []"
  using double_spent_complete [of "sort_key tx_time" "block_of [tx_of kTxTypeTx 1 [''u''], tx_of kTxTypeTx 2 [''u'']]" id]
  by (auto simp: block_of_def tx_of_def spends_def utxo_keys_def)

text \<open>
  Investment withdrawals are never reported: a block of them passes the check even when
  all of them spend the same output.
\<close>

theorem disinvest_double_spend_missed:
  assumes "\<forall>tx \<in> set (blk_txs block). tx_type tx = kTxTypeDisinvest"
  shows "CheckConflict_double time_sort G block = []"
proof -
  have "\<forall>(u, tx) \<in> set (spends G block). tx_type tx = kTxTypeDisinvest"
    using assms by (auto simp: spends_def)
  then show ?thesis
    by (simp add: CheckConflict_double_def only_disinvest_pool)
qed

theorem disinvest_double_spend_missed_witness:
  "CheckConflict_double (sort_key tx_time) id (block_of [tx_of kTxTypeDisinvest 1 [''u''], tx_of kTxTypeDisinvest 2 [''u'']]) = []"
  using disinvest_double_spend_missed [of "block_of [tx_of kTxTypeDisinvest 1 [''u''], tx_of kTxTypeDisinvest 2 [''u'']]"]
  by (simp add: block_of_def tx_of_def)

end
