(* ===== verification/Tx_Dispatch.thy ===== *)
theory Tx_Dispatch
  imports Tx_Conflict
begin

text \<open>
  Dispatching contract transactions: the grouping by shared dependencies of
  \<open>ca/dispatchtx.cpp\<close> and \<open>ca/packager_dispatch.cpp\<close>, the split of the groups over at
  most eight packagers, and the retry table of \<open>ca/failed_transaction_cache.cpp\<close>. An
  \<open>unordered_map\<close> is the list of its entries in the (unspecified) order of iteration, so
  what is proved holds for every order. Message bodies are opaque; parsing, hashing and the
  choice of a packager are arguments.
\<close>

section \<open>Dependency groups\<close>

type_synonym dep_cache = "(string \<times> string list) list"

definition AddContractInfo :: "string \<Rightarrow> string list \<Rightarrow> dep_cache \<Rightarrow> dep_cache" where
  "AddContractInfo contractHash dependentContracts cache =
     (if contractHash \<in> fst ` set cache then cache else cache @ [(contractHash, dependentContracts)])"

definition AddContractMsgReq :: "string \<Rightarrow> 'm \<Rightarrow> (string \<times> 'm) list \<Rightarrow> (string \<times> 'm) list" where
  "AddContractMsgReq contractHash msg cache =
     (if contractHash \<in> fst ` set cache then cache else cache @ [(contractHash, msg)])"

definition HasDuplicate :: "string list \<Rightarrow> string list \<Rightarrow> bool" where
  "HasDuplicate v1 v2 = list_ex (\<lambda>s. s \<in> set v1) v2"

text \<open>A \<open>std::set\<close> of hashes is its sorted list of elements.\<close>

definition common_keys :: "dep_cache \<Rightarrow> string \<times> string list \<Rightarrow> string list" where
  "common_keys cache kv = fold (\<lambda>other keys.
     if fst other = fst kv then keys
     else if HasDuplicate (snd kv) (snd other) then insort_insert (fst other) keys else keys) cache [fst kv]"

fun add_group :: "string list \<Rightarrow> string list list \<Rightarrow> string list list" where
  "add_group keys [] = [keys]"
| "add_group keys (itemSet # sets) =
     (if set_intersection itemSet keys \<noteq> [] then fold insort_insert keys itemSet # sets
      else itemSet # add_group keys sets)"

definition groups :: "dep_cache \<Rightarrow> string list list" where
  "groups cache = fold (\<lambda>kv sets. add_group (common_keys cache kv) sets) cache []"

definition GetDependentData :: "dep_cache \<Rightarrow> (string \<times> 'm) list \<Rightarrow> 'm list list" where
  "GetDependentData cache msgs =
     filter (\<lambda>v. v \<noteq> []) (map (\<lambda>g. concat (map (\<lambda>h. case map_of msgs h of None \<Rightarrow> [] | Some msg \<Rightarrow> [msg]) g)) (groups cache))"

section \<open>Splitting over the packagers\<close>

definition slice :: "nat \<Rightarrow> nat \<Rightarrow> 'a list \<Rightarrow> 'a list" where
  "slice i n v = take n (drop i v)"

fun split_parts :: "'m list list \<Rightarrow> nat \<Rightarrow> nat \<Rightarrow> nat \<Rightarrow> nat \<Rightarrow> 'm list list" where
  "split_parts v perPart 0 index remain = []"
| "split_parts v perPart (Suc i) index remain =
     (concat (slice index perPart v) @ (if remain > 0 then concat (slice (index + perPart) remain v) else []))
       # split_parts v perPart i (index + perPart + remain) 0"

definition GroupDependentData :: "'m list list \<Rightarrow> 'm list list" where
  "GroupDependentData txMsgVec =
     (let size = length txMsgVec; parts = 8 in
      if size \<le> parts then txMsgVec
      else split_parts txMsgVec (size div parts) parts 0 (size mod parts))"

section \<open>Choosing packagers\<close>

text \<open>
  \<open>parse\<close> gives the hash of the transaction in a message, \<open>FindContractPackNode\<close> the
  packager with its proof and node list, or an error code. The multimap orders its entries by
  key and keeps the order of insertion among equal keys.
\<close>

fun distribute :: "('m \<Rightarrow> string option) \<Rightarrow> (string \<Rightarrow> string) \<Rightarrow> (string \<Rightarrow> int + string \<times> 'v) \<Rightarrow> 'm list list \<Rightarrow>
    (string \<times> 'm list \<times> 'v) list \<Rightarrow> (string \<times> 'm list \<times> 'v) list \<times> int" where
  "distribute parse sha FindContractPackNode [] acc = (acc, 0)"
| "distribute parse sha FindContractPackNode (txMsgContainer # rest) acc =
     (if \<not> list_all (\<lambda>m. parse m \<noteq> None) txMsgContainer then (acc, -3)
      else case FindContractPackNode (sha (concat (map (\<lambda>m. the (parse m)) txMsgContainer))) of
        Inl _ \<Rightarrow> distribute parse sha FindContractPackNode rest acc
      | Inr (packAddr, vrf) \<Rightarrow> distribute parse sha FindContractPackNode rest (acc @ [(packAddr, txMsgContainer, vrf)]))"

definition DistributionContractTx :: "('m \<Rightarrow> string option) \<Rightarrow> (string \<Rightarrow> string) \<Rightarrow> (string \<Rightarrow> int + string \<times> 'v) \<Rightarrow>
    dep_cache \<Rightarrow> (string \<times> 'm) list \<Rightarrow> (string \<times> 'm list \<times> 'v) list \<times> int" where
  "DistributionContractTx parse sha FindContractPackNode cache msgs =
     (let dependentData = GetDependentData cache msgs in
      if dependentData = [] then ([], -1)
      else let groupedData = GroupDependentData dependentData in
        if groupedData = [] then ([], -2)
        else case distribute parse sha FindContractPackNode groupedData [] of (d, ret) \<Rightarrow>
          if ret \<noteq> 0 then (sort_key fst d, ret)
          else if d = [] then ([], -4) else (sort_key fst d, 0))"

section \<open>The dispatcher loop\<close>

record 'm dispatcher =
  contractDependentCache :: dep_cache
  contractMsgReqCache :: "(string \<times> 'm) list"
  timeValue :: u64
  isFirst :: bool
  timeBaseline :: u64

definition GetTheTimestampPerUnitOfTime :: "u64 \<Rightarrow> u64" where
  "GetTheTimestampPerUnitOfTime utcTime = utcTime div 3000000 * 3000000"

definition contractWaitingTime :: u64 where
  "contractWaitingTime = 3 * 1000000"

definition setValue :: "u64 \<Rightarrow> 'm dispatcher \<Rightarrow> 'm dispatcher" where
  "setValue newValue d = (if \<not> isFirst d then d\<lparr>timeValue := newValue, isFirst := True\<rparr> else d)"

text \<open>
  Sending a part to its packager. \<open>signs\<close> says whether the message with these transactions and this
  proof (with its node list) can be signed; without a signature nothing is sent. A message to
  the node itself is handled at once instead of going over the network.
\<close>

definition SendTxInfoToPackager :: "('m list \<times> 'v \<Rightarrow> bool) \<Rightarrow> string \<times> 'm list \<times> 'v \<Rightarrow> (string \<times> 'm list \<times> 'v) list \<times> int" where
  "SendTxInfoToPackager signs item = (case item of (packager, txsMsg, info) \<Rightarrow>
     if \<not> signs (txsMsg, info) then ([], -1) else ([(packager, txsMsg, info)], 0))"

text \<open>
  One turn of the loop after its one-second sleep: the new state and what is sent. The result
  of sending is not looked at. What other threads add to the caches between their reading and
  their clearing is not part of a turn.
\<close>

definition DispatcherProcessing_turn :: "('m \<Rightarrow> string option) \<Rightarrow> (string \<Rightarrow> string) \<Rightarrow> (string \<Rightarrow> int + string \<times> 'v) \<Rightarrow> ('m list \<times> 'v \<Rightarrow> bool) \<Rightarrow>
    'm dispatcher \<Rightarrow> 'm dispatcher \<times> (string \<times> 'm list \<times> 'v) list" where
  "DispatcherProcessing_turn parse sha FindContractPackNode signs d =
     (if contractDependentCache d = [] then (d, [])
      else let d1 = (if timeBaseline d = 0
                     then d\<lparr>timeBaseline := GetTheTimestampPerUnitOfTime (timeValue d)\<rparr> else d) in
        if timeValue d1 \<ge> timeBaseline d1 + contractWaitingTime then
          (case DistributionContractTx parse sha FindContractPackNode (contractDependentCache d1) (contractMsgReqCache d1) of
             (distribution, ret) \<Rightarrow>
               if ret \<noteq> 0 then (d1, [])
               else (d1\<lparr>contractMsgReqCache := [], contractDependentCache := [], timeBaseline := 0,
                       timeValue := 0, isFirst := False\<rparr>, concat (map (\<lambda>item. fst (SendTxInfoToPackager signs item)) distribution)))
        else (d1\<lparr>timeValue := timeValue d1 + 1000000\<rparr>, []))"

section \<open>The packager's side\<close>

record 'tx pack_dispatch =
  hash_dep :: dep_cache
  hash_tx :: "(string \<times> 'tx) list"

datatype dispatch_error = OutOfRangeAt

definition packDispatch_Add :: "string \<Rightarrow> string list \<Rightarrow> 'tx \<Rightarrow> 'tx pack_dispatch \<Rightarrow> 'tx pack_dispatch" where
  "packDispatch_Add contractHash dependentContracts tx p =
     p\<lparr>hash_dep := AddContractInfo contractHash dependentContracts (hash_dep p),
       hash_tx := AddContractMsgReq contractHash tx (hash_tx p)\<rparr>"

text \<open>
  Groups of one go to the independent transactions, larger groups get consecutive numbers;
  a hash without transaction makes \<open>at\<close> throw.
\<close>

type_synonym 'tx grouped = "(nat, (string, 'tx) omap) omap \<times> (string, 'tx) omap"

definition emplace_at :: "nat \<Rightarrow> string \<Rightarrow> 'tx \<Rightarrow> (nat, (string, 'tx) omap) omap \<Rightarrow> (nat, (string, 'tx) omap) omap" where
  "emplace_at n h t dep =
     (let inner = (case om_find dep n of None \<Rightarrow> [] | Some i \<Rightarrow> i)
      in om_insert n (if om_find inner h = None then om_insert h t inner else inner) dep)"

fun pack_group :: "(string \<times> 'tx) list \<Rightarrow> bool \<Rightarrow> nat \<Rightarrow> string list \<Rightarrow> 'tx grouped \<Rightarrow> (dispatch_error, 'tx grouped) result" where
  "pack_group txs single n [] acc = Inr acc"
| "pack_group txs single n (h # hs) (dep, non) = (case map_of txs h of
     None \<Rightarrow> Inl OutOfRangeAt
   | Some t \<Rightarrow> pack_group txs single n hs
       (if single then (dep, om_insert h t non) else (emplace_at n h t dep, non)))"

fun pack_groups :: "(string \<times> 'tx) list \<Rightarrow> nat \<Rightarrow> string list list \<Rightarrow> 'tx grouped \<Rightarrow> (dispatch_error, 'tx grouped) result" where
  "pack_groups txs n [] acc = Inr acc"
| "pack_groups txs n (g # gs) acc =
     bindE (pack_group txs (length g = 1) n g acc) (\<lambda>acc'. pack_groups txs (Suc n) gs acc')"

definition packDispatch_GetDependentData :: "'tx pack_dispatch \<Rightarrow> 'tx grouped \<Rightarrow> (dispatch_error, 'tx grouped) result" where
  "packDispatch_GetDependentData p out = pack_groups (hash_tx p) 1 (groups (hash_dep p)) out"

section \<open>Retrying transactions\<close>

text \<open>
  Transactions that wait for their height. \<open>node_heights\<close> are the heights the peers report,
  \<open>kConsensus\<close> is the constant of the prebuilt library.
\<close>

definition txPending_Add :: "u64 \<Rightarrow> 'm \<Rightarrow> (u64, 'm list) omap \<Rightarrow> (u64, 'm list) omap \<times> int" where
  "txPending_Add height msg pending =
     (om_insert height ((case om_find pending height of None \<Rightarrow> [] | Some l \<Rightarrow> l) @ [msg]) pending, 0)"

definition enough_nodes :: "nat \<Rightarrow> u32 list \<Rightarrow> u64 \<Rightarrow> u64 \<Rightarrow> bool" where
  "enough_nodes kConsensus node_heights topHeight txHeight \<longleftrightarrow>
     \<not> (length (filter (\<lambda>h. (ucast h :: u64) \<ge> txHeight) node_heights) < kConsensus * 2 \<or> topHeight < txHeight)"

fun txPending_scan :: "nat \<Rightarrow> u32 list \<Rightarrow> u64 \<Rightarrow> (u64, 'm list) omap \<Rightarrow> 'm list \<times> u64 list" where
  "txPending_scan k hs t [] = ([], [])"
| "txPending_scan k hs t ((txHeight, msgs) # rest) =
     (case txPending_scan k hs t rest of (tasks, dels) \<Rightarrow>
        if \<not> enough_nodes k hs t txHeight
        then (tasks, if txHeight > t + 2 then txHeight # dels else dels)
        else (msgs @ tasks, txHeight # dels))"

text \<open>\<open>FailedTransactionCache::_Check\<close>: the tasks it submits and the table it leaves.\<close>

definition txPending_Check :: "nat \<Rightarrow> u32 list \<Rightarrow> u64 \<Rightarrow> (u64, 'm list) omap \<Rightarrow> 'm list \<times> (u64, 'm list) omap" where
  "txPending_Check k hs t pending =
     (case txPending_scan k hs t pending of (tasks, dels) \<Rightarrow> (tasks, fold om_erase dels pending))"

section \<open>Groups keep dependent transactions together\<close>

definition dependent :: "string \<times> string list \<Rightarrow> string \<times> string list \<Rightarrow> bool" where
  "dependent a b \<longleftrightarrow> fst a = fst b \<or> set (snd a) \<inter> set (snd b) \<noteq> {}"

lemma HasDuplicate_iff: "HasDuplicate v1 v2 \<longleftrightarrow> set v1 \<inter> set v2 \<noteq> {}"
  by (auto simp: HasDuplicate_def list_ex_iff)

lemma common_keys_fold:
  "sorted keys \<Longrightarrow> sorted (fold (\<lambda>other keys. if fst other = fst kv then keys
     else if HasDuplicate (snd kv) (snd other) then insort_insert (fst other) keys else keys) cache keys) \<and>
   set (fold (\<lambda>other keys. if fst other = fst kv then keys
     else if HasDuplicate (snd kv) (snd other) then insort_insert (fst other) keys else keys) cache keys) =
   set keys \<union> fst ` set (filter (\<lambda>x. fst x \<noteq> fst kv \<and> HasDuplicate (snd kv) (snd x)) cache)"
proof (induction cache arbitrary: keys)
  case (Cons x cache)
  show ?case
    using Cons.IH [of keys] Cons.IH [of "insort_insert (fst x) keys"] Cons.prems
    by (simp add: sorted_insort_insert set_insort_insert)
qed simp

lemma common_keys_sorted: "sorted (common_keys cache kv)"
  using common_keys_fold [of "[fst kv]" kv cache] by (simp add: common_keys_def)

lemma common_keys_set:
  "set (common_keys cache kv) =
     insert (fst kv) (fst ` set (filter (\<lambda>x. fst x \<noteq> fst kv \<and> HasDuplicate (snd kv) (snd x)) cache))"
  using common_keys_fold [of "[fst kv]" kv cache] by (simp add: common_keys_def)

lemma fold_insort_insert:
  "sorted s \<Longrightarrow> sorted (fold insort_insert keys s) \<and> set (fold insort_insert keys s) = set keys \<union> set s"
proof (induction keys arbitrary: s)
  case (Cons k keys)
  show ?case
    using Cons.IH [of "insort_insert k s"] Cons.prems by (auto simp: sorted_insort_insert set_insort_insert)
qed simp

lemma add_group_props:
  assumes "\<forall>g \<in> set gs. sorted g" and "sorted keys"
  shows "(\<forall>g \<in> set (add_group keys gs). sorted g) \<and>
    (\<exists>g \<in> set (add_group keys gs). set keys \<subseteq> set g) \<and>
    (\<forall>g \<in> set gs. \<exists>g' \<in> set (add_group keys gs). set g \<subseteq> set g') \<and>
    (\<forall>g \<in> set (add_group keys gs). set g \<subseteq> set keys \<union> \<Union> (set ` set gs))"
  using assms
proof (induction keys gs rule: add_group.induct)
  case (2 keys itemSet sets)
  show ?case
  proof (cases "set_intersection itemSet keys \<noteq> []")
    case True
    then show ?thesis
      using 2(2,3) fold_insort_insert [of itemSet keys] by auto
  next
    case False
    have ih: "(\<forall>g \<in> set (add_group keys sets). sorted g) \<and>
      (\<exists>g \<in> set (add_group keys sets). set keys \<subseteq> set g) \<and>
      (\<forall>g \<in> set sets. \<exists>g' \<in> set (add_group keys sets). set g \<subseteq> set g') \<and>
      (\<forall>g \<in> set (add_group keys sets). set g \<subseteq> set keys \<union> \<Union> (set ` set sets))"
      using 2 False by simp
    have eq: "add_group keys (itemSet # sets) = itemSet # add_group keys sets"
      using False by simp
    have eq_set: "set (add_group keys (itemSet # sets)) = insert itemSet (set (add_group keys sets))"
      unfolding eq by simp
    have "sorted itemSet"
      using 2(2) by simp
    then show ?thesis
      unfolding eq_set list.set ball_simps bex_simps image_insert Union_insert using ih by blast
  qed
qed simp

lemma groups_fold:
  assumes "\<forall>g \<in> set gs. sorted g" and "sets = fold (\<lambda>kv sets. add_group (common_keys cache kv) sets) todo gs"
  shows "(\<forall>g \<in> set sets. sorted g) \<and>
    (\<forall>g \<in> set gs. \<exists>g' \<in> set sets. set g \<subseteq> set g') \<and>
    (\<forall>kv \<in> set todo. \<exists>g \<in> set sets. set (common_keys cache kv) \<subseteq> set g) \<and>
    (\<forall>g \<in> set sets. set g \<subseteq> \<Union> (set ` set gs) \<union> \<Union> ((\<lambda>kv. set (common_keys cache kv)) ` set todo))"
  using assms
proof (induction todo arbitrary: gs)
  case Nil
  then show ?case by auto
next
  case (Cons kv todo)
  let ?gs = "add_group (common_keys cache kv) gs"
  note step = add_group_props [OF Cons.prems(1) common_keys_sorted [of cache kv]]
  have ih: "(\<forall>g \<in> set sets. sorted g) \<and>
    (\<forall>g \<in> set ?gs. \<exists>g' \<in> set sets. set g \<subseteq> set g') \<and>
    (\<forall>kv \<in> set todo. \<exists>g \<in> set sets. set (common_keys cache kv) \<subseteq> set g) \<and>
    (\<forall>g \<in> set sets. set g \<subseteq> \<Union> (set ` set ?gs) \<union> \<Union> ((\<lambda>kv. set (common_keys cache kv)) ` set todo))"
    using step Cons.prems(2) by (intro Cons.IH) simp_all
  have up: "\<exists>g' \<in> set sets. set g \<subseteq> set g'" if "\<exists>g1 \<in> set ?gs. set g \<subseteq> set g1" for g :: "string list"
    using ih that by (meson subset_trans)
  have old: "\<forall>g \<in> set gs. \<exists>g' \<in> set sets. set g \<subseteq> set g'"
    using step up by blast
  have new: "\<exists>g \<in> set sets. set (common_keys cache kv) \<subseteq> set g"
    using step up by blast
  have sub: "\<Union> (set ` set ?gs) \<subseteq> set (common_keys cache kv) \<union> \<Union> (set ` set gs)"
    using step by blast
  have all: "\<forall>kv' \<in> set (kv # todo). \<exists>g \<in> set sets. set (common_keys cache kv') \<subseteq> set g"
    using ih new by simp
  have "\<forall>g \<in> set sets. set g \<subseteq> \<Union> (set ` set gs) \<union> \<Union> ((\<lambda>kv. set (common_keys cache kv)) ` set (kv # todo))"
    using ih sub unfolding list.set image_insert Union_insert by blast
  with ih old all show ?case
    by blast
qed

lemma groups_sorted: "g \<in> set (groups cache) \<Longrightarrow> sorted g"
  using groups_fold [of "[]" "groups cache" cache cache] by (simp add: groups_def)

lemma groups_keys: "g \<in> set (groups cache) \<Longrightarrow> set g \<subseteq> fst ` set cache"
  using groups_fold [of "[]" "groups cache" cache cache] by (force simp: groups_def common_keys_set)

lemma groups_together:
  assumes "a \<in> set cache" and "b \<in> set cache" and "dependent a b"
  shows "\<exists>g \<in> set (groups cache). fst a \<in> set g \<and> fst b \<in> set g"
proof -
  have "fst a \<in> set (common_keys cache a)" "fst b \<in> set (common_keys cache a)"
    using assms by (cases b; auto simp: common_keys_set dependent_def HasDuplicate_iff image_iff)+
  moreover obtain g where "g \<in> set (groups cache)" "set (common_keys cache a) \<subseteq> set g"
    using groups_fold [of "[]" "groups cache" cache cache] assms(1) by (auto simp: groups_def)
  ultimately show ?thesis by blast
qed

section \<open>The split keeps every message\<close>

lemma split_parts_concat:
  "length v = index + perPart * i + remain \<Longrightarrow> (remain > 0 \<longrightarrow> i > 0) \<Longrightarrow>
   concat (split_parts v perPart i index remain) = concat (drop index v)"
proof (induction v perPart i index remain rule: split_parts.induct)
  case (2 v perPart i index remain)
  have "concat (split_parts v perPart i (index + perPart + remain) 0) = concat (drop (index + perPart + remain) v)"
    using 2 by (intro 2(1)) auto
  moreover have "drop index v = slice index perPart v @ slice (index + perPart) remain v @ drop (index + perPart + remain) v"
    by (simp add: slice_def) (metis add.commute append_take_drop_id drop_drop)
  ultimately show ?case
    by (simp only: split_parts.simps concat.simps concat_append append_assoc) (simp add: slice_def)
qed simp

lemma length_split_parts: "length (split_parts v perPart i index remain) = i"
  by (induction v perPart i index remain rule: split_parts.induct) auto

lemma GroupDependentData_concat: "concat (GroupDependentData v) = concat v"
proof (cases "length v \<le> 8")
  case False
  have "length v = 0 + length v div 8 * 8 + length v mod 8"
    by simp
  then have "concat (split_parts v (length v div 8) 8 0 (length v mod 8)) = concat (drop 0 v)"
    by (intro split_parts_concat) simp_all
  with False show ?thesis
    by (simp add: GroupDependentData_def Let_def)
qed (simp add: GroupDependentData_def Let_def)

text \<open>Each group lies inside one part.\<close>

lemma split_parts_group:
  "length v = index + perPart * i + remain \<Longrightarrow> (remain > 0 \<longrightarrow> i > 0) \<Longrightarrow> g \<in> set (drop index v) \<Longrightarrow>
   \<exists>part \<in> set (split_parts v perPart i index remain). set g \<subseteq> set part"
proof (induction v perPart i index remain rule: split_parts.induct)
  case (2 v perPart i index remain)
  have "drop index v = slice index perPart v @ slice (index + perPart) remain v @ drop (index + perPart + remain) v"
    by (simp add: slice_def) (metis add.commute append_take_drop_id drop_drop)
  with 2(4) consider "g \<in> set (slice index perPart v)" | "g \<in> set (slice (index + perPart) remain v)"
    | "g \<in> set (drop (index + perPart + remain) v)"
    by fastforce
  then show ?case
  proof cases
    case 3
    then have "\<exists>part \<in> set (split_parts v perPart i (index + perPart + remain) 0). set g \<subseteq> set part"
      using 2(2) by (intro 2(1)) auto
    then show ?thesis by simp
  qed (auto simp: slice_def)
qed simp

lemma GroupDependentData_group:
  "g \<in> set v \<Longrightarrow> \<exists>part \<in> set (GroupDependentData v). set g \<subseteq> set part"
proof (cases "length v \<le> 8")
  case False
  assume g: "g \<in> set v"
  have "length v = 0 + length v div 8 * 8 + length v mod 8"
    by simp
  then have "\<exists>part \<in> set (split_parts v (length v div 8) 8 0 (length v mod 8)). set g \<subseteq> set part"
    using g by (intro split_parts_group) simp_all
  with False show ?thesis
    by (simp add: GroupDependentData_def Let_def)
qed (auto simp: GroupDependentData_def Let_def)

section \<open>What one turn sends\<close>

definition served :: "('m \<Rightarrow> string option) \<Rightarrow> (string \<Rightarrow> string) \<Rightarrow> (string \<Rightarrow> int + string \<times> 'v) \<Rightarrow> 'm list \<Rightarrow> (string \<times> 'm list \<times> 'v) list" where
  "served parse sha pick part =
     (case pick (sha (concat (map (\<lambda>m. the (parse m)) part))) of
        Inl _ \<Rightarrow> [] | Inr (packAddr, vrf) \<Rightarrow> [(packAddr, part, vrf)])"

lemma distribute_served:
  "\<forall>part \<in> set parts. list_all (\<lambda>m. parse m \<noteq> None) part \<Longrightarrow>
   distribute parse sha pick parts acc = (acc @ concat (map (served parse sha pick) parts), 0)"
  by (induction parts arbitrary: acc) (auto simp: served_def split: sum.splits)

lemma GetDependentData_in:
  assumes "m \<in> set part" and "part \<in> set (GetDependentData cache msgs)"
  shows "\<exists>h. h \<in> fst ` set cache \<and> map_of msgs h = Some m"
proof -
  obtain g where g: "g \<in> set (groups cache)"
    and part: "part = concat (map (\<lambda>h. case map_of msgs h of None \<Rightarrow> [] | Some msg \<Rightarrow> [msg]) g)"
    using assms(2) by (auto simp: GetDependentData_def)
  then obtain h where "h \<in> set g" "map_of msgs h = Some m"
    using assms(1) by (auto split: option.splits)
  with groups_keys [OF g] show ?thesis by blast
qed

lemma GetDependentData_together:
  assumes "a \<in> set cache" and "b \<in> set cache" and "dependent a b"
    and "map_of msgs (fst a) = Some ma" and "map_of msgs (fst b) = Some mb"
  shows "\<exists>part \<in> set (GetDependentData cache msgs). ma \<in> set part \<and> mb \<in> set part"
proof -
  let ?f = "\<lambda>g. concat (map (\<lambda>h. case map_of msgs h of None \<Rightarrow> [] | Some msg \<Rightarrow> [msg]) g)"
  obtain g where g: "g \<in> set (groups cache)" "fst a \<in> set g" "fst b \<in> set g"
    using groups_together [OF assms(1-3)] by blast
  have in_f: "m \<in> set (?f g)" if "h \<in> set g" "map_of msgs h = Some m" for h m
    using that by (force split: option.splits)
  then have "ma \<in> set (?f g)" "mb \<in> set (?f g)"
    using g assms(4,5) by blast+
  moreover have "?f g \<noteq> []"
    using calculation(1) by (metis (no_types, lifting) empty_iff empty_set)
  then have "?f g \<in> set (GetDependentData cache msgs)"
    unfolding GetDependentData_def set_filter set_map mem_Collect_eq using g(1) by (intro conjI imageI)
  ultimately show ?thesis by blast
qed

lemma parts_parsed:
  assumes "\<forall>(h, m) \<in> set msgs. parse m \<noteq> None"
  shows "\<forall>part \<in> set (GroupDependentData (GetDependentData cache msgs)). list_all (\<lambda>m. parse m \<noteq> None) part"
proof (intro ballI)
  fix part assume part: "part \<in> set (GroupDependentData (GetDependentData cache msgs))"
  have "set (concat (GroupDependentData (GetDependentData cache msgs))) = set (concat (GetDependentData cache msgs))"
    by (simp only: GroupDependentData_concat)
  then have "\<exists>g \<in> set (GetDependentData cache msgs). m \<in> set g" if "m \<in> set part" for m
    using that part by auto
  then have "\<exists>h. (h, m) \<in> set msgs" if "m \<in> set part" for m
    using that GetDependentData_in by (metis map_of_SomeD)
  with assms show "list_all (\<lambda>m. parse m \<noteq> None) part"
    by (fastforce simp: list_all_iff)
qed

lemma GroupDependentData_Nil: "GroupDependentData v = [] \<longleftrightarrow> v = []"
  by (auto simp: GroupDependentData_def Let_def length_split_parts simp flip: length_0_conv)

lemma sort_key_Nil: "sort_key f xs = [] \<longleftrightarrow> xs = []"
  by (simp flip: length_0_conv)

lemma DistributionContractTx_served:
  assumes "\<forall>(h, m) \<in> set msgs. parse m \<noteq> None"
  shows "DistributionContractTx parse sha pick cache msgs =
    (let parts = GroupDependentData (GetDependentData cache msgs);
         sent = sort_key fst (concat (map (served parse sha pick) parts))
     in (sent, if parts = [] then -1 else if sent = [] then -4 else 0))"
proof -
  let ?g = "GetDependentData cache msgs"
  have d: "distribute parse sha pick (GroupDependentData ?g) [] =
      (concat (map (served parse sha pick) (GroupDependentData ?g)), 0)"
    using distribute_served [OF parts_parsed [OF assms], of sha pick cache "[]"] by simp
  show ?thesis
  proof (cases "?g = []")
    case True
    then show ?thesis
      by (simp add: DistributionContractTx_def GroupDependentData_def)
  next
    case False
    moreover define ds where "ds = concat (map (served parse sha pick) (GroupDependentData ?g))"
    ultimately show ?thesis
      unfolding DistributionContractTx_def Let_def d ds_def [symmetric] GroupDependentData_Nil sort_key_Nil
      by (cases "ds = []") simp_all
  qed
qed

section \<open>The clock of the loop\<close>

lemma unat_unit: "unat (GetTheTimestampPerUnitOfTime t) = unat t div 3000000 * 3000000"
proof -
  have "unat t div 3000000 * 3000000 \<le> unat t"
    by (rule div_times_less_eq_dividend)
  also have "\<dots> < 2 ^ 64"
    using unsigned_less [of t, where ?'a = nat] by simp
  finally show ?thesis
    by (simp add: GetTheTimestampPerUnitOfTime_def unat_word_ariths unat_div)
qed

definition baseline :: "'m dispatcher \<Rightarrow> u64" where
  "baseline d = (if timeBaseline d = 0 then GetTheTimestampPerUnitOfTime (timeValue d) else timeBaseline d)"

definition ready :: "'m dispatcher \<Rightarrow> bool" where
  "ready d \<longleftrightarrow> timeValue d \<ge> baseline d + contractWaitingTime"

definition tick :: "'m dispatcher \<Rightarrow> 'm dispatcher" where
  "tick d = d\<lparr>timeBaseline := baseline d, timeValue := timeValue d + 1000000\<rparr>"

lemma turn_waits:
  "contractDependentCache d \<noteq> [] \<Longrightarrow> \<not> ready d \<Longrightarrow>
   DispatcherProcessing_turn parse sha pick signs d = (tick d, [])"
  by (auto simp: DispatcherProcessing_turn_def Let_def ready_def baseline_def tick_def)

lemma ready_nat:
  assumes "unat (timeValue d) + 3000000 < 2 ^ 64" and "unat (baseline d) \<le> unat (timeValue d)"
  shows "ready d \<longleftrightarrow> unat (baseline d) + 3000000 \<le> unat (timeValue d)"
proof -
  have "unat (baseline d + contractWaitingTime) = unat (baseline d) + 3000000"
    using assms by (simp add: contractWaitingTime_def unat_word_ariths)
  then show ?thesis
    by (simp add: ready_def word_le_nat_alt)
qed

lemma tick_nat: "unat (timeValue d) + 1000000 < 2 ^ 64 \<Longrightarrow> unat (timeValue (tick d)) = unat (timeValue d) + 1000000"
  by (simp add: tick_def unat_word_ariths)

text \<open>The loop becomes ready, for the first time, after at most \<open>k\<close> waiting turns.\<close>

definition fires_within :: "nat \<Rightarrow> 'm dispatcher \<Rightarrow> bool" where
  "fires_within k d \<longleftrightarrow> (\<exists>n \<le> k. ready ((tick ^^ n) d) \<and> (\<forall>j < n. \<not> ready ((tick ^^ j) d)))"

lemma fires_now: "ready d \<Longrightarrow> fires_within k d"
  by (auto simp: fires_within_def intro: exI [of _ 0])

lemma fires_next:
  assumes "fires_within k (tick d)"
  shows "fires_within (Suc k) d"
proof (cases "ready d")
  case False
  obtain n where n: "n \<le> k" "ready ((tick ^^ n) (tick d))" "\<forall>j < n. \<not> ready ((tick ^^ j) (tick d))"
    using assms by (auto simp: fires_within_def)
  have "\<not> ready ((tick ^^ j) d)" if "j < Suc n" for j
    using that n(3) False by (cases j) (auto simp add: funpow_Suc_right simp del: funpow.simps(2))
  then show ?thesis
    using n(1,2) unfolding fires_within_def
    by (intro exI [of _ "Suc n"]) (simp add: funpow_Suc_right del: funpow.simps(2))
qed (rule fires_now)

text \<open>With a baseline in place the wait shortens by a second with every turn.\<close>

lemma fires_with_baseline:
  assumes "timeBaseline d \<noteq> 0" and "unat (timeBaseline d) \<le> unat (timeValue d)"
    and "unat (timeValue d) + 1000000 * k + 3000000 < 2 ^ 64"
    and "unat (timeBaseline d) + 3000000 \<le> unat (timeValue d) + 1000000 * k"
  shows "fires_within k d"
  using assms
proof (induction k arbitrary: d)
  case 0
  then have "ready d"
    using ready_nat [of d] by (simp add: baseline_def)
  then show ?case by (rule fires_now)
next
  case (Suc k)
  have v: "unat (timeValue (tick d)) = unat (timeValue d) + 1000000" "timeBaseline (tick d) = timeBaseline d"
    using Suc.prems by (simp add: tick_nat) (simp add: tick_def baseline_def Suc.prems(1))
  have "fires_within k (tick d)"
    using Suc.prems unfolding v by (intro Suc.IH) (simp_all add: v)
  then show ?case by (rule fires_next)
qed

lemma fires_from_large:
  assumes "timeBaseline d = 0" and "3000000 \<le> unat (timeValue d)" and "unat (timeValue d) + 6000000 < 2 ^ 64"
  shows "fires_within 3 d"
proof -
  let ?b = "unat (timeValue d) div 3000000 * 3000000"
  have b: "?b \<le> unat (timeValue d)" "unat (timeValue d) < ?b + 3000000" "0 < ?b"
    using assms(2) by (simp_all add: div_times_less_eq_dividend dividend_less_div_times div_greater_zero_iff)
  have tb: "unat (timeBaseline (tick d)) = ?b"
    using assms(1) by (simp add: tick_def baseline_def unat_unit)
  have v: "unat (timeValue (tick d)) = unat (timeValue d) + 1000000"
    using assms(3) by (simp add: tick_nat)
  have "fires_within 2 (tick d)"
  proof (rule fires_with_baseline)
    show "timeBaseline (tick d) \<noteq> 0"
      using b(3) tb by (metis less_irrefl unsigned_0)
  qed (insert b assms(3) tb v, linarith+)
  then have "fires_within (Suc 2) d" by (rule fires_next)
  then show ?thesis by (simp add: numeral_3_eq_3)
qed

lemma fires_from_zero:
  assumes "timeBaseline d = 0" and "3000000 \<le> unat (timeValue d) + 1000000 * j"
    and "unat (timeValue d) + 1000000 * j + 6000000 < 2 ^ 64"
  shows "fires_within (3 + j) d"
  using assms
proof (induction j arbitrary: d)
  case 0
  then show ?case
    using fires_from_large [of d] by simp
next
  case (Suc j)
  show ?case
  proof (cases "3000000 \<le> unat (timeValue d)")
    case True
    then have "fires_within 3 d"
      using Suc.prems by (intro fires_from_large) simp_all
    then show ?thesis
      unfolding fires_within_def by (meson le_trans le_add1)
  next
    case False
    then have "unat (GetTheTimestampPerUnitOfTime (timeValue d)) = 0"
      by (simp add: unat_unit)
    then have tb: "timeBaseline (tick d) = 0"
      using Suc.prems(1) by (simp add: tick_def baseline_def unat_eq_0)
    have v: "unat (timeValue (tick d)) = unat (timeValue d) + 1000000"
      using Suc.prems(3) by (simp add: tick_nat)
    have "fires_within (3 + j) (tick d)"
      using Suc.prems tb by (intro Suc.IH) (simp_all add: v)
    then have "fires_within (Suc (3 + j)) d" by (rule fires_next)
    then show ?thesis by simp
  qed
qed

fun dispatch_turns :: "('m \<Rightarrow> string option) \<Rightarrow> (string \<Rightarrow> string) \<Rightarrow> (string \<Rightarrow> int + string \<times> 'v) \<Rightarrow> ('m list \<times> 'v \<Rightarrow> bool) \<Rightarrow> nat \<Rightarrow>
    'm dispatcher \<Rightarrow> 'm dispatcher \<times> (string \<times> 'm list \<times> 'v) list" where
  "dispatch_turns parse sha pick signs 0 d = (d, [])"
| "dispatch_turns parse sha pick signs (Suc n) d =
     (case DispatcherProcessing_turn parse sha pick signs d of (d1, out) \<Rightarrow>
      case dispatch_turns parse sha pick signs n d1 of (d2, out2) \<Rightarrow> (d2, out @ out2))"

lemma tick_caches [simp]:
  "contractDependentCache (tick d) = contractDependentCache d" "contractMsgReqCache (tick d) = contractMsgReqCache d"
  by (simp_all add: tick_def)

lemma ticks_caches [simp]:
  "contractDependentCache ((tick ^^ n) d) = contractDependentCache d \<and> contractMsgReqCache ((tick ^^ n) d) = contractMsgReqCache d"
  by (induction n) simp_all

lemma turns_wait:
  assumes "contractDependentCache d \<noteq> []" and "\<forall>j < n. \<not> ready ((tick ^^ j) d)"
  shows "dispatch_turns parse sha pick signs (n + k) d = dispatch_turns parse sha pick signs k ((tick ^^ n) d)"
  using assms
proof (induction n arbitrary: d)
  case (Suc n)
  have "\<forall>j < n. \<not> ready ((tick ^^ j) (tick d))"
  proof (intro allI impI)
    fix j assume "j < n"
    with Suc.prems(2) have "\<not> ready ((tick ^^ Suc j) d)" by blast
    then show "\<not> ready ((tick ^^ j) (tick d))" by (simp add: funpow_swap1)
  qed
  then have "dispatch_turns parse sha pick signs (n + k) (tick d) = dispatch_turns parse sha pick signs k ((tick ^^ n) (tick d))"
    using Suc by simp
  moreover have "\<not> ready d"
    using Suc.prems(2) by (metis funpow_0 zero_less_Suc)
  ultimately show ?case
    using turn_waits [of d parse sha pick signs] Suc.prems(1) by (simp add: funpow_swap1)
qed simp

definition filter_signed :: "('m list \<times> 'v \<Rightarrow> bool) \<Rightarrow> (string \<times> 'm list \<times> 'v) list \<Rightarrow> (string \<times> 'm list \<times> 'v) list" where
  "filter_signed signs distribution = filter (\<lambda>item. signs (snd item)) distribution"

lemma sent_signed: "concat (map (\<lambda>item. fst (SendTxInfoToPackager signs item)) distribution) = filter_signed signs distribution"
  by (induction distribution) (auto simp: SendTxInfoToPackager_def filter_signed_def)

lemma turn_fires:
  assumes "contractDependentCache d \<noteq> []" and "ready d" and "\<forall>(h, m) \<in> set (contractMsgReqCache d). parse m \<noteq> None"
    and "distribution = sort_key fst (concat (map (served parse sha pick)
      (GroupDependentData (GetDependentData (contractDependentCache d) (contractMsgReqCache d)))))"
  shows "DispatcherProcessing_turn parse sha pick signs d =
    (if distribution = [] then (d\<lparr>timeBaseline := baseline d\<rparr>, [])
     else (d\<lparr>contractMsgReqCache := [], contractDependentCache := [], timeBaseline := 0, timeValue := 0, isFirst := False\<rparr>, filter_signed signs distribution))"
proof -
  have "(if timeBaseline d = 0 then d\<lparr>timeBaseline := GetTheTimestampPerUnitOfTime (timeValue d)\<rparr> else d) =
      d\<lparr>timeBaseline := baseline d\<rparr>"
    by (simp add: baseline_def)
  then show ?thesis
    using assms(1,2) DistributionContractTx_served [OF assms(3), of sha pick "contractDependentCache d"]
    unfolding DispatcherProcessing_turn_def Let_def sent_signed
    by (auto simp: ready_def sort_key_Nil assms(4))
qed

lemma served_sent:
  assumes "contractDependentCache d \<noteq> []" and "ready d" and "\<forall>(h, m) \<in> set (contractMsgReqCache d). parse m \<noteq> None"
    and "part \<in> set (GroupDependentData (GetDependentData (contractDependentCache d) (contractMsgReqCache d)))"
    and "pick (sha (concat (map (\<lambda>m. the (parse m)) part))) = Inr (addr, v)" and "signs (part, v)"
  shows "(addr, part, v) \<in> set (snd (DispatcherProcessing_turn parse sha pick signs d))"
proof -
  let ?parts = "GroupDependentData (GetDependentData (contractDependentCache d) (contractMsgReqCache d))"
  have "(addr, part, v) \<in> set (served parse sha pick part)" using assms(5) by (simp add: served_def)
  then have "(addr, part, v) \<in> set (concat (map (served parse sha pick) ?parts))" using assms(4) by auto
  moreover define ds where "ds = sort_key fst (concat (map (served parse sha pick) ?parts))"
  ultimately have "(addr, part, v) \<in> set ds" by simp
  moreover from this have "ds \<noteq> []" by (metis empty_iff empty_set)
  ultimately show ?thesis
    using turn_fires [OF assms(1-3) ds_def, of signs] assms(6) by (simp add: filter_signed_def)
qed

section \<open>Properties\<close>

text \<open>
  C12: Let two cached transactions share a dependency, let the wait of the dispatcher be over
  and let every cached message parse. Then there is one part of the split that has the messages
  of both, and if a packager is found for this part and the message to it can be signed, the
  turn sends the whole part to this packager in one message. (A part without packager or
  signature is not sent at all.)
\<close>

theorem dispatch_together:
  assumes "ready d" and "\<forall>(h, m) \<in> set (contractMsgReqCache d). parse m \<noteq> None"
    and "a \<in> set (contractDependentCache d)" and "b \<in> set (contractDependentCache d)" and "dependent a b"
    and "map_of (contractMsgReqCache d) (fst a) = Some ma" and "map_of (contractMsgReqCache d) (fst b) = Some mb"
  shows "\<exists>part \<in> set (GroupDependentData (GetDependentData (contractDependentCache d) (contractMsgReqCache d))). ma \<in> set part \<and> mb \<in> set part \<and>
    (\<forall>addr v. pick (sha (concat (map (\<lambda>m. the (parse m)) part))) = Inr (addr, v) \<longrightarrow> signs (part, v) \<longrightarrow>
       (addr, part, v) \<in> set (snd (DispatcherProcessing_turn parse sha pick signs d)))"
proof -
  obtain part where part: "part \<in> set (GroupDependentData (GetDependentData (contractDependentCache d) (contractMsgReqCache d)))" "ma \<in> set part" "mb \<in> set part"
    using GetDependentData_together [OF assms(3-7)] GroupDependentData_group by (meson subset_iff)
  have "contractDependentCache d \<noteq> []" using assms(3) by auto
  with part show ?thesis using assms(1,2) by (intro bexI [of _ part]) (auto intro: served_sent)
qed

theorem dispatch_together_witness:
  "\<exists>part. ''k'' \<in> set part \<and> ''m'' \<in> set part \<and>
     (''addr'', part, ()) \<in> set (snd (DispatcherProcessing_turn (\<lambda>m. Some m) id (\<lambda>x. Inr (''addr'', ())) (\<lambda>_. True)
       \<lparr>contractDependentCache = [(''p'', [''x'']), (''q'', [''y'', ''x''])], contractMsgReqCache = [(''p'', ''k''), (''q'', ''m'')],
        timeValue = 9000000, isFirst = True, timeBaseline = 3000000\<rparr>))"
proof -
  let ?d = "\<lparr>contractDependentCache = [(''p'', [''x'']), (''q'', [''y'', ''x''])], contractMsgReqCache = [(''p'', ''k''), (''q'', ''m'')],
        timeValue = 9000000, isFirst = True, timeBaseline = 3000000\<rparr> :: string dispatcher"
  have "ready ?d" by (simp add: ready_def baseline_def contractWaitingTime_def)
  then show ?thesis
    using dispatch_together [of ?d "\<lambda>m. Some m" "(''p'', [''x''])" "(''q'', [''y'', ''x''])" "''k''" "''m''" "\<lambda>x. Inr (''addr'', ())" id "\<lambda>_. True"]
    by (auto simp: dependent_def)
qed

text \<open>
  C14: The split makes at most eight parts, loses no message, repeats none and keeps their
  order, whatever the number of groups.
\<close>

theorem dispatch_split_bounds:
  "length (GroupDependentData v) \<le> 8 \<and> concat (GroupDependentData v) = concat v \<and>
   length (GroupDependentData v) = min 8 (length v)"
  by (auto simp: GroupDependentData_concat) (auto simp: GroupDependentData_def Let_def length_split_parts)

text \<open>
  The grouping does not merge groups that a later entry connects: a transaction can land
  in two groups and is then sent twice, to two packagers.
\<close>

theorem dispatch_group_repeats:
  "GetDependentData [(''A'', [''1'']), (''D'', [''3'']), (''B'', [''1'', ''2'']), (''C'', [''2'', ''3''])]
      [(''A'', ''a''), (''B'', ''b''), (''C'', ''c''), (''D'', ''d'')] =
     [[''a'', ''b'', ''c'', ''d''], [''c'', ''d'']]"
  by code_simp

text \<open>
  C13: The dispatcher makes progress. At the start of a waiting period (\<open>timeBaseline\<close> is 0), when
  every cached message parses, a packager can be found for every part and every message to one
  can be signed, and when no message is added meanwhile, a cached message with an entry in the
  dependency cache is sent in one of the next seven turns of the loop: in all earlier turns
  nothing is sent, and after that turn the caches are empty and the clock is reset.
\<close>

theorem dispatcher_sends:
  assumes "timeBaseline d = 0" and "unat (timeValue d) + 9000000 < 2 ^ 64"
    and "\<forall>(h, m) \<in> set (contractMsgReqCache d). parse m \<noteq> None" and "\<forall>x. \<exists>r. pick x = Inr r" and "\<forall>x. signs x"
    and "h \<in> fst ` set (contractDependentCache d)" and "map_of (contractMsgReqCache d) h = Some m"
  shows "\<exists>n \<le> 6. snd (dispatch_turns parse sha pick signs n d) = [] \<and>
    (case dispatch_turns parse sha pick signs (Suc n) d of (d', sent) \<Rightarrow>
       (\<exists>e \<in> set sent. m \<in> set (fst (snd e))) \<and>
       contractDependentCache d' = [] \<and> contractMsgReqCache d' = [] \<and> timeBaseline d' = 0 \<and> \<not> isFirst d')"
proof -
  let ?cache = "contractDependentCache d" and ?msgs = "contractMsgReqCache d"
  have ne: "?cache \<noteq> []" using assms(6) by auto
  have "fires_within (3 + 3) d"
    using assms(1,2) by (intro fires_from_zero) simp_all
  then obtain n where n: "n \<le> 6" "ready ((tick ^^ n) d)" "\<forall>j < n. \<not> ready ((tick ^^ j) d)"
    by (auto simp: fires_within_def)
  let ?d = "(tick ^^ n) d"
  obtain a where a: "a \<in> set ?cache" "fst a = h" using assms(6) by auto
  obtain part where part: "part \<in> set (GroupDependentData (GetDependentData ?cache ?msgs))" "m \<in> set part"
    using GetDependentData_together [OF a(1) a(1), of ?msgs m m] GroupDependentData_group assms(7) a(2)
    by (metis dependent_def subset_iff)
  obtain addr v where pick: "pick (sha (concat (map (\<lambda>m. the (parse m)) part))) = Inr (addr, v)"
    using assms(4) by (metis surj_pair)
  have sent: "(addr, part, v) \<in> set (snd (DispatcherProcessing_turn parse sha pick signs ?d))"
    using ne n(2) assms(3,5) part(1) pick by (intro served_sent) simp_all
  have "fst (DispatcherProcessing_turn parse sha pick signs ?d) =
      ?d\<lparr>contractMsgReqCache := [], contractDependentCache := [], timeBaseline := 0, timeValue := 0, isFirst := False\<rparr>"
    using turn_fires [of ?d parse _ sha pick signs, OF _ n(2) _ refl] ne assms(3) sent by (auto split: if_splits)
  moreover have "snd (dispatch_turns parse sha pick signs n d) = []"
    using turns_wait [OF ne n(3), of parse sha pick signs 0] by simp
  moreover have "dispatch_turns parse sha pick signs (Suc n) d = DispatcherProcessing_turn parse sha pick signs ?d"
    using turns_wait [OF ne n(3), of parse sha pick signs 1] by (simp add: split_beta)
  ultimately show ?thesis
    using n(1) sent part(2) by (intro exI [of _ n]) (force simp: split_beta)
qed

theorem dispatcher_sends_witness:
  "\<exists>n d'. \<exists>sent. n \<le> 6 \<and>
     snd (dispatch_turns (\<lambda>m. Some m) id (\<lambda>x. Inr (x, ())) (\<lambda>_. True) n
       \<lparr>contractDependentCache = [(''p'', [])], contractMsgReqCache = [(''p'', ''m'')], timeValue = 5, isFirst = True, timeBaseline = 0\<rparr>) = [] \<and>
     dispatch_turns (\<lambda>m. Some m) id (\<lambda>x. Inr (x, ())) (\<lambda>_. True) (Suc n)
       \<lparr>contractDependentCache = [(''p'', [])], contractMsgReqCache = [(''p'', ''m'')], timeValue = 5, isFirst = True, timeBaseline = 0\<rparr> = (d', sent) \<and>
     (\<exists>e \<in> set sent. ''m'' \<in> set (fst (snd e))) \<and> contractDependentCache d' = [] \<and> contractMsgReqCache d' = []"
  using dispatcher_sends [of "\<lparr>contractDependentCache = [(''p'', [])], contractMsgReqCache = [(''p'', ''m'')],
      timeValue = 5, isFirst = True, timeBaseline = 0\<rparr>" "\<lambda>m. Some m" "\<lambda>x. Inr (x, ())" "\<lambda>_. True" "''p''" "''m''" id]
  by (auto simp: split_beta)

text \<open>
  When the wait is over, exactly the parts with a packager whose message can be signed are sent,
  each whole and to its packager, in the order of the packagers. As soon as one part has a
  packager every cached message is dropped, also those that were not sent. Only when no part at
  all has a packager are the caches kept for the next turn.
\<close>

theorem dispatch_turn_exact:
  assumes "contractDependentCache d \<noteq> []" and "ready d" and "\<forall>(h, m) \<in> set (contractMsgReqCache d). parse m \<noteq> None"
    and "distribution = concat (map (served parse sha pick) (GroupDependentData (GetDependentData (contractDependentCache d) (contractMsgReqCache d))))"
  shows "case DispatcherProcessing_turn parse sha pick signs d of (d', sent) \<Rightarrow>
    mset sent = filter_mset (\<lambda>item. signs (snd item)) (mset distribution) \<and> sorted (map fst sent) \<and>
    (if distribution = [] then contractMsgReqCache d' = contractMsgReqCache d \<and> contractDependentCache d' = contractDependentCache d
     else contractMsgReqCache d' = [] \<and> contractDependentCache d' = [])"
  using turn_fires [OF assms(1-3) refl, of sha pick signs] assms(4)
  by (auto simp: sort_key_Nil filter_signed_def sorted_filter split: if_splits)

theorem dispatch_turn_exact_witness:
  "contractMsgReqCache (fst (DispatcherProcessing_turn (\<lambda>m. Some m) id (\<lambda>x. if x = ''m'' then Inr (x, ()) else Inl (-1)) (\<lambda>_. True)
      \<lparr>contractDependentCache = [(''p'', []), (''q'', [])], contractMsgReqCache = [(''p'', ''m''), (''q'', ''k'')],
       timeValue = 9000000, isFirst = True, timeBaseline = 3000000\<rparr>)) = []"
proof -
  let ?d = "\<lparr>contractDependentCache = [(''p'', []), (''q'', [])], contractMsgReqCache = [(''p'', ''m''), (''q'', ''k'')],
       timeValue = 9000000, isFirst = True, timeBaseline = 3000000\<rparr> :: string dispatcher"
  let ?pick = "\<lambda>x. if x = ''m'' then Inr (x, ()) else Inl (-1)"
  have r: "ready ?d" by (simp add: ready_def baseline_def contractWaitingTime_def)
  have parts: "GroupDependentData (GetDependentData (contractDependentCache ?d) (contractMsgReqCache ?d)) = [[''m''], [''k'']]"
    by simp code_simp
  have "concat (map (served (\<lambda>m. Some m) id ?pick) [[''m''], [''k'']]) \<noteq> []" by (simp add: served_def)
  then show ?thesis
    using dispatch_turn_exact [of ?d "\<lambda>m. Some m" _ id ?pick "\<lambda>_. True", OF _ r _ refl] unfolding parts by (auto split: prod.splits)
qed

section \<open>The packager and the retry table\<close>

definition pack_wf :: "'tx pack_dispatch \<Rightarrow> bool" where
  "pack_wf p \<longleftrightarrow> fst ` set (hash_dep p) = fst ` set (hash_tx p)"

lemma pack_wf_Add: "pack_wf p \<Longrightarrow> pack_wf (packDispatch_Add h deps tx p)"
  by (auto simp: pack_wf_def packDispatch_Add_def AddContractInfo_def AddContractMsgReq_def)

lemma pack_group_Inr:
  "set hs \<subseteq> fst ` set txs \<Longrightarrow> \<exists>acc'. pack_group txs single n hs acc = Inr acc'"
proof (induction txs single n hs acc rule: pack_group.induct)
  case (2 txs single n h hs dep non)
  then obtain t where "map_of txs h = Some t"
    by (metis insert_subset list.set(2) map_of_eq_None_iff not_None_eq)
  with 2 show ?case by simp
qed simp

lemma pack_groups_Inr:
  "\<forall>g \<in> set gs. set g \<subseteq> fst ` set txs \<Longrightarrow> \<exists>acc'. pack_groups txs n gs acc = Inr acc'"
proof (induction txs n gs acc rule: pack_groups.induct)
  case (2 txs n g gs acc)
  then obtain acc1 where "pack_group txs (length g = 1) n g acc = Inr acc1"
    using pack_group_Inr [of g txs "length g = 1" n acc] by auto
  with 2 show ?case by simp
qed simp

lemma pack_wf_collect: "pack_wf p \<Longrightarrow> \<exists>res. packDispatch_GetDependentData p out = Inr res"
  unfolding packDispatch_GetDependentData_def pack_wf_def
  by (rule pack_groups_Inr) (metis groups_keys)

text \<open>
  C15: Collecting the packager's groups never throws: after any sequence of additions every
  grouped hash has its transaction.
\<close>

theorem pack_dispatch_never_throws:
  "\<exists>res. packDispatch_GetDependentData
     (fold (\<lambda>(h, deps, tx). packDispatch_Add h deps tx) adds \<lparr>hash_dep = [], hash_tx = []\<rparr>) out = Inr res"
proof -
  let ?p = "fold (\<lambda>(h, deps, tx). packDispatch_Add h deps tx) adds \<lparr>hash_dep = [], hash_tx = []\<rparr>"
  have "pack_wf (fold (\<lambda>(h, deps, tx). packDispatch_Add h deps tx) adds p)" if "pack_wf p" for p :: "'a pack_dispatch"
    using that by (induction adds arbitrary: p) (auto simp: pack_wf_Add)
  then have "pack_wf ?p" by (simp add: pack_wf_def)
  then show ?thesis by (rule pack_wf_collect)
qed

lemma txPending_scan_spec:
  "txPending_scan k hs t pending =
    (concat (map snd (filter (\<lambda>e. enough_nodes k hs t (fst e)) pending)),
     map fst (filter (\<lambda>e. enough_nodes k hs t (fst e) \<or> fst e > t + 2) pending))"
  by (induction k hs t pending rule: txPending_scan.induct) auto

lemma fold_om_erase_find:
  "om_wf m \<Longrightarrow> om_wf (fold om_erase ks m) \<and> om_find (fold om_erase ks m) k = (if k \<in> set ks then None else om_find m k)"
  by (induction ks arbitrary: m) (auto simp: om_find_erase om_wf_erase)

text \<open>
  A retry round submits the messages of exactly the heights that enough peers have
  reached, in the order of the heights, and keeps exactly those that are neither submitted
  nor more than two above the top.
\<close>

theorem retry_round:
  assumes "om_wf pending"
  shows "case txPending_Check k hs t pending of (tasks, pending') \<Rightarrow>
    tasks = concat (map snd (filter (\<lambda>e. enough_nodes k hs t (fst e)) pending)) \<and> om_wf pending' \<and>
    om_find pending' h = (if enough_nodes k hs t h \<or> h > t + 2 then None else om_find pending h)"
proof -
  let ?dels = "map fst (filter (\<lambda>e. enough_nodes k hs t (fst e) \<or> fst e > t + 2) pending)"
  have "om_find pending h \<noteq> None \<Longrightarrow> h \<in> set ?dels \<longleftrightarrow> enough_nodes k hs t h \<or> h > t + 2"
    by (force dest: map_of_SomeD)
  then have "om_find (fold om_erase ?dels pending) h = (if enough_nodes k hs t h \<or> h > t + 2 then None else om_find pending h)"
    using fold_om_erase_find [OF assms, of ?dels h] by (cases "om_find pending h") auto
  then show ?thesis
    using fold_om_erase_find [OF assms, of ?dels h]
    unfolding txPending_Check_def txPending_scan_spec by simp
qed

theorem retry_round_witness:
  "om_find (snd (txPending_Check 1 [9, 9] 9 [(5, [''m'']), (20, [''n''])])) 5 = None"
  using retry_round [of "[(5, [''m'']), (20, [''n''])]" 1 "[9, 9]" 9 5]
  by (auto simp: om_wf_def enough_nodes_def split: prod.splits)

end
