(* ===== verification/Cyclic_List.thy ===== *)
theory Cyclic_List
  imports Tfs_Prelude
begin

text \<open>
  The doubly linked ring of \<open>utils/cycliclist.hpp\<close> on an explicit store: a map from addresses
  to nodes, with the next free address. Null and dangling pointers are errors. \<open>ring\<close> relates
  the store to the list of values; every operation is shown to implement the operation on
  lists, and reading at any index, negative or beyond the end, goes round the ring.
\<close>

section \<open>Nodes and the store\<close>

record 'a cnode =
  cdata :: 'a
  cpre :: "nat option"
  cnext :: "nat option"

record 'a clist =
  store :: "nat \<Rightarrow> 'a cnode option"
  fresh :: nat
  head :: "nat option"
  last_p :: "nat option"
  m_size :: int

datatype mem_error = NullPointer | DanglingPointer

definition new_clist :: "'a clist" where
  "new_clist = \<lparr>store = Map.empty, fresh = 0, head = None, last_p = None, m_size = 0\<rparr>"

definition deref :: "'a clist \<Rightarrow> nat option \<Rightarrow> (mem_error, nat \<times> 'a cnode) result" where
  "deref l p = (case p of None \<Rightarrow> Inl NullPointer
     | Some a \<Rightarrow> (case store l a of None \<Rightarrow> Inl DanglingPointer | Some n \<Rightarrow> Inr (a, n)))"

definition set_next :: "'a clist \<Rightarrow> nat option \<Rightarrow> nat option \<Rightarrow> (mem_error, 'a clist) result" where
  "set_next l p q = bindE (deref l p) (\<lambda>(a, n). Inr (l\<lparr>store := (store l)(a \<mapsto> n\<lparr>cnext := q\<rparr>)\<rparr>))"

definition set_pre :: "'a clist \<Rightarrow> nat option \<Rightarrow> nat option \<Rightarrow> (mem_error, 'a clist) result" where
  "set_pre l p q = bindE (deref l p) (\<lambda>(a, n). Inr (l\<lparr>store := (store l)(a \<mapsto> n\<lparr>cpre := q\<rparr>)\<rparr>))"

definition alloc :: "'a clist \<Rightarrow> 'a \<Rightarrow> 'a clist \<times> nat option" where
  "alloc l v = (l\<lparr>store := (store l)(fresh l \<mapsto> \<lparr>cdata = v, cpre = None, cnext = None\<rparr>), fresh := fresh l + 1\<rparr>, Some (fresh l))"

definition free_node :: "'a clist \<Rightarrow> nat option \<Rightarrow> (mem_error, 'a clist) result" where
  "free_node l p = bindE (deref l p) (\<lambda>(a, n). Inr (l\<lparr>store := (store l)(a := None)\<rparr>))"

section \<open>Operations\<close>

definition push_front :: "'a clist \<Rightarrow> 'a \<Rightarrow> (mem_error, 'a clist) result" where
  "push_front l v = (case alloc l v of (l1, node) \<Rightarrow>
     if head l = None then
       bindE (set_next (l1\<lparr>head := node\<rparr>) node node) (\<lambda>l2.
       bindE (set_pre (l2\<lparr>last_p := node\<rparr>) node node) (\<lambda>l3. Inr (l3\<lparr>m_size := m_size l3 + 1\<rparr>)))
     else
       let temp_head = head l1 in
       bindE (set_next (l1\<lparr>head := node\<rparr>) node temp_head) (\<lambda>l2.
       bindE (deref l2 temp_head) (\<lambda>(_, th).
       bindE (set_pre l2 node (cpre th)) (\<lambda>l3.
       bindE (set_pre l3 temp_head node) (\<lambda>l4.
       bindE (set_next l4 (last_p l4) node) (\<lambda>l5. Inr (l5\<lparr>m_size := m_size l5 + 1\<rparr>)))))))"

definition push_back :: "'a clist \<Rightarrow> 'a \<Rightarrow> (mem_error, 'a clist) result" where
  "push_back l v = (case alloc l v of (l1, node) \<Rightarrow>
     if head l = None then
       bindE (set_pre (l1\<lparr>head := node, last_p := node\<rparr>) node node) (\<lambda>l2.
       bindE (set_next l2 node node) (\<lambda>l3. Inr (l3\<lparr>m_size := m_size l3 + 1\<rparr>)))
     else
       let temp_last = last_p l1 in
       bindE (deref l1 temp_last) (\<lambda>(_, tl).
       bindE (set_next l1 node (cnext tl)) (\<lambda>l2.
       bindE (set_pre l2 node temp_last) (\<lambda>l3.
       bindE (set_next l3 temp_last node) (\<lambda>l4.
       bindE (set_pre (l4\<lparr>last_p := node\<rparr>) (head l4) node) (\<lambda>l5. Inr (l5\<lparr>m_size := m_size l5 + 1\<rparr>)))))))"

fun go_next :: "'a clist \<Rightarrow> nat \<Rightarrow> nat option \<Rightarrow> (mem_error, nat option) result" where
  "go_next l 0 p = Inr p"
| "go_next l (Suc k) p = bindE (deref l p) (\<lambda>(_, n). go_next l k (cnext n))"

fun go_prev :: "'a clist \<Rightarrow> nat \<Rightarrow> nat option \<Rightarrow> (mem_error, nat option) result" where
  "go_prev l 0 p = Inr p"
| "go_prev l (Suc k) p = bindE (deref l p) (\<lambda>(_, n). go_prev l k (cpre n))"

text \<open>The iterator moved by \<open>value\<close> steps; a null iterator stays null.\<close>

definition iter_plus :: "'a clist \<Rightarrow> nat option \<Rightarrow> int \<Rightarrow> (mem_error, nat option) result" where
  "iter_plus l p value =
     (if p = None then Inr None
      else if value > 0 then go_next l (nat value) p
      else if value < 0 then go_prev l (nat (- value)) p
      else Inr p)"

definition iter_minus :: "'a clist \<Rightarrow> nat option \<Rightarrow> int \<Rightarrow> (mem_error, nat option) result" where
  "iter_minus l p value =
     (if p = None then Inr None
      else if value > 0 then go_prev l (nat value) p
      else if value < 0 then go_next l (nat (- value)) p
      else Inr p)"

definition subscript :: "'a clist \<Rightarrow> int \<Rightarrow> (mem_error, 'a) result" where
  "subscript l index = bindE (iter_plus l (head l) index) (\<lambda>p. bindE (deref l p) (\<lambda>(_, n). Inr (cdata n)))"

text \<open>
  \<open>remove(iterator)\<close>: first the ends of the ring move away from the node, then it is unlinked.
  After the last node is deleted \<open>head\<close> and \<open>last\<close> still point to it.
\<close>

definition move_ends :: "'a clist \<Rightarrow> nat option \<Rightarrow> 'a cnode \<Rightarrow> 'a clist" where
  "move_ends l iter tempNode =
     (let l1 = (if iter = head l then l\<lparr>head := cnext tempNode\<rparr> else l)
      in if iter = last_p l1 then l1\<lparr>last_p := cpre tempNode\<rparr> else l1)"

definition remove_at :: "'a clist \<Rightarrow> nat option \<Rightarrow> (mem_error, 'a clist \<times> nat option) result" where
  "remove_at l iter =
     (if head l = None then Inr (l, None)
      else bindE (deref l iter) (\<lambda>(_, tempNode).
        bindE (set_next (move_ends l iter tempNode) (cpre tempNode) (cnext tempNode)) (\<lambda>l3.
        bindE (deref l3 iter) (\<lambda>(_, t3).
        bindE (set_pre l3 (cnext t3) (cpre t3)) (\<lambda>l4.
        bindE (free_node l4 iter) (\<lambda>l5.
          let l6 = l5\<lparr>m_size := m_size l5 - 1\<rparr> in
          Inr (l6, if m_size l6 = 0 then None else cnext tempNode)))))))"

text \<open>
  \<open>filter\<close> and \<open>remove(predicate)\<close> visit the ring from the head up to the last node; the
  predicate is asked about the last node, or about the null iterator of an empty ring, after the loop.
\<close>

fun scan :: "nat \<Rightarrow> 'a clist \<Rightarrow> nat option \<Rightarrow> (mem_error, (nat option \<times> 'a) list) result" where
  "scan 0 l p = bindE (deref l p) (\<lambda>(_, n). Inr [(p, cdata n)])"
| "scan (Suc k) l p =
     (if p = last_p l then bindE (deref l p) (\<lambda>(_, n). Inr [(p, cdata n)])
      else bindE (deref l p) (\<lambda>(_, n). bindE (scan k l (cnext n)) (\<lambda>r. Inr ((p, cdata n) # r))))"

definition filter_ring :: "('a \<Rightarrow> bool) \<Rightarrow> 'a clist \<Rightarrow> (mem_error, nat option list) result" where
  "filter_ring lamda l = bindE (scan (nat (m_size l)) l (head l)) (\<lambda>r. Inr (map fst (filter (\<lambda>e. lamda (snd e)) r)))"

definition remove_if :: "('a \<Rightarrow> bool) \<Rightarrow> 'a clist \<Rightarrow> (mem_error, 'a clist \<times> nat option) result" where
  "remove_if lamda l = bindE (scan (nat (m_size l)) l (head l)) (\<lambda>r.
     case List.find (\<lambda>e. lamda (snd e)) r of
       None \<Rightarrow> Inr (l, None)
     | Some (p, _) \<Rightarrow> bindE (deref l p) (\<lambda>(_, n). bindE (remove_at l p) (\<lambda>(l', _). Inr (l', cnext n))))"

text \<open>\<open>clear\<close> deletes every node and leaves \<open>head\<close>, \<open>last\<close> and the size as they are.\<close>

fun clear_from :: "nat \<Rightarrow> 'a clist \<Rightarrow> nat option \<Rightarrow> (mem_error, 'a clist) result" where
  "clear_from 0 l p = Inr l"
| "clear_from (Suc k) l p =
     (if p = None then Inr l
      else bindE (deref l p) (\<lambda>(_, n). bindE (free_node l p) (\<lambda>l1. clear_from k l1 (cnext n))))"

definition clear :: "'a clist \<Rightarrow> (mem_error, 'a clist) result" where
  "clear l = (if head l = None then Inr l
     else bindE (deref l (head l)) (\<lambda>(_, h).
          bindE (set_next l (head l) None) (\<lambda>l1. clear_from (nat (m_size l)) l1 (cnext h))))"

section \<open>The ring and its list of values\<close>

definition up :: "nat \<Rightarrow> nat \<Rightarrow> nat" where
  "up n i = (if Suc i = n then 0 else Suc i)"

definition down :: "nat \<Rightarrow> nat \<Rightarrow> nat" where
  "down n i = (if i = 0 then n - 1 else i - 1)"

definition ring :: "'a clist \<Rightarrow> nat list \<Rightarrow> 'a list \<Rightarrow> bool" where
  "ring l as xs \<longleftrightarrow> length as = length xs \<and> distinct as \<and> (\<forall>a \<in> set as. a < fresh l) \<and>
     m_size l = int (length xs) \<and>
     head l = (if as = [] then None else Some (as ! 0)) \<and>
     last_p l = (if as = [] then None else Some (as ! (length as - 1))) \<and>
     (\<forall>i < length xs. store l (as ! i) =
        Some \<lparr>cdata = xs ! i, cpre = Some (as ! down (length xs) i), cnext = Some (as ! up (length xs) i)\<rparr>)"

lemma ring_new: "ring new_clist [] []"
  by (simp add: ring_def new_clist_def)

lemma ring_deref:
  "ring l as xs \<Longrightarrow> i < length xs \<Longrightarrow> deref l (Some (as ! i)) =
     Inr (as ! i, \<lparr>cdata = xs ! i, cpre = Some (as ! down (length xs) i), cnext = Some (as ! up (length xs) i)\<rparr>)"
  by (simp add: ring_def deref_def)

text \<open>Walking the ring.\<close>

lemma up_less: "i < n \<Longrightarrow> up n i < n" and down_less: "i < n \<Longrightarrow> down n i < n"
  by (auto simp: up_def down_def)

lemma up_mod: "i < n \<Longrightarrow> int (up n i) = (int i + 1) mod int n"
  by (cases "Suc i = n") (auto simp: up_def add.commute)

lemma down_mod:
  assumes "i < n"
  shows "int (down n i) = (int i - 1) mod int n"
proof (cases i)
  case 0
  have "(- 1) mod int n = int n - 1"
    using assms by (simp add: zmod_minus1)
  then show ?thesis using 0 assms by (simp add: down_def of_nat_diff)
next
  case (Suc j)
  then show ?thesis using assms by (simp add: down_def)
qed

lemma go_next_ring:
  "ring l as xs \<Longrightarrow> i < length xs \<Longrightarrow> go_next l k (Some (as ! i)) = Inr (Some (as ! nat ((int i + int k) mod int (length xs))))"
proof (induction k arbitrary: i)
  case (Suc k)
  have "int (up (length xs) i) + int k = (int i + 1) mod int (length xs) + int k"
    using up_mod [OF Suc.prems(2)] by simp
  then have "(int (up (length xs) i) + int k) mod int (length xs) = (int i + 1 + int k) mod int (length xs)"
    by (simp only: mod_add_left_eq)
  then have "(int (up (length xs) i) + int k) mod int (length xs) = (int i + int (Suc k)) mod int (length xs)"
    by (simp add: algebra_simps)
  then show ?case
    using Suc by (simp add: ring_deref up_less)
qed simp

lemma go_prev_ring:
  "ring l as xs \<Longrightarrow> i < length xs \<Longrightarrow> go_prev l k (Some (as ! i)) = Inr (Some (as ! nat ((int i - int k) mod int (length xs))))"
proof (induction k arbitrary: i)
  case (Suc k)
  have "int (down (length xs) i) - int k = (int i - 1) mod int (length xs) - int k"
    using down_mod [OF Suc.prems(2)] by simp
  then have "(int (down (length xs) i) - int k) mod int (length xs) = (int i - int (Suc k)) mod int (length xs)"
    by (simp add: mod_diff_left_eq diff_diff_add)
  then show ?case
    using Suc by (simp add: ring_deref down_less)
qed simp

text \<open>The element at any integer position, going round.\<close>

definition cyc :: "'a list \<Rightarrow> int \<Rightarrow> 'a" where
  "cyc xs i = xs ! nat (i mod int (length xs))"

lemma ring_subscript:
  assumes "ring l as xs" and "xs \<noteq> []"
  shows "subscript l i = Inr (cyc xs i)"
proof -
  have as: "as \<noteq> []" "length as = length xs" and h: "head l = Some (as ! 0)"
    using assms by (auto simp: ring_def)
  have n: "0 < length xs" using assms(2) by simp
  have "iter_plus l (Some (as ! 0)) i = Inr (Some (as ! nat (i mod int (length xs))))"
    using go_next_ring [OF assms(1) n, of "nat i"] go_prev_ring [OF assms(1) n, of "nat (- i)"]
    by (auto simp: iter_plus_def)
  moreover have "nat (i mod int (length xs)) < length xs"
    using n by (simp add: nat_less_iff)
  ultimately show ?thesis
    by (simp add: subscript_def h ring_deref [OF assms(1)] cyc_def)
qed

section \<open>Adding at either end\<close>

lemma ring_empty_iff: "ring l as xs \<Longrightarrow> (head l = None) = (xs = [])"
  by (auto simp: ring_def)

lemmas mem_defs = deref_def set_next_def set_pre_def alloc_def free_node_def

lemma ring_push_first:
  assumes "ring l [] []"
  shows "\<exists>l'. push_back l v = Inr l' \<and> push_front l v = Inr l' \<and> ring l' [fresh l] [v]"
  using assms by (simp add: ring_def push_back_def push_front_def mem_defs up_def down_def)

text \<open>Both operations put the new node between the last node and the head.\<close>

definition spliced :: "'a clist \<Rightarrow> nat list \<Rightarrow> 'a list \<Rightarrow> 'a \<Rightarrow> 'a clist \<Rightarrow> bool" where
  "spliced l as xs v l' \<longleftrightarrow> (let n = length xs; new = fresh l in
     fresh l' = Suc new \<and> m_size l' = m_size l + 1 \<and>
     store l' new = Some \<lparr>cdata = v, cpre = Some (as ! (n - 1)), cnext = Some (as ! 0)\<rparr> \<and>
     (\<forall>i < n. store l' (as ! i) = Some \<lparr>cdata = xs ! i,
        cpre = Some (if i = 0 then new else as ! down n i), cnext = Some (if i = n - 1 then new else as ! up n i)\<rparr>))"

lemma push_spliced:
  assumes r: "ring l as xs" and "xs \<noteq> []"
  shows "\<exists>l'. push_back l v = Inr l' \<and> spliced l as xs v l' \<and> head l' = head l \<and> last_p l' = Some (fresh l)"
    and "\<exists>l'. push_front l v = Inr l' \<and> spliced l as xs v l' \<and> head l' = Some (fresh l) \<and> last_p l' = last_p l"
proof -
  define n where "n = length xs"
  define new where "new = fresh l"
  have n: "0 < n" "length as = n" using assms by (auto simp: ring_def n_def)
  have lt: "as ! i < new" if "i < n" for i using r that n by (auto simp: ring_def new_def)
  have neq: "as ! i \<noteq> new" "new \<noteq> as ! i" if "i < n" for i using lt [OF that] by auto
  have inj: "as ! i = as ! j \<longleftrightarrow> i = j" if "i < n" "j < n" for i j
    using r that n by (auto simp: ring_def nth_eq_iff_index_eq)
  have st: "store l (as ! i) = Some \<lparr>cdata = xs ! i, cpre = Some (as ! down n i), cnext = Some (as ! up n i)\<rparr>" if "i < n" for i
    using r that by (simp add: ring_def n_def)
  have h: "head l = Some (as ! 0)" "last_p l = Some (as ! (n - 1))"
    using r n by (auto simp: ring_def n_def)
  have ud: "up n (n - 1) = 0" "down n 0 = n - 1" using n by (simp_all add: up_def down_def)
  have e0: "as ! 0 \<noteq> new" "as ! (n - 1) \<noteq> new" "new \<noteq> as ! 0" "new \<noteq> as ! (n - 1)" using neq n by auto
  have "(\<exists>l'. push_back l v = Inr l' \<and> spliced l as xs v l' \<and> head l' = head l \<and> last_p l' = Some new) \<and>
    (\<exists>l'. push_front l v = Inr l' \<and> spliced l as xs v l' \<and> head l' = Some new \<and> last_p l' = last_p l)"
  proof (cases "n = 1")
    case True
    then show ?thesis
      using st [of 0] h e0 unfolding spliced_def n_def [symmetric] new_def [symmetric]
      by (simp add: push_back_def push_front_def mem_defs Let_def up_def down_def new_def [symmetric])
  next
    case False
    then have "as ! 0 \<noteq> as ! (n - 1)" "as ! (n - 1) \<noteq> as ! 0" using inj [of 0 "n - 1"] n by auto
    then show ?thesis
      using st [of 0] st [of "n - 1"] st h e0 ud neq inj n False unfolding spliced_def n_def [symmetric] new_def [symmetric]
      by (auto simp: push_back_def push_front_def mem_defs Let_def new_def [symmetric])
  qed
  then show "\<exists>l'. push_back l v = Inr l' \<and> spliced l as xs v l' \<and> head l' = head l \<and> last_p l' = Some (fresh l)"
    and "\<exists>l'. push_front l v = Inr l' \<and> spliced l as xs v l' \<and> head l' = Some (fresh l) \<and> last_p l' = last_p l"
    by (simp_all add: new_def)
qed

lemma spliced_ring:
  assumes "ring l as xs" and "xs \<noteq> []" and "spliced l as xs v l'"
  shows "head l' = head l \<Longrightarrow> last_p l' = Some (fresh l) \<Longrightarrow> ring l' (as @ [fresh l]) (xs @ [v])"
    and "head l' = Some (fresh l) \<Longrightarrow> last_p l' = last_p l \<Longrightarrow> ring l' (fresh l # as) (v # xs)"
proof -
  let ?n = "length xs"
  have n: "0 < ?n" "length as = ?n" "as \<noteq> []" using assms by (auto simp: ring_def)
  have fr: "fresh l \<notin> set as" "\<forall>a \<in> set as. a < Suc (fresh l)" using assms(1) by (auto simp: ring_def)
  have base: "distinct as" "fresh l' = Suc (fresh l)" "m_size l' = int ?n + 1" "head l = Some (as ! 0)" "last_p l = Some (as ! (?n - 1))"
    using assms n by (simp_all add: ring_def spliced_def Let_def)
  have st: "store l' (fresh l) = Some \<lparr>cdata = v, cpre = Some (as ! (?n - 1)), cnext = Some (as ! 0)\<rparr>"
    "\<And>i. i < ?n \<Longrightarrow> store l' (as ! i) = Some \<lparr>cdata = xs ! i,
        cpre = Some (if i = 0 then fresh l else as ! down ?n i), cnext = Some (if i = ?n - 1 then fresh l else as ! up ?n i)\<rparr>"
    using assms(3) by (simp_all add: spliced_def Let_def)
  show "head l' = head l \<Longrightarrow> last_p l' = Some (fresh l) \<Longrightarrow> ring l' (as @ [fresh l]) (xs @ [v])"
    unfolding ring_def using n fr base st
    by (auto simp: nth_append less_Suc_eq up_def down_def)
  have cons: "store l' ((fresh l # as) ! i) = Some \<lparr>cdata = (v # xs) ! i,
      cpre = Some ((fresh l # as) ! down (Suc ?n) i), cnext = Some ((fresh l # as) ! up (Suc ?n) i)\<rparr>" if i: "i < Suc ?n" for i
  proof (cases i)
    case 0
    then show ?thesis using st(1) n by (simp add: up_def down_def nth_Cons')
  next
    case (Suc j)
    then show ?thesis using st(2) [of j] i n by (auto simp: up_def down_def nth_Cons')
  qed
  show "ring l' (fresh l # as) (v # xs)" if "head l' = Some (fresh l)" "last_p l' = last_p l"
    unfolding ring_def using n fr base that cons by (simp add: nth_Cons')
qed

section \<open>Removing a node\<close>

definition skip :: "nat \<Rightarrow> nat \<Rightarrow> nat" where
  "skip i j = (if j < i then j else Suc j)"

definition without :: "nat \<Rightarrow> 'a list \<Rightarrow> 'a list" where
  "without i xs = take i xs @ drop (Suc i) xs"

lemma length_without: "i < length xs \<Longrightarrow> length (without i xs) = length xs - 1"
  by (simp add: without_def min_def)

lemma nth_without: "i < length xs \<Longrightarrow> j < length xs - 1 \<Longrightarrow> without i xs ! j = xs ! skip i j"
  by (auto simp: without_def skip_def nth_append min_def)

lemma set_without: "set (without i xs) \<subseteq> set xs"
  by (auto simp: without_def dest: in_set_takeD in_set_dropD)

lemma skip_less: "i < n \<Longrightarrow> j < n - 1 \<Longrightarrow> skip i j < n \<and> skip i j \<noteq> i"
  by (auto simp: skip_def)

lemma skip_inj: "skip i j = skip i k \<longleftrightarrow> j = k"
  by (auto simp: skip_def)

lemma distinct_without:
  assumes "distinct xs" and "i < length xs"
  shows "distinct (without i xs)"
  unfolding distinct_conv_nth length_without [OF assms(2)]
proof (intro allI impI)
  fix j k assume "j < length xs - 1" "k < length xs - 1" "j \<noteq> k"
  then show "without i xs ! j \<noteq> without i xs ! k"
    using assms skip_less [of i "length xs" j] skip_less [of i "length xs" k]
    by (simp add: nth_without nth_eq_iff_index_eq skip_inj del: One_nat_def)
qed

lemma skip_up: "i < n \<Longrightarrow> j < n - 1 \<Longrightarrow> skip i (up (n - 1) j) = (if skip i j = down n i then up n i else up n (skip i j))"
  by (auto simp: up_def down_def skip_def split: if_splits)

lemma skip_down: "i < n \<Longrightarrow> j < n - 1 \<Longrightarrow> skip i (down (n - 1) j) = (if skip i j = up n i then down n i else down n (skip i j))"
  by (auto simp: up_def down_def skip_def split: if_splits)

lemma remove_at_store:
  assumes r: "ring l as xs" and i: "i < length xs" and two: "2 \<le> length xs"
  shows "\<exists>l'. remove_at l (Some (as ! i)) = Inr (l', Some (as ! up (length xs) i)) \<and>
    fresh l' = fresh l \<and> m_size l' = m_size l - 1 \<and>
    head l' = (if i = 0 then Some (as ! 1) else head l) \<and>
    last_p l' = (if i = length xs - 1 then Some (as ! (length xs - 2)) else last_p l) \<and>
    (\<forall>k < length xs. k \<noteq> i \<longrightarrow> store l' (as ! k) = Some \<lparr>cdata = xs ! k,
       cpre = Some (if k = up (length xs) i then as ! down (length xs) i else as ! down (length xs) k),
       cnext = Some (if k = down (length xs) i then as ! up (length xs) i else as ! up (length xs) k)\<rparr>)"
proof -
  define n where "n = length xs"
  have n: "2 \<le> n" "length as = n" "i < n" using assms by (auto simp: ring_def n_def)
  have inj: "as ! a = as ! b \<longleftrightarrow> a = b" if "a < n" "b < n" for a b
    using r that n by (auto simp: ring_def nth_eq_iff_index_eq)
  have st: "store l (as ! a) = Some \<lparr>cdata = xs ! a, cpre = Some (as ! down n a), cnext = Some (as ! up n a)\<rparr>" if "a < n" for a
    using r that by (simp add: ring_def n_def)
  have h: "head l = Some (as ! 0)" "last_p l = Some (as ! (n - 1))" "m_size l = int n"
    using r n by (auto simp: ring_def n_def)
  have lt: "up n i < n" "down n i < n" "up n i \<noteq> i" "down n i \<noteq> i" "i \<noteq> up n i" "i \<noteq> down n i"
    using n by (auto simp: up_def down_def)
  have ne: "as ! up n i \<noteq> as ! i" "as ! down n i \<noteq> as ! i" "as ! i \<noteq> as ! up n i" "as ! i \<noteq> as ! down n i"
    using lt inj n(3) by auto
  have hd: "(as ! i = as ! 0) = (i = 0)" "(as ! i = as ! (n - 1)) = (i = n - 1)"
    using inj n by auto
  have ud: "i = 0 \<Longrightarrow> up n i = 1" "i = n - 1 \<Longrightarrow> down n i = n - 2" using n by (auto simp: up_def down_def)
  let ?U = "\<lparr>cdata = xs ! up n i, cpre = Some (as ! down n i), cnext = Some (if up n i = down n i then as ! up n i else as ! up n (up n i))\<rparr>"
  let ?D = "\<lparr>cdata = xs ! down n i, cpre = Some (if up n i = down n i then as ! down n i else as ! down n (down n i)), cnext = Some (as ! up n i)\<rparr>"
  have "\<exists>l'. remove_at l (Some (as ! i)) = Inr (l', Some (as ! up n i)) \<and>
    fresh l' = fresh l \<and> m_size l' = m_size l - 1 \<and>
    head l' = (if i = 0 then Some (as ! 1) else head l) \<and>
    last_p l' = (if i = n - 1 then Some (as ! (n - 2)) else last_p l) \<and>
    store l' = (store l)(as ! down n i \<mapsto> ?D, as ! up n i \<mapsto> ?U, as ! i := None)"
  proof -
    define N where "N = \<lparr>cdata = xs ! i, cpre = Some (as ! down n i), cnext = Some (as ! up n i)\<rparr>"
    define l2 where "l2 = l\<lparr>head := (if i = 0 then Some (as ! up n i) else head l), last_p := (if i = n - 1 then Some (as ! down n i) else last_p l)\<rparr>"
    have "(Some (as ! i) = head l) = (i = 0)" "(Some (as ! i) = last_p l) = (i = n - 1)"
      using h hd by simp_all
    then have "move_ends l (Some (as ! i)) N = l2"
      unfolding move_ends_def l2_def N_def Let_def by (cases "i = 0"; cases "i = n - 1") simp_all
    moreover have "deref l (Some (as ! i)) = Inr (as ! i, N)" "(head l = None) = False" "cpre N = Some (as ! down n i)" "cnext N = Some (as ! up n i)"
      using st [OF n(3)] h(1) by (simp_all add: deref_def N_def)
    ultimately have pre: "remove_at l (Some (as ! i)) =
        bindE (set_next l2 (Some (as ! down n i)) (Some (as ! up n i))) (\<lambda>l3.
        bindE (deref l3 (Some (as ! i))) (\<lambda>(_, t3).
        bindE (set_pre l3 (cnext t3) (cpre t3)) (\<lambda>l4.
        bindE (free_node l4 (Some (as ! i))) (\<lambda>l5.
          let l6 = l5\<lparr>m_size := m_size l5 - 1\<rparr> in
          Inr (l6, if m_size l6 = 0 then None else Some (as ! up n i))))))"
      unfolding remove_at_def by (simp only: if_False bindE_Inr prod.case)
    have "m_size l2 \<noteq> 1" "store l2 = store l" "fresh l2 = fresh l" "m_size l2 = m_size l"
      using h(3) n(1) by (simp_all add: l2_def)
    moreover have "as ! up n i = as ! down n i \<longleftrightarrow> up n i = down n i" "as ! down n i = as ! up n i \<longleftrightarrow> up n i = down n i"
      using inj lt by auto
    ultimately have "\<exists>l'. remove_at l (Some (as ! i)) = Inr (l', Some (as ! up n i)) \<and>
      fresh l' = fresh l \<and> m_size l' = m_size l - 1 \<and> head l' = head l2 \<and> last_p l' = last_p l2 \<and>
      store l' = (store l)(as ! down n i \<mapsto> ?D, as ! up n i \<mapsto> ?U, as ! i := None)"
      using st [OF n(3)] st [OF lt(1)] st [OF lt(2)] ne unfolding pre
      by (cases "up n i = down n i") (simp_all add: mem_defs Let_def fun_upd_twist del: One_nat_def)
    moreover have "head l2 = (if i = 0 then Some (as ! 1) else head l)" "last_p l2 = (if i = n - 1 then Some (as ! (n - 2)) else last_p l)"
      using ud by (simp_all add: l2_def)
    ultimately show ?thesis by simp
  qed
  then obtain l' where l': "remove_at l (Some (as ! i)) = Inr (l', Some (as ! up n i))"
    "fresh l' = fresh l" "m_size l' = m_size l - 1" "head l' = (if i = 0 then Some (as ! 1) else head l)"
    "last_p l' = (if i = n - 1 then Some (as ! (n - 2)) else last_p l)"
    "store l' = (store l)(as ! down n i \<mapsto> ?D, as ! up n i \<mapsto> ?U, as ! i := None)"
    by blast
  have "store l' (as ! k) = Some \<lparr>cdata = xs ! k,
       cpre = Some (if k = up n i then as ! down n i else as ! down n k),
       cnext = Some (if k = down n i then as ! up n i else as ! up n k)\<rparr>" if "k < n" "k \<noteq> i" for k
    using that st [of k] inj [of k i] inj [of k "up n i"] inj [of k "down n i"] lt n(3)
    unfolding l'(6) by auto
  then show ?thesis
    unfolding n_def [symmetric] using l'(1-5) by (intro exI [of _ l']) blast
qed

lemma ring_remove:
  assumes r: "ring l as xs" and i: "i < length xs" and two: "2 \<le> length xs"
  shows "\<exists>l'. remove_at l (Some (as ! i)) = Inr (l', Some (as ! up (length xs) i)) \<and> ring l' (without i as) (without i xs)"
proof -
  let ?n = "length xs"
  have len: "length as = ?n" using r by (simp add: ring_def)
  obtain l' where l': "remove_at l (Some (as ! i)) = Inr (l', Some (as ! up ?n i))"
    "fresh l' = fresh l" "m_size l' = m_size l - 1" "head l' = (if i = 0 then Some (as ! 1) else head l)"
    "last_p l' = (if i = ?n - 1 then Some (as ! (?n - 2)) else last_p l)"
    "\<forall>k < ?n. k \<noteq> i \<longrightarrow> store l' (as ! k) = Some \<lparr>cdata = xs ! k,
       cpre = Some (if k = up ?n i then as ! down ?n i else as ! down ?n k),
       cnext = Some (if k = down ?n i then as ! up ?n i else as ! up ?n k)\<rparr>"
    using remove_at_store [OF assms] by blast
  have st: "store l' (without i as ! j) = Some \<lparr>cdata = without i xs ! j,
      cpre = Some (without i as ! down (?n - 1) j), cnext = Some (without i as ! up (?n - 1) j)\<rparr>" if j: "j < ?n - 1" for j
  proof -
    have "up (?n - 1) j < ?n - 1" "down (?n - 1) j < ?n - 1" using j by (auto intro: up_less down_less)
    then show ?thesis
      using l'(6) skip_less [OF i j] i j len by (simp add: nth_without skip_up skip_down del: One_nat_def)
  qed
  have ends: "head l' = Some (without i as ! 0)" "last_p l' = Some (without i as ! (?n - 2))"
    using l'(4,5) r two i len by (auto simp: nth_without skip_def ring_def Suc_diff_Suc numeral_2_eq_2)
  have ne: "without i as \<noteq> []" using two i len by (simp add: length_without flip: length_0_conv)
  have "ring l' (without i as) (without i xs)"
    unfolding ring_def length_without [OF i]
    using r l'(2,3) st ends ne i len two distinct_without [of as i] set_without [of i as]
    by (auto simp: ring_def length_without numeral_2_eq_2 of_nat_diff)
  with l'(1) show ?thesis by blast
qed

section \<open>Visiting every node\<close>

lemma scan_ring:
  assumes r: "ring l as xs"
  shows "i < length xs \<Longrightarrow> length xs \<le> Suc (i + k) \<Longrightarrow>
    scan k l (Some (as ! i)) = Inr (map (\<lambda>j. (Some (as ! j), xs ! j)) [i..<length xs])"
proof (induction k arbitrary: i)
  case 0
  then have "[i..<length xs] = [i]" by (simp add: le_Suc_eq)
  with 0 show ?case by (simp add: ring_deref [OF r])
next
  case (Suc k)
  have last: "last_p l = Some (as ! (length xs - 1))"
    using r Suc.prems by (auto simp: ring_def)
  have eq: "as ! i = as ! (length xs - 1) \<longleftrightarrow> i = length xs - 1"
    using r Suc.prems by (simp add: ring_def nth_eq_iff_index_eq)
  show ?case
  proof (cases "i = length xs - 1")
    case True
    then have "[i..<length xs] = [i]" using Suc.prems by (cases "length xs") auto
    with True Suc.prems show ?thesis by (simp add: ring_deref [OF r] last del: One_nat_def)
  next
    case False
    then have up: "up (length xs) i = Suc i" "Suc i < length xs" using Suc.prems by (auto simp: up_def)
    have "scan k l (Some (as ! Suc i)) = Inr (map (\<lambda>j. (Some (as ! j), xs ! j)) [Suc i..<length xs])"
      using Suc.prems up by (intro Suc.IH) auto
    moreover have "[i..<length xs] = i # [Suc i..<length xs]" using Suc.prems by (simp add: upt_conv_Cons)
    ultimately show ?thesis
      using False eq up Suc.prems by (simp add: ring_deref [OF r] last del: One_nat_def upt_Suc)
  qed
qed

lemma ring_filter:
  assumes "ring l as xs" and "xs \<noteq> []"
  shows "filter_ring P l = Inr (map (\<lambda>j. Some (as ! j)) (filter (\<lambda>j. P (xs ! j)) [0..<length xs]))"
proof -
  have "head l = Some (as ! 0)" "m_size l = int (length xs)"
    using assms by (auto simp: ring_def)
  then show ?thesis
    using scan_ring [OF assms(1), of 0 "length xs"] assms(2)
    by (simp add: filter_ring_def filter_map o_def)
qed

section \<open>The contract of a cyclic sequence\<close>

text \<open>What clients use: building a sequence by appending and reading it at any position.\<close>

locale cyclic_sequence =
  fixes rep :: "'l \<Rightarrow> 'a list \<Rightarrow> bool"
    and empty :: 'l
    and append_one :: "'l \<Rightarrow> 'a \<Rightarrow> ('e, 'l) result"
    and item :: "'l \<Rightarrow> int \<Rightarrow> ('e, 'a) result"
  assumes rep_empty: "rep empty []"
    and rep_append: "rep l xs \<Longrightarrow> \<exists>l'. append_one l v = Inr l' \<and> rep l' (xs @ [v])"
    and rep_item: "rep l xs \<Longrightarrow> xs \<noteq> [] \<Longrightarrow> item l i = Inr (cyc xs i)"
begin

lemma rep_build: "rep l xs \<Longrightarrow> \<exists>l'. foldlE append_one l vs = Inr l' \<and> rep l' (xs @ vs)"
proof (induction vs arbitrary: l xs)
  case (Cons v vs)
  obtain l1 where "append_one l v = Inr l1" "rep l1 (xs @ [v])"
    using rep_append [OF Cons.prems] by blast
  with Cons.IH [of l1 "xs @ [v]"] show ?case by simp
qed simp

lemma rep_window:
  assumes "rep l xs" and "xs \<noteq> []"
  shows "mapE (\<lambda>j. item l (pos + int j)) js = Inr (map (\<lambda>j. cyc xs (pos + int j)) js)"
  using rep_item [OF assms] by (induction js) simp_all

end

lemma ring_push_back:
  assumes r: "ring l as xs"
  shows "\<exists>l'. push_back l v = Inr l' \<and> ring l' (as @ [fresh l]) (xs @ [v])"
proof (cases "xs = []")
  case True
  then have "as = []" using r by (simp add: ring_def)
  then show ?thesis using ring_push_first [of l v] r True by auto
next
  case False
  obtain l' where "push_back l v = Inr l'" "spliced l as xs v l'" "head l' = head l" "last_p l' = Some (fresh l)"
    using push_spliced(1) [OF r False, of v] by blast
  with spliced_ring(1) [OF r False] show ?thesis by blast
qed

lemma ring_push_front:
  assumes r: "ring l as xs"
  shows "\<exists>l'. push_front l v = Inr l' \<and> ring l' (fresh l # as) (v # xs)"
proof (cases "xs = []")
  case True
  then have "as = []" using r by (simp add: ring_def)
  then show ?thesis using ring_push_first [of l v] r True by auto
next
  case False
  obtain l' where "push_front l v = Inr l'" "spliced l as xs v l'" "head l' = Some (fresh l)" "last_p l' = last_p l"
    using push_spliced(2) [OF r False, of v] by blast
  with spliced_ring(2) [OF r False] show ?thesis by blast
qed

interpretation ring: cyclic_sequence "\<lambda>l xs. \<exists>as. ring l as xs" new_clist push_back subscript
proof
  show "\<exists>as. ring new_clist as []" using ring_new by blast
next
  fix l :: "'a clist" and xs v assume "\<exists>as. ring l as xs"
  then obtain as where "ring l as xs" by blast
  from ring_push_back [OF this, of v] show "\<exists>l'. push_back l v = Inr l' \<and> (\<exists>as. ring l' as (xs @ [v]))" by blast
next
  fix l :: "'a clist" and xs i assume "\<exists>as. ring l as xs" "xs \<noteq> []"
  then show "subscript l i = Inr (cyc xs i)" using ring_subscript by blast
qed

section \<open>Properties\<close>

datatype 'a ring_op = PushBack 'a | PushFront 'a | RemoveAt int

fun run_op :: "'a clist \<Rightarrow> 'a ring_op \<Rightarrow> (mem_error, 'a clist) result" where
  "run_op l (PushBack v) = push_back l v"
| "run_op l (PushFront v) = push_front l v"
| "run_op l (RemoveAt i) = bindE (iter_plus l (head l) i) (\<lambda>p. bindE (remove_at l p) (\<lambda>(l', _). Inr l'))"

fun list_op :: "'a ring_op \<Rightarrow> 'a list \<Rightarrow> 'a list" where
  "list_op (PushBack v) xs = xs @ [v]"
| "list_op (PushFront v) xs = v # xs"
| "list_op (RemoveAt i) xs = without (nat (i mod int (length xs))) xs"

text \<open>No removal of the only node.\<close>

fun keeps_one :: "'a list \<Rightarrow> 'a ring_op list \<Rightarrow> bool" where
  "keeps_one xs [] = True"
| "keeps_one xs (op # ops) = ((case op of RemoveAt _ \<Rightarrow> 2 \<le> length xs | _ \<Rightarrow> True) \<and> keeps_one (list_op op xs) ops)"

lemma ring_iter_plus:
  assumes "ring l as xs" and "xs \<noteq> []"
  shows "iter_plus l (head l) i = Inr (Some (as ! nat (i mod int (length xs)))) \<and> nat (i mod int (length xs)) < length xs"
proof -
  have h: "head l = Some (as ! 0)" and n: "0 < length xs" using assms by (auto simp: ring_def)
  then show ?thesis
    using go_next_ring [OF assms(1) n, of "nat i"] go_prev_ring [OF assms(1) n, of "nat (- i)"]
    by (auto simp: iter_plus_def nat_less_iff)
qed

lemma ring_op_step:
  assumes "ring l as xs" and "case op of RemoveAt _ \<Rightarrow> 2 \<le> length xs | _ \<Rightarrow> True"
  shows "\<exists>l' as'. run_op l op = Inr l' \<and> ring l' as' (list_op op xs)"
proof (cases op)
  case (RemoveAt i)
  then have two: "2 \<le> length xs" and ne: "xs \<noteq> []" using assms(2) by auto
  show ?thesis
    using ring_iter_plus [OF assms(1) ne, of i] ring_remove [OF assms(1) _ two, of "nat (i mod int (length xs))"] RemoveAt
    by auto
next
  case (PushBack v)
  then show ?thesis using ring_push_back [OF assms(1), of v] by auto
next
  case (PushFront v)
  then show ?thesis using ring_push_front [OF assms(1), of v] by auto
qed

lemma ring_ops:
  "ring l as xs \<Longrightarrow> keeps_one xs ops \<Longrightarrow> \<exists>l' as'. foldlE run_op l ops = Inr l' \<and> ring l' as' (fold list_op ops xs)"
proof (induction ops arbitrary: l as xs)
  case (Cons op ops)
  then obtain l1 as1 where "run_op l op = Inr l1" "ring l1 as1 (list_op op xs)"
    using ring_op_step [of l as xs op] by auto
  with Cons show ?case by fastforce
qed auto

text \<open>
  C21: The linked ring implements a list: after any sequence of insertions at either end and
  removals that keep at least one node no pointer is null or dangling, the size is the length,
  reading at any index gives the element of the list at that index modulo the length, and
  filtering selects the matching elements in order.
\<close>

theorem ring_refines_list:
  assumes "keeps_one [] ops"
  defines "xs \<equiv> fold list_op ops []"
  shows "\<exists>l. foldlE run_op new_clist ops = Inr l \<and> m_size l = int (length xs) \<and>
    (xs \<noteq> [] \<longrightarrow> (\<forall>i. subscript l i = Inr (xs ! nat (i mod int (length xs)))) \<and>
      (\<exists>ps. filter_ring P l = Inr ps \<and> map (\<lambda>p. case deref l p of Inr (_, n) \<Rightarrow> Some (cdata n) | Inl _ \<Rightarrow> None) ps = map Some (filter P xs)))"
proof -
  obtain l as where l: "foldlE run_op new_clist ops = Inr l" "ring l as xs"
    using ring_ops [OF ring_new assms(1)] by (auto simp: xs_def)
  have "map (\<lambda>j. xs ! j) (filter (\<lambda>j. P (xs ! j)) [0..<length xs]) = filter P (map (\<lambda>j. xs ! j) [0..<length xs])"
    by (simp add: filter_map o_def)
  then have f: "map (\<lambda>j. xs ! j) (filter (\<lambda>j. P (xs ! j)) [0..<length xs]) = filter P xs"
    by (simp add: map_nth)
  have "map (\<lambda>p. case deref l p of Inr (_, n) \<Rightarrow> Some (cdata n) | Inl _ \<Rightarrow> None)
      (map (\<lambda>j. Some (as ! j)) (filter (\<lambda>j. P (xs ! j)) [0..<length xs])) = map Some (filter P xs)"
    unfolding f [symmetric] by (simp add: ring_deref [OF l(2)])
  then show ?thesis
    using l ring_subscript [OF l(2)] ring_filter [OF l(2)] by (auto simp: ring_def cyc_def)
qed

theorem ring_refines_list_witness:
  "\<exists>l. foldlE run_op new_clist [PushBack (1::nat), PushFront 2, PushBack 3, RemoveAt (-1)] = Inr l \<and> subscript l 3 = Inr 1"
  using ring_refines_list [of "[PushBack (1::nat), PushFront 2, PushBack 3, RemoveAt (-1)]" "\<lambda>_. True"]
  by (auto simp: without_def)

text \<open>
  Removing the only node leaves the head pointing to freed memory: the next insertion
  uses it.
\<close>

theorem ring_remove_only_dangles:
  "foldlE run_op new_clist [PushBack v, RemoveAt 0, PushBack w] = Inl DanglingPointer"
  by (simp add: push_back_def new_clist_def mem_defs iter_plus_def remove_at_def move_ends_def Let_def)

end
