(* ===== verification/Double_Arith.thy ===== *)
theory Double_Arith
  imports Complex_Main "HOL-Library.Log_Nat"
begin

text \<open>
  The double-precision arithmetic of the voting thresholds: every result of a product or a
  quotient is rounded to 53 significant bits, to the nearest value and to the even one on a
  tie. Values are non-negative and far from the limits of the exponent. The lemmas say when a
  threshold computed this way is the exact one.
\<close>

section \<open>Rounding\<close>

definition ilog2 :: "rat \<Rightarrow> int" where
  "ilog2 x = (if 1 \<le> x then int (floorlog 2 (nat \<lfloor>x\<rfloor>)) - 1 else - int (floorlog 2 (nat \<lceil>1 / x\<rceil> - 1)))"

definition half_even :: "rat \<Rightarrow> int" where
  "half_even q = (let f = \<lfloor>q\<rfloor>; r = q - of_int f in
     if r < 1 / 2 then f else if r > 1 / 2 then f + 1 else if even f then f else f + 1)"

definition dbl :: "rat \<Rightarrow> rat" where
  "dbl x = (if x \<le> 0 then 0 else let e = ilog2 x - 52 in of_int (half_even (x / 2 powi e)) * 2 powi e)"

definition dmul :: "rat \<Rightarrow> rat \<Rightarrow> rat" where
  "dmul a b = dbl (a * b)"

definition ddiv :: "rat \<Rightarrow> rat \<Rightarrow> rat" where
  "ddiv a b = dbl (a / b)"

text \<open>Conversion to an unsigned integer.\<close>

definition dtrunc :: "rat \<Rightarrow> nat" where
  "dtrunc x = nat \<lfloor>x\<rfloor>"

section \<open>Accuracy\<close>

lemma ilog2_bounds:
  assumes "0 < x"
  shows "2 powi ilog2 x \<le> x \<and> x < 2 powi (ilog2 x + 1)"
proof (cases "1 \<le> x")
  case True
  let ?n = "nat \<lfloor>x\<rfloor>" and ?k = "floorlog 2 (nat \<lfloor>x\<rfloor>)"
  have n: "0 < ?n" using True by simp
  have b: "2 ^ (?k - 1) \<le> ?n" "?n < 2 ^ ?k"
    using floorlog_bounds [of ?n 2] n by simp_all
  have k: "0 < ?k" using b(2) n by (cases ?k) auto
  have lo: "(of_nat (2 ^ (?k - 1)) :: rat) \<le> of_nat ?n" and hi: "(of_nat (?n + 1) :: rat) \<le> of_nat (2 ^ ?k)"
    using b by (simp_all only: of_nat_le_iff)
  have fl: "of_nat ?n \<le> x" "x < of_nat ?n + 1"
    using True by (simp_all add: of_nat_nat) linarith+
  have p1: "(2::rat) powi (int ?k - 1) = of_nat (2 ^ (?k - 1))" "(2::rat) powi int ?k = of_nat (2 ^ ?k)"
    using k by (simp_all add: power_int_def nat_diff_distrib')
  have "of_nat (2 ^ (?k - 1)) \<le> x" "x < of_nat (2 ^ ?k)"
    using lo hi fl by linarith+
  then show ?thesis
    using True by (simp only: ilog2_def p1 if_True) (simp add: p1)
next
  case False
  let ?y = "nat \<lceil>1 / x\<rceil>" and ?k = "floorlog 2 (nat \<lceil>1 / x\<rceil> - 1)"
  have gt: "1 < 1 / x" using False assms by (simp add: field_simps)
  then have y: "2 \<le> ?y" by linarith
  have b: "2 ^ (?k - 1) \<le> ?y - 1" "?y - 1 < 2 ^ ?k"
    using floorlog_bounds [of "?y - 1" 2] y gt by simp_all
  have k: "0 < ?k" using b(2) y by (cases ?k) auto
  have c: "1 / x \<le> of_nat ?y" "of_nat (?y - 1) < 1 / x"
    using gt y by (simp_all add: of_nat_diff) linarith+
  have "(of_nat ?y :: rat) \<le> of_nat (2 ^ ?k)"
    using b(2) by (simp only: of_nat_le_iff)
  with c(1) have "1 / x \<le> of_nat (2 ^ ?k)" by (rule order_trans)
  then have lo: "1 / x \<le> 2 ^ ?k" by simp
  have "(of_nat (2 ^ (?k - 1)) :: rat) \<le> of_nat (?y - 1)"
    using b(1) by (simp only: of_nat_le_iff)
  then have "of_nat (2 ^ (?k - 1)) < 1 / x" using c(2) by (rule order_le_less_trans)
  then have hi: "2 ^ (?k - 1) < 1 / x" by simp
  have "2 powi (- int ?k) = inverse ((2::rat) ^ ?k)" "2 powi (- int ?k + 1) = inverse ((2::rat) ^ (?k - 1))"
    using k by (simp_all add: power_int_def nat_diff_distrib' inverse_eq_divide power_one_over)
  note pw = this
  have "inverse (2 ^ ?k) \<le> x" "x < inverse (2 ^ (?k - 1))"
    using lo hi assms by (simp_all add: field_simps)
  then have "2 powi (- int ?k) \<le> x" "x < 2 powi (- int ?k + 1)"
    unfolding pw .
  then show ?thesis
    using False by (simp add: ilog2_def)
qed

lemma half_even_near: "\<bar>of_int (half_even q) - q\<bar> \<le> 1 / 2"
proof -
  have "of_int \<lfloor>q\<rfloor> \<le> q" "q < of_int \<lfloor>q\<rfloor> + 1" by linarith+
  then show ?thesis
    by (auto simp: half_even_def Let_def abs_le_iff)
qed

lemma half_even_int: "\<bar>q - of_int m\<bar> < 1 / 2 \<Longrightarrow> half_even q = m"
proof -
  assume "\<bar>q - of_int m\<bar> < 1 / 2"
  moreover have "\<bar>of_int (half_even q) - q\<bar> \<le> 1 / 2" by (rule half_even_near)
  ultimately have "\<bar>of_int (half_even q) - of_int m :: rat\<bar> < 1" by linarith
  then show ?thesis by (simp flip: of_int_diff)
qed

lemma dbl_near:
  assumes "0 < x"
  shows "\<bar>dbl x - x\<bar> \<le> x / 2 ^ 53"
proof -
  let ?e = "ilog2 x - 52"
  let ?p = "2 powi ?e :: rat"
  have p: "0 < ?p" by simp
  have "\<bar>of_int (half_even (x / ?p)) - x / ?p\<bar> * ?p \<le> 1 / 2 * ?p"
    using half_even_near p by (intro mult_right_mono) simp_all
  then have "\<bar>dbl x - x\<bar> \<le> ?p / 2"
    using assms p by (simp add: dbl_def Let_def abs_if field_simps split: if_splits)
  also have "?p = 2 powi ilog2 x / 2 ^ 52"
    by (simp add: power_int_diff)
  also have "2 powi ilog2 x / 2 ^ 52 / 2 \<le> x / 2 ^ 52 / 2"
    using ilog2_bounds [OF assms] by (intro divide_right_mono) simp_all
  finally show ?thesis by simp
qed

text \<open>A value close enough to a whole number rounds to it.\<close>

lemma powi_int_mono: "2 powi a < (2 powi b :: rat) \<longleftrightarrow> a < b"
proof
  show "a < b \<Longrightarrow> 2 powi a < (2 powi b :: rat)"
    by (rule power_int_strict_increasing) simp_all
  show "2 powi a < (2 powi b :: rat) \<Longrightarrow> a < b"
    using power_int_increasing [of b a "2 :: rat"] by force
qed

lemma dbl_whole:
  assumes m: "0 < m" "m < 2 ^ 53" and lo: "of_nat m - of_nat m / 2 ^ 54 < y" and hi: "y \<le> of_nat m + of_nat m / 2 ^ 54"
  shows "dbl y = of_nat m"
proof -
  let ?M = "of_nat m :: rat"
  let ?E = "ilog2 y"
  let ?p = "2 powi (?E - 52) :: rat"
  have M: "1 \<le> ?M" "?M \<le> 2 ^ 53 - 1"
    using m(1) of_nat_mono [of "m + 1" "2 ^ 53", where ?'a = rat] m(2) by simp_all
  have y: "1 / 2 < y"
    using lo M by simp
  have E: "2 powi ?E \<le> y" "y < 2 powi (?E + 1)"
    using ilog2_bounds [of y] y by simp_all
  have "2 powi (-1) < (2 powi (?E + 1) :: rat)"
    using y E(2) by (simp add: power_int_minus)
  then have E0: "0 \<le> ?E + 1"
    unfolding powi_int_mono by simp
  have "2 powi ?E < (2 powi 53 :: rat)"
    using E(1) hi M by (simp add: power_int_def)
  then have E52: "?E \<le> 52"
    unfolding powi_int_mono by simp
  have P: "2 powi (?E + 1) = ?p * 2 ^ 53"
    by (simp add: power_int_diff power_int_add)
  have whole: "?M / ?p = of_int (int m * 2 ^ nat (52 - ?E))"
    using E52 by (simp add: power_int_def field_simps)
  have top: "?M < 2 powi (?E + 1) \<or> (y < ?M \<and> ?M \<le> 2 powi (?E + 1))"
  proof -
    have pw: "(2::rat) powi (?E + 1) = of_nat (2 ^ nat (?E + 1))"
      using E0 by (simp add: power_int_def)
    show ?thesis
    proof (cases "?M \<le> y")
      case False
      then have "?M < of_nat (2 ^ nat (?E + 1)) + 1"
        using E(2) lo M unfolding pw by simp
      then have "m \<le> 2 ^ nat (?E + 1)"
        by (metis (no_types, lifting) of_nat_1 of_nat_add of_nat_less_iff less_Suc_eq_le Suc_eq_plus1)
      then show ?thesis
        using False unfolding pw by (simp only: of_nat_le_iff) simp
    qed (use E(2) in simp)
  qed
  have p0: "0 < ?p" by simp
  have "\<bar>y - ?M\<bar> < ?p / 2"
    using top
  proof
    assume "?M < 2 powi (?E + 1)"
    then have "?M / 2 ^ 54 < ?p / 2" unfolding P by simp
    then show ?thesis using lo hi unfolding abs_less_iff by linarith
  next
    assume "y < ?M \<and> ?M \<le> 2 powi (?E + 1)"
    then have "?M / 2 ^ 54 \<le> ?p / 2" "y < ?M" unfolding P by simp_all
    then show ?thesis using lo unfolding abs_less_iff by linarith
  qed
  then have "\<bar>y / ?p - ?M / ?p\<bar> < 1 / 2"
    using p0 by (simp add: field_simps abs_if split: if_splits)
  then have "half_even (y / ?p) = int m * 2 ^ nat (52 - ?E)"
    unfolding whole by (rule half_even_int)
  then have "dbl y = of_int (int m * 2 ^ nat (52 - ?E)) * ?p"
    using y by (simp add: dbl_def Let_def)
  also have "\<dots> = ?M"
    unfolding whole [symmetric] by simp
  finally show ?thesis .
qed

section \<open>Thresholds\<close>

text \<open>The constant written \<open>p/q\<close> in decimals is a double within half a unit of the last place.\<close>

definition decimal :: "nat \<Rightarrow> nat \<Rightarrow> rat \<Rightarrow> bool" where
  "decimal p q c \<longleftrightarrow> 0 < p \<and> p \<le> q \<and> q \<le> 1000 \<and>
     of_nat p / of_nat q - of_nat p / of_nat q / 2 ^ 54 < c \<and> c \<le> of_nat p / of_nat q + of_nat p / of_nat q / 2 ^ 54"

lemma near_chain:
  fixes x :: rat
  shows "0 < x \<Longrightarrow> x - x / 2 ^ 54 \<le> y \<Longrightarrow> y \<le> x + x / 2 ^ 54 \<Longrightarrow> \<bar>d - y\<bar> \<le> y / 2 ^ 53 \<Longrightarrow> \<bar>d - x\<bar> \<le> 3 * x / 2 ^ 53"
  unfolding abs_le_iff by simp

lemma near_pos: "0 < (x :: rat) \<Longrightarrow> x - x / 2 ^ 54 \<le> y \<Longrightarrow> 0 < y"
  by simp

lemma dmul_near:
  assumes "decimal p q c" and "0 < n" and "n < 2 ^ 40" and "\<not> q dvd p * n"
  shows "\<bar>of_nat q * dmul (of_nat n) c - of_nat (p * n)\<bar> < 1"
proof -
  let ?x = "of_nat (p * n) / of_nat q :: rat"
  let ?y = "of_nat n * c"
  have q: "0 < q" "q \<le> 1000" "0 < p" "p \<le> q" using assms(1) by (simp_all add: decimal_def)
  have qr: "1 \<le> (of_nat q :: rat)" "(of_nat q :: rat) \<le> 1000" using q by simp_all
  have x0: "0 < ?x" using q assms(2) by simp
  have n40: "of_nat n \<le> (2 :: rat) ^ 40"
    using of_nat_mono [of n "2 ^ 40", where ?'a = rat] assms(3) by simp
  have "?x \<le> of_nat n"
    using q assms(2) by (simp add: divide_le_eq mult.commute)
  with n40 have x40: "?x \<le> 2 ^ 40" by linarith
  have xn: "?x = of_nat n * (of_nat p / of_nat q)" by simp
  have "?x - ?x / 2 ^ 54 \<le> ?y" "?y \<le> ?x + ?x / 2 ^ 54"
  proof -
    have "of_nat n * (of_nat p / of_nat q - of_nat p / of_nat q / 2 ^ 54) \<le> of_nat n * c"
      "of_nat n * c \<le> of_nat n * (of_nat p / of_nat q + of_nat p / of_nat q / 2 ^ 54)"
      using assms(1) by (intro mult_left_mono; simp add: decimal_def)+
    then show "?x - ?x / 2 ^ 54 \<le> ?y" "?y \<le> ?x + ?x / 2 ^ 54"
      unfolding xn by (simp_all add: ring_distribs)
  qed
  note y = this
  have y0: "0 < ?y" by (rule near_pos [OF x0 y(1)])
  have "\<bar>dbl ?y - ?x\<bar> \<le> 3 * ?x / 2 ^ 53"
    using near_chain [OF x0 y dbl_near [OF y0]] .
  also have "\<dots> \<le> 3 * 2 ^ 40 / 2 ^ 53"
    by (rule divide_right_mono [OF mult_left_mono [OF x40]]) simp_all
  finally have near: "\<bar>dbl ?y - ?x\<bar> < 1 / 2000" by simp
  have "of_nat q * ?x = of_nat (p * n)" using q(1) by simp
  then have "of_nat q * dbl ?y - of_nat (p * n) = of_nat q * (dbl ?y - ?x)"
    by (simp only: right_diff_distrib)
  then have "\<bar>of_nat q * dbl ?y - of_nat (p * n)\<bar> = of_nat q * \<bar>dbl ?y - ?x\<bar>"
    by (simp only: abs_mult abs_of_nat)
  also have "\<dots> \<le> 1000 * \<bar>dbl ?y - ?x\<bar>" using qr by (intro mult_right_mono) simp_all
  also have "\<dots> < 1" using near by simp
  finally show ?thesis by (simp add: dmul_def)
qed

lemma dmul_whole:
  assumes "decimal p q c" and "0 < n" and "n < 2 ^ 40" and "q dvd p * n"
  shows "of_nat q * dmul (of_nat n) c = of_nat (p * n)"
proof -
  obtain m where m: "p * n = q * m" using assms(4) by blast
  have q: "0 < q" "0 < p" "p \<le> q" using assms(1) by (simp_all add: decimal_def)
  have m0: "0 < m" using m q assms(2) by (metis gr0I mult_is_0 nat_less_le)
  have "q * m \<le> q * n" using m q(3) by (metis mult_le_mono1)
  then have "m < 2 ^ 53" using q(1) assms(3) by simp
  have x: "of_nat n * (of_nat p / of_nat q) = (of_nat m :: rat)"
    using q(1) m by (simp add: field_simps flip: of_nat_mult)
  have "of_nat n * (of_nat p / of_nat q - of_nat p / of_nat q / 2 ^ 54) < of_nat n * c"
    using assms(1,2) by (intro mult_strict_left_mono; simp add: decimal_def)
  moreover have "of_nat n * c \<le> of_nat n * (of_nat p / of_nat q + of_nat p / of_nat q / 2 ^ 54)"
    using assms(1) by (intro mult_left_mono; simp add: decimal_def)
  moreover have "of_nat n * (of_nat p / of_nat q / 2 ^ 54) = (of_nat m / 2 ^ 54 :: rat)"
    unfolding x [symmetric] by (rule times_divide_eq_right)
  ultimately have "of_nat m - of_nat m / 2 ^ 54 < of_nat n * c" "of_nat n * c \<le> of_nat m + of_nat m / 2 ^ 54"
    unfolding right_diff_distrib distrib_left x by linarith+
  then have "dbl (of_nat n * c) = of_nat m"
    using dbl_whole [OF m0 \<open>m < 2 ^ 53\<close>] by blast
  then show ?thesis by (simp add: dmul_def m)
qed

text \<open>Comparing a count with a threshold is exact.\<close>

lemma dmul_le:
  assumes "decimal p q c" and "n < 2 ^ 40"
  shows "dmul (of_nat n) c \<le> of_nat k \<longleftrightarrow> p * n \<le> q * k"
    and "of_nat k \<le> dmul (of_nat n) c \<longleftrightarrow> q * k \<le> p * n"
proof -
  have q: "0 < (of_nat q :: rat)" using assms(1) by (simp add: decimal_def)
  let ?d = "of_nat q * dmul (of_nat n) c" and ?a = "of_nat (p * n) :: rat" and ?k = "of_nat (q * k) :: rat"
  have eq: "dmul (of_nat n) c \<le> of_nat k \<longleftrightarrow> ?d \<le> ?k" "of_nat k \<le> dmul (of_nat n) c \<longleftrightarrow> ?k \<le> ?d"
    using q by simp_all
  have "(?d \<le> ?k \<longleftrightarrow> p * n \<le> q * k) \<and> (?k \<le> ?d \<longleftrightarrow> q * k \<le> p * n)"
  proof (cases "n = 0 \<or> q dvd p * n")
    case True
    then have "?d = ?a"
      using dmul_whole [OF assms(1) _ assms(2)] by (cases "n = 0") (auto simp: dmul_def dbl_def)
    then show ?thesis by (simp only: of_nat_le_iff)
  next
    case False
    then have near: "\<bar>?d - ?a\<bar> < 1" using dmul_near [OF assms(1) _ assms(2)] by simp
    have "q * k \<noteq> p * n" using False by (metis dvd_triv_left)
    then consider "p * n + 1 \<le> q * k" | "q * k + 1 \<le> p * n" by linarith
    then show ?thesis
    proof cases
      case 1
      then have "?a + 1 \<le> ?k" by (metis of_nat_1 of_nat_add of_nat_mono)
      with near have "?d \<le> ?k" "\<not> ?k \<le> ?d" by linarith+
      with 1 show ?thesis by linarith
    next
      case 2
      then have "?k + 1 \<le> ?a" by (metis of_nat_1 of_nat_add of_nat_mono)
      with near have "?k \<le> ?d" "\<not> ?d \<le> ?k" by linarith+
      with 2 show ?thesis by linarith
    qed
  qed
  then show "dmul (of_nat n) c \<le> of_nat k \<longleftrightarrow> p * n \<le> q * k" "of_nat k \<le> dmul (of_nat n) c \<longleftrightarrow> q * k \<le> p * n"
    unfolding eq by blast+
qed

lemma dtrunc_dmul:
  assumes "decimal p q c" and "n < 2 ^ 40"
  shows "dtrunc (dmul (of_nat n) c) = p * n div q"
proof -
  let ?d = "dmul (of_nat n) c"
  have q: "0 < q" using assms(1) by (simp add: decimal_def)
  have "0 \<le> ?d" using dmul_le(2) [OF assms, of 0] by simp
  have le: "k \<le> nat \<lfloor>?d\<rfloor> \<longleftrightarrow> k \<le> p * n div q" for k
  proof -
    have "k \<le> nat \<lfloor>?d\<rfloor> \<longleftrightarrow> of_nat k \<le> ?d"
      using \<open>0 \<le> ?d\<close> by (simp add: le_nat_iff le_floor_iff)
    also have "\<dots> \<longleftrightarrow> k \<le> p * n div q"
      using dmul_le(2) [OF assms] q by (simp add: less_eq_div_iff_mult_less_eq mult.commute)
    finally show ?thesis .
  qed
  show ?thesis
    unfolding dtrunc_def using le [of "nat \<lfloor>?d\<rfloor>"] le [of "p * n div q"] by (intro antisym) simp_all
qed

section \<open>The constants of the code\<close>

lemma decimal_half: "decimal 1 2 (dbl (1 / 2))" by code_simp
lemma decimal_075: "decimal 3 4 (dbl (3 / 4))" by code_simp
lemma decimal_08: "decimal 4 5 (dbl (4 / 5))" by code_simp
lemma decimal_085: "decimal 17 20 (dbl (17 / 20))" by code_simp
lemma decimal_09: "decimal 9 10 (dbl (9 / 10))" by code_simp

section \<open>Percentages\<close>

text \<open>A share of \<open>k\<close> in \<open>n\<close> as a whole percentage: quotient, product and truncation.\<close>

definition percent :: "nat \<Rightarrow> nat \<Rightarrow> nat" where
  "percent k n = dtrunc (dmul (ddiv (of_nat k) (of_nat n)) 100)"

lemma percent_near:
  assumes "0 < k" and "0 < n"
  shows "\<bar>dmul (ddiv (of_nat k) (of_nat n)) 100 - 100 * (of_nat k / of_nat n)\<bar> \<le> 300 * (of_nat k / of_nat n) / 2 ^ 53"
proof -
  define r where "r = (of_nat k / of_nat n :: rat)"
  have r: "0 < r" using assms by (simp add: r_def)
  have near: "\<bar>dbl r - r\<bar> \<le> r / 2 ^ 53" by (rule dbl_near [OF r])
  then have "0 < dbl r * 100"
    using r unfolding abs_le_iff by simp
  then have "\<bar>dbl (dbl r * 100) - dbl r * 100\<bar> \<le> dbl r * 100 / 2 ^ 53" by (rule dbl_near)
  with near show ?thesis
    using r unfolding dmul_def ddiv_def r_def [symmetric] abs_le_iff by simp
qed

lemma percent_le:
  assumes "k \<le> n"
  shows "percent k n \<le> 101"
proof (cases "k = 0 \<or> n = 0")
  case True
  then show ?thesis by (auto simp: percent_def ddiv_def dmul_def dbl_def dtrunc_def)
next
  case False
  define r where "r = (of_nat k / of_nat n :: rat)"
  have "r \<le> 1" using assms False by (simp add: r_def)
  then have "dmul (ddiv (of_nat k) (of_nat n)) 100 \<le> 101"
    using percent_near [of k n] False unfolding r_def [symmetric] abs_le_iff by simp
  then show ?thesis unfolding percent_def dtrunc_def by linarith
qed

lemma percent_70_exact: "dmul (dbl (7 / 10)) 100 = 70"
  by code_simp

text \<open>Reaching seventy percent is decided exactly.\<close>

lemma percent_ge_70:
  assumes "0 < n" and "n < 2 ^ 40" and "k \<le> n"
  shows "70 \<le> percent k n \<longleftrightarrow> 7 * n \<le> 10 * k"
proof -
  define d where "d = dmul (ddiv (of_nat k) (of_nat n)) 100"
  define r where "r = (of_nat k / of_nat n :: rat)"
  have n: "0 < (of_nat n :: rat)" "(of_nat n :: rat) \<le> 2 ^ 40"
    using assms(1) of_nat_mono [of n "2 ^ 40", where ?'a = rat] assms(2) by simp_all
  have pc: "70 \<le> percent k n \<longleftrightarrow> 70 \<le> d"
    unfolding percent_def dtrunc_def d_def [symmetric] by linarith
  have err: "\<bar>d - 100 * r\<bar> \<le> 300 * r / 2 ^ 53" if "0 < r"
    unfolding d_def r_def by (rule percent_near) (use that assms(1) in \<open>auto simp: r_def intro: gr0I\<close>)
  have r1: "r \<le> 1" "0 \<le> r" using assms(3) n(1) by (simp_all add: r_def)
  have inv: "1 / 2 ^ 40 \<le> 1 / (of_nat n :: rat)" using n by (simp add: field_simps)
  consider "10 * k = 7 * n" | "7 * n + 1 \<le> 10 * k" | "10 * k + 1 \<le> 7 * n" by linarith
  then show ?thesis
  proof cases
    case 1
    then have "10 * (of_nat k :: rat) = 7 * of_nat n" by (metis of_nat_mult of_nat_numeral)
    then have "r = 7 / 10" using n(1) by (simp add: r_def field_simps)
    then have "d = 70" unfolding d_def ddiv_def r_def [symmetric] by (simp only: percent_70_exact)
    with 1 pc show ?thesis by simp
  next
    case 2
    then have "7 * (of_nat n :: rat) + 1 \<le> 10 * of_nat k"
      using of_nat_mono [of "7 * n + 1" "10 * k", where ?'a = rat] 2 by simp
    then have "(7 * of_nat n + 1) / of_nat n \<le> 10 * (of_nat k :: rat) / of_nat n"
      using n(1) by (intro divide_right_mono) simp_all
    then have "7 / 10 + 1 / 10 * (1 / of_nat n) \<le> r" using n(1) by (simp add: r_def add_divide_distrib)
    then have lo: "7 / 10 + 1 / 10 * (1 / 2 ^ 40) \<le> r" using inv by linarith
    then have "0 < r" by simp
    then have "70 \<le> d" using err lo r1 unfolding abs_le_iff by simp
    with 2 pc show ?thesis by simp
  next
    case 3
    then have "10 * (of_nat k :: rat) + 1 \<le> 7 * of_nat n"
      using of_nat_mono [of "10 * k + 1" "7 * n", where ?'a = rat] 3 by simp
    then have "(10 * (of_nat k :: rat) + 1) / of_nat n \<le> 7 * of_nat n / of_nat n"
      using n(1) by (intro divide_right_mono) simp_all
    then have "r \<le> 7 / 10 - 1 / 10 * (1 / of_nat n)" using n(1) by (simp add: r_def add_divide_distrib)
    then have hi: "r \<le> 7 / 10 - 1 / 10 * (1 / 2 ^ 40)" using inv by linarith
    have "d < 70"
    proof (cases "r = 0")
      case True
      then show ?thesis unfolding d_def ddiv_def r_def [symmetric] by (simp add: dmul_def dbl_def)
    next
      case False
      then show ?thesis using err hi r1 unfolding abs_le_iff by simp
    qed
    with 3 pc show ?thesis by simp
  qed
qed

end
