(* ===== verification/Global_Wait.thy ===== *)
theory Global_Wait
  imports Ord_Map Double_Arith
begin

text \<open>
  Requests that wait for the answers of other nodes, \<open>common/global_data.cpp\<close>. The table maps
  a message identifier to the nodes that may still answer and to the answers so far. The
  mutexes make every operation on an entry atomic; a waiting call is interleaved with the
  answers that arrive before it wakes up.
\<close>

record GlobalData =
  retNum :: nat
  timeOutSec :: nat
  gdata :: "string list"
  res_ids :: "string list"

type_synonym waits = "(string, GlobalData) omap"

text \<open>
  \<open>msgId\<close> is the hash of the current time in microseconds; \<open>insert\<close> keeps an entry that is
  already there.
\<close>

definition CreateWait :: "nat \<Rightarrow> nat \<Rightarrow> string \<Rightarrow> waits \<Rightarrow> waits" where
  "CreateWait tmo n msgId g =
     (if om_find g msgId \<noteq> None then g
      else om_insert msgId \<lparr>retNum = n, timeOutSec = tmo, gdata = [], res_ids = []\<rparr> g)"

definition AddResNode :: "string \<Rightarrow> string \<Rightarrow> waits \<Rightarrow> waits \<times> bool" where
  "AddResNode msgId resId g = (case om_find g msgId of
     None \<Rightarrow> (g, False)
   | Some d \<Rightarrow> (om_insert msgId (d\<lparr>res_ids := List.insert resId (res_ids d)\<rparr>) g, True))"

definition AddWaitData :: "string \<Rightarrow> string \<Rightarrow> string \<Rightarrow> waits \<Rightarrow> waits \<times> bool" where
  "AddWaitData msgId resId data g = (case om_find g msgId of
     None \<Rightarrow> (g, False)
   | Some d \<Rightarrow>
       if resId \<notin> set (res_ids d) then (g, False)
       else (om_insert msgId (d\<lparr>res_ids := removeAll resId (res_ids d), gdata := gdata d @ [data]\<rparr>) g, True))"

definition arrive :: "(string \<times> string \<times> string) list \<Rightarrow> waits \<Rightarrow> waits" where
  "arrive calls g = fold (\<lambda>(m, r, d) g. fst (AddWaitData m r d g)) calls g"

text \<open>
  \<open>during\<close> are the answers that arrive while the call waits, which it does only when there are
  too few at its start.
\<close>

definition WaitData :: "string \<Rightarrow> (string \<times> string \<times> string) list \<Rightarrow> waits \<Rightarrow> waits \<times> bool \<times> string list" where
  "WaitData msgId during g = (case om_find g msgId of
     None \<Rightarrow> (g, False, [])
   | Some d0 \<Rightarrow>
       let g1 = (if length (gdata d0) < retNum d0 then arrive during g else g);
           d1 = (case om_find g1 msgId of None \<Rightarrow> d0 | Some d \<Rightarrow> d)
       in (om_erase msgId g1, \<not> length (gdata d1) < retNum d1, gdata d1))"

section \<open>One answer per node\<close>

text \<open>What counts: the first answer of every node that was asked.\<close>

fun first_answers :: "string set \<Rightarrow> (string \<times> string) list \<Rightarrow> string list" where
  "first_answers N [] = []"
| "first_answers N ((r, d) # as) =
     (if r \<in> N then d # first_answers (N - {r}) as else first_answers N as)"

abbreviation answers_to :: "string \<Rightarrow> (string \<times> string \<times> string) list \<Rightarrow> (string \<times> string) list" where
  "answers_to msgId calls \<equiv> map snd (filter (\<lambda>c. fst c = msgId) calls)"

lemma length_first_answers: "finite N \<Longrightarrow> length (first_answers N as) \<le> card N"
proof (induction N as rule: first_answers.induct)
  case (2 N r d as)
  show ?case
  proof (cases "r \<in> N")
    case True
    with 2 have "length (first_answers (N - {r}) as) \<le> card N - 1" by simp
    moreover have "0 < card N" using True 2(3) by (auto simp: card_gt_0_iff)
    ultimately show ?thesis using True by simp
  qed (use 2 in simp)
qed simp

text \<open>An answer that counts was given by a node that was asked.\<close>

lemma first_answers_sender: "d \<in> set (first_answers N as) \<Longrightarrow> \<exists>r \<in> N. (r, d) \<in> set as"
  by (induction N as rule: first_answers.induct) (auto split: if_splits)

lemma arrive_find:
  assumes "om_find g msgId = Some d"
  shows "\<exists>d'. om_find (arrive calls g) msgId = Some d' \<and> retNum d' = retNum d \<and>
    gdata d' = gdata d @ first_answers (set (res_ids d)) (answers_to msgId calls)"
  using assms
proof (induction calls arbitrary: g d)
  case Nil
  then show ?case by (simp add: arrive_def)
next
  case (Cons c calls)
  obtain m r x where c: "c = (m, r, x)" by (cases c)
  have step: "arrive (c # calls) g = arrive calls (fst (AddWaitData m r x g))"
    by (simp add: arrive_def c)
  show ?case
  proof (cases "m = msgId \<and> r \<in> set (res_ids d)")
    case True
    let ?d = "d\<lparr>res_ids := removeAll r (res_ids d), gdata := gdata d @ [x]\<rparr>"
    have "om_find (fst (AddWaitData m r x g)) msgId = Some ?d"
      using True Cons.prems by (simp add: AddWaitData_def om_find_insert)
    from Cons.IH [OF this] show ?thesis
      unfolding step using True by (simp add: c)
  next
    case False
    then have "om_find (fst (AddWaitData m r x g)) msgId = Some d"
      using Cons.prems by (auto simp: AddWaitData_def om_find_insert split: option.splits)
    from Cons.IH [OF this] show ?thesis
      unfolding step using False by (auto simp: c)
  qed
qed

lemma ask_find:
  "om_find g msgId = Some d \<Longrightarrow>
   \<exists>d'. om_find (fold (\<lambda>r g. fst (AddResNode msgId r g)) nodes g) msgId = Some d' \<and> retNum d' = retNum d \<and>
     gdata d' = gdata d \<and> set (res_ids d') = set (res_ids d) \<union> set nodes"
proof (induction nodes arbitrary: g d)
  case (Cons r nodes)
  have "om_find (fst (AddResNode msgId r g)) msgId = Some (d\<lparr>res_ids := List.insert r (res_ids d)\<rparr>)"
    using Cons.prems by (simp add: AddResNode_def om_find_insert)
  from Cons.IH [OF this] show ?case by auto
qed simp

text \<open>A request: create the wait, ask the nodes, let answers arrive, collect them.\<close>

definition request :: "nat \<Rightarrow> nat \<Rightarrow> string \<Rightarrow> string list \<Rightarrow> (string \<times> string \<times> string) list \<Rightarrow>
    (string \<times> string \<times> string) list \<Rightarrow> waits \<Rightarrow> waits \<times> bool \<times> string list" where
  "request tmo n msgId nodes early late g =
     WaitData msgId late (arrive early (fold (\<lambda>r g. fst (AddResNode msgId r g)) nodes (CreateWait tmo n msgId g)))"

text \<open>A request that wants no answer does not wait.\<close>

lemma request_zero:
  assumes "om_find g msgId = None"
  shows "snd (request tmo 0 msgId nodes [] late g) = (True, [])"
proof -
  have "om_find (CreateWait tmo 0 msgId g) msgId = Some \<lparr>retNum = 0, timeOutSec = tmo, gdata = [], res_ids = []\<rparr>"
    using assms by (simp add: CreateWait_def om_find_insert)
  from ask_find [OF this, of nodes] show ?thesis
    by (auto simp: request_def WaitData_def arrive_def Let_def)
qed

text \<open>
  C20: A request gets, in the order of arrival, the first answer of each node it asked and of no
  other, whatever else arrives: late answers count only if those before the wait were too
  few. It succeeds exactly when it got as many as it wanted, and its entry is gone afterwards.
\<close>

theorem request_first_answers:
  assumes "om_find g msgId = None"
  shows "case request tmo n msgId nodes early late g of (g', ok, data) \<Rightarrow>
    (let before = first_answers (set nodes) (answers_to msgId early) in
      data = (if length before < n then first_answers (set nodes) (answers_to msgId (early @ late)) else before)) \<and>
    length data \<le> card (set nodes) \<and> (ok \<longleftrightarrow> n \<le> length data) \<and> om_find g' msgId = None"
proof -
  let ?g0 = "CreateWait tmo n msgId g"
  let ?g1 = "fold (\<lambda>r g. fst (AddResNode msgId r g)) nodes ?g0"
  let ?g2 = "arrive early ?g1"
  have g0: "om_find ?g0 msgId = Some \<lparr>retNum = n, timeOutSec = tmo, gdata = [], res_ids = []\<rparr>"
    using assms by (simp add: CreateWait_def om_find_insert)
  obtain d1 where d1: "om_find ?g1 msgId = Some d1" "retNum d1 = n" "gdata d1 = []" "set (res_ids d1) = set nodes"
    using ask_find [OF g0, of nodes] by auto
  obtain d2 where d2: "om_find ?g2 msgId = Some d2" "retNum d2 = n"
      "gdata d2 = first_answers (set nodes) (answers_to msgId early)"
    using arrive_find [OF d1(1), of early] d1 by auto
  have "arrive late ?g2 = arrive (early @ late) ?g1"
    by (simp add: arrive_def)
  then obtain d3 where d3: "om_find (arrive late ?g2) msgId = Some d3" "retNum d3 = n"
      "gdata d3 = first_answers (set nodes) (answers_to msgId (early @ late))"
    using arrive_find [OF d1(1), of "early @ late"] d1 by auto
  show ?thesis
    unfolding request_def WaitData_def
    by (simp add: d2 d3 Let_def om_find_erase length_first_answers not_less del: filter_append)
qed

theorem request_first_answers_witness:
  "snd (snd (request 10 2 ''id'' [''n1'', ''n2''] [(''id'', ''n1'', ''a''), (''id'', ''n1'', ''b''), (''id'', ''n3'', ''c'')]
     [(''id'', ''n2'', ''d'')] [])) = [''a'', ''d'']"
  using request_first_answers [where g = "[]" and msgId = "''id''" and tmo = 10 and n = 2 and nodes = "[''n1'', ''n2'']"
      and early = "[(''id'', ''n1'', ''a''), (''id'', ''n1'', ''b''), (''id'', ''n3'', ''c'')]" and late = "[(''id'', ''n2'', ''d'')]"]
  by (simp split: prod.splits)

end
