(* ===== verification/Block_Store.thy ===== *)
theory Block_Store
  imports Tx_Conflict Cyclic_List Global_Wait
begin

text \<open>
  The block flow of \<open>ca/block_stroage.cpp\<close>: collecting the signatures of a new block and
  composing the final block, asking other nodes for the hash before a height, and rebuilding a
  block from the failures other nodes report. Parsing and serialising of blocks, the proof of
  the verifiable random function, address derivation and the clock are arguments; thresholds
  are computed in double precision as the code does.
\<close>

section \<open>Collecting signatures\<close>

record 'v BlockMsg =
  bmsg_block :: string
  bmsg_vrfinfo :: "'v list"
  bmsg_txvrfinfo :: "'v list"

type_synonym 'v block_cnt = "(string, 'v BlockMsg list) omap"

datatype flow_error = SignIndex | VectorAt | RingError mem_error | EndIterator

definition AddBlock :: "(string \<Rightarrow> CBlock) \<Rightarrow> 'v BlockMsg \<Rightarrow> 'v block_cnt \<Rightarrow> 'v block_cnt" where
  "AddBlock parse msg cnt =
     (let hash = blk_hash (parse (bmsg_block msg))
      in if om_find cnt hash = None then om_insert hash [msg] cnt else cnt)"

text \<open>The second signature is read for the log before the number of signatures is checked.\<close>

definition UpdateBlock :: "(string \<Rightarrow> CBlock) \<Rightarrow> 'v BlockMsg \<Rightarrow> 'v block_cnt \<Rightarrow> (flow_error, 'v block_cnt \<times> int) result" where
  "UpdateBlock parse msg cnt =
     (let block = parse (bmsg_block msg) in
      if length (blk_sign block) < 2 then Inl SignIndex
      else if length (blk_sign block) \<noteq> 2 then Inr (cnt, -1)
      else Inr (case om_find cnt (blk_hash block) of
          Some msgs \<Rightarrow> om_insert (blk_hash block) (msgs @ [msg]) cnt
        | None \<Rightarrow> cnt, 0))"

definition Remove_block :: "string \<Rightarrow> 'v block_cnt \<Rightarrow> 'v block_cnt" where
  "Remove_block hash cnt = om_erase hash cnt"

text \<open>
  \<open>vrf\<close> gives the random number of the proof for the block hash, or an error code. The
  messages after the first form a ring, from which \<open>kConsensus - 1\<close> neighbours are taken.
\<close>

definition pick_messages :: "nat \<Rightarrow> rat \<Rightarrow> 'm list \<Rightarrow> (mem_error, 'm list) result" where
  "pick_messages kConsensus randNum secondMsg =
     bindE (foldlE push_back new_clist secondMsg) (\<lambda>list.
       let randPos = int (dtrunc (dmul (of_int (m_size list)) randNum));
           endMsgpos = randPos - int (kConsensus div 2)
       in mapE (\<lambda>j. subscript list (endMsgpos + int j)) [0..<kConsensus - 1])"

fun add_signs :: "(string \<Rightarrow> CBlock) \<Rightarrow> 'v BlockMsg list \<Rightarrow> CBlock \<Rightarrow> CBlock" where
  "add_signs parse [] endBlock = endBlock"
| "add_signs parse (msg # msgs) endBlock =
     (let block = parse (bmsg_block msg) in
      add_signs parse msgs
        (if length (blk_sign block) \<noteq> 2 then endBlock
         else endBlock\<lparr>blk_sign := blk_sign endBlock @ [blk_sign block ! 1]\<rparr>))"

definition ComposeEndBlockmsg :: "(string \<Rightarrow> CBlock) \<Rightarrow> (CBlock \<Rightarrow> string) \<Rightarrow> nat \<Rightarrow> (string \<Rightarrow> int + rat) \<Rightarrow>
    'v BlockMsg list \<Rightarrow> bool \<Rightarrow> (flow_error, int + 'v BlockMsg) result" where
  "ComposeEndBlockmsg parse ser kConsensus vrf msgVec isVrf = (case msgVec of
     [] \<Rightarrow> Inl VectorAt
   | first # secondMsg \<Rightarrow>
       let picked = (if isVrf then (case vrf (blk_hash (parse (bmsg_block first))) of
               Inl e \<Rightarrow> Inr (Inl e)
             | Inr randNum \<Rightarrow> (case pick_messages kConsensus randNum secondMsg of
                 Inl e \<Rightarrow> Inl (RingError e)
               | Inr targetMsg \<Rightarrow> if length targetMsg \<noteq> kConsensus - 1 then Inr (Inl (-3)) else Inr (Inr targetMsg)))
             else Inr (Inr [])) in
       bindE picked (\<lambda>r. case r of
           Inl e \<Rightarrow> Inr (Inl e)
         | Inr vrfMsgVec \<Rightarrow>
             let endBlock = add_signs parse vrfMsgVec (parse (bmsg_block first)) in
             if blk_sign endBlock = [] then Inl SignIndex
             else Inr (Inr \<lparr>bmsg_block = ser endBlock, bmsg_vrfinfo = [], bmsg_txvrfinfo = []\<rparr>)))"

definition VerifyBlockFlowSignNode :: "(string \<Rightarrow> CBlock) \<Rightarrow> (string \<Rightarrow> string) \<Rightarrow> string \<Rightarrow> (string \<Rightarrow> string list) \<Rightarrow> 'v BlockMsg \<Rightarrow> int" where
  "VerifyBlockFlowSignNode parse GenerateAddr defaultaddr getVerifyNodes blockMsg =
     (let block = parse (bmsg_block blockMsg);
          cacheNodes = getVerifyNodes (blk_hash block);
          verifyNodes = filter (\<lambda>a. a \<noteq> defaultaddr) (map (\<lambda>s. GenerateAddr (sign_pub s)) (blk_sign block))
      in if list_all (\<lambda>n. n \<in> set cacheNodes) verifyNodes then 0 else -1)"

section \<open>Reports about a broadcast block\<close>

datatype BroadcastType = verifyBroadcast | level1Broadcast

record BlockStatus =
  bst_blockHash :: string
  bst_status :: int
  bst_txStatus :: "string list"
  bst_id :: string

record 'v BlockStatusWrapper =
  bsw_block :: CBlock
  broadcastType :: BroadcastType
  verifyNodesNumber :: nat
  level1NodesNumber :: nat
  blockStatusList :: "BlockStatus list"
  verifyNodes :: "string list"
  level1Nodes :: "string list"
  vrfMap :: "(string, 'v) omap"
  txvrfMap :: "(string, 'v) omap"

type_synonym 'v status_map = "(string, 'v BlockStatusWrapper) omap"

text \<open>The wrapper of an aggregate initialisation with hash and block only.\<close>

definition new_wrapper :: "CBlock \<Rightarrow> 'v BlockStatusWrapper" where
  "new_wrapper block = \<lparr>bsw_block = block, broadcastType = verifyBroadcast, verifyNodesNumber = 0, level1NodesNumber = 0,
     blockStatusList = [], verifyNodes = [], level1Nodes = [], vrfMap = [], txvrfMap = []\<rparr>"

definition failureRate :: rat where
  "failureRate = dbl (3 / 4)"

section \<open>The periodic check\<close>

text \<open>
  One entry of the loop: what is broadcast, the status table, and whether the entry is dropped.
\<close>

record 'v flow_env =
  fe_parse :: "string \<Rightarrow> CBlock"
  fe_ser :: "CBlock \<Rightarrow> string"
  fe_kConsensus :: nat
  fe_vrf :: "string \<Rightarrow> int + rat"
  fe_verify :: "'v BlockMsg \<Rightarrow> int"
  fe_kInitBlockVersion :: u32

definition kTenSecond :: int where
  "kTenSecond = 1000000 * 10"

definition block_check_item :: "'v flow_env \<Rightarrow> int \<Rightarrow> 'v BlockMsg list \<Rightarrow> 'v status_map \<Rightarrow>
    (flow_error, 'v BlockMsg list \<times> 'v status_map \<times> bool) result" where
  "block_check_item env nowTime msgs st = (case msgs of
     [] \<Rightarrow> Inl VectorAt
   | first # _ \<Rightarrow>
       let temBlock = fe_parse env (bmsg_block first);
           lagTime = \<bar>nowTime - sint (blk_time temBlock)\<bar> in
       if length msgs \<ge> fe_kConsensus env \<and> lagTime \<le> kTenSecond then
         bindE (ComposeEndBlockmsg (fe_parse env) (fe_ser env) (fe_kConsensus env) (fe_vrf env) msgs True) (\<lambda>r. case r of
             Inl _ \<Rightarrow> Inr ([], st, True)
           | Inr outMsg \<Rightarrow>
               let block = fe_parse env (bmsg_block outMsg) in
               if fe_verify env outMsg = 0 \<and> blk_version block \<ge> fe_kInitBlockVersion env
               then Inr ([outMsg], if om_find st (blk_hash block) = None then om_insert (blk_hash block) (new_wrapper block) st else st, True)
               else Inr ([], st, True))
       else Inr ([], st, lagTime > kTenSecond))"

fun block_check_loop :: "'v flow_env \<Rightarrow> int \<Rightarrow> 'v block_cnt \<Rightarrow> 'v status_map \<Rightarrow>
    (flow_error, 'v BlockMsg list \<times> 'v status_map \<times> string list) result" where
  "block_check_loop env nowTime [] st = Inr ([], st, [])"
| "block_check_loop env nowTime ((h, msgs) # items) st =
     bindE (block_check_item env nowTime msgs st) (\<lambda>(out, st1, drp).
     bindE (block_check_loop env nowTime items st1) (\<lambda>(outs, st2, keys).
       Inr (out @ outs, st2, if drp then blk_hash (fe_parse env (bmsg_block (hd msgs))) # keys else keys)))"

definition BlockCheck :: "'v flow_env \<Rightarrow> int \<Rightarrow> 'v block_cnt \<Rightarrow> 'v status_map \<Rightarrow>
    (flow_error, 'v BlockMsg list \<times> 'v status_map \<times> 'v block_cnt) result" where
  "BlockCheck env nowTime cnt st =
     bindE (block_check_loop env nowTime cnt st) (\<lambda>(outs, st', hashKey). Inr (outs, st', fold Remove_block hashKey cnt))"

section \<open>Counting reports\<close>

text \<open>\<open>_blockStatusMap[hash] = w\<close> with the wrapper already there.\<close>

definition CheckData :: "u64 \<Rightarrow> BlockStatus \<Rightarrow> 'v status_map \<Rightarrow> 'v status_map \<times> int" where
  "CheckData nowTime bs st =
     (if bst_status bs \<ge> 0 then (st, -1)
      else case om_find st (bst_blockHash bs) of
        None \<Rightarrow> (st, -2)
      | Some w \<Rightarrow>
          let timeout = (if nowTime > blk_time (bsw_block w) + 5 * 1000000 then -7 else 0) in
          case broadcastType w of
            verifyBroadcast \<Rightarrow>
              if bst_id bs \<notin> set (verifyNodes w) then (st, -3)
              else let st' = om_insert (bst_blockHash bs) (w\<lparr>verifyNodes := removeAll (bst_id bs) (verifyNodes w)\<rparr>) st in
                if length (blockStatusList w) > verifyNodesNumber w then (st', -4) else (st', timeout)
          | level1Broadcast \<Rightarrow>
              if bst_id bs \<notin> set (level1Nodes w) then (st, -5)
              else let st' = om_insert (bst_blockHash bs) (w\<lparr>level1Nodes := removeAll (bst_id bs) (level1Nodes w)\<rparr>) st in
                if of_nat (length (blockStatusList w)) > dmul (of_nat (level1NodesNumber w)) failureRate then (st', -6) else (st', timeout))"

fun collect_vrfs :: "(CTransaction \<Rightarrow> TransactionType) \<Rightarrow> (CTransaction \<Rightarrow> vrfAgentType) \<Rightarrow> (string \<Rightarrow> 'v option) \<Rightarrow> (string \<Rightarrow> 'v option) \<Rightarrow>
    CTransaction list \<Rightarrow> (string, 'v) omap \<times> (string, 'v) omap \<Rightarrow> (string, 'v) omap \<times> (string, 'v) omap" where
  "collect_vrfs T agent getVrfInfo getTxVrfInfo [] maps = maps"
| "collect_vrfs T agent getVrfInfo getTxVrfInfo (tx # txs) (vm, tm) =
     (if T tx \<noteq> kTransactionType_Tx then collect_vrfs T agent getVrfInfo getTxVrfInfo txs (vm, tm)
      else if agent tx = vrfAgentType_defalut \<or> agent tx = vrfAgentType_local
      then collect_vrfs T agent getVrfInfo getTxVrfInfo txs (vm, tm)
      else case getVrfInfo (tx_hash tx) of
        None \<Rightarrow> collect_vrfs T agent getVrfInfo getTxVrfInfo txs (vm, tm)
      | Some v \<Rightarrow>
          let vm1 = om_insert (tx_hash tx) v vm in
          case getTxVrfInfo (tx_hash tx) of
            None \<Rightarrow> collect_vrfs T agent getVrfInfo getTxVrfInfo txs (vm1, tm)
          | Some tv \<Rightarrow> collect_vrfs T agent getVrfInfo getTxVrfInfo txs (vm1, om_insert (tx_hash tx) tv tm))"

text \<open>\<open>KSend_node_threshold\<close> and \<open>kConsensus\<close> are constants of the prebuilt library.\<close>

definition AddBlockStatus_verify :: "(CTransaction \<Rightarrow> TransactionType) \<Rightarrow> (CTransaction \<Rightarrow> vrfAgentType) \<Rightarrow> (string \<Rightarrow> 'v option) \<Rightarrow> (string \<Rightarrow> 'v option) \<Rightarrow>
    int \<Rightarrow> int \<Rightarrow> string \<Rightarrow> CBlock \<Rightarrow> string list \<Rightarrow> 'v \<Rightarrow> 'v status_map \<Rightarrow> 'v status_map" where
  "AddBlockStatus_verify T agent getVrfInfo getTxVrfInfo KSend_node_threshold kConsensus blockHash block nodes vrf st =
     (if om_find st blockHash \<noteq> None then st
      else case collect_vrfs T agent getVrfInfo getTxVrfInfo (blk_txs block) ([], []) of (vm, tm) \<Rightarrow>
        om_insert blockHash ((new_wrapper block)\<lparr>
          verifyNodesNumber := nat ((KSend_node_threshold - kConsensus + 2) mod 2 ^ 32),
          verifyNodes := remdups nodes, vrfMap := om_insert blockHash vrf vm, txvrfMap := tm\<rparr>) st)"

definition AddBlockStatus_level1 :: "string \<Rightarrow> CBlock \<Rightarrow> string list \<Rightarrow> 'v status_map \<Rightarrow> 'v status_map" where
  "AddBlockStatus_level1 blockHash block nodes st = (case om_find st blockHash of
     None \<Rightarrow> st
   | Some w \<Rightarrow> om_insert blockHash (w\<lparr>bsw_block := block, broadcastType := level1Broadcast,
       level1NodesNumber := length nodes, blockStatusList := [],
       level1Nodes := fold List.insert nodes (level1Nodes w)\<rparr>) st)"

text \<open>A report is recorded; the result says whether the rebuilding task is submitted.\<close>

definition AddBlockStatus :: "u64 \<Rightarrow> BlockStatus \<Rightarrow> 'v status_map \<Rightarrow> 'v status_map \<times> bool" where
  "AddBlockStatus nowTime bs st =
     (case CheckData nowTime bs st of (st1, ret) \<Rightarrow>
        if ret \<noteq> 0 then (st1, False)
        else case om_find st1 (bst_blockHash bs) of
          None \<Rightarrow> (st1, False)
        | Some w \<Rightarrow>
            let w' = w\<lparr>blockStatusList := blockStatusList w @ [bs]\<rparr>; n = length (blockStatusList w') in
            (om_insert (bst_blockHash bs) w' st1,
             case broadcastType w' of
               level1Broadcast \<Rightarrow> n = dtrunc (dmul (of_nat (level1NodesNumber w')) failureRate)
             | verifyBroadcast \<Rightarrow> n = verifyNodesNumber w'))"

definition ExpiredDeleteCheck :: "u64 \<Rightarrow> 'v status_map \<Rightarrow> 'v status_map" where
  "ExpiredDeleteCheck nowTime st = filter (\<lambda>e. \<not> nowTime \<ge> blk_time (bsw_block (snd e)) + 15 * 1000000) st"

section \<open>Rebuilding a block\<close>

definition FailThreshold :: "'v BlockStatusWrapper \<Rightarrow> nat" where
  "FailThreshold w = (case broadcastType w of
     verifyBroadcast \<Rightarrow> dtrunc (dmul (of_nat (verifyNodesNumber w)) failureRate)
   | level1Broadcast \<Rightarrow> dtrunc (dmul (of_nat (level1NodesNumber w)) failureRate))"

text \<open>Every entry of every report counts, also when one report lists a transaction twice.\<close>

definition txsStatus :: "BlockStatus list \<Rightarrow> (string, nat) omap" where
  "txsStatus statuses = fold (\<lambda>h m. om_insert h (case om_find m h of None \<Rightarrow> 1 | Some n \<Rightarrow> n + 1) m)
     (concat (map bst_txStatus statuses)) []"

record 'v rebuild =
  rb_txs :: "CTransaction list"
  rb_vrfinfo :: "'v list"
  rb_txvrfinfo :: "'v list"
  rb_txvrfMap :: "(string, 'v) omap"

text \<open>
  The loop over the transactions of the old block; the flag says that a contract transaction
  made the code give up. \<open>setHash\<close> writes the transaction hash into the proof, in the table of
  the block itself.
\<close>

fun rebuild_txs :: "(CTransaction \<Rightarrow> TransactionType) \<Rightarrow> (CTransaction \<Rightarrow> bool) \<Rightarrow> (CTransaction \<Rightarrow> vrfAgentType) \<Rightarrow>
    (string \<Rightarrow> 'v \<Rightarrow> 'v) \<Rightarrow> 'v BlockStatusWrapper \<Rightarrow> CTransaction list \<Rightarrow> 'v rebuild \<Rightarrow> 'v rebuild \<times> bool" where
  "rebuild_txs T timedOut agent setHash w [] b = (b, False)"
| "rebuild_txs T timedOut agent setHash w (tx # txs) b =
     (let counts = txsStatus (blockStatusList w) in
      if T tx \<noteq> kTransactionType_Tx then rebuild_txs T timedOut agent setHash w txs b
      else if tx_type tx = kTxTypeCallContract \<or> tx_type tx = kTxTypeDeployContract then (b, True)
      else if (case om_find counts (tx_hash tx) of None \<Rightarrow> False | Some n \<Rightarrow> n \<ge> FailThreshold w)
      then rebuild_txs T timedOut agent setHash w txs b
      else if timedOut tx then rebuild_txs T timedOut agent setHash w txs b
      else if agent tx = vrfAgentType_defalut \<or> agent tx = vrfAgentType_local
      then rebuild_txs T timedOut agent setHash w txs (b\<lparr>rb_txs := rb_txs b @ [tx]\<rparr>)
      else case om_find (vrfMap w) (tx_hash tx) of
        None \<Rightarrow> rebuild_txs T timedOut agent setHash w txs b
      | Some v \<Rightarrow>
          let b1 = b\<lparr>rb_vrfinfo := rb_vrfinfo b @ [v]\<rparr> in
          case om_find (rb_txvrfMap b1) (tx_hash tx) of
            None \<Rightarrow> rebuild_txs T timedOut agent setHash w txs b1
          | Some tv \<Rightarrow>
              let tv' = setHash (tx_hash tx) tv in
              rebuild_txs T timedOut agent setHash w txs
                (b1\<lparr>rb_txvrfMap := om_insert (tx_hash tx) tv' (rb_txvrfMap b1), rb_txvrfinfo := rb_txvrfinfo b1 @ [tv'], rb_txs := rb_txs b1 @ [tx]\<rparr>))"

text \<open>\<open>merkle\<close> and \<open>hash\<close> compute the root and the block hash, \<open>version\<close> is the current one.\<close>

definition InitNewBlock :: "u32 \<Rightarrow> (CBlock \<Rightarrow> string) \<Rightarrow> (CBlock \<Rightarrow> string) \<Rightarrow> u64 \<Rightarrow> CBlock \<Rightarrow> CBlock \<Rightarrow> CBlock" where
  "InitNewBlock version merkle hash now oldBlock newBlock =
     (let b = newBlock\<lparr>blk_version := version, blk_time := now, blk_height := blk_height oldBlock, blk_prevhash := blk_prevhash oldBlock\<rparr>;
          b1 = b\<lparr>blk_merkleroot := merkle b\<rparr>
      in b1\<lparr>blk_hash := hash b1\<rparr>)"

text \<open>
  The task that rebuilds a block. \<open>_blockStatusMap[blockHash]\<close> inserts an entry without nodes,
  reports and transactions when the block has been removed meanwhile. \<open>signs\<close> says whether the
  message can be signed; the result is the message handed to \<open>DoHandleBlock\<close>.
\<close>

definition empty_block :: CBlock where
  "empty_block = \<lparr>blk_version = 0, blk_hash = [], blk_prevhash = [], blk_height = 0, blk_time = 0, blk_merkleroot = [], blk_sign = [], blk_txs = [], blk_data = []\<rparr>"

definition NewbuildBlock :: "(CTransaction \<Rightarrow> TransactionType) \<Rightarrow> (CTransaction \<Rightarrow> bool) \<Rightarrow> (CTransaction \<Rightarrow> vrfAgentType) \<Rightarrow>
    (string \<Rightarrow> 'v \<Rightarrow> 'v) \<Rightarrow> u32 \<Rightarrow> (CBlock \<Rightarrow> string) \<Rightarrow> (CBlock \<Rightarrow> string) \<Rightarrow> (CBlock \<Rightarrow> string) \<Rightarrow> ('v BlockMsg \<Rightarrow> bool) \<Rightarrow> u64 \<Rightarrow>
    string \<Rightarrow> 'v status_map \<Rightarrow> 'v status_map \<times> 'v BlockMsg option" where
  "NewbuildBlock T timedOut agent setHash version merkle hash ser signs now blockHash st =
     (let w = (case om_find st blockHash of None \<Rightarrow> new_wrapper empty_block | Some w \<Rightarrow> w); oldBlock = bsw_block w in
      case rebuild_txs T timedOut agent setHash w (blk_txs oldBlock) \<lparr>rb_txs = [], rb_vrfinfo = [], rb_txvrfinfo = [], rb_txvrfMap = txvrfMap w\<rparr> of
        (b, gaveUp) \<Rightarrow>
          (om_insert blockHash (w\<lparr>txvrfMap := rb_txvrfMap b\<rparr>) st,
           if gaveUp \<or> rb_txs b = [] then None
           else let newBlock = InitNewBlock version merkle hash now oldBlock
                      (oldBlock\<lparr>blk_txs := rb_txs b, blk_sign := [], blk_hash := []\<rparr>);
                    msg = \<lparr>bmsg_block = ser newBlock, bmsg_vrfinfo = rb_vrfinfo b, bmsg_txvrfinfo = rb_txvrfinfo b\<rparr>
             in if signs msg then Some msg else None))"

section \<open>The hash before a height\<close>

text \<open>
  \<open>'f\<close> are the futures. Trimming the table reads the entry at its end, which is not one.
\<close>

definition GetPrehash :: "u64 \<Rightarrow> (u64, 'f) omap \<Rightarrow> 'f option" where
  "GetPrehash height m = om_find m height"

definition IsSeekTask :: "u64 \<Rightarrow> (u64, 'f) omap \<Rightarrow> bool" where
  "IsSeekTask seekHeight m \<longleftrightarrow> om_find m seekHeight \<noteq> None"

definition CommitSeekTask :: "(u64 \<Rightarrow> 'f) \<Rightarrow> u64 \<Rightarrow> (u64, 'f) omap \<Rightarrow> (flow_error, (u64, 'f) omap) result" where
  "CommitSeekTask task seekHeight m =
     (if IsSeekTask seekHeight m then Inr m
      else if length m > 100 then Inl EndIterator
      else Inr (om_insert seekHeight (task seekHeight) m))"

definition ForceCommitSeekTask :: "(u64 \<Rightarrow> 'f) \<Rightarrow> u64 \<Rightarrow> (u64, 'f) omap \<Rightarrow> (u64, 'f) omap" where
  "ForceCommitSeekTask task seekHeight m = om_insert seekHeight (task seekHeight) m"

definition ClearPreHashMap :: "(u64, 'f) omap \<Rightarrow> (u64, 'f) omap" where
  "ClearPreHashMap m = []"

text \<open>\<open>parseAck\<close> gives the height and the hashes of an answer.\<close>

type_synonym votes = "(u64, (string, nat) omap) omap"

definition count_vote :: "u64 \<Rightarrow> string \<Rightarrow> votes \<Rightarrow> votes" where
  "count_vote h prehash votes =
     (let inner = (case om_find votes h of None \<Rightarrow> [] | Some i \<Rightarrow> i)
      in om_insert h (om_insert prehash (case om_find inner prehash of None \<Rightarrow> 1 | Some n \<Rightarrow> n + 1) inner) votes)"

definition count_votes :: "(u64 \<times> string list) list \<Rightarrow> votes" where
  "count_votes acks = fold (\<lambda>(h, hashes) votes. fold (count_vote h) hashes votes) acks []"

definition best_prehash :: "nat \<Rightarrow> nat \<Rightarrow> (string, nat) omap \<Rightarrow> string \<times> nat" where
  "best_prehash succentCount verifyNum inner =
     fold (\<lambda>(prehash, n) (best, maxPercentage).
       if n \<ge> verifyNum \<and> maxPercentage < percent n succentCount mod 65536
       then (prehash, percent n succentCount mod 65536) else (best, maxPercentage)) inner ([], 0)"

fun first_accepted :: "nat \<Rightarrow> nat \<Rightarrow> votes \<Rightarrow> string \<times> nat" where
  "first_accepted succentCount verifyNum [] = ([], 0)"
| "first_accepted succentCount verifyNum ((h, inner) # rest) =
     (case best_prehash succentCount verifyNum inner of (best, maxPercentage) \<Rightarrow>
        if maxPercentage \<ge> 70 then (best, maxPercentage) else first_accepted succentCount verifyNum rest)"

text \<open>The request has run: \<open>ok\<close> is the result of the wait, \<open>retDatas\<close> are the answers.\<close>

definition SeekPreHashByNode :: "(string \<Rightarrow> (u64 \<times> string list) option) \<Rightarrow> nat \<Rightarrow> bool \<Rightarrow> string list \<Rightarrow> string \<times> nat" where
  "SeekPreHashByNode parseAck sendNum ok retDatas =
     (if \<not> ok \<and> of_nat (length retDatas) < dmul (of_nat sendNum) (dbl (1 / 2)) then ([], 0)
      else let acks = List.map_filter parseAck retDatas; succentCount = length acks;
               verifyNum = succentCount div 5 * 3
        in first_accepted succentCount verifyNum (count_votes acks))"

section \<open>Counting votes\<close>

definition tally :: "votes \<Rightarrow> u64 \<Rightarrow> string \<Rightarrow> nat" where
  "tally votes h prehash = (case om_find votes h of None \<Rightarrow> 0
     | Some inner \<Rightarrow> (case om_find inner prehash of None \<Rightarrow> 0 | Some n \<Rightarrow> n))"

definition votes_wf :: "votes \<Rightarrow> bool" where
  "votes_wf votes \<longleftrightarrow> om_wf votes \<and> (\<forall>(h, inner) \<in> set votes. om_wf inner)"

lemma tally_count_vote:
  "tally (count_vote h x votes) h' x' = tally votes h' x' + (if h = h' \<and> x = x' then 1 else 0)"
  by (auto simp: tally_def count_vote_def Let_def om_find_insert split: option.splits)

lemma set_om_insert_subset: "set (om_insert k v m) \<subseteq> insert (k, v) (set m)"
  by (induction k v m rule: om_insert.induct) auto

lemma votes_wf_count_vote: "votes_wf votes \<Longrightarrow> votes_wf (count_vote h x votes)"
proof -
  assume wf: "votes_wf votes"
  let ?inner = "case om_find votes h of None \<Rightarrow> [] | Some i \<Rightarrow> i"
  have "om_wf ?inner"
    using wf by (auto simp: votes_wf_def split: option.splits dest: map_of_SomeD)
  then show ?thesis
    using wf set_om_insert_subset by (fastforce simp: votes_wf_def count_vote_def Let_def om_wf_insert)
qed

lemma tally_fold_hashes:
  "tally (fold (count_vote h) hs votes) h' x = tally votes h' x + (if h = h' then count_list hs x else 0)"
  by (induction hs arbitrary: votes) (auto simp: tally_count_vote)

lemma tally_fold:
  "tally (fold (\<lambda>(h, hashes) votes. fold (count_vote h) hashes votes) acks votes) h' x =
     tally votes h' x + (\<Sum>(h, hs)\<leftarrow>acks. if h = h' then count_list hs x else 0)"
  by (induction acks arbitrary: votes) (auto simp: tally_fold_hashes)

lemma count_distinct: "distinct hs \<Longrightarrow> count_list hs x = (if x \<in> set hs then 1 else 0)"
  by (induction hs) auto

definition voters :: "(u64 \<times> string list) list \<Rightarrow> u64 \<Rightarrow> string \<Rightarrow> nat" where
  "voters acks h x = length (filter (\<lambda>a. fst a = h \<and> x \<in> set (snd a)) acks)"

lemma tally_voters:
  assumes "\<forall>a \<in> set acks. distinct (snd a)"
  shows "tally (count_votes acks) h x = voters acks h x"
proof -
  have "(\<Sum>(h', hs)\<leftarrow>acks. if h' = h then count_list hs x else 0) = voters acks h x"
    using assms by (induction acks) (auto simp: voters_def count_distinct)
  moreover have "tally [] h x = 0" by (simp add: tally_def)
  ultimately show ?thesis by (simp add: count_votes_def tally_fold)
qed

lemma votes_wf_count_votes: "votes_wf (count_votes acks)"
proof -
  have hs: "votes_wf v \<Longrightarrow> votes_wf (fold (count_vote h) hs v)" for h hs v
    by (induction hs arbitrary: v) (auto simp: votes_wf_count_vote)
  have "votes_wf v \<Longrightarrow> votes_wf (fold (\<lambda>(h, hashes) votes. fold (count_vote h) hashes votes) acks v)" for v
    by (induction acks arbitrary: v) (auto simp: hs)
  moreover have "votes_wf []" by (simp add: votes_wf_def)
  ultimately show ?thesis unfolding count_votes_def by blast
qed

lemma best_prehash_fold:
  "case fold (\<lambda>(prehash, n) (best, maxPercentage).
       if n \<ge> v \<and> maxPercentage < percent n s mod 65536 then (prehash, percent n s mod 65536) else (best, maxPercentage)) inner (bi, mi)
   of (b, m) \<Rightarrow> mi \<le> m \<and> ((b, m) = (bi, mi) \<or> (\<exists>n. (b, n) \<in> set inner \<and> n \<ge> v \<and> m = percent n s mod 65536)) \<and>
     (\<forall>(x, n) \<in> set inner. n \<ge> v \<longrightarrow> percent n s mod 65536 \<le> m)"
proof (induction inner arbitrary: bi mi)
  case (Cons e inner)
  obtain x n where e: "e = (x, n)" by (cases e)
  show ?case
  proof (cases "n \<ge> v \<and> mi < percent n s mod 65536")
    case True
    then show ?thesis
      using Cons.IH [where bi = x and mi = "percent n s mod 65536"] by (auto simp: e)
  next
    case False
    then show ?thesis
      using Cons.IH [where bi = bi and mi = mi] by (auto simp: e)
  qed
qed simp

lemma best_prehash_spec:
  assumes "best_prehash s v inner = (b, m)"
  shows "m = 0 \<or> (\<exists>n. (b, n) \<in> set inner \<and> n \<ge> v \<and> m = percent n s mod 65536)"
    and "(x, n) \<in> set inner \<Longrightarrow> n \<ge> v \<Longrightarrow> percent n s mod 65536 \<le> m"
  using best_prehash_fold [where inner = inner and bi = "[]" and mi = 0 and v = v and s = s] assms
  by (auto simp: best_prehash_def)

lemma first_accepted_spec:
  assumes "first_accepted s v votes = (b, m)"
  shows "m = 0 \<and> b = [] \<or> m \<ge> 70 \<and> (\<exists>h inner n. (h, inner) \<in> set votes \<and> (b, n) \<in> set inner \<and> n \<ge> v \<and> m = percent n s mod 65536)"
    and "(h, inner) \<in> set votes \<Longrightarrow> (x, n) \<in> set inner \<Longrightarrow> n \<ge> v \<Longrightarrow> percent n s mod 65536 \<ge> 70 \<Longrightarrow> m \<ge> 70"
  using assms
proof (induction s v votes rule: first_accepted.induct)
  case (2 s v h0 inner0 rest)
  obtain b0 m0 where b0: "best_prehash s v inner0 = (b0, m0)" by (cases "best_prehash s v inner0")
  {
    case 1
    then show ?case
      using 2(1) [OF b0 [symmetric]] best_prehash_spec(1) [OF b0] b0 by (fastforce split: if_splits)
  next
    case 2
    then show ?case
      using "2.IH"(2) [OF b0 [symmetric]] best_prehash_spec(2) [OF b0, of x n] b0 by (auto split: if_splits)
  }
qed auto

lemma tally_entry:
  assumes "votes_wf votes" and "(h, inner) \<in> set votes" and "(x, n) \<in> set inner"
  shows "tally votes h x = n"
proof -
  have "om_find votes h = Some inner" "om_wf inner"
    using assms om_find_in [of votes h inner] by (auto simp: votes_wf_def)
  then show ?thesis
    using om_find_in [of inner x n] assms(3) by (simp add: tally_def)
qed

lemma tally_pos_entry:
  assumes "0 < tally votes h x"
  shows "\<exists>inner. (h, inner) \<in> set votes \<and> (x, tally votes h x) \<in> set inner"
  using assms by (auto simp: tally_def split: option.splits dest: map_of_SomeD)

section \<open>Composing the block\<close>

lemma add_signs_app:
  "\<forall>m \<in> set msgs. length (blk_sign (parse (bmsg_block m))) = 2 \<Longrightarrow>
   add_signs parse msgs b = b\<lparr>blk_sign := blk_sign b @ map (\<lambda>m. blk_sign (parse (bmsg_block m)) ! 1) msgs\<rparr>"
  by (induction msgs arbitrary: b) (simp_all add: Let_def)

lemma cyc_window_distinct:
  assumes "k \<le> n"
  shows "distinct (map (\<lambda>j. nat ((pos + int j) mod int n)) [0..<k])"
proof -
  have "inj_on (\<lambda>j. nat ((pos + int j) mod int n)) {0..<k}"
  proof (rule inj_onI)
    fix i j assume ij: "i \<in> {0..<k}" "j \<in> {0..<k}" and eq: "nat ((pos + int i) mod int n) = nat ((pos + int j) mod int n)"
    have n: "0 < int n" using ij assms by auto
    then have "(pos + int i) mod int n = (pos + int j) mod int n"
      using eq by (simp add: nat_eq_iff)
    then have "int n dvd int i - int j"
      by (simp add: mod_eq_dvd_iff)
    moreover have "\<bar>int i - int j\<bar> < int n" using ij assms by auto
    ultimately show "i = j"
      using zdvd_imp_le [of "int n" "\<bar>int i - int j\<bar>"] by auto
  qed
  then show ?thesis by (simp add: distinct_map)
qed

text \<open>The positions of \<open>k - 1\<close> neighbours in a ring of \<open>n\<close> messages around a random one.\<close>

definition window :: "nat \<Rightarrow> rat \<Rightarrow> nat \<Rightarrow> nat list" where
  "window k r n = map (\<lambda>j. nat ((int (dtrunc (dmul (of_nat n) r)) - int (k div 2) + int j) mod int n)) [0..<k - 1]"

lemma window_positions:
  assumes "k - 1 \<le> n"
  shows "distinct (window k r n)" and "length (window k r n) = k - 1" and "set (window k r n) \<subseteq> {..<n}"
proof -
  have "nat (x mod int n) < n" if "j < k - 1" for x j
    using that assms by (cases "n = 0") (simp_all add: nat_less_iff)
  then show "set (window k r n) \<subseteq> {..<n}" by (auto simp: window_def)
qed (use cyc_window_distinct [OF assms] in \<open>simp_all add: window_def\<close>)

lemma pick_messages_window:
  assumes "kConsensus - 1 \<le> length secondMsg"
  shows "pick_messages kConsensus r secondMsg = Inr (map (\<lambda>p. secondMsg ! p) (window kConsensus r (length secondMsg)))"
proof -
  obtain list as where list: "foldlE push_back new_clist secondMsg = Inr list" "ring list as secondMsg"
    using ring.rep_build [of new_clist "[]" secondMsg] ring_new by auto
  then have size: "m_size list = int (length secondMsg)" by (simp add: ring_def)
  let ?n = "length secondMsg" and ?k = "kConsensus - 1"
  define pos where "pos = int (dtrunc (dmul (of_nat ?n) r)) - int (kConsensus div 2)"
  let ?ps = "map (\<lambda>j. nat ((pos + int j) mod int ?n)) [0..<?k]"
  have "mapE (\<lambda>j. subscript list (pos + int j)) [0..<?k] = Inr (map (\<lambda>p. secondMsg ! p) ?ps)"
  proof (cases "secondMsg = []")
    case True
    with assms show ?thesis by simp
  next
    case False
    then show ?thesis
      using ring.rep_window [of list secondMsg pos "[0..<?k]"] list(2) by (auto simp: cyc_def o_def)
  qed
  then show ?thesis
    using list(1) size unfolding pick_messages_def window_def by (simp add: Let_def pos_def)
qed

section \<open>Reports of a phase\<close>

definition phase_nodes :: "'v BlockStatusWrapper \<Rightarrow> string list" where
  "phase_nodes w = (case broadcastType w of verifyBroadcast \<Rightarrow> verifyNodes w | level1Broadcast \<Rightarrow> level1Nodes w)"

definition reports_ok :: "'v BlockStatusWrapper \<Rightarrow> bool" where
  "reports_ok w \<longleftrightarrow> distinct (map bst_id (blockStatusList w)) \<and> bst_id ` set (blockStatusList w) \<inter> set (phase_nodes w) = {}"

definition status_inv :: "'v status_map \<Rightarrow> bool" where
  "status_inv st \<longleftrightarrow> om_wf st \<and> (\<forall>h w. om_find st h = Some w \<longrightarrow> reports_ok w)"

lemma reports_ok_new: "reports_ok (new_wrapper b)" "reports_ok ((new_wrapper b)\<lparr>verifyNodesNumber := n, verifyNodes := ns, vrfMap := vm, txvrfMap := tm\<rparr>)"
  by (simp_all add: reports_ok_def new_wrapper_def)

lemma reports_ok_txvrf: "reports_ok (w\<lparr>txvrfMap := m\<rparr>) = reports_ok w"
  by (cases "broadcastType w") (simp_all add: reports_ok_def phase_nodes_def)

lemma status_inv_insert: "status_inv st \<Longrightarrow> reports_ok w \<Longrightarrow> status_inv (om_insert h w st)"
  by (auto simp: status_inv_def om_wf_insert om_find_insert)

inductive status_step :: "'v status_map \<Rightarrow> 'v status_map \<Rightarrow> bool" where
  verify_round: "status_step st (AddBlockStatus_verify T agent gv gt ks kc h block nodes vrf st)"
| level1_round: "status_step st (AddBlockStatus_level1 h block nodes st)"
| report: "status_step st (fst (AddBlockStatus now bs st))"
| expire: "status_step st (ExpiredDeleteCheck now st)"
| flow: "BlockCheck env now cnt st = Inr (outs, st', cnt') \<Longrightarrow> status_step st st'"
| rebuild: "status_step st (fst (NewbuildBlock T timedOut agent setHash version merkle hash ser signs now h st))"

inductive status_reach :: "'v status_map \<Rightarrow> bool" where
  status_start: "status_reach []"
| status_next: "status_reach st \<Longrightarrow> status_step st st' \<Longrightarrow> status_reach st'"

lemma om_find_filter:
  assumes "om_wf m" and "om_find (filter P m) k = Some v"
  shows "om_find m k = Some v"
proof -
  have "(k, v) \<in> set m" using map_of_SomeD [OF assms(2)] by simp
  then show ?thesis using om_find_in [OF assms(1)] by simp
qed

lemma status_inv_report:
  assumes "status_inv st"
  shows "status_inv (fst (AddBlockStatus now bs st))"
proof (cases "om_find st (bst_blockHash bs)")
  case None
  then have "CheckData now bs st = (st, -1) \<or> CheckData now bs st = (st, -2)"
    by (simp add: CheckData_def)
  with assms show ?thesis by (auto simp: AddBlockStatus_def)
next
  case (Some w)
  have ok: "reports_ok w" using assms Some by (simp add: status_inv_def)
  let ?h = "bst_blockHash bs" and ?i = "bst_id bs"
  define w1 where "w1 = (case broadcastType w of
      verifyBroadcast \<Rightarrow> w\<lparr>verifyNodes := removeAll ?i (verifyNodes w)\<rparr>
    | level1Broadcast \<Rightarrow> w\<lparr>level1Nodes := removeAll ?i (level1Nodes w)\<rparr>)"
  have ok1: "reports_ok w1" using ok by (auto simp: w1_def reports_ok_def phase_nodes_def split: BroadcastType.splits)
  have "(\<exists>r. CheckData now bs st = (st, r) \<and> r \<noteq> 0) \<or>
      (\<exists>r. CheckData now bs st = (om_insert ?h w1 st, r) \<and> ?i \<in> set (phase_nodes w))"
    unfolding CheckData_def w1_def phase_nodes_def using Some
    by (cases "broadcastType w"; cases "bst_status bs \<ge> 0"; cases "?i \<in> set (phase_nodes w)")
      (simp_all add: Let_def phase_nodes_def)
  then consider (same) r where "CheckData now bs st = (st, r)" "r \<noteq> 0"
    | (erased) r where "CheckData now bs st = (om_insert ?h w1 st, r)" "?i \<in> set (phase_nodes w)"
    by blast
  then show ?thesis
  proof cases
    case same
    then show ?thesis using assms by (simp add: AddBlockStatus_def)
  next
    case erased
    have "?i \<notin> bst_id ` set (blockStatusList w)" using ok erased(2) by (auto simp: reports_ok_def)
    then have "reports_ok (w1\<lparr>blockStatusList := blockStatusList w1 @ [bs]\<rparr>)"
      using ok by (auto simp: w1_def reports_ok_def phase_nodes_def split: BroadcastType.splits)
    then show ?thesis
      using erased(1) status_inv_insert [OF assms ok1] status_inv_insert [OF status_inv_insert [OF assms ok1]]
      by (simp add: AddBlockStatus_def om_find_insert Let_def)
  qed
qed

lemma status_inv_item:
  assumes "status_inv st" and "block_check_item env now msgs st = Inr (out, st', d)"
  shows "status_inv st'"
  using assms
  by (auto simp: block_check_item_def Let_def status_inv_insert reports_ok_new split: list.splits if_splits sum.splits)

lemma status_inv_loop:
  "status_inv st \<Longrightarrow> block_check_loop env now items st = Inr (outs, st', keys) \<Longrightarrow> status_inv st'"
proof (induction env now items st arbitrary: outs st' keys rule: block_check_loop.induct)
  case (2 env now h msgs items st)
  from 2(3) obtain out st1 drp outs1 keys1 where item: "block_check_item env now msgs st = Inr (out, st1, drp)"
    and loop: "block_check_loop env now items st1 = Inr (outs1, st', keys1)"
    by (auto simp: bindE_eq_Inr_iff)
  show ?case using 2(1) [OF item refl refl status_inv_item [OF 2(2) item] loop] .
qed simp

lemma status_inv_step: "status_step st st' \<Longrightarrow> status_inv st \<Longrightarrow> status_inv st'"
proof (induction rule: status_step.induct)
  case (verify_round st T agent gv gt ks kc h block nodes vrf)
  then show ?case
    by (auto simp: AddBlockStatus_verify_def reports_ok_new intro!: status_inv_insert split: prod.splits)
next
  case (level1_round st h block nodes)
  then show ?case
    by (auto simp: AddBlockStatus_level1_def reports_ok_def intro!: status_inv_insert split: option.splits)
next
  case (report st now bs)
  then show ?case by (rule status_inv_report)
next
  case (expire st now)
  then show ?case
    by (auto simp: ExpiredDeleteCheck_def status_inv_def om_wf_filter dest: om_find_filter)
next
  case (flow env now cnt st outs st' cnt')
  then show ?case
    using status_inv_loop by (fastforce simp: BlockCheck_def bindE_eq_Inr_iff)
next
  case (rebuild st T timedOut agent setHash version merkle hash ser signs now h)
  let ?w = "case om_find st h of None \<Rightarrow> new_wrapper empty_block | Some w \<Rightarrow> w"
  have "reports_ok ?w"
    using rebuild reports_ok_new by (auto simp: status_inv_def split: option.splits)
  then have "reports_ok (?w\<lparr>txvrfMap := m\<rparr>)" for m
    by (simp add: reports_ok_txvrf)
  with rebuild show ?case
    by (simp add: NewbuildBlock_def Let_def split_beta status_inv_insert)
qed

text \<open>Which hash the vote accepts, with at least one answer that parses.\<close>

lemma vote_exact:
  assumes "\<forall>a \<in> set acks. distinct (snd a)" and "0 < length acks" and "length acks < 2 ^ 40"
    and r: "first_accepted (length acks) (length acks div 5 * 3) (count_votes acks) = (x, p)"
  shows "(70 \<le> p) = (\<exists>h y. 7 * length acks \<le> 10 * voters acks h y) \<and>
    (70 \<le> p \<longrightarrow> (\<exists>h. 7 * length acks \<le> 10 * voters acks h x)) \<and> (\<not> 70 \<le> p \<longrightarrow> x = [] \<and> p = 0)"
proof -
  let ?n = "length acks" and ?v = "length acks div 5 * 3" and ?votes = "count_votes acks"
  have le: "voters acks h y \<le> ?n" for h y by (simp add: voters_def)
  have pc: "percent (voters acks h y) ?n mod 65536 = percent (voters acks h y) ?n" for h y
    using percent_le [OF le [of h y]] by simp
  have ge70: "70 \<le> percent (voters acks h y) ?n \<longleftrightarrow> 7 * ?n \<le> 10 * voters acks h y" for h y
    by (rule percent_ge_70 [OF assms(2,3) le])
  have t: "tally ?votes h y = voters acks h y" for h y by (rule tally_voters [OF assms(1)])
  have sound: "70 \<le> p \<Longrightarrow> \<exists>h. 7 * ?n \<le> 10 * voters acks h x"
    using first_accepted_spec(1) [OF r] tally_entry [OF votes_wf_count_votes] t pc ge70 by (metis le_zero_eq zero_neq_numeral)
  have complete: "70 \<le> p" if v: "7 * ?n \<le> 10 * voters acks h y" for h y
  proof -
    have "0 < voters acks h y" using v assms(2) by (cases "voters acks h y") auto
    then obtain inner where "(h, inner) \<in> set ?votes" "(y, voters acks h y) \<in> set inner"
      using tally_pos_entry [of ?votes h y] t by auto
    moreover have "?v \<le> voters acks h y" using v by linarith
    moreover have "70 \<le> percent (voters acks h y) ?n mod 65536" unfolding pc ge70 by (rule v)
    ultimately show ?thesis by (rule first_accepted_spec(2) [OF r])
  qed
  show ?thesis using sound complete first_accepted_spec(1) [OF r] by auto
qed

section \<open>Properties\<close>

text \<open>
  C17: When no answer names a hash twice and there are fewer than \<open>2 ^ 40\<close> nodes and answers, a
  hash is accepted exactly when the wait succeeded or at least half of the asked nodes
  answered, some answer parses, and at least seventy percent of the answers that parse name
  one hash for one height; the accepted hash is such a one, and otherwise the empty hash is
  returned. The double-precision thresholds make no difference.
\<close>

theorem prehash_vote_exact:
  fixes retDatas :: "string list" and parseAck :: "string \<Rightarrow> (u64 \<times> string list) option"
  defines "acks \<equiv> List.map_filter parseAck retDatas"
  assumes "\<forall>a \<in> set acks. distinct (snd a)" and "length acks < 2 ^ 40" and "sendNum < 2 ^ 40"
  shows "case SeekPreHashByNode parseAck sendNum ok retDatas of (x, p) \<Rightarrow>
    (70 \<le> p) = ((ok \<or> sendNum \<le> 2 * length retDatas) \<and> acks \<noteq> [] \<and> (\<exists>h y. 7 * length acks \<le> 10 * voters acks h y)) \<and>
    (70 \<le> p \<longrightarrow> (\<exists>h. 7 * length acks \<le> 10 * voters acks h x)) \<and> (\<not> 70 \<le> p \<longrightarrow> x = [] \<and> p = 0)"
proof -
  have half: "of_nat (length retDatas) < dmul (of_nat sendNum) (dbl (1 / 2)) \<longleftrightarrow> \<not> sendNum \<le> 2 * length retDatas"
    using dmul_le(1) [OF decimal_half assms(4), of "length retDatas"] by (simp flip: not_le)
  let ?r = "first_accepted (length acks) (length acks div 5 * 3) (count_votes acks)"
  have run: "SeekPreHashByNode parseAck sendNum ok retDatas = (if ok \<or> sendNum \<le> 2 * length retDatas then ?r else ([], 0))"
    by (simp add: SeekPreHashByNode_def Let_def acks_def half)
  obtain x p where r: "?r = (x, p)" by (cases ?r)
  show ?thesis
  proof (cases "acks = []")
    case True
    then have "?r = ([], 0)" by (simp add: count_votes_def)
    then show ?thesis using True by (simp add: run)
  next
    case False
    from vote_exact [OF assms(2) _ assms(3) r] False
    show ?thesis by (auto simp: run r)
  qed
qed

theorem prehash_vote_exact_witness:
  "fst (SeekPreHashByNode (\<lambda>d. Some (5, [d])) 12 False (replicate 7 ''a'' @ replicate 3 ''b'')) = ''a''
   \<and> 70 \<le> snd (SeekPreHashByNode (\<lambda>d. Some (5, [d])) 12 False (replicate 7 ''a'' @ replicate 3 ''b''))"
proof -
  let ?d = "replicate 7 ''a'' @ replicate 3 ''b''" and ?parse = "\<lambda>d. Some (5 :: u64, [d :: string])"
  obtain x p where xp: "SeekPreHashByNode ?parse 12 False ?d = (x, p)" by (cases "SeekPreHashByNode ?parse 12 False ?d")
  have acks: "List.map_filter ?parse ?d = replicate 7 (5, [''a'']) @ replicate 3 (5, [''b''])"
    by (simp add: List.map_filter_def numeral_eq_Suc)
  have "7 * length (List.map_filter ?parse ?d) \<le> 10 * voters (List.map_filter ?parse ?d) 5 ''a''"
    unfolding acks by (simp add: voters_def)
  then have yes: "70 \<le> p" and named: "\<exists>h. 7 * length (List.map_filter ?parse ?d) \<le> 10 * voters (List.map_filter ?parse ?d) h x"
    using prehash_vote_exact [of ?parse ?d 12 False] unfolding acks by (auto simp: xp)
  from named have "x = ''a''"
    unfolding acks by (auto simp: voters_def filter_replicate split: if_split_asm)
  with yes xp show ?thesis by simp
qed

text \<open>
  An answer that names a hash several times counts as often: among five answers a single
  one decides for a hash that no other names.
\<close>

theorem prehash_one_answer_decides:
  "SeekPreHashByNode (\<lambda>d. Some (5, if d = ''x'' then replicate 4 ''evil'' else [''good''])) 5 True
     [''x'', ''a'', ''b'', ''c'', ''d''] = (''evil'', 80)"
proof -
  let ?acks = "[(5 :: u64, [''evil'', ''evil'', ''evil'', ''evil'']), (5, [''good'']), (5, [''good'']), (5, [''good'']), (5, [''good''])]"
  have "percent 4 (Suc (Suc (Suc (Suc (Suc 0))))) = 80" by code_simp
  moreover have "count_votes ?acks = [(5, [(''evil'', 4), (''good'', 4)])]"
    by (simp add: count_votes_def count_vote_def Let_def)
  moreover have "List.map_filter (\<lambda>d. Some (5, if d = ''x'' then replicate 4 ''evil'' else [''good''])) [''x'', ''a'', ''b'', ''c'', ''d''] = ?acks"
    by (simp add: List.map_filter_def numeral_eq_Suc)
  ultimately show ?thesis
    by (simp add: SeekPreHashByNode_def best_prehash_def)
qed

text \<open>
  C18: From enough messages, each further one with two signatures, the final block is the first
  message's block with the second signatures of \<open>kConsensus - 1\<close> further messages appended:
  those at the consecutive positions of the cyclic order that begin \<open>kConsensus div 2\<close> before
  the position given by the random number. No message is taken twice, no ring pointer is null
  and the code does not give up.
\<close>

theorem block_flow_compose:
  assumes "kConsensus \<le> length (first # secondMsg)"
    and "\<forall>m \<in> set secondMsg. length (blk_sign (parse (bmsg_block m))) = 2"
    and "blk_sign (parse (bmsg_block first)) \<noteq> []"
    and "vrf (blk_hash (parse (bmsg_block first))) = Inr randNum"
  defines "n \<equiv> length secondMsg"
  defines "ps \<equiv> map (\<lambda>j. nat ((int (dtrunc (dmul (of_nat n) randNum)) - int (kConsensus div 2) + int j) mod int n)) [0..<kConsensus - 1]"
  shows "distinct ps \<and> set ps \<subseteq> {..<n} \<and>
    ComposeEndBlockmsg parse ser kConsensus vrf (first # secondMsg) True =
      Inr (Inr \<lparr>bmsg_block = ser ((parse (bmsg_block first))\<lparr>blk_sign := blk_sign (parse (bmsg_block first)) @
                 map (\<lambda>p. blk_sign (parse (bmsg_block (secondMsg ! p))) ! 1) ps\<rparr>),
               bmsg_vrfinfo = [], bmsg_txvrfinfo = []\<rparr>)"
proof -
  have ps: "ps = window kConsensus randNum n" by (simp add: ps_def window_def)
  have le: "kConsensus - 1 \<le> n" using assms(1) by (simp add: n_def)
  have "\<forall>m \<in> set (map (\<lambda>p. secondMsg ! p) ps). length (blk_sign (parse (bmsg_block m))) = 2"
    using assms(2) window_positions(3) [OF le, of randNum] by (auto simp: ps n_def subset_iff)
  from add_signs_app [OF this] show ?thesis
    using pick_messages_window [of kConsensus secondMsg randNum] window_positions [OF le, of randNum] le assms(3,4)
    by (simp add: ComposeEndBlockmsg_def o_def ps n_def)
qed

definition signed_block :: "string \<Rightarrow> CBlock" where
  "signed_block s = \<lparr>blk_version = 0, blk_hash = ''h'', blk_prevhash = [], blk_height = 1, blk_time = 0, blk_merkleroot = [],
     blk_sign = [\<lparr>sign_sign = ''o'', sign_pub = ''o''\<rparr>, \<lparr>sign_sign = s, sign_pub = s\<rparr>], blk_txs = [], blk_data = []\<rparr>"

definition msg_of :: "string \<Rightarrow> unit BlockMsg" where
  "msg_of s = \<lparr>bmsg_block = s, bmsg_vrfinfo = [], bmsg_txvrfinfo = []\<rparr>"

theorem block_flow_compose_witness:
  "ComposeEndBlockmsg signed_block (\<lambda>b. concat (map sign_pub (blk_sign b))) 3 (\<lambda>_. Inr (7 / 8))
     [msg_of ''f'', msg_of ''a'', msg_of ''b'', msg_of ''c'', msg_of ''d''] True = Inr (Inr (msg_of ''ofcd''))"
proof -
  have len: "length (blk_sign (signed_block s)) = 2" "blk_sign (signed_block s) \<noteq> []" for s
    by (simp_all add: signed_block_def)
  have pos: "dtrunc (dmul (of_nat (length [msg_of ''a'', msg_of ''b'', msg_of ''c'', msg_of ''d''])) (7 / 8)) = 3"
    by (simp, code_simp)
  show ?thesis
    using block_flow_compose [of 3 "msg_of ''f''" "[msg_of ''a'', msg_of ''b'', msg_of ''c'', msg_of ''d'']" signed_block "\<lambda>_. Inr (7 / 8)" "7 / 8"
      "\<lambda>b. concat (map sign_pub (blk_sign b))", unfolded pos] len
    by (simp add: msg_of_def signed_block_def upt_rec)
qed

text \<open>
  C19: In every reachable state of the status table each node's report about a block is recorded
  at most once in a broadcast round, and a recorded node is not expected again.
\<close>

theorem reports_recorded_once:
  assumes "status_reach st" and "om_find st h = Some w"
  shows "distinct (map bst_id (blockStatusList w)) \<and> bst_id ` set (blockStatusList w) \<inter> set (phase_nodes w) = {}"
proof -
  have "status_inv st"
    using assms(1)
  proof (induction rule: status_reach.induct)
    case status_start
    show ?case by (simp add: status_inv_def)
  next
    case (status_next st st')
    then show ?case using status_inv_step by blast
  qed
  with assms(2) show ?thesis by (auto simp: status_inv_def reports_ok_def)
qed

theorem reports_recorded_once_witness:
  "\<exists>st :: unit status_map. status_reach st \<and> om_find st ''h'' \<noteq> None \<and>
     (\<forall>w. om_find st ''h'' = Some w \<longrightarrow> distinct (map bst_id (blockStatusList w)))"
proof -
  let ?b = "block_of []"
  let ?st = "AddBlockStatus_verify (\<lambda>_. kTransactionType_Tx) (\<lambda>_. vrfAgentType_defalut) (\<lambda>_. None) (\<lambda>_. None) 10 5 ''h'' ?b [''n''] () []"
  let ?st2 = "fst (AddBlockStatus 0 \<lparr>bst_blockHash = ''h'', bst_status = -1, bst_txStatus = [], bst_id = ''n''\<rparr> ?st)"
  have reach: "status_reach ?st2"
    by (rule status_next [OF status_next [OF status_start verify_round] report])
  moreover have "om_find ?st2 ''h'' \<noteq> None"
    by (simp add: AddBlockStatus_verify_def AddBlockStatus_def CheckData_def new_wrapper_def block_of_def Let_def)
  moreover have "\<forall>w. om_find ?st2 ''h'' = Some w \<longrightarrow> distinct (map bst_id (blockStatusList w))"
    using reports_recorded_once [OF reach] by blast
  ultimately show ?thesis by blast
qed

end
