(* ===== verification/Check_Blocks.thy ===== *)
theory Check_Blocks
  imports Db_Session Global_Wait
begin

text \<open>
  The periodic comparison of block sums with other nodes, \<open>ca/check_blocks.cpp\<close>: every
  thousand heights the sum over the blocks is confirmed by nine tenths of the answers and
  stored; otherwise the hundreds that differ are synchronised. Computing sums, choosing nodes,
  parsing answers and synchronising are arguments; the requests are those of \<open>Global_Wait\<close>, the
  database that of \<open>Db_Api\<close>.
\<close>

section \<open>Tallies\<close>

definition bump :: "string \<Rightarrow> (string, nat) omap \<Rightarrow> (string, nat) omap" where
  "bump hash m = om_insert hash (case om_find m hash of None \<Rightarrow> 1 | Some n \<Rightarrow> n + 1) m"

text \<open>\<open>std::max_element\<close> by count: the first of the largest.\<close>

fun max_element :: "(string, nat) omap \<Rightarrow> (string \<times> nat) option" where
  "max_element [] = None"
| "max_element (e # es) = (case max_element es of
     None \<Rightarrow> Some e
   | Some m \<Rightarrow> if snd e < snd m then Some m else Some e)"

text \<open>An answer is a success flag and a hash; empty hashes are ignored.\<close>

fun count_acks :: "(bool \<times> string) option list \<Rightarrow> (string, nat) omap \<times> nat \<Rightarrow> (string, nat) omap \<times> nat" where
  "count_acks [] acc = acc"
| "count_acks (None # as) acc = count_acks as acc"
| "count_acks (Some (success, hash) # as) (m, n) =
     (if \<not> success \<or> hash = [] then count_acks as (m, n) else count_acks as (bump hash m, n + 1))"

section \<open>One round\<close>

record CheckBlocks =
  topBlockHeight :: u64
  tempTopDate :: "u64 \<times> string"
  checkRuning :: bool

definition SetTempTopData :: "u64 \<Rightarrow> string \<Rightarrow> CheckBlocks \<Rightarrow> CheckBlocks" where
  "SetTempTopData height hash c = c\<lparr>tempTopDate := (height, hash)\<rparr>"

definition GetTempTopData :: "CheckBlocks \<Rightarrow> u64 \<times> string" where
  "GetTempTopData c = tempTopDate c"

definition Init :: "db_reader \<Rightarrow> CheckBlocks \<Rightarrow> (db_error, CheckBlocks) result" where
  "Init rd c = bindE (GetTopThousandSumhash rd (topBlockHeight c)) (\<lambda>(ret, height).
     Inr (SetTempTopData 0 [] (c\<lparr>topBlockHeight := (if ret \<noteq> DB_SUCCESS then 0 else height)\<rparr>)))"

text \<open>The addresses of nodes with investment and stake.\<close>

definition GetPledgeAddr :: "(string \<Rightarrow> int) \<Rightarrow> (string \<Rightarrow> int) \<Rightarrow> string list \<Rightarrow> string list" where
  "GetPledgeAddr VerifyBonusAddr stakeTime nodelist = filter (\<lambda>a. stakeTime a > 0 \<and> VerifyBonusAddr a = 0) nodelist"

text \<open>Storing a confirmed sum, in a session of its own.\<close>

definition save_top :: "'s rocksdb \<Rightarrow> 's db_writer \<Rightarrow> u64 \<Rightarrow> string \<Rightarrow> (db_error, 's db_writer \<times> int) result" where
  "save_top api d timpHeight timpHash =
     bindE (SetCheckBlockHashsByBlockHeight api d timpHeight timpHash) (\<lambda>(d1, st1).
     if st1 \<noteq> DB_SUCCESS then Inr (d1, -9)
     else bindE (GetTopThousandSumhash (DBReadWriter_reader api (db_read_writer d1)) 0) (\<lambda>(st2, h).
       let lastHeight = (if st2 \<noteq> DB_SUCCESS then 0 else h) in
       if lastHeight \<noteq> timpHeight - 1000 then Inr (d1, -10)
       else bindE (SetTopThousandSumhash api d1 timpHeight) (\<lambda>(d2, st3).
         if st3 \<noteq> DB_SUCCESS then Inr (d2, -11)
         else case DBReadWriter_TransactionCommit api d2 of (d3, st4) \<Rightarrow>
           if st4 \<noteq> DB_SUCCESS then Inr (d3, -12) else Inr (d3, 0))))"

datatype outcome = Return int | SaveTop u64 string | NewSync

text \<open>
  What a round decides from the answers of the nodes asked. \<open>tempHash\<close> is the node's own sum,
  \<open>sync\<close> the chosen nodes or an error, \<open>ok\<close> and \<open>retDatas\<close> the result of the request.
  \<open>None\<close> means that the loop goes round again without doing anything.
\<close>

definition decide :: "(string \<Rightarrow> (bool \<times> string) option) \<Rightarrow> u64 \<Rightarrow> string \<Rightarrow> nat \<Rightarrow> bool \<Rightarrow> string list \<Rightarrow> outcome option" where
  "decide parse height tempHash sendNum ok retDatas =
     (if \<not> ok \<and> (retDatas = [] \<or> length retDatas < sendNum div 2) then Some (Return (-7))
      else case count_acks (map parse retDatas) ([], 0) of (consensusMap, successNum) \<Rightarrow>
        if \<not> of_nat successNum \<ge> dmul (of_nat (length retDatas)) (dbl (4 / 5)) then Some (Return (-8))
        else case max_element consensusMap of
          None \<Rightarrow> None
        | Some (hash, n) \<Rightarrow>
            if of_nat n \<ge> dmul (of_nat successNum) (dbl (9 / 10)) \<and> hash = tempHash
            then Some (SaveTop height tempHash) else Some NewSync)"

definition check_round :: "(string \<Rightarrow> (bool \<times> string) option) \<Rightarrow> (u64 \<Rightarrow> string) \<Rightarrow> (u64 \<Rightarrow> int + string list) \<Rightarrow>
    (string list \<Rightarrow> nat \<Rightarrow> bool \<times> string list) \<Rightarrow> CheckBlocks \<Rightarrow> CheckBlocks \<times> outcome option" where
  "check_round parse Calc sync ask c =
     (let height = topBlockHeight c + 1000; tempHash = Calc height in
      if tempHash = [] then (c, Some (Return (-2)))
      else let c1 = SetTempTopData height tempHash c in
        case sync height of
          Inl _ \<Rightarrow> (c1, Some (Return (-4)))
        | Inr sendNodeIds \<Rightarrow>
            let sendNum = length sendNodeIds in
            case ask sendNodeIds (dtrunc (dmul (of_nat sendNum) (dbl (9 / 10)))) of (ok, retDatas) \<Rightarrow>
              (c1, decide parse height tempHash sendNum ok retDatas))"

text \<open>The guard before the first round.\<close>

definition high_enough :: "u64 \<Rightarrow> CheckBlocks \<Rightarrow> bool" where
  "high_enough selfNodeHeight c \<longleftrightarrow>
     \<not> (topBlockHeight c = 0 \<and> selfNodeHeight < 1100) \<and> \<not> selfNodeHeight < topBlockHeight c + 1100"

section \<open>The heights that differ\<close>

text \<open>An answer has a code and sums with their heights; a code of zero counts as an answer without sums.\<close>

type_synonym sum_votes = "(u64, (string, nat) omap) omap"

definition bump_at :: "u64 \<times> string \<Rightarrow> sum_votes \<Rightarrow> sum_votes" where
  "bump_at hs m = (case hs of (height, hash) \<Rightarrow>
     case om_find m height of
       None \<Rightarrow> om_insert height [(hash, 1)] m
     | Some content \<Rightarrow> om_insert height (bump hash content) m)"

fun count_sums :: "(int \<times> (u64 \<times> string) list) option list \<Rightarrow> sum_votes \<times> nat \<Rightarrow> sum_votes \<times> nat" where
  "count_sums [] acc = acc"
| "count_sums (None # as) acc = count_sums as acc"
| "count_sums (Some (code, shs) # as) (m, n) =
     (if code = 0 then count_sums as (m, n + 1) else count_sums as (fold bump_at shs m, n + 1))"

definition height_differs :: "db_reader \<Rightarrow> nat \<Rightarrow> u64 \<times> (string, nat) omap \<Rightarrow> (db_error, bool) result" where
  "height_differs rd successCount e = bindE (GetSumHashByHeight rd (fst e) []) (\<lambda>(ret, shelf_sum_hash).
     Inr (if ret \<noteq> DB_SUCCESS then True
       else case max_element (snd e) of
         None \<Rightarrow> True
       | Some (hash, n) \<Rightarrow> \<not> (of_nat n \<ge> dmul (of_nat successCount) (dbl (17 / 20)) \<and> shelf_sum_hash = hash)))"

fun differing :: "db_reader \<Rightarrow> nat \<Rightarrow> sum_votes \<Rightarrow> (db_error, u64 list) result" where
  "differing rd successCount [] = Inr []"
| "differing rd successCount (e # es) = bindE (height_differs rd successCount e) (\<lambda>b.
     bindE (differing rd successCount es) (\<lambda>hs. Inr (if b then fst e # hs else hs)))"

definition ByzantineSumHash :: "db_reader \<Rightarrow> (string \<Rightarrow> (int \<times> (u64 \<times> string) list) option) \<Rightarrow> nat \<Rightarrow> bool \<Rightarrow> string list \<Rightarrow>
    (db_error, int \<times> u64 list) result" where
  "ByzantineSumHash rd parse sendNum ok retDatas =
     (if \<not> ok \<and> (retDatas = [] \<or> length retDatas < sendNum div 2) then Inr (-3, [])
      else case count_sums (map parse retDatas) ([], 0) of (sumHashDatas, successCount) \<Rightarrow>
        if \<not> successCount \<ge> dtrunc (dmul (of_nat sendNum) (dbl (4 / 5))) then Inr (-4, [])
        else bindE (differing rd successCount sumHashDatas) (\<lambda>hs. Inr (0, hs)))"

text \<open>The heights asked for, and the synchronisation of those that differ.\<close>

definition sync_heights :: "CheckBlocks \<Rightarrow> u64 list" where
  "sync_heights c = map (\<lambda>i. topBlockHeight c + word_of_nat i * 100) [1..<11]"

fun sync_each :: "(u64 \<Rightarrow> u64 \<Rightarrow> int) \<Rightarrow> u64 list \<Rightarrow> int" where
  "sync_each run [] = 0"
| "sync_each run (h # hs) = (if run (h - 100) h \<noteq> 0 then -3 else sync_each run hs)"

text \<open>The answer to another node: a stored sum, or the one being confirmed.\<close>

definition SendGetCheckSumHashAck :: "db_reader \<Rightarrow> CheckBlocks \<Rightarrow> u64 \<Rightarrow> (db_error, bool \<times> string) result" where
  "SendGetCheckSumHashAck rd c height = bindE (GetCheckBlockHashsByBlockHeight rd height []) (\<lambda>(ret, hash).
     Inr (if ret \<noteq> DB_SUCCESS then
            (if fst (GetTempTopData c) = height then (True, snd (GetTempTopData c)) else (False, hash))
          else (True, hash)))"

text \<open>
  Synchronising with the nodes just asked: the sums of the ten hundreds below the height being
  confirmed are requested, and each hundred that differs is fetched. \<open>ask\<close> is the request,
  \<open>chain\<close> the height of the chain if it is known, \<open>run\<close> the synchronisation of one hundred.
\<close>

definition DoNewSync :: "db_reader \<Rightarrow> (string \<Rightarrow> (int \<times> (u64 \<times> string) list) option) \<Rightarrow> (string list \<Rightarrow> u64 list \<Rightarrow> nat \<Rightarrow> bool \<times> string list) \<Rightarrow>
    u64 option \<Rightarrow> (u64 \<Rightarrow> u64 \<Rightarrow> u64 \<Rightarrow> int) \<Rightarrow> string list \<Rightarrow> CheckBlocks \<Rightarrow> (db_error, int) result" where
  "DoNewSync rd parse ask chain run sendNodeIds c =
     (let sendNum = length sendNodeIds in
      case ask sendNodeIds (sync_heights c) (dtrunc (dmul (of_nat sendNum) (dbl (9 / 10)))) of (ok, retDatas) \<Rightarrow>
        bindE (ByzantineSumHash rd parse sendNum ok retDatas) (\<lambda>(ret, needSyncHeights).
          Inr (if ret \<noteq> 0 then -1
               else case chain of None \<Rightarrow> -2 | Some chain_height \<Rightarrow> sync_each (run chain_height) needSyncHeights)))"

text \<open>
  The loop. What a round computes, chooses and is answered may change from round to round, as a
  synchronisation writes blocks: \<open>Calc k\<close>, \<open>sync k\<close> and \<open>ask k\<close> are those of the \<open>k\<close>-th round. The
  result of the synchronisation is only logged. Without fuel the loop has not ended.
\<close>

fun check_loop :: "nat \<Rightarrow> nat \<Rightarrow> (string \<Rightarrow> (bool \<times> string) option) \<Rightarrow> (nat \<Rightarrow> u64 \<Rightarrow> string) \<Rightarrow> (nat \<Rightarrow> u64 \<Rightarrow> int + string list) \<Rightarrow>
    (nat \<Rightarrow> string list \<Rightarrow> nat \<Rightarrow> bool \<times> string list) \<Rightarrow> CheckBlocks \<Rightarrow> (CheckBlocks \<times> outcome) option" where
  "check_loop 0 k parse Calc sync ask c = None"
| "check_loop (Suc fuel) k parse Calc sync ask c =
     (case check_round parse (Calc k) (sync k) (ask k) c of
        (c1, None) \<Rightarrow> check_loop fuel (Suc k) parse Calc sync ask c1
      | (c1, Some NewSync) \<Rightarrow> check_loop fuel (Suc k) parse Calc sync ask c1
      | (c1, Some r) \<Rightarrow> Some (c1, r))"

text \<open>The timer's function: nothing while a check runs or while the chain is too short.\<close>

definition ToCheck :: "nat \<Rightarrow> db_reader \<Rightarrow> (string \<Rightarrow> (bool \<times> string) option) \<Rightarrow> (nat \<Rightarrow> u64 \<Rightarrow> string) \<Rightarrow> (nat \<Rightarrow> u64 \<Rightarrow> int + string list) \<Rightarrow>
    (nat \<Rightarrow> string list \<Rightarrow> nat \<Rightarrow> bool \<times> string list) \<Rightarrow> CheckBlocks \<Rightarrow> (db_error, (CheckBlocks \<times> outcome) option) result" where
  "ToCheck fuel rd parse Calc sync ask c =
     (if checkRuning c then Inr (Some (c, Return 0))
      else bindE (Init rd c) (\<lambda>c1. bindE (GetBlockTop rd 0) (\<lambda>(status, selfNodeHeight).
        Inr (if status \<noteq> DB_SUCCESS then Some (c1, Return (-1))
             else if \<not> high_enough selfNodeHeight c1 then Some (c1, Return 0)
             else check_loop fuel 0 parse Calc sync ask c1))))"

section \<open>Lemmas on tallies\<close>

definition cnt :: "(string, nat) omap \<Rightarrow> string \<Rightarrow> nat" where
  "cnt m h = (case om_find m h of None \<Rightarrow> 0 | Some n \<Rightarrow> n)"

lemma cnt_fold_bump: "cnt (fold bump hs m) h = cnt m h + count_list hs h"
  by (induction hs arbitrary: m) (auto simp: cnt_def bump_def om_find_insert split: option.splits)

lemma wf_fold_bump: "om_wf m \<Longrightarrow> om_wf (fold bump hs m)"
  by (induction hs arbitrary: m) (auto simp: bump_def om_wf_insert)

lemma count_list_two: "x \<noteq> y \<Longrightarrow> count_list hs x + count_list hs y \<le> length hs"
  by (induction hs) auto

lemma max_element_None: "max_element m = None \<longleftrightarrow> m = []"
  by (cases m) (auto split: option.splits)

lemma max_element_Some:
  "max_element m = Some e \<Longrightarrow> e \<in> set m \<and> (\<forall>e' \<in> set m. snd e' \<le> snd e)"
proof (induction m arbitrary: e)
  case (Cons a m)
  show ?case
  proof (cases "max_element m")
    case None
    then show ?thesis using Cons.prems by (simp add: max_element_None)
  next
    case (Some e1)
    from Cons.IH [OF this] Cons.prems Some show ?thesis by (auto split: if_splits intro: order_trans)
  qed
qed simp

text \<open>A hash with more than half of the votes is the one found.\<close>

lemma max_element_majority:
  assumes "om_wf (fold bump hs [])" and "length hs < 2 * count_list hs t"
  shows "max_element (fold bump hs []) = Some (t, count_list hs t)"
proof -
  let ?m = "fold bump hs []"
  have c: "cnt ?m x = count_list hs x" for x using cnt_fold_bump [of hs "[]" x] by (simp add: cnt_def)
  have ent: "(x, n) \<in> set ?m \<Longrightarrow> n = count_list hs x" for x n
    using om_find_in [OF assms(1), of x n] c [of x] by (simp add: cnt_def)
  have "cnt ?m t \<noteq> 0" using c assms(2) by auto
  then have t: "(t, count_list hs t) \<in> set ?m"
    using c [of t] by (auto simp: cnt_def split: option.splits dest: map_of_SomeD)
  then obtain e where e: "max_element ?m = Some e" by (cases "max_element ?m") (auto simp: max_element_None)
  obtain x n where xn: "e = (x, n)" by (cases e)
  have "(x, n) \<in> set ?m" "count_list hs t \<le> n" using max_element_Some [OF e] t xn by auto
  then have "n = count_list hs x" "count_list hs t \<le> count_list hs x" using ent by auto
  moreover from this have "x = t" using count_list_two [of x t hs] assms(2) by (cases "x = t") auto
  ultimately show ?thesis using e xn by simp
qed

lemma max_element_count:
  assumes "om_wf (fold bump hs [])" and "max_element (fold bump hs []) = Some (x, n)"
  shows "n = count_list hs x"
  using max_element_Some [OF assms(2)] om_find_in [OF assms(1), of x n] cnt_fold_bump [of hs "[]" x] by (simp add: cnt_def)

text \<open>The hashes that count.\<close>

fun valid_hashes :: "(bool \<times> string) option list \<Rightarrow> string list" where
  "valid_hashes [] = []"
| "valid_hashes (None # as) = valid_hashes as"
| "valid_hashes (Some (success, hash) # as) = (if success \<and> hash \<noteq> [] then hash # valid_hashes as else valid_hashes as)"

lemma length_valid_hashes: "length (valid_hashes as) \<le> length as"
  by (induction as rule: valid_hashes.induct) auto

lemma count_acks_eq: "count_acks as (m, n) = (fold bump (valid_hashes as) m, n + length (valid_hashes as))"
  by (induction as arbitrary: m n rule: valid_hashes.induct) auto

section \<open>Properties\<close>

text \<open>
  C22: With fewer than \<open>2 ^ 40\<close> answers, a round decides to store the node's own sum exactly when
  all of this holds: the wait succeeded or some answer and at least half of the asked number
  came back; at least four fifths of the answers are usable; at least one is; and at least
  nine tenths of the usable ones name that sum. The decision is \<open>SaveTop\<close>; storing it is
  \<open>save_top\<close>, which may still fail.
\<close>

theorem check_sum_confirmed:
  fixes retDatas :: "string list" and parse :: "string \<Rightarrow> (bool \<times> string) option"
  defines "hs \<equiv> valid_hashes (map parse retDatas)"
  assumes "length retDatas < 2 ^ 40"
  shows "decide parse height t sendNum ok retDatas = Some (SaveTop height t) \<longleftrightarrow>
    (ok \<or> retDatas \<noteq> [] \<and> sendNum div 2 \<le> length retDatas) \<and> 4 * length retDatas \<le> 5 * length hs \<and>
    0 < length hs \<and> 9 * length hs \<le> 10 * count_list hs t"
proof -
  have len: "length hs < 2 ^ 40"
    using assms(2) length_valid_hashes [of "map parse retDatas"] by (simp add: hs_def)
  have wf: "om_wf (fold bump hs [])" by (simp add: wf_fold_bump)
  have c: "count_acks (map parse retDatas) ([], 0) = (fold bump hs [], length hs)"
    by (simp add: count_acks_eq hs_def)
  have d8: "dmul (of_nat (length retDatas)) (dbl (4 / 5)) \<le> of_nat (length hs) \<longleftrightarrow> 4 * length retDatas \<le> 5 * length hs"
    by (rule dmul_le(1) [OF decimal_08 assms(2)])
  have d9: "dmul (of_nat (length hs)) (dbl (9 / 10)) \<le> of_nat k \<longleftrightarrow> 9 * length hs \<le> 10 * k" for k
    by (rule dmul_le(1) [OF decimal_09 len])
  have max: "(\<exists>n. max_element (fold bump hs []) = Some (t, n) \<and> 9 * length hs \<le> 10 * n) \<longleftrightarrow>
      0 < length hs \<and> 9 * length hs \<le> 10 * count_list hs t"
  proof
    assume "\<exists>n. max_element (fold bump hs []) = Some (t, n) \<and> 9 * length hs \<le> 10 * n"
    then obtain n where n: "max_element (fold bump hs []) = Some (t, n)" "9 * length hs \<le> 10 * n" by blast
    moreover have "hs \<noteq> []" using n(1) by auto
    ultimately show "0 < length hs \<and> 9 * length hs \<le> 10 * count_list hs t"
      using max_element_count [OF wf n(1)] by simp
  next
    assume a: "0 < length hs \<and> 9 * length hs \<le> 10 * count_list hs t"
    then have "length hs < 2 * count_list hs t" by linarith
    with a show "\<exists>n. max_element (fold bump hs []) = Some (t, n) \<and> 9 * length hs \<le> 10 * n"
      using max_element_majority [OF wf, of t] by auto
  qed
  show ?thesis
    unfolding decide_def c prod.case d8 d9 max [symmetric]
    by (auto split: option.splits prod.splits if_splits)
qed

theorem check_sum_confirmed_witness:
  "decide (\<lambda>d. Some (True, d)) 1000 ''s'' 10 True (replicate 9 ''s'' @ [''r'']) = Some (SaveTop 1000 ''s'')"
proof -
  have "valid_hashes (map (\<lambda>d. Some (True, d)) (replicate 9 ''s'' @ [''r''])) = replicate 9 ''s'' @ [''r'']"
    by (simp add: numeral_eq_Suc)
  moreover have "count_list (replicate 9 ''s'' @ [''r'']) ''s'' = 9" by (simp add: numeral_eq_Suc)
  ultimately show ?thesis
    using check_sum_confirmed [of "replicate 9 ''s'' @ [''r'']" "\<lambda>d. Some (True, d)" 1000 "''s''" 10 True] by simp
qed



end
