(* ===== verification/Tx_Utxo.thy ===== *)
theory Tx_Utxo
  imports Db_Api Tx_Conflict Global_Wait Peer_Node
begin

text \<open>
  The helpers of \<open>ca/txhelper.cpp\<close> that every new transaction rests on: the spendable outputs
  of an address, the choice of the inputs, their confirmation by other nodes, signatures, and
  the age of a transaction that decides who packs it. Databases are read through \<open>Db_Api\<close>;
  hashing, serialisation, accounts and address syntax are the fields of \<open>tx_env\<close>.
\<close>

section \<open>The surroundings\<close>

record Utxo =
  ut_value :: u64
  ut_addr :: string
  ut_hash :: string
  ut_n :: u32

text \<open>
  An account has a signing function and a public key. \<open>te_sort\<close> is the \<open>std::sort\<close> of outputs by
  falling value: the order it gives to equal values is left open by the language.
\<close>

record tx_env =
  te_isValidAddress :: "string \<Rightarrow> bool"
  te_account :: "string \<Rightarrow> ((string \<Rightarrow> string option) \<times> string) option"
  te_sha256 :: "string \<Rightarrow> string"
  te_ser_vin :: "CTxInput \<Rightarrow> string"
  te_ser_utxo :: "CTxUtxo \<Rightarrow> string"
  te_ser_tx :: "CTransaction \<Rightarrow> string"
  te_parse_block :: "string \<Rightarrow> CBlock option"
  te_TxTimeoutMin :: u64
  te_sort :: "Utxo list \<Rightarrow> Utxo list"

definition sorts_falling :: "(Utxo list \<Rightarrow> Utxo list) \<Rightarrow> bool" where
  "sorts_falling f \<longleftrightarrow> (\<forall>us. mset (f us) = mset us \<and> sorted_wrt (\<lambda>a b. ut_value b \<le> ut_value a) (f us))"

datatype tx_error = TxDb db_error | VectorIndex

definition lift_db :: "(db_error, 'a) result \<Rightarrow> (tx_error, 'a) result" where
  "lift_db r = (case r of Inl e \<Rightarrow> Inl (TxDb e) | Inr x \<Rightarrow> Inr x)"

lemma lift_db_Inr [simp]: "lift_db (Inr x) = Inr x" "lift_db r = Inr x \<longleftrightarrow> r = Inr x"
  by (auto simp: lift_db_def split: sum.splits)

section \<open>Inputs of a transaction\<close>

text \<open>The height of the newest block among those of the inputs.\<close>

fun utxo_height :: "db_reader \<Rightarrow> CTxPrevOutput list \<Rightarrow> u64 \<times> bool \<Rightarrow> (db_error, int \<times> u64) result" where
  "utxo_height rd [] (h, flag) = Inr (if \<not> flag then -3 else 0, h)"
| "utxo_height rd (prevout # ps) (h, flag) =
     bindE (GetBlockHashByTransactionHash rd (prev_hash prevout) []) (\<lambda>(st1, blockHash).
     if st1 \<noteq> DB_SUCCESS then Inr (-1, h)
     else bindE (GetBlockHeightByBlockHash rd blockHash 0) (\<lambda>(st2, blockHeight).
       if st2 \<noteq> DB_SUCCESS then Inr (-2, h)
       else if h \<le> ucast blockHeight then utxo_height rd ps (ucast blockHeight, True)
       else utxo_height rd ps (h, flag)))"

definition GetTxUtxoHeight :: "db_reader \<Rightarrow> CTransaction \<Rightarrow> (db_error, int \<times> u64) result" where
  "GetTxUtxoHeight rd tx = utxo_height rd (concat (map vin_prevouts (tx_vins tx))) (0, False)"

definition GetTxOwner :: "(string \<Rightarrow> string) \<Rightarrow> CTransaction \<Rightarrow> string list" where
  "GetTxOwner GenerateAddr tx =
     fold (\<lambda>txin addrs. let addr = GenerateAddr (vin_pub txin) in if addr \<in> set addrs then addrs else addrs @ [addr]) (tx_vins tx) []"

section \<open>Spendable outputs\<close>

text \<open>
  The stored balance is a number, or several joined by underscores when an output was also
  pledged; the numbers are added.
\<close>

definition balance_value :: "string \<Rightarrow> (db_error, u64) result" where
  "balance_value balance =
     (if find_sub ''_'' balance \<noteq> None
      then foldlE (\<lambda>value s. bindE (lift_num (stol s)) (\<lambda>i. Inr (value + word_of_int i))) 0 (split_to balance [])
      else bindE (lift_num (stol balance)) (\<lambda>i. Inr (word_of_int i)))"

fun collect_utxos :: "db_reader \<Rightarrow> string \<Rightarrow> string list \<Rightarrow> (db_error, Utxo list) result" where
  "collect_utxos rd addr [] = Inr []"
| "collect_utxos rd addr (hash # hs) =
     bindE (GetUtxoValueByUtxoHashs rd hash addr []) (\<lambda>(st, balance).
     if st \<noteq> DB_SUCCESS then collect_utxos rd addr hs
     else bindE (balance_value balance) (\<lambda>v. bindE (collect_utxos rd addr hs) (\<lambda>us.
       Inr (\<lparr>ut_value = v, ut_addr = addr, ut_hash = hash, ut_n = 0\<rparr> # us))))"

text \<open>Sorting and then erasing neighbours that are equal.\<close>

definition sort_unique :: "string list \<Rightarrow> string list" where
  "sort_unique xs = remdups_adj (sort xs)"

definition GetUtxos :: "db_reader \<Rightarrow> string \<Rightarrow> Utxo list \<Rightarrow> (db_error, int \<times> Utxo list) result" where
  "GetUtxos rd addr old =
     (if addr = [] then Inr (-1, old)
      else bindE (GetUtxoHashsByAddress rd addr []) (\<lambda>(st, vecUtxoHashs).
        if st \<noteq> DB_SUCCESS then Inr (-2, [])
        else bindE (collect_utxos rd addr (sort_unique vecUtxoHashs)) (\<lambda>us. Inr (0, us))))"

fun check_addrs :: "'e tx_env_scheme \<Rightarrow> db_reader \<Rightarrow> string list \<Rightarrow> (db_error, int) result" where
  "check_addrs env rd [] = Inr 0"
| "check_addrs env rd (from # addrs) =
     (if \<not> te_isValidAddress env from then Inr (-3)
      else bindE (GetUtxoHashsByAddress rd from []) (\<lambda>(st, _).
        if st \<noteq> DB_SUCCESS then Inr (-4) else check_addrs env rd addrs))"

definition Check :: "'e tx_env_scheme \<Rightarrow> db_reader \<Rightarrow> string list \<Rightarrow> u64 \<Rightarrow> (db_error, int) result" where
  "Check env rd fromAddr h =
     (if fromAddr = [] then Inr (-1)
      else if length (sort_unique fromAddr) \<noteq> length fromAddr then Inr (-2)
      else bindE (check_addrs env rd fromAddr) (\<lambda>ret.
        Inr (if ret \<noteq> 0 then ret else if h = 0 then -5 else 0)))"

section \<open>Choosing the inputs\<close>

definition kMaxVinSize :: nat where
  "kMaxVinSize = 1000"

fun all_utxos :: "db_reader \<Rightarrow> string list \<Rightarrow> (db_error, Utxo list option) result" where
  "all_utxos rd [] = Inr (Some [])"
| "all_utxos rd (addr # addrs) =
     bindE (GetUtxoHashsByAddress rd addr []) (\<lambda>(st, vecUtxoHashs).
     if st \<noteq> DB_SUCCESS then Inr None
     else bindE (collect_utxos rd addr (sort_unique vecUtxoHashs)) (\<lambda>us.
       bindE (all_utxos rd addrs) (\<lambda>r. Inr (map_option ((@) us) r))))"

text \<open>
  \<open>std::multiset\<close> ordered by value: a new element goes behind those that are equal to it.
\<close>

definition UtxoCompare :: "Utxo \<Rightarrow> Utxo \<Rightarrow> bool" where
  "UtxoCompare a b \<longleftrightarrow> ut_value a < ut_value b"

definition ms_insert :: "Utxo \<Rightarrow> Utxo list \<Rightarrow> Utxo list" where
  "ms_insert u us = takeWhile (\<lambda>x. \<not> UtxoCompare u x) us @ u # dropWhile (\<lambda>x. \<not> UtxoCompare u x) us"

fun take_utxos :: "nat \<Rightarrow> Utxo list \<Rightarrow> u64 \<times> Utxo list \<Rightarrow> u64 \<times> Utxo list" where
  "take_utxos need [] acc = acc"
| "take_utxos need (u # us) (tot, out) =
     (if length out = need then (tot, out) else take_utxos need us (tot + ut_value u, ms_insert u out))"

definition FindUtxo :: "'e tx_env_scheme \<Rightarrow> db_reader \<Rightarrow> (Utxo list \<Rightarrow> (db_error, int) result) \<Rightarrow> string list \<Rightarrow> nat \<Rightarrow> u64 \<Rightarrow> Utxo list \<Rightarrow> bool \<Rightarrow>
    (db_error, int \<times> u64 \<times> Utxo list) result" where
  "FindUtxo env rd confirm fromAddr needUtxoAmount tot setOutUtxos isFindUtxo =
     bindE (all_utxos rd fromAddr) (\<lambda>r. case r of
         None \<Rightarrow> Inr (-1, tot, setOutUtxos)
       | Some us \<Rightarrow>
           (case (if length setOutUtxos < needUtxoAmount then take_utxos needUtxoAmount (te_sort env us) (0, setOutUtxos)
                  else (0, setOutUtxos)) of (tot', out) \<Rightarrow>
              if isFindUtxo then bindE (confirm out) (\<lambda>ret. Inr (if ret \<noteq> 0 then -2 else 0, tot', out))
              else Inr (0, tot', out)))"

section \<open>Confirmation by other nodes\<close>

definition GetRandomNodeLists :: "db_reader \<Rightarrow> (Node list \<Rightarrow> Node list) \<Rightarrow> net \<Rightarrow> (db_error, int \<times> Node list) result" where
  "GetRandomNodeLists rd shuffle s =
     (let nodelist = GetNodelist NODE_ALL False s in
      if nodelist = [] then Inr (-1, [])
      else bindE (GetBlockTop rd 0) (\<lambda>(st, h).
        if st \<noteq> DB_SUCCESS then Inr (-2, [])
        else let filterHeightNodeLists = filter (\<lambda>item. h \<le> ucast (height item)) nodelist;
                 send_num = (if length filterHeightNodeLists \<ge> 100 then 100 else length filterHeightNodeLists)
          in if send_num = 0 then Inr (-3, []) else Inr (0, take send_num (shuffle filterHeightNodeLists))))"

text \<open>
  The number of answers, out of \<open>n\<close>, that are too few: the quotient is below one half. With
  no answers at all zero is divided by zero, which is not a number and below nothing.
\<close>

definition rate_low :: "nat \<Rightarrow> nat \<Rightarrow> bool" where
  "rate_low k n \<longleftrightarrow> n \<noteq> 0 \<and> ddiv (of_nat k) (of_nat n) < 1 / 2"

text \<open>
  \<open>ask nodes n hashes\<close> is the request for the state of the given outputs, \<open>parse\<close> reads an answer as its
  list of outputs and flags.
\<close>

definition success_count :: "(string \<times> int) list \<Rightarrow> string \<Rightarrow> nat" where
  "success_count txFlagHashs hash = length (filter (\<lambda>item. snd item = 1 \<and> fst item = hash) txFlagHashs) mod 2 ^ 32"

definition SendConfirmUtxoHashReq :: "db_reader \<Rightarrow> (Node list \<Rightarrow> Node list) \<Rightarrow> net \<Rightarrow> (string \<Rightarrow> (string \<times> int) list option) \<Rightarrow>
    (string list \<Rightarrow> nat \<Rightarrow> string list \<Rightarrow> bool \<times> string list) \<Rightarrow> Utxo list \<Rightarrow> (db_error, int) result" where
  "SendConfirmUtxoHashReq rd shuffle s parse ask setOutUtxos =
     bindE (GetRandomNodeLists rd shuffle s) (\<lambda>(ret, randomNodeLists).
     if ret \<noteq> 0 then Inr (-1)
     else let hashes = map ut_hash setOutUtxos in
       case ask (map address randomNodeLists) (dtrunc (dmul (of_nat (length randomNodeLists)) (dbl (4 / 5)))) hashes of (ok, ret_datas) \<Rightarrow>
         if \<not> ok then Inr (-4)
         else let txFlagHashs = concat (List.map_filter parse ret_datas) in
           Inr (if \<exists>hash \<in> set hashes. rate_low (success_count txFlagHashs hash) (length ret_datas) then -5 else 0))"

section \<open>Signatures\<close>

definition Sign :: "'e tx_env_scheme \<Rightarrow> string \<Rightarrow> string \<Rightarrow> int + CSign" where
  "Sign env addr message =
     (if addr = [] \<or> message = [] then Inl (-1)
      else case te_account env addr of
        None \<Rightarrow> Inl (-2)
      | Some (sg, pubStr) \<Rightarrow>
          (case sg message of None \<Rightarrow> Inl (-3) | Some signature \<Rightarrow> Inr \<lparr>sign_sign = signature, sign_pub = pubStr\<rparr>))"

definition AddMutilSign :: "'e tx_env_scheme \<Rightarrow> string \<Rightarrow> CTransaction \<Rightarrow> int + CTransaction" where
  "AddMutilSign env addr tx =
     (if \<not> te_isValidAddress env addr then Inl (-1)
      else let copyTxUtxo = (tx_utxo tx)\<lparr>utxo_multisign := []\<rparr>;
               serTxUtxo = te_sha256 env (te_ser_utxo env copyTxUtxo)
        in case Sign env addr serTxUtxo of
             Inl _ \<Rightarrow> Inl (-2)
           | Inr s \<Rightarrow> Inr (tx\<lparr>tx_utxo := (tx_utxo tx)\<lparr>utxo_multisign := utxo_multisign (tx_utxo tx) @ [s]\<rparr>\<rparr>))"

definition AddVerifySign :: "'e tx_env_scheme \<Rightarrow> string \<Rightarrow> CTransaction \<Rightarrow> int + CTransaction" where
  "AddVerifySign env addr tx =
     (if \<not> te_isValidAddress env addr then Inl (-1)
      else let serTx = te_ser_tx env (tx\<lparr>tx_hash := [], tx_verifysign := []\<rparr>) in
        if serTx = [] then Inl (-2)
        else case Sign env addr (te_sha256 env serTx) of
          Inl _ \<Rightarrow> Inl (-3)
        | Inr s \<Rightarrow> Inr (tx\<lparr>tx_verifysign := tx_verifysign tx @ [s]\<rparr>))"

section \<open>Who packs a transaction\<close>

definition IsNeedAgent_addrs :: "string \<Rightarrow> string list \<Rightarrow> bool" where
  "IsNeedAgent_addrs defaultAddr fromAddr = fold (\<lambda>owner isNeedAgent. if owner = defaultAddr then False else isNeedAgent) fromAddr True"

definition IsNeedAgent :: "CTransaction \<Rightarrow> bool" where
  "IsNeedAgent tx \<longleftrightarrow> tx_identity tx \<notin> set (tx_owners tx)"

text \<open>The blocks of a list of hashes, or \<open>None\<close> when one is missing or does not parse.\<close>

fun read_blocks :: "'e tx_env_scheme \<Rightarrow> db_reader \<Rightarrow> string list \<Rightarrow> (db_error, CBlock list option) result" where
  "read_blocks env rd [] = Inr (Some [])"
| "read_blocks env rd (hash # hs) =
     bindE (GetBlockByBlockHash rd hash []) (\<lambda>(st, blockStr).
     if st \<noteq> DB_SUCCESS then Inr None
     else case te_parse_block env blockStr of
       None \<Rightarrow> Inr None
     | Some block \<Rightarrow> bindE (read_blocks env rd hs) (\<lambda>r. Inr (map_option ((#) block) r)))"

definition CheckTxTimeOut :: "'e tx_env_scheme \<Rightarrow> db_reader \<Rightarrow> u64 \<Rightarrow> u64 \<Rightarrow> u64 \<Rightarrow> (tx_error, bool) result" where
  "CheckTxTimeOut env rd txTime timeout preHeight =
     (if txTime \<le> 0 then Inr False
      else bindE (lift_db (GetBlockHashesByBlockHeight rd preHeight preHeight [])) (\<lambda>(ret, blockHashes).
        if ret \<noteq> DB_SUCCESS then Inr False
        else bindE (lift_db (read_blocks env rd blockHashes)) (\<lambda>r. case r of
            None \<Rightarrow> Inr False
          | Some blocks \<Rightarrow>
              if blocks = [] then Inl VectorIndex
              else let resultTime = last (sort (map blk_time blocks)) in
                if resultTime \<le> 0 then Inr False
                else Inr ((word_of_int \<bar>sint (txTime - resultTime)\<bar> :: u64) > timeout * 1000000))))"

definition GetVrfAgentType :: "'e tx_env_scheme \<Rightarrow> db_reader \<Rightarrow> CTransaction \<Rightarrow> u64 \<Rightarrow> (tx_error, vrfAgentType) result" where
  "GetVrfAgentType env rd tx preHeight =
     (if tx_type tx = kTxTypeDeployContract \<or> tx_type tx = kTxTypeCallContract then Inr vrfAgentType_vrf
      else bindE (CheckTxTimeOut env rd (tx_time tx) (te_TxTimeoutMin env) preHeight) (\<lambda>late.
        Inr (if tx_identity tx \<in> set (tx_owners tx) then vrfAgentType_defalut
             else if \<not> late then vrfAgentType_vrf else vrfAgentType_local)))"

definition GetTxStartIdentity :: "'e tx_env_scheme \<Rightarrow> db_reader \<Rightarrow> u64 \<Rightarrow> u64 \<Rightarrow> (tx_error, vrfAgentType) result" where
  "GetTxStartIdentity env rd h currentTime =
     bindE (CheckTxTimeOut env rd currentTime (te_TxTimeoutMin env) (h - 1)) (\<lambda>late.
       Inr (if late then vrfAgentType_defalut else vrfAgentType_vrf))"

text \<open>
  The node itself when the chain is young or the node is staked and invested in; otherwise a
  random one of the peers that are. \<open>chain\<close> is the height of the chain if it is known, \<open>random\<close> the
  uniform choice below its argument.
\<close>

definition GetIdentityNodes :: "u64 option \<Rightarrow> u64 \<Rightarrow> (string \<Rightarrow> int) \<Rightarrow> (string \<Rightarrow> int) \<Rightarrow> string \<Rightarrow> string" where
  "GetIdentityNodes chain kMinUnstakeHeight VerifyBonusAddr stakeTime defaultAddr =
     (case chain of
        None \<Rightarrow> []
      | Some chainHeight \<Rightarrow>
          if chainHeight \<le> kMinUnstakeHeight then defaultAddr
          else if stakeTime defaultAddr > 0 \<and> VerifyBonusAddr defaultAddr = 0 then defaultAddr else [])"

definition GetEligibleNodes :: "(nat \<Rightarrow> nat) \<Rightarrow> (string \<Rightarrow> int) \<Rightarrow> (string \<Rightarrow> int) \<Rightarrow> net \<Rightarrow> string" where
  "GetEligibleNodes random VerifyBonusAddr stakeTime s =
     (let result_node = filter (\<lambda>a. stakeTime a > 0 \<and> VerifyBonusAddr a = 0) (map address (GetNodelist NODE_ALL False s)) in
      if length result_node = 0 then [] else result_node ! random (length result_node))"

section \<open>Lemmas on the choice of inputs\<close>

abbreviation sorted_rising :: "Utxo list \<Rightarrow> bool" where
  "sorted_rising \<equiv> sorted_wrt (\<lambda>a b. ut_value a \<le> ut_value b)"

lemma mset_ms_insert [simp]: "mset (ms_insert u us) = add_mset u (mset us)"
proof -
  have "mset (takeWhile P us) + mset (dropWhile P us) = mset us" for P
    by (metis mset_append takeWhile_dropWhile_id)
  then show ?thesis by (simp add: ms_insert_def)
qed

lemma ms_insert_sorted: "sorted_rising us \<Longrightarrow> sorted_rising (ms_insert u us)"
proof (induction us)
  case (Cons x us)
  have *: "ms_insert u (x # us) = (if ut_value u < ut_value x then u # x # us else x # ms_insert u us)"
    by (simp add: ms_insert_def UtxoCompare_def)
  have "set (ms_insert u us) = insert u (set us)"
    by (metis mset_ms_insert set_mset_add_mset_insert set_mset_mset)
  then show ?case using Cons unfolding * by (auto simp: not_less)
qed (simp add: ms_insert_def)

lemma mset_fold_ms_insert: "mset (fold ms_insert us out) = mset us + mset out"
  by (induction us arbitrary: out) simp_all

lemma fold_ms_insert_sorted: "sorted_rising out \<Longrightarrow> sorted_rising (fold ms_insert us out)"
  by (induction us arbitrary: out) (simp_all add: ms_insert_sorted)

lemma take_utxos_eq:
  "length out \<le> need \<Longrightarrow> take_utxos need us (tot, out) =
     (tot + sum_list (map ut_value (take (need - length out) us)), fold ms_insert (take (need - length out) us) out)"
proof (induction us arbitrary: tot out)
  case (Cons u us)
  have len: "length (ms_insert u out) = Suc (length out)"
    by (metis mset_ms_insert size_add_mset size_mset)
  show ?case
  proof (cases "length out = need")
    case False
    then obtain k where "need - length out = Suc k" "k = need - length (ms_insert u out)"
      using Cons.prems len by (cases "need - length out") auto
    then show ?thesis using False Cons len by (simp add: add.assoc)
  qed simp
qed simp

lemma sum_list_mset_map: "mset xs = mset ys \<Longrightarrow> sum_list (map f xs) = sum_list (map f (ys :: 'a list))"
  for f :: "'a \<Rightarrow> 'b::comm_monoid_add"
  by (metis mset_map sum_mset_sum_list)

lemma distinct_remdups_adj_sorted: "sorted xs \<Longrightarrow> distinct (remdups_adj xs)"
  by (induction xs rule: remdups_adj.induct) (auto simp: order.order_iff_strict)

lemma sort_unique: "distinct (sort_unique xs)" "set (sort_unique xs) = set xs"
  by (simp_all add: sort_unique_def distinct_remdups_adj_sorted)

lemma length_sort_unique: "length (sort_unique xs) = length xs \<longleftrightarrow> distinct xs"
  by (metis sort_unique card_distinct distinct_card)

lemma collect_utxos_props:
  assumes "collect_utxos rd addr hs = Inr us" and "distinct hs"
  shows "distinct (map ut_hash us) \<and> set (map ut_hash us) \<subseteq> set hs \<and> (\<forall>u \<in> set us. ut_addr u = addr \<and> ut_n u = 0)"
  using assms by (induction hs arbitrary: us) (fastforce split: if_splits)+

lemma all_utxos_props:
  assumes "all_utxos rd addrs = Inr (Some us)" and "distinct addrs"
  shows "distinct (map (\<lambda>u. (ut_addr u, ut_hash u)) us) \<and> (\<forall>u \<in> set us. ut_addr u \<in> set addrs \<and> ut_n u = 0)"
  using assms
proof (induction addrs arbitrary: us)
  case (Cons a addrs)
  then obtain hs vs ws where vs: "collect_utxos rd a (sort_unique hs) = Inr vs"
      and ws: "all_utxos rd addrs = Inr (Some ws)" and us: "us = vs @ ws"
    by (auto split: if_splits)
  have v: "distinct (map ut_hash vs)" "\<forall>u \<in> set vs. ut_addr u = a \<and> ut_n u = 0"
    using collect_utxos_props [OF vs sort_unique(1)] by auto
  have w: "distinct (map (\<lambda>u. (ut_addr u, ut_hash u)) ws)" "\<forall>u \<in> set ws. ut_addr u \<in> set addrs \<and> ut_n u = 0"
    using Cons.IH [OF ws] Cons.prems(2) by auto
  have "distinct (map (\<lambda>u. (ut_addr u, ut_hash u)) vs)"
    using v(1) by (auto simp: distinct_map inj_on_def)
  then show ?case using v(2) w Cons.prems(2) us by fastforce
qed simp

lemma find_utxo_cases:
  assumes "sorts_falling (te_sort env)"
    and "FindUtxo env rd confirm fromAddr need 0 [] isFindUtxo = Inr (0, tot, out)"
  obtains all where "all_utxos rd fromAddr = Inr (Some all)"
    and "mset out = mset (take need (te_sort env all))" and "tot = sum_list (map ut_value out)"
    and "sorted_rising out" and "isFindUtxo \<Longrightarrow> confirm out = Inr 0"
proof -
  obtain all where all: "all_utxos rd fromAddr = Inr (Some all)"
    using assms(2) by (auto simp: FindUtxo_def split: option.splits)
  let ?s = "take need (te_sort env all)"
  have "(if length ([] :: Utxo list) < need then take_utxos need (te_sort env all) (0, []) else (0, [])) =
      (sum_list (map ut_value ?s), fold ms_insert ?s [])"
    by (cases need) (simp_all add: take_utxos_eq)
  then have *: "tot = sum_list (map ut_value ?s)" "out = fold ms_insert ?s []" "isFindUtxo \<Longrightarrow> confirm out = Inr 0"
    using assms(2) all by (auto simp: FindUtxo_def split: if_splits)
  then have m: "mset out = mset ?s" by (simp add: mset_fold_ms_insert)
  show ?thesis
  proof (rule that [OF all m])
    show "tot = sum_list (map ut_value out)" using *(1) sum_list_mset_map [OF m, of ut_value] by simp
    show "sorted_rising out" using *(2) by (simp add: fold_ms_insert_sorted)
  qed (rule *(3))
qed

lemma find_utxo_spec:
  assumes "sorts_falling (te_sort env)" and "distinct fromAddr"
    and "FindUtxo env rd confirm fromAddr need 0 [] isFindUtxo = Inr (0, tot, out)"
  shows "\<exists>all. all_utxos rd fromAddr = Inr (Some all) \<and> mset out \<subseteq># mset all \<and>
    length out = min need (length all) \<and> (\<forall>c \<in> set out. \<forall>u \<in># mset all - mset out. ut_value u \<le> ut_value c) \<and>
    distinct (map (\<lambda>u. (ut_addr u, ut_hash u)) out) \<and> tot = sum_list (map ut_value out) \<and> (isFindUtxo \<longrightarrow> confirm out = Inr 0)"
proof -
  obtain all where all: "all_utxos rd fromAddr = Inr (Some all)" and out: "mset out = mset (take need (te_sort env all))"
      and t: "tot = sum_list (map ut_value out)" and c: "isFindUtxo \<Longrightarrow> confirm out = Inr 0"
    using find_utxo_cases [OF assms(1,3)] by metis
  let ?s = "te_sort env all"
  have s: "mset ?s = mset all" "sorted_wrt (\<lambda>a b. ut_value b \<le> ut_value a) (take need ?s @ drop need ?s)"
    using assms(1) by (simp_all add: sorts_falling_def)
  have rest: "mset all = mset out + mset (drop need ?s)"
    using s(1) out by (metis append_take_drop_id mset_append)
  have len: "length out = min need (length all)"
    using out s(1) by (metis length_take min.commute mset_eq_length)
  have big: "\<forall>c \<in> set out. \<forall>u \<in># mset all - mset out. ut_value u \<le> ut_value c"
    using s(2) rest mset_eq_setD [OF out] unfolding sorted_wrt_append by simp
  have "distinct (map (\<lambda>u. (ut_addr u, ut_hash u)) all)"
    using all_utxos_props [OF all assms(2)] by blast
  moreover have "mset (map (\<lambda>u. (ut_addr u, ut_hash u)) all) = mset (map (\<lambda>u. (ut_addr u, ut_hash u)) (out @ drop need ?s))"
    using rest by simp
  ultimately have "distinct (map (\<lambda>u. (ut_addr u, ut_hash u)) (out @ drop need ?s))"
    by (metis mset_eq_imp_distinct_iff)
  then have "distinct (map (\<lambda>u. (ut_addr u, ut_hash u)) out)" by simp
  then show ?thesis using all rest len big t c by (metis mset_subset_eq_add_left)
qed

lemma find_utxo_props:
  assumes "sorts_falling (te_sort env)" and "distinct fromAddr"
    and "FindUtxo env rd confirm fromAddr need 0 [] isFindUtxo = Inr (0, tot, out)"
  shows "length out \<le> need \<and> distinct (map (\<lambda>u. (ut_addr u, ut_hash u)) out) \<and> tot = sum_list (map ut_value out)"
  using find_utxo_spec [OF assms] by auto

text \<open>
  C25: The chosen inputs are outputs of the given addresses, none twice, as many as allowed or
  all of them, and every output left out is at most as large as every one chosen; the total
  is their sum.
\<close>

theorem find_utxo_largest:
  assumes "sorts_falling (te_sort env)" and "distinct fromAddr"
    and "FindUtxo env rd confirm fromAddr need 0 [] isFindUtxo = Inr (0, tot, out)"
  shows "\<exists>all. all_utxos rd fromAddr = Inr (Some all) \<and> mset out \<subseteq># mset all \<and>
    length out = min need (length all) \<and> (\<forall>c \<in> set out. \<forall>u \<in># mset all - mset out. ut_value u \<le> ut_value c) \<and>
    distinct (map (\<lambda>u. (ut_addr u, ut_hash u)) out) \<and> tot = sum_list (map ut_value out) \<and> (isFindUtxo \<longrightarrow> confirm out = Inr 0)"
  using find_utxo_spec [OF assms] .

text \<open>A database with three outputs of one address, for the concrete checks.\<close>

definition sample_reader :: db_reader where
  "sample_reader = \<lparr>ReadData = (\<lambda>key value. Inr (case map_of [(kAddress2UtxoKey @ ''A'', ''x_y_z''), (''A_x'', ''5''), (''A_y'', ''9''), (''A_z'', ''3_4'')] key of
       Some v \<Rightarrow> (DB_SUCCESS, v) | None \<Rightarrow> (DB_NOT_FOUND, []))),
     MultiReadData = (\<lambda>keys values. Inr (DB_NOT_FOUND, []))\<rparr>"

definition sample_env :: tx_env where
  "sample_env = \<lparr>te_isValidAddress = (\<lambda>a. a \<noteq> []), te_account = (\<lambda>a. Some (\<lambda>m. Some m, a)), te_sha256 = (\<lambda>s. ''h'' @ s),
     te_ser_vin = (\<lambda>v. concat (map prev_hash (vin_prevouts v))), te_ser_utxo = (\<lambda>u. concat (map out_addr (utxo_vout u))),
     te_ser_tx = (\<lambda>t. tx_data t), te_parse_block = (\<lambda>_. None), te_TxTimeoutMin = 30, te_sort = (\<lambda>us. rev (sort_key ut_value us))\<rparr>"

lemma sorts_falling_sample: "sorts_falling (\<lambda>us. rev (sort_key ut_value us))"
proof -
  have "sorted_rising (sort_key ut_value us)" for us
    using sorted_sort_key [of ut_value us] by (simp only: sorted_map)
  then show ?thesis by (simp add: sorts_falling_def sorted_wrt_rev)
qed

abbreviation sample_outputs :: "Utxo list" where
  "sample_outputs \<equiv> [\<lparr>ut_value = 5, ut_addr = ''A'', ut_hash = ''x'', ut_n = 0\<rparr>, \<lparr>ut_value = 9, ut_addr = ''A'', ut_hash = ''y'', ut_n = 0\<rparr>,
     \<lparr>ut_value = 7, ut_addr = ''A'', ut_hash = ''z'', ut_n = 0\<rparr>]"

lemma sample_hashes: "GetUtxoHashsByAddress sample_reader ''A'' [] = Inr (DB_SUCCESS, [''x'', ''y'', ''z''])"
  by code_simp

lemma sample_all: "all_utxos sample_reader [''A''] = Inr (Some sample_outputs)"
proof -
  have "sort_unique [''x'', ''y'', ''z''] = [''x'', ''y'', ''z'']" by code_simp
  moreover have "GetUtxoValueByUtxoHashs sample_reader ''x'' ''A'' [] = Inr (DB_SUCCESS, ''5'')"
      "GetUtxoValueByUtxoHashs sample_reader ''y'' ''A'' [] = Inr (DB_SUCCESS, ''9'')"
      "GetUtxoValueByUtxoHashs sample_reader ''z'' ''A'' [] = Inr (DB_SUCCESS, ''3_4'')" by code_simp+
  moreover have "balance_value ''5'' = Inr 5" "balance_value ''9'' = Inr 9" "balance_value ''3_4'' = Inr 7" by code_simp+
  ultimately show ?thesis by (simp add: sample_hashes)
qed

lemma sample_sorted: "te_sort sample_env sample_outputs = [sample_outputs ! 1, sample_outputs ! 2, sample_outputs ! 0]"
  by (simp add: sample_env_def)

theorem find_utxo_largest_witness:
  "FindUtxo sample_env sample_reader (\<lambda>_. Inr 0) [''A''] 2 0 [] True =
     Inr (0, 16, [\<lparr>ut_value = 7, ut_addr = ''A'', ut_hash = ''z'', ut_n = 0\<rparr>, \<lparr>ut_value = 9, ut_addr = ''A'', ut_hash = ''y'', ut_n = 0\<rparr>]) \<and>
   (\<exists>all. all_utxos sample_reader [''A''] = Inr (Some all) \<and> length all \<ge> 2)"
proof -
  let ?out = "[\<lparr>ut_value = 7, ut_addr = ''A'', ut_hash = ''z'', ut_n = 0\<rparr>, \<lparr>ut_value = 9, ut_addr = ''A'', ut_hash = ''y'', ut_n = 0\<rparr>]"
  have run: "FindUtxo sample_env sample_reader (\<lambda>_. Inr 0) [''A''] 2 0 [] True = Inr (0, 16, ?out)"
    by (simp add: FindUtxo_def sample_all sample_sorted ms_insert_def UtxoCompare_def del: all_utxos.simps)
  have env: "sorts_falling (te_sort sample_env)"
    using sorts_falling_sample by (simp add: sample_env_def)
  obtain all where "all_utxos sample_reader [''A''] = Inr (Some all)" "length ?out = min 2 (length all)"
    using find_utxo_largest [OF env _ run] by auto
  then show ?thesis using run by auto
qed

section \<open>Confirmation\<close>

lemma rate_low_iff:
  assumes "k \<le> n" and "n < 2 ^ 40"
  shows "rate_low k n \<longleftrightarrow> 2 * k < n"
proof (cases "k = 0")
  case True
  then show ?thesis by (simp add: rate_low_def ddiv_def dbl_def)
next
  case False
  define x :: rat where "x = of_nat k / of_nat n"
  have n: "0 < n" using False assms(1) by linarith
  have x: "0 < x" "x \<le> 1" using False n assms(1) by (simp_all add: x_def)
  have d: "\<bar>dbl x - x\<bar> \<le> x / 2 ^ 53" using dbl_near [OF x(1)] .
  have small: "2 * of_nat n < (2 ^ 53 :: rat)"
  proof -
    have "of_nat n < (of_nat (2 ^ 40) :: rat)" using assms(2) of_nat_less_iff by blast
    then show ?thesis by simp
  qed
  have gap: "1 / 2 ^ 53 < 1 / (2 * of_nat n :: rat)"
    using small n by (simp add: divide_strict_left_mono)
  consider "2 * k < n" | "2 * k = n" | "n < 2 * k" by linarith
  then show ?thesis
  proof cases
    case 1
    then have "2 * of_nat k + 1 \<le> (of_nat n :: rat)" using of_nat_mono [of "2 * k + 1" n, where ?'a = rat] by simp
    then have "x \<le> 1 / 2 - 1 / (2 * of_nat n)" using n by (simp add: x_def field_simps)
    moreover have "x / 2 ^ 53 \<le> 1 / 2 ^ 53" using x(2) by (simp add: divide_right_mono)
    ultimately have "dbl x < 1 / 2" using d gap unfolding abs_le_iff by linarith
    then show ?thesis using 1 n by (simp add: rate_low_def ddiv_def x_def)
  next
    case 2
    then have "x = 1 / 2" using n by (simp add: x_def field_simps)
    moreover have "dbl (1 / 2) = 1 / 2" by code_simp
    ultimately have "ddiv (of_nat k) (of_nat n) = 1 / 2" unfolding ddiv_def x_def by simp
    then show ?thesis using 2 by (simp add: rate_low_def)
  next
    case 3
    then have "of_nat n + 1 \<le> (2 * of_nat k :: rat)" using of_nat_mono [of "n + 1" "2 * k", where ?'a = rat] by simp
    then have "(of_nat n + 1) / (2 * of_nat n) \<le> 2 * of_nat k / (2 * of_nat n :: rat)" by (rule divide_right_mono) simp
    moreover have "(of_nat n + 1) / (2 * of_nat n) = 1 / 2 + 1 / (2 * of_nat n :: rat)" using n by (simp add: add_divide_distrib)
    ultimately have "1 / 2 + 1 / (2 * of_nat n) \<le> x" by (simp add: x_def)
    moreover have "x / 2 ^ 53 \<le> 1 / 2 ^ 53" using x(2) by (simp add: divide_right_mono)
    ultimately have "1 / 2 \<le> dbl x" using d gap unfolding abs_le_iff by linarith
    then show ?thesis using 3 n by (simp add: rate_low_def ddiv_def x_def)
  qed
qed


lemma map_filter_eq: "List.map_filter f xs = map (\<lambda>x. the (f x)) (filter (\<lambda>x. f x \<noteq> None) xs)"
  by (induction xs) (auto simp: List.map_filter_simps split: option.splits)

lemma count_flags:
  assumes "\<forall>d \<in> set datas. \<forall>fl. parse d = Some fl \<longrightarrow> distinct (map fst fl)"
  shows "length (filter (\<lambda>item. snd item = 1 \<and> fst item = hash) (concat (List.map_filter parse datas))) =
    length (filter (\<lambda>d. \<exists>fl. parse d = Some fl \<and> (hash, 1 :: int) \<in> set fl) datas)"
  using assms
proof (induction datas)
  case (Cons d datas)
  have one: "length (filter (\<lambda>item. snd item = 1 \<and> fst item = hash) fl) = (if (hash, 1 :: int) \<in> set fl then 1 else 0)"
    if "distinct (map fst fl)" for fl
    using that
  proof (induction fl)
    case (Cons a fl)
    have "(hash, 1) \<notin> set fl" if "a = (hash, 1)" using Cons.prems that by force
    then show ?case using Cons by (cases a) auto
  qed simp
  show ?case
    using Cons one by (cases "parse d") (auto simp: List.map_filter_simps)
qed (simp add: List.map_filter_simps)

text \<open>
  C26: Once nodes to ask are found, the answers (fewer than \<open>2 ^ 32\<close>) decide as follows, provided
  that no answer names an output twice. When the wait fails, because fewer than four fifths of
  the nodes answered, the code is -4. Otherwise the inputs count as confirmed exactly when each
  of them is flagged as present by at least half of the answers, and the code is -5 when not;
  in particular they count as confirmed when there is no answer at all.
\<close>

theorem confirm_by_half:
  assumes "GetRandomNodeLists rd shuffle s = Inr (0, nodes)"
    and "ask (map address nodes) (4 * length nodes div 5) (map ut_hash us) = (ok, datas)"
    and "length nodes < 2 ^ 40" and "length datas < 2 ^ 32"
    and "\<forall>d \<in> set datas. \<forall>fl. parse d = Some fl \<longrightarrow> distinct (map fst fl)"
  shows "SendConfirmUtxoHashReq rd shuffle s parse ask us =
    Inr (if \<not> ok then -4 else if \<forall>u \<in> set us. length datas \<le> 2 * length (filter (\<lambda>d. \<exists>fl. parse d = Some fl \<and> (ut_hash u, 1) \<in> set fl) datas)
         then 0 else -5)"
proof -
  let ?n = "length datas" and ?c = "\<lambda>h. length (filter (\<lambda>d. \<exists>fl. parse d = Some fl \<and> (h, 1) \<in> set fl) datas)"
  have c: "success_count (concat (List.map_filter parse datas)) h = ?c h" for h
  proof -
    have "?c h \<le> ?n" by simp
    then have "?c h < 2 ^ 32" using assms(4) by linarith
    then show ?thesis by (simp add: success_count_def count_flags [OF assms(5)])
  qed
  have low: "rate_low (?c h) ?n \<longleftrightarrow> 2 * ?c h < ?n" for h
    using assms(4) by (cases "datas = []") (simp add: rate_low_def, intro rate_low_iff, simp_all)
  have "dtrunc (dmul (of_nat (length nodes)) (dbl (4 / 5))) = 4 * length nodes div 5"
    using dtrunc_dmul [OF decimal_08 assms(3)] .
  then show ?thesis
    using assms(1,2) by (auto simp: SendConfirmUtxoHashReq_def Let_def c low not_le)
qed

definition sample_node :: "string \<Rightarrow> Node" where
  "sample_node a = \<lparr>address = a, pub = [], sign = [], identity = [], name = [], logo = [], ver = [], listenIp = 0, listenPort = 0,
     publicIp = 0, publicPort = 0, height = 7, connKind = PASSIV, fd = 3, pulse = 0\<rparr>"

definition sample_net :: "string list \<Rightarrow> net" where
  "sample_net as = \<lparr>nodeMap = map (\<lambda>a. (a, sample_node a)) as, buffers = [], epoll = {}, open_fds = {}, stakeNodelist = [], unStakeNodelist = [], phoneList = []\<rparr>"

definition top_reader :: db_reader where
  "top_reader = \<lparr>ReadData = (\<lambda>key value. Inr (if key = kBlockTopKey then (DB_SUCCESS, ''7'') else (DB_NOT_FOUND, []))),
     MultiReadData = (\<lambda>keys values. Inr (DB_NOT_FOUND, []))\<rparr>"

lemma top_reader_top: "GetBlockTop top_reader 0 = Inr (DB_SUCCESS, 7)"
proof -
  have "to_string 7 = ''7''" by code_simp
  then have "stoul ''7'' = Inr 7" using stoul_to_string [of 7] by simp
  then show ?thesis by (simp add: GetBlockTop_def read_unsigned_def top_reader_def)
qed

lemma sample_net_nodes: "GetNodelist NODE_ALL False (sample_net as) = map sample_node as"
  by (simp add: GetNodelist_def sample_net_def o_def)

lemma sample_random_nodes: "as \<noteq> [] \<Longrightarrow> length as < 100 \<Longrightarrow>
  GetRandomNodeLists top_reader (\<lambda>ns. ns) (sample_net as) = Inr (0, map sample_node as)"
proof -
  have all: "filter (\<lambda>item. (7 :: u64) \<le> ucast (height item)) (map sample_node as) = map sample_node as"
    by (rule filter_True) (simp add: sample_node_def)
  assume "as \<noteq> []" and "length as < 100"
  then show ?thesis
    unfolding GetRandomNodeLists_def sample_net_nodes top_reader_top Let_def bindE_Inr prod.case all by simp
qed

theorem confirm_by_half_witness:
  "SendConfirmUtxoHashReq top_reader (\<lambda>ns. ns) (sample_net [''a'', ''b'']) (\<lambda>d. if d = ''yes'' then Some [(''u'', 1)] else None)
     (\<lambda>nodes n hashes. (True, [''yes'', ''no''])) [\<lparr>ut_value = 1, ut_addr = ''A'', ut_hash = ''u'', ut_n = 0\<rparr>] = Inr 0"
  using confirm_by_half [OF sample_random_nodes [of "[''a'', ''b'']"],
      where ask = "\<lambda>nodes n hashes. (True, [''yes'', ''no''])" and us = "[\<lparr>ut_value = 1, ut_addr = ''A'', ut_hash = ''u'', ut_n = 0\<rparr>]"
        and datas = "[''yes'', ''no'']" and parse = "\<lambda>d. if d = ''yes'' then Some [(''u'', 1)] else None"]
  by simp

text \<open>
  With a single node to ask no answer is awaited, and without any answer the inputs count
  as confirmed: zero divided by zero is not below one half.
\<close>

theorem confirm_without_answer:
  assumes "GetRandomNodeLists rd shuffle s = Inr (0, [node])" and "om_find g msgId = None"
  shows "SendConfirmUtxoHashReq rd shuffle s parse (\<lambda>nodes n hashes. snd (request 5 n msgId nodes [] late g)) us = Inr 0"
proof -
  have "dtrunc (dmul 1 (dbl (4 / 5))) = 0"
    using dtrunc_dmul [OF decimal_08, of 1] by simp
  then show ?thesis
    using assms(1) request_zero [OF assms(2)]
    by (simp add: SendConfirmUtxoHashReq_def Let_def rate_low_def)
qed

theorem confirm_without_answer_witness:
  "SendConfirmUtxoHashReq top_reader (\<lambda>ns. ns) (sample_net [''a'']) (\<lambda>d. None)
     (\<lambda>nodes n hashes. snd (request 5 n ''id'' nodes [] [(''id'', ''a'', ''absent'')] [])) [\<lparr>ut_value = 1, ut_addr = ''A'', ut_hash = ''u'', ut_n = 0\<rparr>] = Inr 0"
  using confirm_without_answer [OF sample_random_nodes [of "[''a'']", simplified], of "[]" "''id''"] by simp

end
