(* ===== verification/Tx_Build.thy ===== *)
theory Tx_Build
  imports Tx_Utxo
begin

text \<open>
  The six functions of \<open>ca/txhelper.cpp\<close> that build a transaction: transfer, stake, unstake,
  invest, disinvest and bonus. Each checks its arguments, chooses inputs with \<open>FindUtxo\<close>, signs
  one input record per owner, computes the gas, checks the funds, writes the outputs, adds the
  owners' signatures and picks the node that packs the transaction. An early return is
  \<open>Ret\<close> with its code; what a failed call leaves in its output arguments is not modelled.
  Gas, packager and the qualification checks come from the consensus library and are
  fields of \<open>build_env\<close>.
\<close>

section \<open>The surroundings\<close>

datatype json_val = JStr string | JNum u64 | JReal rat

text \<open>
  \<open>be_clock k\<close> is the \<open>k\<close>-th reading of the clock in a call; \<open>be_packager\<close> returns a code, the
  packager and its proof; \<open>be_dump\<close> prints the object with the one member \<open>TxInfo\<close>.
\<close>

record 'v build_env = tx_env +
  be_kDecimalNum :: u64
  be_kVirtualStakeAddr :: string
  be_kVirtualInvestAddr :: string
  be_kVirtualBurnGasAddr :: string
  be_kTxSign :: string
  be_kStakeTypeNet :: string
  be_kInvestTypeNormal :: string
  be_kCurrentTransactionVersion :: u32
  be_kConsensus :: u32
  be_kMinUnstakeHeight :: u64
  be_GenerateGas :: "CTransaction \<Rightarrow> nat \<Rightarrow> int \<times> u64"
  be_clock :: "nat \<Rightarrow> u64"
  be_packager :: "string \<Rightarrow> int \<times> string \<times> 'v"
  be_dump :: "(string \<times> json_val) list \<Rightarrow> string"
  be_chainHeight :: "u64 option"
  be_defaultAddr :: string
  be_VerifyBonusAddr :: "string \<Rightarrow> int"
  be_stakeTime :: "string \<Rightarrow> int"
  be_random :: "nat \<Rightarrow> nat"
  be_net :: net
  be_shuffle :: "Node list \<Rightarrow> Node list"
  be_parse_flags :: "string \<Rightarrow> (string \<times> int) list option"
  be_ask :: "string list \<Rightarrow> nat \<Rightarrow> string list \<Rightarrow> bool \<times> string list"

datatype tx_stop = Ret int | Throw tx_error

definition stop_tx :: "(tx_error, 'a) result \<Rightarrow> (tx_stop, 'a) result" where
  "stop_tx r = (case r of Inl e \<Rightarrow> Inl (Throw e) | Inr x \<Rightarrow> Inr x)"

abbreviation stop_db :: "(db_error, 'a) result \<Rightarrow> (tx_stop, 'a) result" where
  "stop_db r \<equiv> stop_tx (lift_db r)"

definition or_ret :: "'a option \<Rightarrow> int \<Rightarrow> (tx_stop, 'a) result" where
  "or_ret r code = (case r of None \<Rightarrow> Inl (Ret code) | Some x \<Rightarrow> Inr x)"

lemma stop_simps [simp]: "stop_tx (Inr x) = Inr x" "stop_tx r = Inr x \<longleftrightarrow> r = Inr x"
  "or_ret o' code = Inr x \<longleftrightarrow> o' = Some x" "or_ret (Some x) code = Inr x" "or_ret None code = Inl (Ret code)"
  by (auto simp: stop_tx_def or_ret_def split: sum.splits option.splits)

section \<open>Parts the builders share\<close>

definition find_inputs :: "('v, 'z) build_env_scheme \<Rightarrow> db_reader \<Rightarrow> string list \<Rightarrow> nat \<Rightarrow> bool \<Rightarrow> (tx_stop, int \<times> u64 \<times> Utxo list) result" where
  "find_inputs env rd fromAddr need isFindUtxo =
     stop_db (FindUtxo env rd (SendConfirmUtxoHashReq rd (be_shuffle env) (be_net env) (be_parse_flags env) (be_ask env)) fromAddr need 0 [] isFindUtxo)"

text \<open>The set of owners, in the order of a \<open>std::set\<close>.\<close>

definition tx_owner_set :: "Utxo list \<Rightarrow> string list" where
  "tx_owner_set us = sort_unique (map ut_addr us)"

definition sign_vin :: "'e tx_env_scheme \<Rightarrow> string \<Rightarrow> CTxInput \<Rightarrow> CTxInput option" where
  "sign_vin env owner vin = (case Sign env owner (te_sha256 env (te_ser_vin env vin)) of
     Inl _ \<Rightarrow> None | Inr s \<Rightarrow> Some (vin\<lparr>vin_sign := s\<rparr>))"

definition fill_vin :: "'e tx_env_scheme \<Rightarrow> Utxo list \<Rightarrow> string \<Rightarrow> u32 \<Rightarrow> CTxInput option" where
  "fill_vin env us owner n = sign_vin env owner
     \<lparr>vin_prevouts = map (\<lambda>u. \<lparr>prev_hash = ut_hash u, prev_n = ut_n u\<rparr>) (filter (\<lambda>u. owner = ut_addr u) us),
      vin_sign = no_sign, vin_sequence = n\<rparr>"

text \<open>
  One input record per owner. In a transfer the sequence number counts the owners; the
  other builders declare it inside the loop, so that it starts anew for every owner.
\<close>

fun fill_vins :: "'e tx_env_scheme \<Rightarrow> (u32 \<Rightarrow> u32) \<Rightarrow> Utxo list \<Rightarrow> string list \<Rightarrow> u32 \<Rightarrow> CTxInput list option" where
  "fill_vins env step us [] n = Some []"
| "fill_vins env step us (owner # owners) n = (case fill_vin env us owner n of
     None \<Rightarrow> None | Some vin \<Rightarrow> map_option ((#) vin) (fill_vins env step us owners (step n)))"

fun add_multisigns :: "'e tx_env_scheme \<Rightarrow> string list \<Rightarrow> CTransaction \<Rightarrow> CTransaction option" where
  "add_multisigns env [] tx = Some tx"
| "add_multisigns env (owner # owners) tx = (case AddMutilSign env owner tx of
     Inl _ \<Rightarrow> None | Inr tx' \<Rightarrow> add_multisigns env owners tx')"

definition start_tx :: "('v, 'z) build_env_scheme \<Rightarrow> string list \<Rightarrow> CTxInput list \<Rightarrow> string \<Rightarrow> string \<Rightarrow> CTransaction" where
  "start_tx env owners vins data info = empty_tx\<lparr>
     tx_utxo := \<lparr>utxo_owner = owners, utxo_vin = vins, utxo_vout = [], utxo_multisign = []\<rparr>,
     tx_data := data, tx_info := info, tx_sort := be_kTxSign env\<rparr>"

text \<open>The number of entries of a map with the given keys.\<close>

definition map_size :: "string list \<Rightarrow> nat" where
  "map_size keys = length (remdups keys)"

definition gas_of :: "('v, 'z) build_env_scheme \<Rightarrow> CTransaction \<Rightarrow> string list \<Rightarrow> int \<Rightarrow> (tx_stop, u64) result" where
  "gas_of env tx keys code = (case be_GenerateGas env tx (map_size keys) of (ret, gas) \<Rightarrow>
     if ret \<noteq> 0 then Inl (Ret code) else Inr gas)"

definition with_outputs :: "(string \<times> u64) list \<Rightarrow> CTransaction \<Rightarrow> CTransaction" where
  "with_outputs outs tx = tx\<lparr>tx_utxo := (tx_utxo tx)\<lparr>utxo_vout := map (\<lambda>(a, v). \<lparr>out_value = v, out_addr = a\<rparr>) outs\<rparr>\<rparr>"

definition stamp :: "('v, 'z) build_env_scheme \<Rightarrow> TxType \<Rightarrow> u64 \<Rightarrow> CTransaction \<Rightarrow> CTransaction" where
  "stamp env kind currentTime tx = tx\<lparr>tx_time := currentTime, tx_version := be_kCurrentTransactionVersion env,
     tx_consensus := be_kConsensus env, tx_type := kind\<rparr>"

definition seal :: "'e tx_env_scheme \<Rightarrow> string \<Rightarrow> CTransaction \<Rightarrow> CTransaction" where
  "seal env ident tx = (let tx1 = tx\<lparr>tx_identity := ident\<rparr> in tx1\<lparr>tx_hash := te_sha256 env (te_ser_tx env tx1)\<rparr>)"

definition local_identity :: "('v, 'z) build_env_scheme \<Rightarrow> string" where
  "local_identity env =
     (let ident = GetIdentityNodes (be_chainHeight env) (be_kMinUnstakeHeight env) (be_VerifyBonusAddr env) (be_stakeTime env) (be_defaultAddr env)
      in if ident = [] then GetEligibleNodes (be_random env) (be_VerifyBonusAddr env) (be_stakeTime env) (be_net env) else ident)"

definition packager_of :: "('v, 'z) build_env_scheme \<Rightarrow> vrfAgentType \<Rightarrow> string \<Rightarrow> string \<Rightarrow> (tx_stop, string \<times> 'v option) result" where
  "packager_of env type local rawData =
     (if type = vrfAgentType_defalut \<or> type = vrfAgentType_local then Inr (local, None)
      else case be_packager env rawData of (ret, ident, info) \<Rightarrow>
        if ret \<noteq> 0 then Inl (Ret ret) else Inr (ident, Some info))"

definition all_hashes :: "Utxo list \<Rightarrow> string" where
  "all_hashes us = concat (map ut_hash us)"

section \<open>Transfer\<close>

fun check_target :: "'e tx_env_scheme \<Rightarrow> string list \<Rightarrow> string \<times> u64 \<Rightarrow> (tx_stop, unit) result" where
  "check_target env fromAddr (addr, v) =
     bindE (guardE (te_isValidAddress env addr) (Ret (-2))) (\<lambda>_.
     bindE (guardE (addr \<notin> set fromAddr) (Ret (-3))) (\<lambda>_.
       guardE (\<not> sint v \<le> 0) (Ret (-4))))"

text \<open>
  The search for a packager: at most six tries, each with a new time when the answer is \<open>-6\<close>. The
  count of tries is \<open>6 - left\<close>; \<open>k\<close> numbers the readings of the clock.
\<close>

fun packager_loop :: "('v, 'z) build_env_scheme \<Rightarrow> string \<Rightarrow> nat \<Rightarrow> nat \<Rightarrow> u64 \<Rightarrow> (tx_stop, nat \<times> (string \<times> 'v \<times> u64) option) result" where
  "packager_loop env allUtxos 0 k currentTime = Inr (6, None)"
| "packager_loop env allUtxos (Suc left) k currentTime =
     (case be_packager env (allUtxos @ dec currentTime) of (ret, ident, info) \<Rightarrow>
        if ret \<noteq> 0 then
          (if ret = -6 then packager_loop env allUtxos left (k + 1) (be_clock env k) else Inl (Ret ret))
        else Inr (6 - left, Some (ident, info, currentTime)))"

definition transfer_packager :: "('v, 'z) build_env_scheme \<Rightarrow> vrfAgentType \<Rightarrow> Utxo list \<Rightarrow> u64 \<Rightarrow> (tx_stop, string \<times> 'v option \<times> u64) result" where
  "transfer_packager env type us currentTime =
     (if type = vrfAgentType_defalut \<or> type = vrfAgentType_local then Inr (local_identity env, None, currentTime)
      else bindE (packager_loop env (all_hashes us) 6 1 currentTime) (\<lambda>(count, found).
        bindE (guardE (count \<noteq> 6) (Ret (-12))) (\<lambda>_.
          case found of None \<Rightarrow> Inl (Ret (-12)) | Some (ident, info, txTime) \<Rightarrow> Inr (ident, Some info, txTime))))"

definition used_hashes :: "CTxInput list \<Rightarrow> string list" where
  "used_hashes vins = concat (map (\<lambda>vin. map prev_hash (vin_prevouts vin)) vins)"

definition CreateTxTransaction :: "('v, 'z) build_env_scheme \<Rightarrow> db_reader \<Rightarrow> string list \<Rightarrow> (string, u64) omap \<Rightarrow> string \<Rightarrow> u64 \<Rightarrow> bool \<Rightarrow> pending \<Rightarrow>
    (tx_stop, CTransaction \<times> vrfAgentType \<times> 'v option \<times> pending) result" where
  "CreateTxTransaction env rd fromAddr toAddr encodedInfo h isFindUtxo p =
     bindE (stop_db (Check env rd fromAddr h)) (\<lambda>ret.
     bindE (guardE (ret = 0) (Ret (ret - 100))) (\<lambda>_.
     bindE (guardE (toAddr \<noteq> []) (Ret (-1))) (\<lambda>_.
     bindE (mapE (check_target env fromAddr) toAddr) (\<lambda>_.
     let amount = sum_list (map snd toAddr) in
     bindE (find_inputs env rd fromAddr kMaxVinSize isFindUtxo) (\<lambda>(ret, tot, us).
     bindE (guardE (ret = 0) (Ret (ret - 200))) (\<lambda>_.
     bindE (guardE (us \<noteq> []) (Ret (-5))) (\<lambda>_.
     let owners = tx_owner_set us in
     bindE (guardE (owners \<noteq> []) (Ret (-6))) (\<lambda>_.
     bindE (or_ret (fill_vins env (\<lambda>n. n + 1) us owners 0) (-8)) (\<lambda>vins.
     let tx = start_tx env owners vins [] encodedInfo in
     bindE (gas_of env tx (map fst toAddr @ [last fromAddr, be_kVirtualBurnGasAddr env]) (-9)) (\<lambda>gas.
     let currentTime = be_clock env 0 in
     bindE (stop_tx (GetTxStartIdentity env rd h currentTime)) (\<lambda>type.
     let expend = amount + gas in
     bindE (guardE (\<not> tot < expend) (Ret (-10))) (\<lambda>_.
     bindE (or_ret (add_multisigns env owners
         (with_outputs (toAddr @ [(last fromAddr, tot - expend), (be_kVirtualBurnGasAddr env, gas)]) tx)) (-11)) (\<lambda>tx2.
     bindE (transfer_packager env type us currentTime) (\<lambda>(ident, info, txTime).
     let tx3 = seal env ident ((stamp env kTxTypeTx currentTime tx2)\<lparr>tx_time := txTime\<rparr>) in
     case AddFromAddr (hd fromAddr, \<lparr>ds_time = tx_time tx3, utxoVec = used_hashes vins\<rparr>) p of (p', r) \<Rightarrow>
       bindE (guardE (r = 0) (Ret (-7))) (\<lambda>_. Inr (tx3, type, info, p'))))))))))))))))"

section \<open>Stake and unstake\<close>

datatype pledgeType = kPledgeType_Unknown | kPledgeType_Node
datatype InvestType = kInvestType_Unknown | kInvestType_NetLicence

text \<open>The end of the five other builders: signatures, packager and hash.\<close>

definition close_tx :: "('v, 'z) build_env_scheme \<Rightarrow> TxType \<Rightarrow> string list \<Rightarrow> int \<Rightarrow> u64 \<Rightarrow> vrfAgentType \<Rightarrow> string \<Rightarrow> string \<Rightarrow> CTransaction \<Rightarrow>
    (tx_stop, CTransaction \<times> vrfAgentType \<times> 'v option) result" where
  "close_tx env kind owners code currentTime type local rawData tx =
     bindE (or_ret (add_multisigns env owners tx) code) (\<lambda>tx2.
     bindE (packager_of env type local (rawData @ dec currentTime)) (\<lambda>(ident, info).
       Inr (seal env ident (stamp env kind currentTime tx2), type, info)))"

definition CreateStakeTransaction :: "('v, 'z) build_env_scheme \<Rightarrow> db_reader \<Rightarrow> string \<Rightarrow> u64 \<Rightarrow> string \<Rightarrow> u64 \<Rightarrow> pledgeType \<Rightarrow> rat \<Rightarrow> bool \<Rightarrow>
    (tx_stop, CTransaction \<times> vrfAgentType \<times> 'v option) result" where
  "CreateStakeTransaction env rd fromAddr stakeAmount encodedInfo h pledge commissionRate isFindUtxo =
     bindE (stop_db (Check env rd [fromAddr] h)) (\<lambda>ret.
     bindE (guardE (ret = 0) (Ret (ret - 100))) (\<lambda>_.
     bindE (guardE (te_isValidAddress env fromAddr) (Ret (-1))) (\<lambda>_.
     bindE (guardE (stakeAmount \<noteq> 0) (Ret (-2))) (\<lambda>_.
     bindE (guardE (\<not> stakeAmount < 1000 * be_kDecimalNum env) (Ret (-3))) (\<lambda>_.
     bindE (guardE (pledge = kPledgeType_Node) (Ret (-4))) (\<lambda>_.
     bindE (stop_db (GetStakeAddressUtxo rd fromAddr [])) (\<lambda>(dbret, _).
     bindE (guardE (dbret = DB_NOT_FOUND) (Ret (-5))) (\<lambda>_.
     bindE (find_inputs env rd [fromAddr] kMaxVinSize isFindUtxo) (\<lambda>(ret, tot, us).
     bindE (guardE (ret = 0) (Ret (ret - 200))) (\<lambda>_.
     bindE (guardE (us \<noteq> []) (Ret (-6))) (\<lambda>_.
     let owners = tx_owner_set us in
     bindE (guardE (length owners = 1) (Ret (-7))) (\<lambda>_.
     bindE (or_ret (fill_vins env (\<lambda>n. n) us owners 0) (-8)) (\<lambda>vins.
     let tx = start_tx env owners vins (be_dump env [(''StakeType'', JStr (be_kStakeTypeNet env)),
           (''StakeAmount'', JNum stakeAmount), (''CommissionRate'', JReal commissionRate)]) encodedInfo in
     bindE (gas_of env tx [be_kVirtualStakeAddr env, fromAddr, be_kVirtualBurnGasAddr env] (-9)) (\<lambda>gas.
     let currentTime = be_clock env 0 in
     bindE (stop_tx (GetTxStartIdentity env rd h currentTime)) (\<lambda>type.
     let expend = stakeAmount + gas in
     bindE (guardE (\<not> tot < expend) (Ret (-10))) (\<lambda>_.
       close_tx env kTxTypeStake owners (-11) currentTime type (local_identity env) (all_hashes us)
         (with_outputs [(be_kVirtualStakeAddr env, stakeAmount), (fromAddr, tot - expend), (be_kVirtualBurnGasAddr env, gas)] tx)))))))))))))))))"

text \<open>
  \<open>qualified\<close> is the result of \<open>IsQualifiedToUnstake\<close>: a code and the staked amount.
\<close>

definition stake_vin :: "'e tx_env_scheme \<Rightarrow> string \<Rightarrow> string \<Rightarrow> CTxInput option" where
  "stake_vin env fromAddr utxoHash =
     sign_vin env fromAddr \<lparr>vin_prevouts = [\<lparr>prev_hash = utxoHash, prev_n = 1\<rparr>], vin_sign = no_sign, vin_sequence = 0\<rparr>"

definition CreatUnstakeTransaction :: "('v, 'z) build_env_scheme \<Rightarrow> db_reader \<Rightarrow> (string \<Rightarrow> string \<Rightarrow> int \<times> u64) \<Rightarrow> string \<Rightarrow> string \<Rightarrow> string \<Rightarrow> u64 \<Rightarrow> bool \<Rightarrow>
    (tx_stop, CTransaction \<times> vrfAgentType \<times> 'v option) result" where
  "CreatUnstakeTransaction env rd qualified fromAddr utxoHash encodedInfo h isFindUtxo =
     bindE (stop_db (Check env rd [fromAddr] h)) (\<lambda>ret.
     bindE (guardE (ret = 0) (Ret (ret - 100))) (\<lambda>_.
     bindE (guardE (te_isValidAddress env fromAddr) (Ret (-1))) (\<lambda>_.
     case qualified fromAddr utxoHash of (ret, stakeAmount) \<Rightarrow>
     bindE (guardE (ret = 0) (Ret (ret - 200))) (\<lambda>_.
     bindE (find_inputs env rd [fromAddr] (kMaxVinSize - 1) isFindUtxo) (\<lambda>(ret, tot, us).
     bindE (guardE (ret = 0) (Ret (ret - 300))) (\<lambda>_.
     bindE (guardE (us \<noteq> []) (Ret (-2))) (\<lambda>_.
     let owners = tx_owner_set us in
     bindE (guardE (owners \<noteq> []) (Ret (-3))) (\<lambda>_.
     bindE (or_ret (stake_vin env fromAddr utxoHash) (-4)) (\<lambda>vin0.
     bindE (or_ret (fill_vins env (\<lambda>n. n) us owners 1) (-5)) (\<lambda>vins.
     let tx = (start_tx env (fromAddr # owners) (vin0 # vins) (be_dump env [(''UnstakeUtxo'', JStr utxoHash)]) encodedInfo)
           \<lparr>tx_version := be_kCurrentTransactionVersion env\<rparr> in
     bindE (gas_of env tx [be_kVirtualStakeAddr env, fromAddr, be_kVirtualBurnGasAddr env] (-6)) (\<lambda>gas.
     let currentTime = be_clock env 0 in
     bindE (stop_tx (GetTxStartIdentity env rd h currentTime)) (\<lambda>type.
     bindE (guardE (\<not> tot < gas) (Ret (-7))) (\<lambda>_.
       close_tx env kTxTypeUnstake owners (-8) currentTime type (local_identity env) (utxoHash @ all_hashes us)
         (with_outputs [(fromAddr, stakeAmount), (fromAddr, tot - gas), (be_kVirtualBurnGasAddr env, gas)] tx))))))))))))))"

section \<open>Invest and disinvest\<close>

definition CreateInvestTransaction :: "('v, 'z) build_env_scheme \<Rightarrow> db_reader \<Rightarrow> (string \<Rightarrow> string \<Rightarrow> u64 \<Rightarrow> int) \<Rightarrow> string \<Rightarrow> string \<Rightarrow> u64 \<Rightarrow> string \<Rightarrow> u64 \<Rightarrow> InvestType \<Rightarrow> bool \<Rightarrow>
    (tx_stop, CTransaction \<times> vrfAgentType \<times> 'v option) result" where
  "CreateInvestTransaction env rd qualification fromAddr toAddr investAmount encodedInfo h invest isFindUtxo =
     bindE (stop_db (Check env rd [fromAddr] h)) (\<lambda>ret.
     bindE (guardE (ret = 0) (Ret (ret - 100))) (\<lambda>_.
     bindE (guardE (te_isValidAddress env fromAddr) (Ret (-1))) (\<lambda>_.
     bindE (guardE (te_isValidAddress env toAddr) (Ret (-2))) (\<lambda>_.
     bindE (guardE (\<not> investAmount < 35 * be_kDecimalNum env) (Ret (-3))) (\<lambda>_.
     let ret = qualification fromAddr toAddr investAmount in
     bindE (guardE (ret = 0) (Ret (ret - 200))) (\<lambda>_.
     bindE (guardE (invest = kInvestType_NetLicence) (Ret (-4))) (\<lambda>_.
     bindE (find_inputs env rd [fromAddr] kMaxVinSize isFindUtxo) (\<lambda>(ret, tot, us).
     bindE (guardE (ret = 0) (Ret (ret - 300))) (\<lambda>_.
     bindE (guardE (us \<noteq> []) (Ret (-5))) (\<lambda>_.
     let owners = tx_owner_set us in
     bindE (guardE (owners \<noteq> []) (Ret (-6))) (\<lambda>_.
     bindE (or_ret (fill_vins env (\<lambda>n. n) us owners 0) (-7)) (\<lambda>vins.
     let tx = start_tx env owners vins (be_dump env [(''InvestType'', JStr (be_kInvestTypeNormal env)),
           (''BonusAddr'', JStr toAddr), (''InvestAmount'', JNum investAmount)]) encodedInfo in
     bindE (gas_of env tx [be_kVirtualStakeAddr env, fromAddr, be_kVirtualBurnGasAddr env] (-8)) (\<lambda>gas.
     let currentTime = be_clock env 0 in
     bindE (stop_tx (GetTxStartIdentity env rd h currentTime)) (\<lambda>type.
     let expend = investAmount + gas in
     bindE (guardE (\<not> tot < expend) (Ret (-9))) (\<lambda>_.
       close_tx env kTxTypeInvest owners (-10) currentTime type (local_identity env) (all_hashes us)
         (with_outputs [(be_kVirtualInvestAddr env, investAmount), (fromAddr, tot - expend), (be_kVirtualBurnGasAddr env, gas)] tx))))))))))))))))"

definition CreateDisinvestTransaction :: "('v, 'z) build_env_scheme \<Rightarrow> db_reader \<Rightarrow> (string \<Rightarrow> string \<Rightarrow> string \<Rightarrow> int \<times> u64) \<Rightarrow> string \<Rightarrow> string \<Rightarrow> string \<Rightarrow> string \<Rightarrow> u64 \<Rightarrow> bool \<Rightarrow>
    (tx_stop, CTransaction \<times> vrfAgentType \<times> 'v option) result" where
  "CreateDisinvestTransaction env rd qualified fromAddr toAddr utxoHash encodedInfo h isFindUtxo =
     bindE (stop_db (Check env rd [fromAddr] h)) (\<lambda>ret.
     bindE (guardE (ret = 0) (Ret (ret - 100))) (\<lambda>_.
     bindE (guardE (te_isValidAddress env fromAddr) (Ret (-1))) (\<lambda>_.
     bindE (guardE (te_isValidAddress env toAddr) (Ret (-2))) (\<lambda>_.
     case qualified fromAddr toAddr utxoHash of (ret, investedAmount) \<Rightarrow>
     bindE (guardE (ret = 0) (Ret (-3))) (\<lambda>_.
     bindE (find_inputs env rd [fromAddr] (kMaxVinSize - 1) isFindUtxo) (\<lambda>(ret, tot, us).
     bindE (guardE (ret = 0) (Ret (ret - 300))) (\<lambda>_.
     bindE (guardE (us \<noteq> []) (Ret (-4))) (\<lambda>_.
     let owners = tx_owner_set us in
     bindE (guardE (owners \<noteq> []) (Ret (-5))) (\<lambda>_.
     bindE (or_ret (stake_vin env fromAddr utxoHash) (-6)) (\<lambda>vin0.
     bindE (or_ret (fill_vins env (\<lambda>n. n) us owners 1) (-7)) (\<lambda>vins.
     let tx = start_tx env (fromAddr # owners) (vin0 # vins)
           (be_dump env [(''BonusAddr'', JStr toAddr), (''DisinvestUtxo'', JStr utxoHash)]) encodedInfo in
     bindE (gas_of env tx [be_kVirtualStakeAddr env, fromAddr, be_kVirtualBurnGasAddr env] (-8)) (\<lambda>gas.
     let currentTime = be_clock env 0 in
     bindE (stop_tx (GetTxStartIdentity env rd h currentTime)) (\<lambda>type.
     bindE (guardE (\<not> tot < gas) (Ret (-9))) (\<lambda>_.
       close_tx env kTxTypeDisinvest owners (-10) currentTime type (local_identity env) (utxoHash @ all_hashes us)
         (with_outputs [(fromAddr, investedAmount), (fromAddr, tot - gas), (be_kVirtualBurnGasAddr env, gas)] tx)))))))))))))))"

section \<open>Bonus\<close>

text \<open>
  The commission of a dividend: the product rounded to a double, one half added, and the
  whole part taken.
\<close>

definition costo :: "rat \<Rightarrow> u64 \<Rightarrow> u64" where
  "costo rate v = word_of_nat (dtrunc (dbl (dmul (dbl (of_nat (unat v))) rate + 1 / 2)))"

fun claims :: "rat \<Rightarrow> (string, u64) omap \<Rightarrow> u64 \<times> u64 \<Rightarrow> u64 \<times> u64" where
  "claims rate [] acc = acc"
| "claims rate ((a, v) # ds) (nodeDividend, totalClaim) =
     claims rate ds (nodeDividend + costo rate v, totalClaim + (v - costo rate v))"

text \<open>
  \<open>qualification\<close>, \<open>calcBonus\<close> and \<open>commission\<close> are \<open>CheckBonusQualification\<close>, \<open>CalcBonusValue\<close> and
  \<open>GetCommissionPercentage\<close>.
\<close>

definition CreateBonusTransaction :: "('v, 'z) build_env_scheme \<Rightarrow> db_reader \<Rightarrow> (string \<Rightarrow> u64 \<Rightarrow> int) \<Rightarrow> (u64 \<Rightarrow> string \<Rightarrow> int \<times> (string, u64) omap) \<Rightarrow>
    (string \<Rightarrow> int \<times> rat) \<Rightarrow> string \<Rightarrow> string \<Rightarrow> u64 \<Rightarrow> bool \<Rightarrow> (tx_stop, CTransaction \<times> vrfAgentType \<times> 'v option) result" where
  "CreateBonusTransaction env rd qualification calcBonus commission addr encodedInfo h isFindUtxo =
     bindE (stop_db (Check env rd [addr] h)) (\<lambda>ret.
     bindE (guardE (ret = 0) (Ret (ret - 100))) (\<lambda>_.
     bindE (guardE (te_isValidAddress env addr) (Ret (-1))) (\<lambda>_.
     let curTime = be_clock env 0; ret = qualification addr curTime in
     bindE (guardE (ret = 0) (Ret (ret - 200))) (\<lambda>_.
     case calcBonus curTime addr of (ret, companyDividend) \<Rightarrow>
     bindE (guardE (\<not> ret < 0) (Ret (ret - 300))) (\<lambda>_.
     bindE (find_inputs env rd [addr] (kMaxVinSize - 1) isFindUtxo) (\<lambda>(ret, tot, us).
     bindE (guardE (ret = 0) (Ret (ret - 400))) (\<lambda>_.
     bindE (guardE (us \<noteq> []) (Ret (-2))) (\<lambda>_.
     let owners = tx_owner_set us in
     bindE (guardE (owners \<noteq> []) (Ret (-3))) (\<lambda>_.
     bindE (or_ret (fill_vins env (\<lambda>n. n) us owners 0) (-4)) (\<lambda>vins.
     case commission addr of (rt, rate) \<Rightarrow>
     bindE (guardE (rt = 0) (Ret (-100))) (\<lambda>_.
     case claims rate companyDividend (0, 0) of (nodeDividend, claimed) \<Rightarrow>
     let totalClaim = claimed + nodeDividend;
         tx = start_tx env owners vins (be_dump env [(''BonusAmount'', JNum totalClaim),
           (''BonusAddrList'', JNum (word_of_nat (length companyDividend) + 2))]) encodedInfo in
     bindE (gas_of env tx (map fst companyDividend @ [be_kVirtualStakeAddr env, be_kVirtualBurnGasAddr env]) (-5)) (\<lambda>gas.
     let currentTime = be_clock env 1 in
     bindE (stop_tx (GetTxStartIdentity env rd h currentTime)) (\<lambda>type.
     bindE (guardE (\<not> tot < gas) (Ret (-6))) (\<lambda>_.
     bindE (guardE (totalClaim \<noteq> 0) (Ret (-7))) (\<lambda>_.
       close_tx env kTxTypeBonus owners (-8) currentTime type (be_defaultAddr env) (all_hashes us)
         (with_outputs (map (\<lambda>(a, v). (a, v - costo rate v)) companyDividend @
            [(addr, tot - gas + nodeDividend), (be_kVirtualBurnGasAddr env, gas)]) tx))))))))))))))))"

section \<open>What the builders keep\<close>

text \<open>The outputs a transaction spends, each with the owner of its input record.\<close>

definition tx_spent :: "CTransaction \<Rightarrow> (string \<times> string) list" where
  "tx_spent tx = concat (map2 (\<lambda>owner vin. map (\<lambda>prevout. (owner, prev_hash prevout)) (vin_prevouts vin)) (tx_owners tx) (tx_vins tx))"

abbreviation utxo_id :: "Utxo \<Rightarrow> string \<times> string" where
  "utxo_id u \<equiv> (ut_addr u, ut_hash u)"

text \<open>
  A transaction spends the chosen inputs, each once, besides \<open>first\<close>, and its outputs add up to
  the value of the inputs and \<open>extra\<close>, in 64 bits.
\<close>

definition built_from :: "('v, 'z) build_env_scheme \<Rightarrow> db_reader \<Rightarrow> string list \<Rightarrow> nat \<Rightarrow> bool \<Rightarrow> (string \<times> string) list \<Rightarrow> u64 \<Rightarrow> CTransaction \<Rightarrow> bool" where
  "built_from env rd fromAddr need isFindUtxo first extra tx \<longleftrightarrow> (\<exists>tot us.
     find_inputs env rd fromAddr need isFindUtxo = Inr (0, tot, us) \<and> length us \<le> need \<and> distinct (map utxo_id us) \<and>
     tot = sum_list (map ut_value us) \<and> mset (tx_spent tx) = mset (first @ map utxo_id us) \<and>
     sum_list (map out_value (tx_vouts tx)) = tot + extra)"

lemma sign_vin_prevouts: "sign_vin env owner vin = Some vin' \<Longrightarrow> vin_prevouts vin' = vin_prevouts vin"
  by (auto simp: sign_vin_def split: sum.splits)

lemma fill_vins_prevouts:
  "fill_vins env step us owners n = Some vins \<Longrightarrow> list_all2 (\<lambda>owner vin. map prev_hash (vin_prevouts vin) =
     map ut_hash (filter (\<lambda>u. owner = ut_addr u) us)) owners vins"
proof (induction owners arbitrary: n vins)
  case (Cons owner owners)
  then obtain vin vins' where "fill_vin env us owner n = Some vin" "fill_vins env step us owners (step n) = Some vins'" "vins = vin # vins'"
    by (auto split: option.splits)
  then show ?case using Cons.IH sign_vin_prevouts by (fastforce simp: fill_vin_def o_def)
qed simp

lemma spent_concat:
  "list_all2 (\<lambda>owner vin. map prev_hash (vin_prevouts vin) = map ut_hash (filter (\<lambda>u. owner = ut_addr u) us)) owners vins \<Longrightarrow>
   concat (map2 (\<lambda>owner vin. map (\<lambda>prevout. (owner, prev_hash prevout)) (vin_prevouts vin)) owners vins) =
   concat (map (\<lambda>owner. map utxo_id (filter (\<lambda>u. owner = ut_addr u) us)) owners)"
proof (induction rule: list_all2_induct)
  case (Cons owner owners vin vins)
  have "map (\<lambda>prevout. (owner, prev_hash prevout)) (vin_prevouts vin) = map (Pair owner) (map prev_hash (vin_prevouts vin))"
    by simp
  also have "\<dots> = map utxo_id (filter (\<lambda>u. owner = ut_addr u) us)"
    unfolding Cons.hyps(1) by auto
  finally show ?case using Cons.IH by simp
qed simp

lemma mset_group:
  "distinct ks \<Longrightarrow> mset (concat (map (\<lambda>k. map f (filter (\<lambda>u. k = g u) us)) ks)) = image_mset f (filter_mset (\<lambda>u. g u \<in> set ks) (mset us))"
proof (induction ks)
  case (Cons k ks)
  have "filter_mset (\<lambda>u. g u \<in> set (k # ks)) (mset us) = filter_mset (\<lambda>u. k = g u) (mset us) + filter_mset (\<lambda>u. g u \<in> set ks) (mset us)"
    using Cons.prems by (intro multiset_eqI) auto
  then show ?case using Cons by (simp add: mset_filter)
qed simp

lemma mset_spent:
  assumes "fill_vins env step us (tx_owner_set us) n = Some vins"
  shows "mset (concat (map2 (\<lambda>owner vin. map (\<lambda>prevout. (owner, prev_hash prevout)) (vin_prevouts vin)) (tx_owner_set us) vins)) = mset (map utxo_id us)"
proof -
  have "filter (\<lambda>u. ut_addr u \<in> set (tx_owner_set us)) us = us"
    by (simp add: tx_owner_set_def sort_unique)
  then have "filter_mset (\<lambda>u. ut_addr u \<in> set (tx_owner_set us)) (mset us) = mset us"
    by (metis mset_filter)
  then show ?thesis
    using spent_concat [OF fill_vins_prevouts [OF assms]] mset_group [of "tx_owner_set us" utxo_id ut_addr us]
    by (simp add: tx_owner_set_def sort_unique)
qed

lemma add_multisigns_keeps:
  "add_multisigns env owners tx = Some tx' \<Longrightarrow>
   tx_owners tx' = tx_owners tx \<and> tx_vins tx' = tx_vins tx \<and> tx_vouts tx' = tx_vouts tx"
proof (induction owners arbitrary: tx)
  case (Cons owner owners)
  then obtain t where t: "AddMutilSign env owner tx = Inr t" "add_multisigns env owners t = Some tx'"
    by (auto split: sum.splits)
  then have "tx_owners t = tx_owners tx \<and> tx_vins t = tx_vins tx \<and> tx_vouts t = tx_vouts tx"
    by (auto simp: AddMutilSign_def Let_def split: if_splits sum.splits)
  then show ?case using Cons.IH [OF t(2)] by simp
qed simp

lemma close_tx_keeps:
  "close_tx env kind owners code currentTime type local raw tx = Inr (tx', ty, info) \<Longrightarrow>
   tx_owners tx' = tx_owners tx \<and> tx_vins tx' = tx_vins tx \<and> tx_vouts tx' = tx_vouts tx"
  by (auto simp: close_tx_def bindE_eq_Inr_iff seal_def stamp_def Let_def dest!: add_multisigns_keeps split: prod.splits)

lemma with_outputs_simps [simp]:
  "tx_owners (with_outputs outs tx) = tx_owners tx" "tx_vins (with_outputs outs tx) = tx_vins tx"
  "map out_value (tx_vouts (with_outputs outs tx)) = map snd outs" "map out_addr (tx_vouts (with_outputs outs tx)) = map fst outs"
  by (auto simp: with_outputs_def)

lemma start_tx_simps [simp]: "tx_owners (start_tx env owners vins data info) = owners" "tx_vins (start_tx env owners vins data info) = vins"
  by (simp_all add: start_tx_def)

lemma find_inputs_props:
  assumes "sorts_falling (te_sort env)" and "distinct fromAddr"
    and "find_inputs env rd fromAddr need isFindUtxo = Inr (0, tot, us)"
  shows "length us \<le> need \<and> distinct (map utxo_id us) \<and> tot = sum_list (map ut_value us)"
  using find_utxo_props [OF assms(1,2)] assms(3) by (auto simp: find_inputs_def)

lemma check_distinct: "Check env rd fromAddr h = Inr 0 \<Longrightarrow> distinct fromAddr"
  by (auto simp: Check_def length_sort_unique split: if_splits)

lemma transfer_cases:
  assumes "CreateTxTransaction env rd fromAddr toAddr info h isFindUtxo p = Inr (tx, type, vrf, p')"
  obtains tot us vins gas tx2 where "distinct fromAddr" and "find_inputs env rd fromAddr kMaxVinSize isFindUtxo = Inr (0, tot, us)"
    and "fill_vins env (\<lambda>n. n + 1) us (tx_owner_set us) 0 = Some vins"
    and "\<not> tot < sum_list (map snd toAddr) + gas"
    and "add_multisigns env (tx_owner_set us) (with_outputs (toAddr @
       [(last fromAddr, tot - (sum_list (map snd toAddr) + gas)), (be_kVirtualBurnGasAddr env, gas)]) (start_tx env (tx_owner_set us) vins [] info)) = Some tx2"
    and "tx_utxo tx = tx_utxo tx2" 
    and "gas_of env (start_tx env (tx_owner_set us) vins [] info) (map fst toAddr @ [last fromAddr, be_kVirtualBurnGasAddr env]) (-9) = Inr gas"
  using assms that unfolding CreateTxTransaction_def
  by (auto simp: bindE_eq_Inr_iff Let_def seal_def stamp_def split_beta dest!: check_distinct)

text \<open>The sum of 64-bit values and the exact sum.\<close>

lemma unat_sum_list: "unat (sum_list vs) = sum_list (map unat vs) mod 2 ^ 64" for vs :: "u64 list"
proof (induction vs)
  case (Cons v vs)
  then show ?case by (simp add: unat_word_ariths mod_add_right_eq)
qed simp

lemma change_exact:
  fixes tot expend :: u64
  assumes "\<not> tot < expend" and "unat expend = a mod 2 ^ 64"
  shows "a + unat (tot - expend) = unat tot + 2 ^ 64 * (a div 2 ^ 64)"
proof -
  have "unat (tot - expend) = unat tot - unat expend" and "unat expend \<le> unat tot"
    using assms(1) by (simp_all add: unat_sub not_less word_le_nat_alt)
  moreover have "a = 2 ^ 64 * (a div 2 ^ 64) + a mod 2 ^ 64" by simp
  ultimately show ?thesis using assms(2) by linarith
qed

lemma transfer_spec:
  assumes "sorts_falling (te_sort env)"
    and "CreateTxTransaction env rd fromAddr toAddr info h isFindUtxo p = Inr (tx, type, vrf, p')"
  shows "built_from env rd fromAddr 1000 isFindUtxo [] 0 tx \<and>
    (\<exists>tot us gas. find_inputs env rd fromAddr 1000 isFindUtxo = Inr (0, tot, us) \<and> map out_addr (tx_vouts tx) = map fst toAddr @ [last fromAddr, be_kVirtualBurnGasAddr env] \<and>
       map out_value (tx_vouts tx) = map snd toAddr @ [tot - (sum_list (map snd toAddr) + gas), gas] \<and>
       sum_list (map (\<lambda>out. unat (out_value out)) (tx_vouts tx)) =
         unat tot + 2 ^ 64 * ((sum_list (map (\<lambda>t. unat (snd t)) toAddr) + unat gas) div 2 ^ 64))"
proof -
  obtain tot us vins gas tx2 where dist: "distinct fromAddr" and us: "find_inputs env rd fromAddr kMaxVinSize isFindUtxo = Inr (0, tot, us)"
      and vins: "fill_vins env (\<lambda>n. n + 1) us (tx_owner_set us) 0 = Some vins"
      and funds: "\<not> tot < sum_list (map snd toAddr) + gas"
      and tx2: "add_multisigns env (tx_owner_set us) (with_outputs (toAddr @
         [(last fromAddr, tot - (sum_list (map snd toAddr) + gas)), (be_kVirtualBurnGasAddr env, gas)]) (start_tx env (tx_owner_set us) vins [] info)) = Some tx2"
      and tx: "tx_utxo tx = tx_utxo tx2"
    by (rule transfer_cases [OF assms(2)])
  let ?amount = "sum_list (map snd toAddr)" and ?A = "sum_list (map (\<lambda>t. unat (snd t)) toAddr) + unat gas"
  note in_props = find_inputs_props [OF assms(1) dist us]
  have keep: "tx_owners tx = tx_owner_set us" "tx_vins tx = vins"
      "map out_addr (tx_vouts tx) = map fst toAddr @ [last fromAddr, be_kVirtualBurnGasAddr env]"
      "map out_value (tx_vouts tx) = map snd toAddr @ [tot - (?amount + gas), gas]"
    using add_multisigns_keeps [OF tx2] tx by simp_all
  have "mset (tx_spent tx) = mset (map utxo_id us)"
    unfolding tx_spent_def keep(1,2) by (rule mset_spent [OF vins])
  then have built: "built_from env rd fromAddr 1000 isFindUtxo [] 0 tx"
    using us in_props keep(4) unfolding built_from_def by (auto simp: kMaxVinSize_def)
  have "unat (?amount + gas) = ?A mod 2 ^ 64"
    by (simp add: unat_word_ariths unat_sum_list mod_add_left_eq o_def)
  from change_exact [OF funds this]
  have "sum_list (map unat (map out_value (tx_vouts tx))) = unat tot + 2 ^ 64 * (?A div 2 ^ 64)"
    unfolding keep(4) by (simp add: o_def)
  then have "sum_list (map (\<lambda>out. unat (out_value out)) (tx_vouts tx)) = unat tot + 2 ^ 64 * (?A div 2 ^ 64)"
    by (simp add: o_def)
  with built keep(3,4) us show ?thesis unfolding kMaxVinSize_def by blast
qed



text \<open>
  The amounts are added in 64 bits before they are compared with the funds: when their
  exact sum does not fit, a transfer that is built promises its recipients at least
  \<open>2 ^ 64\<close> more than its inputs hold.
\<close>

theorem transfer_amount_wraps:
  assumes "sorts_falling (te_sort env)"
    and "CreateTxTransaction env rd fromAddr toAddr info h isFindUtxo p = Inr (tx, type, vrf, p')"
    and "2 ^ 64 \<le> sum_list (map (\<lambda>t. unat (snd t)) toAddr)"
  shows "\<exists>tot us. find_inputs env rd fromAddr 1000 isFindUtxo = Inr (0, tot, us) \<and>
    unat tot + 2 ^ 64 \<le> sum_list (map (\<lambda>out. unat (out_value out)) (tx_vouts tx))"
proof -
  obtain tot us gas where us: "find_inputs env rd fromAddr 1000 isFindUtxo = Inr (0, tot, us)"
      and sum: "sum_list (map (\<lambda>out. unat (out_value out)) (tx_vouts tx)) =
        unat tot + 2 ^ 64 * ((sum_list (map (\<lambda>t. unat (snd t)) toAddr) + unat (gas :: u64)) div 2 ^ 64)"
    using transfer_spec [OF assms(1,2)] by blast
  have "1 \<le> (sum_list (map (\<lambda>t. unat (snd t)) toAddr) + unat gas) div 2 ^ 64"
    using assms(3) by (metis div_greater_zero_iff less_eq_Suc_le One_nat_def trans_le_add1 zero_less_numeral zero_less_power)
  then show ?thesis using us sum by (metis add_left_mono mult_le_mono2 mult.right_neutral)
qed

lemma built_close:
  assumes "sorts_falling (te_sort env)" and "find_inputs env rd [a] need isFindUtxo = Inr (0, tot, us)"
    and "fill_vins env step us (tx_owner_set us) n = Some vins"
    and "close_tx env kind owners code t ty local raw tx1 = Inr (tx, type, vrf)"
    and "tx_owners tx1 = map fst first @ tx_owner_set us" and "tx_vins tx1 = fvins @ vins"
    and "list_all2 (\<lambda>f vin. map prev_hash (vin_prevouts vin) = [snd f]) first fvins"
    and "sum_list (map out_value (tx_vouts tx1)) = tot + extra"
  shows "built_from env rd [a] need isFindUtxo first extra tx"
proof -
  have keep: "tx_owners tx = map fst first @ tx_owner_set us" "tx_vins tx = fvins @ vins" "tx_vouts tx = tx_vouts tx1"
    using close_tx_keeps [OF assms(4)] assms(5,6) by simp_all
  let ?f = "\<lambda>owner vin. map (\<lambda>prevout. (owner, prev_hash prevout)) (vin_prevouts vin)"
  have len: "length first = length fvins" using assms(7) by (rule list_all2_lengthD)
  have "concat (map2 ?f (map fst first) fvins) = first"
    using assms(7)
  proof (induction rule: list_all2_induct)
    case (Cons f fs vin vins)
    have "?f (fst f) vin = map (Pair (fst f)) (map prev_hash (vin_prevouts vin))" by simp
    then show ?case using Cons by simp
  qed simp
  then have "mset (tx_spent tx) = mset (first @ map utxo_id us)"
    using mset_spent [OF assms(3)] len unfolding tx_spent_def keep(1,2) by (simp add: zip_append)
  then show ?thesis
    using assms(2,8) keep(3) find_inputs_props [OF assms(1) _ assms(2)] unfolding built_from_def by auto
qed

lemma stake_vin_prevouts: "stake_vin env a h = Some vin \<Longrightarrow> map prev_hash (vin_prevouts vin) = [h]"
  by (auto simp: stake_vin_def dest!: sign_vin_prevouts)

lemma claims_eq: "claims rate ds (n, c) =
  (n + sum_list (map (\<lambda>d. costo rate (snd d)) ds), c + sum_list (map (\<lambda>d. snd d - costo rate (snd d)) ds))"
  by (induction ds arbitrary: n c) (auto simp: algebra_simps)

text \<open>
  A stake that is built spends at most a thousand outputs of its owner, locks exactly the
  requested amount, burns the gas and returns the rest: the outputs add up to the inputs.
\<close>

theorem stake_conserves:
  assumes "sorts_falling (te_sort env)"
    and "CreateStakeTransaction env rd a amt info h pledge rate isFindUtxo = Inr (tx, type, vrf)"
  shows "built_from env rd [a] 1000 isFindUtxo [] 0 tx \<and> 1000 * be_kDecimalNum env \<le> amt \<and>
    map out_addr (tx_vouts tx) = [be_kVirtualStakeAddr env, a, be_kVirtualBurnGasAddr env] \<and> out_value (tx_vouts tx ! 0) = amt"
proof -
  obtain tot us vins gas ty t data where us: "find_inputs env rd [a] 1000 isFindUtxo = Inr (0, tot, us)"
      and low: "1000 * be_kDecimalNum env \<le> amt"
      and vins: "fill_vins env (\<lambda>n. n) us (tx_owner_set us) 0 = Some vins"
      and close: "close_tx env kTxTypeStake (tx_owner_set us) (-11) t ty (local_identity env) (all_hashes us)
        (with_outputs [(be_kVirtualStakeAddr env, amt), (a, tot - (amt + gas)), (be_kVirtualBurnGasAddr env, gas)]
          (start_tx env (tx_owner_set us) vins data info)) = Inr (tx, type, vrf)"
    using assms(2) unfolding CreateStakeTransaction_def kMaxVinSize_def
    by (auto simp: bindE_eq_Inr_iff Let_def split_beta not_less)
  have "built_from env rd [a] 1000 isFindUtxo [] 0 tx"
    by (rule built_close [OF assms(1) us vins close, where fvins = "[]"]) simp_all
  moreover have "tx_vouts tx = map (\<lambda>(a, v). \<lparr>out_value = v, out_addr = a\<rparr>)
      [(be_kVirtualStakeAddr env, amt), (a, tot - (amt + gas)), (be_kVirtualBurnGasAddr env, gas)]"
    using close_tx_keeps [OF close] by (simp add: with_outputs_def)
  ultimately show ?thesis using low by simp
qed

text \<open>An investment, likewise.\<close>

lemma invest_conserves:
  assumes "sorts_falling (te_sort env)"
    and "CreateInvestTransaction env rd qualification a target amt info h invest isFindUtxo = Inr (tx, type, vrf)"
  shows "built_from env rd [a] 1000 isFindUtxo [] 0 tx \<and> 35 * be_kDecimalNum env \<le> amt \<and>
    map out_addr (tx_vouts tx) = [be_kVirtualInvestAddr env, a, be_kVirtualBurnGasAddr env] \<and> out_value (tx_vouts tx ! 0) = amt"
proof -
  obtain tot us vins gas ty t data where us: "find_inputs env rd [a] 1000 isFindUtxo = Inr (0, tot, us)"
      and low: "35 * be_kDecimalNum env \<le> amt"
      and vins: "fill_vins env (\<lambda>n. n) us (tx_owner_set us) 0 = Some vins"
      and close: "close_tx env kTxTypeInvest (tx_owner_set us) (-10) t ty (local_identity env) (all_hashes us)
        (with_outputs [(be_kVirtualInvestAddr env, amt), (a, tot - (amt + gas)), (be_kVirtualBurnGasAddr env, gas)]
          (start_tx env (tx_owner_set us) vins data info)) = Inr (tx, type, vrf)"
    using assms(2) unfolding CreateInvestTransaction_def kMaxVinSize_def
    by (auto simp: bindE_eq_Inr_iff Let_def split_beta not_less)
  have "built_from env rd [a] 1000 isFindUtxo [] 0 tx"
    by (rule built_close [OF assms(1) us vins close, where fvins = "[]"]) simp_all
  moreover have "tx_vouts tx = map (\<lambda>(a, v). \<lparr>out_value = v, out_addr = a\<rparr>)
      [(be_kVirtualInvestAddr env, amt), (a, tot - (amt + gas)), (be_kVirtualBurnGasAddr env, gas)]"
    using close_tx_keeps [OF close] by (simp add: with_outputs_def)
  ultimately show ?thesis using low by simp
qed

text \<open>
  An unstake that is built spends the staked output and at most 999 others of its owner;
  the outputs add up to those inputs and the staked amount that the qualification reports,
  which goes back to the owner.
\<close>

theorem unstake_conserves:
  assumes "sorts_falling (te_sort env)"
    and "CreatUnstakeTransaction env rd qualified a utxoHash info h isFindUtxo = Inr (tx, type, vrf)"
  shows "fst (qualified a utxoHash) = 0 \<and> built_from env rd [a] 999 isFindUtxo [(a, utxoHash)] (snd (qualified a utxoHash)) tx \<and>
    map out_addr (tx_vouts tx) = [a, a, be_kVirtualBurnGasAddr env] \<and> out_value (tx_vouts tx ! 0) = snd (qualified a utxoHash)"
proof -
  obtain q amt tot us vin0 vins gas ty t data where q: "qualified a utxoHash = (q, amt)" "q = 0"
      and us: "find_inputs env rd [a] 999 isFindUtxo = Inr (0, tot, us)"
      and vin0: "stake_vin env a utxoHash = Some vin0"
      and vins: "fill_vins env (\<lambda>n. n) us (tx_owner_set us) 1 = Some vins"
      and close: "close_tx env kTxTypeUnstake (tx_owner_set us) (-8) t ty (local_identity env) (utxoHash @ all_hashes us)
        (with_outputs [(a, amt), (a, tot - gas), (be_kVirtualBurnGasAddr env, gas)]
          ((start_tx env (a # tx_owner_set us) (vin0 # vins) data info)\<lparr>tx_version := be_kCurrentTransactionVersion env\<rparr>)) = Inr (tx, type, vrf)"
    using assms(2) unfolding CreatUnstakeTransaction_def kMaxVinSize_def
    by (cases "qualified a utxoHash") (auto simp: bindE_eq_Inr_iff Let_def split_beta not_less)
  have "built_from env rd [a] 999 isFindUtxo [(a, utxoHash)] amt tx"
    by (rule built_close [OF assms(1) us vins close, where fvins = "[vin0]"])
      (use stake_vin_prevouts [OF vin0] in \<open>simp_all add: start_tx_def with_outputs_def\<close>)
  moreover have "tx_vouts tx = map (\<lambda>(a, v). \<lparr>out_value = v, out_addr = a\<rparr>)
      [(a, amt), (a, tot - gas), (be_kVirtualBurnGasAddr env, gas)]"
    using close_tx_keeps [OF close] by (simp add: with_outputs_def)
  ultimately show ?thesis using q by simp
qed

text \<open>A withdrawn investment, likewise.\<close>

lemma disinvest_conserves:
  assumes "sorts_falling (te_sort env)"
    and "CreateDisinvestTransaction env rd qualified a target utxoHash info h isFindUtxo = Inr (tx, type, vrf)"
  shows "fst (qualified a target utxoHash) = 0 \<and>
    built_from env rd [a] 999 isFindUtxo [(a, utxoHash)] (snd (qualified a target utxoHash)) tx \<and>
    map out_addr (tx_vouts tx) = [a, a, be_kVirtualBurnGasAddr env] \<and> out_value (tx_vouts tx ! 0) = snd (qualified a target utxoHash)"
proof -
  obtain q amt tot us vin0 vins gas ty t data where q: "qualified a target utxoHash = (q, amt)" "q = 0"
      and us: "find_inputs env rd [a] 999 isFindUtxo = Inr (0, tot, us)"
      and vin0: "stake_vin env a utxoHash = Some vin0"
      and vins: "fill_vins env (\<lambda>n. n) us (tx_owner_set us) 1 = Some vins"
      and close: "close_tx env kTxTypeDisinvest (tx_owner_set us) (-10) t ty (local_identity env) (utxoHash @ all_hashes us)
        (with_outputs [(a, amt), (a, tot - gas), (be_kVirtualBurnGasAddr env, gas)]
          (start_tx env (a # tx_owner_set us) (vin0 # vins) data info)) = Inr (tx, type, vrf)"
    using assms(2) unfolding CreateDisinvestTransaction_def kMaxVinSize_def
    by (cases "qualified a target utxoHash") (auto simp: bindE_eq_Inr_iff Let_def split_beta not_less)
  have "built_from env rd [a] 999 isFindUtxo [(a, utxoHash)] amt tx"
    by (rule built_close [OF assms(1) us vins close, where fvins = "[vin0]"])
      (use stake_vin_prevouts [OF vin0] in \<open>simp_all add: with_outputs_def\<close>)
  moreover have "tx_vouts tx = map (\<lambda>(a, v). \<lparr>out_value = v, out_addr = a\<rparr>)
      [(a, amt), (a, tot - gas), (be_kVirtualBurnGasAddr env, gas)]"
    using close_tx_keeps [OF close] by (simp add: with_outputs_def)
  ultimately show ?thesis using q by simp
qed

text \<open>
  A bonus claim that is built pays out exactly the computed dividends: what the commission
  takes from an investor goes to the node, so that the outputs add up to the inputs and the
  sum of the dividends, whatever the rounding of the commission.
\<close>

theorem bonus_conserves:
  assumes "sorts_falling (te_sort env)"
    and "CreateBonusTransaction env rd qualification calcBonus commission a info h isFindUtxo = Inr (tx, type, vrf)"
  shows "built_from env rd [a] 999 isFindUtxo [] (sum_list (map snd (snd (calcBonus (be_clock env 0) a)))) tx \<and>
    map out_addr (tx_vouts tx) = map fst (snd (calcBonus (be_clock env 0) a)) @ [a, be_kVirtualBurnGasAddr env]"
proof -
  obtain r ds rt rate where b: "calcBonus (be_clock env 0) a = (r, ds)" "commission a = (rt, rate)" by fastforce
  let ?node = "sum_list (map (\<lambda>d. costo rate (snd d)) ds)"
  obtain tot us vins gas ty t data where us: "find_inputs env rd [a] 999 isFindUtxo = Inr (0, tot, us)"
      and vins: "fill_vins env (\<lambda>n. n) us (tx_owner_set us) 0 = Some vins"
      and close: "close_tx env kTxTypeBonus (tx_owner_set us) (-8) t ty (be_defaultAddr env) (all_hashes us)
        (with_outputs (map (\<lambda>(a, v). (a, v - costo rate v)) ds @ [(a, tot - gas + ?node), (be_kVirtualBurnGasAddr env, gas)])
          (start_tx env (tx_owner_set us) vins data info)) = Inr (tx, type, vrf)"
    using assms(2) b unfolding CreateBonusTransaction_def kMaxVinSize_def
    by (auto simp: bindE_eq_Inr_iff Let_def split_beta not_less claims_eq)
  have "sum_list (map (\<lambda>d. snd d - costo rate (snd d)) ds) + ?node = sum_list (map snd ds)"
    by (induction ds) simp_all
  then have pays: "sum_list (map snd (map (\<lambda>(a, v). (a, v - costo rate v)) ds @ [(a, tot - gas + ?node), (be_kVirtualBurnGasAddr env, gas)])) =
      tot + sum_list (map snd ds)"
    by (simp add: o_def split_beta algebra_simps)
  have "built_from env rd [a] 999 isFindUtxo [] (sum_list (map snd ds)) tx"
    by (rule built_close [OF assms(1) us vins close, where fvins = "[]"]) (use pays in simp_all)
  moreover have "map out_addr (tx_vouts tx) = map fst ds @ [a, be_kVirtualBurnGasAddr env]"
    using close_tx_keeps [OF close] by (simp add: o_def split_beta)
  ultimately show ?thesis using b by simp
qed

text \<open>
  The search for a packager gives up one try too early: when the sixth try is the first to
  succeed, its packager is thrown away and the transfer fails with code \<open>-12\<close>.
\<close>

theorem packager_sixth_try_lost:
  assumes "fst (be_packager env (all_hashes us @ dec t)) = -6"
    and "\<forall>k \<in> {1, 2, 3, 4}. fst (be_packager env (all_hashes us @ dec (be_clock env k))) = -6"
    and "be_packager env (all_hashes us @ dec (be_clock env 5)) = (0, ident, info)"
  shows "transfer_packager env vrfAgentType_vrf us t = Inl (Ret (-12))"
proof -
  have "packager_loop env (all_hashes us) 6 1 t = Inr (6, Some (ident, info, be_clock env 5))"
    using assms by (simp add: eval_nat_numeral split_beta)
  then show ?thesis by (simp add: transfer_packager_def)
qed

section \<open>Concrete checks\<close>

definition sample_build :: "unit build_env" where
  "sample_build = \<lparr>te_isValidAddress = te_isValidAddress sample_env, te_account = te_account sample_env, te_sha256 = te_sha256 sample_env,
     te_ser_vin = te_ser_vin sample_env, te_ser_utxo = te_ser_utxo sample_env, te_ser_tx = te_ser_tx sample_env,
     te_parse_block = te_parse_block sample_env, te_TxTimeoutMin = 30, te_sort = te_sort sample_env,
     be_kDecimalNum = 0, be_kVirtualStakeAddr = ''stake'', be_kVirtualInvestAddr = ''invest'', be_kVirtualBurnGasAddr = ''burn'',
     be_kTxSign = ''sign'', be_kStakeTypeNet = ''net'', be_kInvestTypeNormal = ''normal'', be_kCurrentTransactionVersion = 1,
     be_kConsensus = 7, be_kMinUnstakeHeight = 0, be_GenerateGas = (\<lambda>tx n. (0, 1)), be_clock = word_of_nat,
     be_packager = (\<lambda>raw. if raw \<in> {''1'', ''2'', ''3'', ''4'', ''9''} then (-6, [], ()) else (0, ''P'', ())), be_dump = (\<lambda>_. []), be_chainHeight = Some 0,
     be_defaultAddr = ''A'', be_VerifyBonusAddr = (\<lambda>_. 0), be_stakeTime = (\<lambda>_. 1), be_random = (\<lambda>_. 0), be_net = sample_net [],
     be_shuffle = (\<lambda>ns. ns), be_parse_flags = (\<lambda>_. None), be_ask = (\<lambda>_ _ _. (True, []))\<rparr>"

lemma sample_build_sorts: "sorts_falling (te_sort sample_build)"
  using sorts_falling_sample by (simp add: sample_build_def sample_env_def)

definition sample_chosen :: "Utxo list" where
  "sample_chosen = [sample_outputs ! 0, sample_outputs ! 2, sample_outputs ! 1]"

lemma sample_inputs: "3 \<le> n \<Longrightarrow> find_inputs sample_build sample_reader [''A''] n False = Inr (0, 21, sample_chosen)"
proof -
  assume n: "3 \<le> n"
  have sorted: "te_sort sample_build sample_outputs = [sample_outputs ! 1, sample_outputs ! 2, sample_outputs ! 0]"
    using sample_sorted by (simp add: sample_build_def)
  have "take_utxos n (te_sort sample_build sample_outputs) (0, []) = (21, sample_chosen)"
    unfolding sorted sample_chosen_def using n by (simp add: take_utxos_eq ms_insert_def UtxoCompare_def)
  then show ?thesis
    using n by (simp add: find_inputs_def FindUtxo_def sample_all del: all_utxos.simps take_utxos.simps)
qed

lemma sample_check: "Check sample_build sample_reader [''A''] 5 = Inr 0"
  by (simp add: Check_def sample_hashes sample_build_def sample_env_def sort_unique_def)

lemma sample_time: "GetTxStartIdentity sample_build sample_reader 5 t = Inr vrfAgentType_vrf"
  by (simp add: GetTxStartIdentity_def CheckTxTimeOut_def GetBlockHashesByBlockHeight_def heights_def sample_reader_def)

lemma sample_chosen_nonempty [simp]: "sample_chosen \<noteq> []"
  by (simp add: sample_chosen_def)

lemma sample_owners: "tx_owner_set sample_chosen = [''A'']"
  by (simp add: tx_owner_set_def sort_unique_def sample_chosen_def)

lemma sample_vins: "\<exists>vin. \<forall>step. fill_vins sample_build step sample_chosen [''A''] n = Some [vin]"
  by (simp add: fill_vin_def sign_vin_def Sign_def sample_build_def sample_env_def sample_chosen_def)

lemma sample_multi: "\<exists>mt. \<forall>t. add_multisigns sample_build [''A''] t = Some (mt t)"
proof -
  have "\<forall>t. \<exists>t'. add_multisigns sample_build [''A''] t = Some t'"
    by (simp add: AddMutilSign_def Sign_def sample_build_def sample_env_def Let_def)
  then show ?thesis by metis
qed

lemma sample_stake_vin: "\<exists>vin. stake_vin sample_build ''A'' h = Some vin"
  by (simp add: stake_vin_def sign_vin_def Sign_def sample_build_def sample_env_def)

lemma sample_gas: "gas_of sample_build t ks c = Inr 1"
  by (simp add: gas_of_def sample_build_def)

lemma sample_env_simps: "be_clock sample_build k = word_of_nat k" "te_isValidAddress sample_build ''A''" "be_kDecimalNum sample_build = 0"
  by (simp_all add: sample_build_def sample_env_def)

lemma sample_raw: "all_hashes sample_chosen = ''xzy''" "to_string 0 = ''0''"
  by (simp add: all_hashes_def sample_chosen_def, code_simp)

lemmas sample_simps = sample_owners sample_gas sample_env_simps sample_time Let_def

lemma sample_find: "find_inputs sample_build sample_reader [''A''] kMaxVinSize False = Inr (0, 21, sample_chosen)"
    "find_inputs sample_build sample_reader [''A''] (kMaxVinSize - 1) False = Inr (0, 21, sample_chosen)"
  by (rule sample_inputs; simp add: kMaxVinSize_def)+

lemma sample_transfer:
  assumes "mapE (check_target sample_build [''A'']) to = Inr us" and "to \<noteq> []" and "\<not> 21 < sum_list (map snd to) + (1 :: u64)"
  shows "\<exists>tx p'. CreateTxTransaction sample_build sample_reader [''A''] to ''i'' 5 False [] = Inr (tx, vrfAgentType_vrf, Some (), p')"
proof -
  obtain vin mt where parts: "\<And>step. fill_vins sample_build step sample_chosen [''A''] 0 = Some [vin]"
      "\<And>t. add_multisigns sample_build [''A''] t = Some (mt t)"
    using sample_vins sample_multi by metis
  have pack: "transfer_packager sample_build vrfAgentType_vrf sample_chosen 0 = Inr (''P'', Some (), 0)"
    by (simp add: transfer_packager_def sample_raw sample_build_def eval_nat_numeral)
  show ?thesis
    unfolding CreateTxTransaction_def sample_check sample_find
    using assms by (simp add: sample_simps parts pack AddFromAddr_def del: fill_vins.simps add_multisigns.simps)
qed

lemma sample_close: "\<exists>tx. close_tx sample_build kind [''A''] code tm vrfAgentType_vrf local (c # d # raw) t = Inr (tx, vrfAgentType_vrf, Some ())"
proof -
  obtain mt where "\<And>t. add_multisigns sample_build [''A''] t = Some (mt t)" using sample_multi by metis
  moreover have "packager_of sample_build vrfAgentType_vrf local ((c # d # raw) @ dec t) = Inr (''P'', Some ())" for t :: u64
    by (simp add: packager_of_def sample_build_def)
  ultimately show ?thesis by (simp add: close_tx_def del: add_multisigns.simps)
qed


theorem transfer_amount_wraps_witness:
  "\<exists>tx p'. CreateTxTransaction sample_build sample_reader [''A''] [(''B'', 2 ^ 63 - 1), (''C'', 2 ^ 63 - 1), (''D'', 5)] ''i'' 5 False [] =
       Inr (tx, vrfAgentType_vrf, Some (), p') \<and> 2 ^ 64 \<le> sum_list (map (\<lambda>out. unat (out_value out)) (tx_vouts tx))"
proof -
  let ?to = "[(''B'', 2 ^ 63 - 1), (''C'', 2 ^ 63 - 1), (''D'', 5)] :: (string \<times> u64) list"
  have "mapE (check_target sample_build [''A'']) ?to = Inr [(), (), ()]"
    by (simp add: sample_build_def sample_env_def)
  moreover have "sum_list (map snd ?to) = 3" by simp
  ultimately obtain tx p' where tx: "CreateTxTransaction sample_build sample_reader [''A''] ?to ''i'' 5 False [] = Inr (tx, vrfAgentType_vrf, Some (), p')"
    using sample_transfer [of ?to] by auto
  have big: "2 ^ 64 \<le> sum_list (map (\<lambda>t. unat (snd t)) ?to)" by simp
  obtain tot where "unat (tot :: u64) + 2 ^ 64 \<le> sum_list (map (\<lambda>out. unat (out_value out)) (tx_vouts tx))"
    using transfer_amount_wraps [OF sample_build_sorts tx big] by blast
  then have "2 ^ 64 \<le> sum_list (map (\<lambda>out. unat (out_value out)) (tx_vouts tx))" by linarith
  with tx show ?thesis by blast
qed

theorem stake_conserves_witness:
  "\<exists>tx. CreateStakeTransaction sample_build sample_reader ''A'' 10 ''i'' 5 kPledgeType_Node 0 False = Inr (tx, vrfAgentType_vrf, Some ()) \<and>
     built_from sample_build sample_reader [''A''] 1000 False [] 0 tx"
proof -
  obtain vin where parts: "\<And>step. fill_vins sample_build step sample_chosen [''A''] 0 = Some [vin]"
    using sample_vins by metis
  have free: "GetStakeAddressUtxo sample_reader ''A'' [] = Inr (DB_NOT_FOUND, [])" by code_simp
  have "\<exists>tx. CreateStakeTransaction sample_build sample_reader ''A'' 10 ''i'' 5 kPledgeType_Node 0 False = Inr (tx, vrfAgentType_vrf, Some ())"
    unfolding CreateStakeTransaction_def sample_check sample_find free
    using sample_close by (simp add: sample_simps parts sample_raw del: fill_vins.simps)
  then show ?thesis using stake_conserves [OF sample_build_sorts] by blast
qed

theorem unstake_conserves_witness:
  "\<exists>tx. CreatUnstakeTransaction sample_build sample_reader (\<lambda>_ _. (0, 4)) ''A'' ''s'' ''i'' 5 False = Inr (tx, vrfAgentType_vrf, Some ()) \<and>
     built_from sample_build sample_reader [''A''] 999 False [(''A'', ''s'')] 4 tx"
proof -
  obtain vin vin0 where parts: "\<And>step. fill_vins sample_build step sample_chosen [''A''] 1 = Some [vin]"
      "stake_vin sample_build ''A'' ''s'' = Some vin0"
    using sample_vins sample_stake_vin by metis
  have "\<exists>tx. CreatUnstakeTransaction sample_build sample_reader (\<lambda>_ _. (0, 4)) ''A'' ''s'' ''i'' 5 False = Inr (tx, vrfAgentType_vrf, Some ())"
    unfolding CreatUnstakeTransaction_def sample_check sample_find
    using sample_close by (simp add: sample_simps parts sample_raw del: fill_vins.simps)
  then show ?thesis using unstake_conserves [OF sample_build_sorts] by fastforce
qed

theorem bonus_conserves_witness:
  "\<exists>tx. CreateBonusTransaction sample_build sample_reader (\<lambda>_ _. 0) (\<lambda>_ _. (0, [(''B'', 7)])) (\<lambda>_. (0, 1 / 2)) ''A'' ''i'' 5 False =
       Inr (tx, vrfAgentType_vrf, Some ()) \<and>
     built_from sample_build sample_reader [''A''] 999 False [] 7 tx"
proof -
  obtain vin where parts: "\<And>step. fill_vins sample_build step sample_chosen [''A''] 0 = Some [vin]"
    using sample_vins by metis
  have "\<exists>tx. CreateBonusTransaction sample_build sample_reader (\<lambda>_ _. 0) (\<lambda>_ _. (0, [(''B'', 7)])) (\<lambda>_. (0, 1 / 2)) ''A'' ''i'' 5 False =
      Inr (tx, vrfAgentType_vrf, Some ())"
    unfolding CreateBonusTransaction_def sample_check sample_find
    using sample_close by (simp add: sample_simps parts sample_raw claims_eq del: fill_vins.simps)
  then show ?thesis using bonus_conserves [OF sample_build_sorts] by fastforce
qed

theorem packager_sixth_try_lost_witness:
  "transfer_packager sample_build vrfAgentType_vrf [] 9 = Inl (Ret (-12))"
proof -
  have "to_string 1 = ''1''" "to_string 2 = ''2''" "to_string 3 = ''3''" "to_string 4 = ''4''" "to_string 5 = ''5''" "to_string 9 = ''9''"
    by code_simp+
  then show ?thesis
    by (intro packager_sixth_try_lost [where ident = "''P''" and info = "()"]) (auto simp: all_hashes_def sample_build_def)
qed

end
