(* ===== verification/Sync_Select.thy ===== *)
theory Sync_Select
  imports Tx_Utxo
begin

text \<open>
  Whom to synchronise with, \<open>ca/sync_block.cpp\<close>: the random choice of nodes that are high enough
  (\<open>_GetSyncNodeBasic\<close>, \<open>_GetSyncNode\<close>, \<open>GetSyncNodeSimplify\<close>) and the detection of a split chain
  (\<open>_NeedByzantineAdjustment\<close> and the functions it calls). Which addresses are staked and invested
  in comes from the consensus library; \<open>draw k\<close> is the \<open>k\<close>-th random number, reduced to the range asked for.
\<close>

section \<open>Choosing nodes\<close>

record sync_env =
  se_qualified :: "string \<Rightarrow> bool"
  se_kMinUnstakeHeight :: u64
  se_KMinSyncQualNodes :: nat
  se_kNeed_node_threshold :: nat
  se_draw :: "nat \<Rightarrow> nat"

abbreviation UINT32_MAX :: nat where
  "UINT32_MAX \<equiv> 4294967295"

lemma index_rest: "nodes \<noteq> [] \<Longrightarrow> k mod length nodes + (length nodes - Suc (k mod length nodes)) < length nodes"
proof -
  assume "nodes \<noteq> []"
  then have "k mod length nodes < length nodes" by simp
  then show ?thesis by linarith
qed

text \<open>
  The loop: draw a node, drop it from the candidates, and take its address unless it is
  discarded by its height. The set of addresses is kept sorted.
\<close>

function pick_nodes :: "(u64 \<Rightarrow> u64 \<Rightarrow> bool) \<Rightarrow> u64 \<Rightarrow> (nat \<Rightarrow> nat) \<Rightarrow> nat \<Rightarrow> nat \<Rightarrow> string list \<Rightarrow> Node list \<Rightarrow> string list \<times> nat" where
  "pick_nodes disc baseline draw k num ids nodes =
     (if length ids < num \<and> nodes \<noteq> [] then
        let index = draw k mod length nodes; node = nodes ! index; rest = take index nodes @ drop (Suc index) nodes
        in if disc (ucast (height node)) baseline then pick_nodes disc baseline draw (k + 1) num ids rest
           else pick_nodes disc baseline draw (k + 1) num (insort_insert (address node) ids) rest
      else (ids, k))"
  by pat_completeness auto

termination
  by (relation "measure (\<lambda>(disc, baseline, draw, k, num, ids, nodes). length nodes)") (auto simp: index_rest)

declare pick_nodes.simps [simp del]

definition wanted :: "'e sync_env_scheme \<Rightarrow> nat \<Rightarrow> u64 \<Rightarrow> Node list \<Rightarrow> nat" where
  "wanted env num top_h nodes =
     (if num \<ge> UINT32_MAX then
        (if top_h < se_kMinUnstakeHeight env then length nodes else length (filter (\<lambda>n. se_qualified env (address n)) nodes))
      else if num < se_KMinSyncQualNodes env then se_KMinSyncQualNodes env else num)"

definition GetSyncNodeBasic :: "'e sync_env_scheme \<Rightarrow> db_reader \<Rightarrow> net \<Rightarrow> nat \<Rightarrow> u64 \<Rightarrow> (u64 \<Rightarrow> u64 \<Rightarrow> bool) \<Rightarrow> string list \<Rightarrow>
    (db_error, int \<times> string list) result" where
  "GetSyncNodeBasic env rd s num heightBaseline disc sendNodeIds =
     bindE (GetBlockTop rd 0) (\<lambda>(st, top_h).
     if st \<noteq> DB_SUCCESS then Inr (-1, sendNodeIds)
     else let nodes = GetNodelist NODE_ALL False s;
              qualifyingNode = filter (\<lambda>n. se_qualified env (address n)) nodes;
              num' = wanted env num top_h nodes in
       if \<not> top_h < se_kMinUnstakeHeight env \<and> (length qualifyingNode < se_KMinSyncQualNodes env \<or> num' < se_KMinSyncQualNodes env)
       then Inr (-2, sendNodeIds)
       else let (ids, k) = pick_nodes disc heightBaseline (se_draw env) 0 num' [] qualifyingNode;
                ids' = (if top_h < se_kMinUnstakeHeight env then fst (pick_nodes disc heightBaseline (se_draw env) k num' ids nodes) else ids);
                sendNodeIds' = sendNodeIds @ ids'
         in if of_nat (length sendNodeIds') < dmul (of_nat num') (dbl (1 / 2)) then Inr (-3, []) else Inr (0, sendNodeIds'))"

section \<open>A split chain\<close>

definition checkByzantine :: "int \<Rightarrow> int \<Rightarrow> bool" where
  "checkByzantine receiveCount hitCount =
     (case map_of [(1, [1]), (2, [2]), (3, [2, 3]), (4, [3, 4]), (5, [3, 4, 5]), (6, [4, 5, 6]), (7, [4, 5, 6, 7]),
         (8, [5, 6, 7, 8]), (9, [5, 6, 7, 8, 9]), (10, [6, 7, 8, 9, 10])] receiveCount of
        None \<Rightarrow> False | Some hits \<Rightarrow> hitCount \<in> set hits)"

text \<open>
  The scan stops with failure at the fourth node above the chain height; otherwise it
  collects the staked nodes at that height.
\<close>

fun filter_qualifying :: "u64 \<Rightarrow> string list \<Rightarrow> Node list \<Rightarrow> nat \<Rightarrow> string list \<Rightarrow> bool \<times> string list" where
  "filter_qualifying chainHeight pledgeAddr [] higher out = (True, out)"
| "filter_qualifying chainHeight pledgeAddr (node # nodes) higher out =
     (if ucast (height node) > chainHeight then
        (if higher + 1 > 3 then (False, out) else filter_qualifying chainHeight pledgeAddr nodes (higher + 1) out)
      else if ucast (height node) = chainHeight \<and> address node \<in> set pledgeAddr
      then filter_qualifying chainHeight pledgeAddr nodes higher (out @ [address node])
      else filter_qualifying chainHeight pledgeAddr nodes higher out)"

definition CheckRequirementAndFilterQualifyingNodes :: "u64 \<Rightarrow> string list \<Rightarrow> Node list \<Rightarrow> string list \<Rightarrow> bool \<times> string list" where
  "CheckRequirementAndFilterQualifyingNodes chainHeight pledgeAddr nodes out = filter_qualifying chainHeight pledgeAddr nodes 0 out"

type_synonym sum_hits = "(string, nat \<times> string list) omap"

fun count_node_hashes :: "(string \<Rightarrow> (string \<times> string) option) \<Rightarrow> string list \<Rightarrow> sum_hits \<Rightarrow> sum_hits" where
  "count_node_hashes parse [] m = m"
| "count_node_hashes parse (d # ds) m = (case parse d of
     None \<Rightarrow> count_node_hashes parse ds m
   | Some (hash, nodeId) \<Rightarrow>
       (case om_find m hash of
          None \<Rightarrow> count_node_hashes parse ds (om_insert hash (1, [nodeId]) m)
        | Some (hits, addrs) \<Rightarrow> count_node_hashes parse ds (om_insert hash (hits + 1, addrs @ [nodeId]) m)))"

text \<open>
  The parameter \<open>sumHash\<close> is passed by value: the function returns whether enough answers came,
  and the caller's map stays as it was. The result has the local copy for reference.
\<close>

definition GetSyncNodeSumhashInfo :: "'e sync_env_scheme \<Rightarrow> (string \<Rightarrow> (string \<times> string) option) \<Rightarrow> (string list \<Rightarrow> nat \<Rightarrow> bool \<times> string list) \<Rightarrow>
    Node list \<Rightarrow> string list \<Rightarrow> sum_hits \<Rightarrow> bool \<times> sum_hits" where
  "GetSyncNodeSumhashInfo env parse ask nodes qualifyingStakeNodes sumHash =
     (let byzantineFailTolerance = (if length nodes < se_kNeed_node_threshold env then 0 else 5 :: u64);
          receiveRequirement = word_of_nat (length qualifyingStakeNodes) - byzantineFailTolerance;
          (ok, retDatas) = ask qualifyingStakeNodes (unat (ucast receiveRequirement :: u32))
      in if \<not> ok then (False, sumHash) else (True, count_node_hashes parse retDatas sumHash))"

definition GetSelectedAddr :: "sum_hits \<Rightarrow> string list \<Rightarrow> bool \<times> string list" where
  "GetSelectedAddr sumHash selectedAddr =
     (let receiveNum = of_nat (length sumHash);
          kept = filter (\<lambda>e. \<not> ddiv (of_nat (fst (snd e))) receiveNum < dbl (17 / 50)) sumHash
      in if length kept = 2 then
           (let (firstHits, firstAddrs) = snd (hd kept); (lastHits, lastAddrs) = snd (last kept)
            in if ddiv (of_nat firstHits) receiveNum \<ge> ddiv (of_nat lastHits) receiveNum then (True, firstAddrs) else (True, lastAddrs))
         else (False, selectedAddr))"

definition NeedByzantineAdjustment :: "'e sync_env_scheme \<Rightarrow> (string \<Rightarrow> (string \<times> string) option) \<Rightarrow> (string list \<Rightarrow> nat \<Rightarrow> bool \<times> string list) \<Rightarrow>
    net \<Rightarrow> u64 \<Rightarrow> string list \<Rightarrow> string list \<Rightarrow> bool \<times> string list" where
  "NeedByzantineAdjustment env parse ask s chainHeight pledgeAddr selectedAddr =
     (let nodes = GetNodelist NODE_ALL False s; sumHash = [];
          (ok1, qualifyingStakeNodes) = CheckRequirementAndFilterQualifyingNodes chainHeight pledgeAddr nodes []
      in if \<not> ok1 then (False, selectedAddr)
         else if \<not> fst (GetSyncNodeSumhashInfo env parse ask nodes qualifyingStakeNodes sumHash) then (False, selectedAddr)
         else GetSelectedAddr sumHash selectedAddr)"

section \<open>The choice and its memory\<close>

text \<open>The static variables of \<open>_GetSyncNode\<close>.\<close>

record sync_memory =
  forceFindBaseChain :: bool
  lastEqualHeight :: u64
  equalHeightCount :: u32

definition kSyncStuckOvertimeCount :: u32 where
  "kSyncStuckOvertimeCount = 6"

fun status_code :: "DBStatus \<Rightarrow> int" where
  "status_code DB_SUCCESS = 0"
| "status_code DB_ERROR = 1"
| "status_code DB_PARAM_NULL = 2"
| "status_code DB_NOT_FOUND = 3"
| "status_code DB_IS_EXIST = 4"
| "status_code DB_DESERIALIZATION_FAILED = 5"

text \<open>The end of the function: above the chain the next call looks for the base chain.\<close>

definition choose_side :: "'e sync_env_scheme \<Rightarrow> db_reader \<Rightarrow> net \<Rightarrow> nat \<Rightarrow> u64 \<Rightarrow> u64 \<Rightarrow> sync_memory \<Rightarrow> string list \<Rightarrow>
    (db_error, sync_memory \<times> int \<times> string list) result" where
  "choose_side env rd s num selfNodeHeight chainHeight m sendNodeIds =
     (if forceFindBaseChain m \<or> selfNodeHeight < chainHeight
      then bindE (GetSyncNodeBasic env rd s num chainHeight (<) sendNodeIds) (\<lambda>(ret, ids). Inr (m\<lparr>forceFindBaseChain := False\<rparr>, ret, ids))
      else bindE (GetSyncNodeBasic env rd s num selfNodeHeight (\<le>) sendNodeIds) (\<lambda>(ret, ids). Inr (m\<lparr>forceFindBaseChain := True\<rparr>, ret, ids)))"

definition GetSyncNode :: "'e sync_env_scheme \<Rightarrow> db_reader \<Rightarrow> (string \<Rightarrow> (string \<times> string) option) \<Rightarrow> (string list \<Rightarrow> nat \<Rightarrow> bool \<times> string list) \<Rightarrow>
    net \<Rightarrow> nat \<Rightarrow> u64 \<Rightarrow> string list \<Rightarrow> sync_memory \<Rightarrow> string list \<Rightarrow> (db_error, sync_memory \<times> int \<times> string list) result" where
  "GetSyncNode env rd parse ask s num chainHeight pledgeAddr m sendNodeIds =
     bindE (GetBlockTop rd 0) (\<lambda>(status, selfNodeHeight).
     if status \<noteq> DB_SUCCESS then Inr (m, -10 - status_code status, sendNodeIds)
     else if selfNodeHeight = chainHeight then
       (if selfNodeHeight = lastEqualHeight m then
          let m1 = m\<lparr>equalHeightCount := equalHeightCount m + 1\<rparr> in
          if equalHeightCount m1 \<ge> kSyncStuckOvertimeCount \<and> fst (NeedByzantineAdjustment env parse ask s chainHeight pledgeAddr []) then
            bindE (GetSyncNodeBasic env rd s num chainHeight (<) sendNodeIds) (\<lambda>(ret, ids).
              if ret \<noteq> 0 then choose_side env rd s num selfNodeHeight chainHeight (m1\<lparr>forceFindBaseChain := True\<rparr>) ids
              else Inr (m1, 0, ids))
          else choose_side env rd s num selfNodeHeight chainHeight m1 sendNodeIds
        else choose_side env rd s num selfNodeHeight chainHeight (m\<lparr>equalHeightCount := 0, lastEqualHeight := selfNodeHeight\<rparr>) sendNodeIds)
     else choose_side env rd s num selfNodeHeight chainHeight m sendNodeIds)"

definition GetSyncNodeSimplify :: "'e sync_env_scheme \<Rightarrow> db_reader \<Rightarrow> net \<Rightarrow> nat \<Rightarrow> string list \<Rightarrow> (db_error, int \<times> string list) result" where
  "GetSyncNodeSimplify env rd s num sendNodeIds =
     bindE (GetBlockTop rd 0) (\<lambda>(status, selfNodeHeight).
     if status \<noteq> DB_SUCCESS then Inr (-10 - status_code status, sendNodeIds)
     else GetSyncNodeBasic env rd s num selfNodeHeight (<) sendNodeIds)"

section \<open>What the choice returns\<close>

definition acceptable :: "(u64 \<Rightarrow> u64 \<Rightarrow> bool) \<Rightarrow> u64 \<Rightarrow> Node list \<Rightarrow> string set" where
  "acceptable disc baseline nodes = address ` {n \<in> set nodes. \<not> disc (ucast (height n)) baseline}"

lemma acceptable_list: "acceptable disc baseline nodes = set (map address (filter (\<lambda>n. \<not> disc (ucast (height n)) baseline) nodes))"
  by (simp add: acceptable_def)

lemma set_remove_index: "i < length xs \<Longrightarrow> set xs = insert (xs ! i) (set (take i xs @ drop (Suc i) xs))"
  by (metis append_Cons append_Nil id_take_nth_drop insert_is_Un list.simps(15) set_append sup_left_commute)

lemma pick_nodes_spec:
  assumes "sorted ids" and "distinct ids"
  shows "case pick_nodes disc baseline draw k num ids nodes of (ids', k') \<Rightarrow>
    sorted ids' \<and> distinct ids' \<and> set ids \<subseteq> set ids' \<and> set ids' \<subseteq> set ids \<union> acceptable disc baseline nodes \<and>
    (length ids \<le> num \<longrightarrow> length ids' \<le> num) \<and> (length ids' < num \<longrightarrow> acceptable disc baseline nodes \<subseteq> set ids')"
  using assms
proof (induction disc baseline draw k num ids nodes rule: pick_nodes.induct)
  case (1 disc baseline draw k num ids nodes)
  let ?i = "draw k mod length nodes"
  let ?node = "nodes ! ?i" and ?rest = "take ?i nodes @ drop (Suc ?i) nodes"
  show ?case
  proof (cases "length ids < num \<and> nodes \<noteq> []")
    case True
    then have "?i < length nodes" by simp
    then have set_nodes: "set nodes = insert ?node (set ?rest)" by (rule set_remove_index)
    show ?thesis
    proof (cases "disc (ucast (height ?node)) baseline")
      case disc: True
      then have "acceptable disc baseline nodes = acceptable disc baseline ?rest"
        unfolding acceptable_def set_nodes by blast
      moreover have "pick_nodes disc baseline draw k num ids nodes = pick_nodes disc baseline draw (k + 1) num ids ?rest"
        using True disc by (subst pick_nodes.simps) (simp add: Let_def)
      ultimately show ?thesis using 1(1) [OF True refl refl refl disc] 1(3,4) by simp
    next
      case take: False
      let ?ids = "insort_insert (address ?node) ids"
      have ids: "sorted ?ids" "distinct ?ids" "set ?ids = insert (address ?node) (set ids)"
        using 1(3,4) by (simp_all add: sorted_insort_insert distinct_insort_insert set_insort_insert)
      have acc: "acceptable disc baseline nodes = insert (address ?node) (acceptable disc baseline ?rest)"
        using take unfolding acceptable_def set_nodes by blast
      have eq: "pick_nodes disc baseline draw k num ids nodes = pick_nodes disc baseline draw (k + 1) num ?ids ?rest"
        using True take by (subst pick_nodes.simps) (simp add: Let_def)
      have len: "length ?ids \<le> Suc (length ids)" by (simp add: insort_insert_key_def)
      show ?thesis
        using 1(2) [OF True refl refl refl take ids(1,2)] True len unfolding eq acc ids(3) by auto
    qed
  next
    case False
    then have "pick_nodes disc baseline draw k num ids nodes = (ids, k)"
      by (subst pick_nodes.simps) auto
    then show ?thesis using False 1(3,4) by (auto simp: acceptable_def)
  qed
qed

lemma pick_nodes_length:
  assumes "sorted ids" and "distinct ids" and "length ids \<le> num" and "pick_nodes disc baseline draw k num ids nodes = (ids', k')"
  shows "length ids' = min num (card (set ids \<union> acceptable disc baseline nodes))"
proof -
  have *: "distinct ids'" "set ids \<subseteq> set ids'" "set ids' \<subseteq> set ids \<union> acceptable disc baseline nodes" "length ids' \<le> num"
      "length ids' < num \<longrightarrow> acceptable disc baseline nodes \<subseteq> set ids'"
    using pick_nodes_spec [OF assms(1,2), where disc = disc and baseline = baseline and draw = draw and k = k and num = num and nodes = nodes] assms(3,4) by auto
  have fin: "finite (set ids \<union> acceptable disc baseline nodes)" by (simp add: acceptable_def)
  have len: "length ids' = card (set ids')" using *(1) by (simp add: distinct_card)
  show ?thesis
  proof (cases "length ids' < num")
    case True
    then have "set ids' = set ids \<union> acceptable disc baseline nodes" using * by blast
    then show ?thesis using True len by simp
  next
    case False
    then show ?thesis using card_mono [OF fin *(3)] len *(4) by simp
  qed
qed

text \<open>
  C27: The choice of nodes and all its refusals, for fewer than \<open>2 ^ 40\<close> wanted nodes. The code is
  -1 exactly when the own height cannot be read; otherwise -2 exactly when the chain has grown
  and the qualified nodes or the wanted number are below the minimum; otherwise -3 exactly when
  the acceptable addresses are fewer than half of the wanted number; otherwise the result has,
  in order and once each, as many acceptable addresses as wanted, or all of them. On a grown
  chain only qualified nodes are acceptable.
\<close>

theorem sync_nodes_exact:
  assumes "GetBlockTop rd 0 = Inr (st, top_h)"
    and "num' = wanted env num top_h nodes" and "nodes = GetNodelist NODE_ALL False s" and "num' < 2 ^ 40"
    and "cands = (if top_h < se_kMinUnstakeHeight env then nodes else filter (\<lambda>n. se_qualified env (address n)) nodes)"
  shows "\<exists>ids. sorted ids \<and> distinct ids \<and> set ids \<subseteq> acceptable disc baseline cands \<and>
    length ids = min num' (card (acceptable disc baseline cands)) \<and>
    GetSyncNodeBasic env rd s num baseline disc [] = Inr
      (if st \<noteq> DB_SUCCESS then (-1, [])
       else if se_kMinUnstakeHeight env \<le> top_h \<and> (length cands < se_KMinSyncQualNodes env \<or> num' < se_KMinSyncQualNodes env) then (-2, [])
       else if 2 * card (acceptable disc baseline cands) < num' then (-3, [])
       else (0, ids))"
proof -
  let ?q = "filter (\<lambda>n. se_qualified env (address n)) nodes"
  obtain ids1 k1 where p1: "pick_nodes disc baseline (se_draw env) 0 num' [] ?q = (ids1, k1)" by fastforce
  obtain ids2 k2 where p2: "pick_nodes disc baseline (se_draw env) k1 num' ids1 nodes = (ids2, k2)" by fastforce
  define ids where "ids = (if top_h < se_kMinUnstakeHeight env then ids2 else ids1)"
  have s1: "sorted ids1" "distinct ids1" "set ids1 \<subseteq> acceptable disc baseline ?q" "length ids1 \<le> num'"
    using pick_nodes_spec [where ids = "[]" and disc = disc and baseline = baseline and draw = "se_draw env" and k = 0 and num = num' and nodes = ?q] p1 by auto
  have sub: "acceptable disc baseline ?q \<subseteq> acceptable disc baseline nodes" by (auto simp: acceptable_def)
  have s2: "sorted ids2" "distinct ids2" "set ids2 \<subseteq> set ids1 \<union> acceptable disc baseline nodes"
    using pick_nodes_spec [OF s1(1,2), where disc = disc and baseline = baseline and draw = "se_draw env" and k = k1 and num = num' and nodes = nodes] p2 by auto
  have "length ids1 = min num' (card (acceptable disc baseline ?q))"
    using pick_nodes_length [OF _ _ _ p1] by simp
  moreover have "length ids2 = min num' (card (acceptable disc baseline nodes))"
    using pick_nodes_length [OF s1(1,2,4) p2] s1(3) sub by (simp add: sup.absorb2)
  ultimately have len: "length ids = min num' (card (acceptable disc baseline cands))"
    by (simp add: ids_def assms(5))
  have half: "of_nat (length ids) < dmul (of_nat num') (dbl (1 / 2)) \<longleftrightarrow> \<not> num' \<le> 2 * card (acceptable disc baseline cands)"
    using dmul_le [OF decimal_half assms(4), of "length ids"] len by (auto simp: not_le min_def)
  have props: "sorted ids" "distinct ids" "set ids \<subseteq> acceptable disc baseline cands"
    using s1 s2 sub by (auto simp: ids_def assms(5))
  have "GetSyncNodeBasic env rd s num baseline disc [] = Inr
      (if st \<noteq> DB_SUCCESS then (-1, [])
       else if se_kMinUnstakeHeight env \<le> top_h \<and> (length cands < se_KMinSyncQualNodes env \<or> num' < se_KMinSyncQualNodes env) then (-2, [])
       else if of_nat (length ids) < dmul (of_nat num') (dbl (1 / 2)) then (-3, []) else (0, ids))"
    using p1 p2
    by (auto simp: GetSyncNodeBasic_def assms(1) assms(2) [symmetric] assms(3) [symmetric] Let_def ids_def assms(5))
  with props len show ?thesis unfolding half not_le by blast
qed

definition sample_sync_env :: sync_env where
  "sample_sync_env = \<lparr>se_qualified = (\<lambda>a. a \<noteq> ''z''), se_kMinUnstakeHeight = 5, se_KMinSyncQualNodes = 2, se_kNeed_node_threshold = 3, se_draw = (\<lambda>k. k)\<rparr>"

theorem sync_nodes_exact_witness:
  "\<exists>ids. sorted ids \<and> distinct ids \<and> set ids \<subseteq> {''a'', ''b'', ''c''} \<and> length ids = 2 \<and>
    GetSyncNodeBasic sample_sync_env top_reader (sample_net [''z'', ''a'', ''b'', ''c'']) 2 5 (<) [] = Inr (0, ids)"
proof -
  let ?nodes = "map sample_node [''z'', ''a'', ''b'', ''c'']"
  have nodes: "?nodes = GetNodelist NODE_ALL False (sample_net [''z'', ''a'', ''b'', ''c''])"
    by (simp add: sample_net_nodes)
  define cands where "cands = (if (7 :: u64) < se_kMinUnstakeHeight sample_sync_env then ?nodes else filter (\<lambda>n. se_qualified sample_sync_env (address n)) ?nodes)"
  have acc: "acceptable (<) 5 cands = {''a'', ''b'', ''c''}"
    by (simp add: cands_def acceptable_list sample_sync_env_def sample_node_def)
  have num: "2 = wanted sample_sync_env 2 7 ?nodes" by (simp add: wanted_def sample_sync_env_def)
  have "(2 :: nat) < 2 ^ 40" by simp
  from sync_nodes_exact [where disc = "(<)" and baseline = 5, OF top_reader_top num nodes this cands_def]
  obtain ids where "sorted ids" "distinct ids" "set ids \<subseteq> {''a'', ''b'', ''c''}" "length ids = min 2 (card {''a'', ''b'', ''c''})"
      "GetSyncNodeBasic sample_sync_env top_reader (sample_net [''z'', ''a'', ''b'', ''c'']) 2 5 (<) [] =
       Inr (if (5 :: u64) \<le> 7 \<and> (length cands < 2 \<or> (2 :: nat) < 2) then (-2, []) else if 2 * card {''a'', ''b'', ''c''} < 2 then (-3, []) else (0, ids))"
    unfolding acc by (auto simp: sample_sync_env_def)
  moreover have "length cands = 3" by (simp add: cands_def sample_sync_env_def sample_node_def)
  ultimately show ?thesis by (intro exI [of _ ids]) simp
qed

text \<open>
  The table of the vote is strict majority: for one to ten answers a count is enough
  exactly when it is more than half of them, and for more answers no count is.
\<close>

theorem byzantine_is_majority:
  "checkByzantine r h \<longleftrightarrow> 1 \<le> r \<and> r \<le> 10 \<and> h \<le> r \<and> r < 2 * h"
proof (cases "1 \<le> r \<and> r \<le> 10")
  case True
  then have "r \<in> {1, 2, 3, 4, 5, 6, 7, 8, 9, 10}" by (simp only: insert_iff empty_iff) presburger
  then show ?thesis by (auto simp: checkByzantine_def)
next
  case False
  then have "r \<notin> {1, 2, 3, 4, 5, 6, 7, 8, 9, 10}" by auto
  then show ?thesis using False by (auto simp: checkByzantine_def)
qed

text \<open>
  A split of the chain is never detected: the votes of the other nodes are counted in a
  copy of the map, so that the comparison always sees an empty one.
\<close>

theorem byzantine_adjustment_never:
  "NeedByzantineAdjustment env parse ask s chainHeight pledgeAddr selectedAddr = (False, selectedAddr)"
  by (simp add: NeedByzantineAdjustment_def GetSelectedAddr_def Let_def split: prod.splits)

end
