(* ===== verification/Sync_Fast.thy ===== *)
theory Sync_Fast
  imports Sync_Select
begin

text \<open>
  Fast synchronisation, \<open>ca/sync_block.cpp\<close>: the flags of the synchronisation thread, the sums
  over block hashes, the vote on the hashes of a range of heights (\<open>_GetFastSyncSumHashNode\<close>), the
  download of the chosen blocks (\<open>_GetFastSyncBlockData\<close>) and the answers the other side gives.
  Parsing, serialising and hashing are fields of \<open>block_env\<close>; what the thread hands to the block
  helper is a list of events.
\<close>

section \<open>Blocks in maps by height\<close>

datatype SaveType = SyncNormal | SyncFromZero | Broadcast | Unknow

record block_env = sync_env +
  be_parse_block :: "string \<Rightarrow> CBlock option"
  be_partial_block :: "string \<Rightarrow> CBlock"
  be_ser_block :: "CBlock \<Rightarrow> string"
  be_sha256 :: "string \<Rightarrow> string"
  be_now :: u64
  be_sum_hash_range :: u64
  be_floor :: "u64 \<Rightarrow> u64"
  be_ceiling :: "u64 \<Rightarrow> u64"

definition kStabilityTime :: u64 where
  "kStabilityTime = 60 * 1000000"

abbreviation u64_height :: "CBlock \<Rightarrow> u64" where
  "u64_height b \<equiv> word_of_int (blk_height b)"

text \<open>A block as it is hashed: without hash and signatures.\<close>

definition hash_of_block :: "'e block_env_scheme \<Rightarrow> CBlock \<Rightarrow> string" where
  "hash_of_block env b = be_sha256 env (be_ser_block env (b\<lparr>blk_hash := [], blk_sign := []\<rparr>))"

text \<open>
  \<open>std::set<CBlock, CBlockCompare>::insert\<close>: blocks that neither precedes are the same element,
  and the one that is there stays.
\<close>

type_synonym block_set = "CBlock list"
type_synonym block_map = "(u64, block_set) omap"

fun bs_insert :: "CBlock \<Rightarrow> block_set \<Rightarrow> block_set" where
  "bs_insert b [] = [b]"
| "bs_insert b (c # cs) =
     (if CBlockCompare b c then b # c # cs
      else if CBlockCompare c b then c # bs_insert b cs
      else c # cs)"

definition AddBlockToMap :: "CBlock \<Rightarrow> block_map \<Rightarrow> block_map" where
  "AddBlockToMap block syncBlockData =
     (case om_find syncBlockData (u64_height block) of
        None \<Rightarrow> om_insert (u64_height block) [block] syncBlockData
      | Some value \<Rightarrow> om_insert (u64_height block) (bs_insert block value) syncBlockData)"

definition GetSaveSyncType :: "'e block_env_scheme \<Rightarrow> u64 \<Rightarrow> u64 \<Rightarrow> SaveType" where
  "GetSaveSyncType env h chainHeight =
     (if chainHeight \<le> be_sum_hash_range env then SyncNormal
      else if be_floor env chainHeight - be_sum_hash_range env \<le> h then SyncNormal else SyncFromZero)"

section \<open>Sums of hashes\<close>

text \<open>The caller's vector is sorted in place; every caller passes a vector it does not use afterwards.\<close>

definition SumHeightHash :: "'e block_env_scheme \<Rightarrow> string list \<Rightarrow> string" where
  "SumHeightHash env blockHashes = be_sha256 env (concat (sort blockHashes))"

definition SumHeightsHash :: "'e block_env_scheme \<Rightarrow> (u64, string list) omap \<Rightarrow> string" where
  "SumHeightsHash env heightBlocks = SumHeightHash env (map (\<lambda>e. SumHeightHash env (snd e)) heightBlocks)"

definition GetHeightBlockHash :: "db_reader \<Rightarrow> u64 \<Rightarrow> u64 \<Rightarrow> (db_error, string list option) result" where
  "GetHeightBlockHash rd startHeight endHeight =
     bindE (GetBlockHashesByBlockHeight rd startHeight endHeight []) (\<lambda>(st, blockHashes).
       Inr (if st \<noteq> DB_SUCCESS then None else Some blockHashes))"

record FastSyncBlockHashs =
  fs_height :: u64
  fs_hashs :: "string list"

fun parse_blocks :: "'e block_env_scheme \<Rightarrow> string list \<Rightarrow> CBlock list option" where
  "parse_blocks env [] = Some []"
| "parse_blocks env (raw # raws) = (case be_parse_block env raw of
     None \<Rightarrow> None | Some b \<Rightarrow> map_option ((#) b) (parse_blocks env raws))"

text \<open>
  The hashes of one height whose blocks are at least a minute old; the age is a difference of
  unsigned numbers, so that a block from the future counts as old.
\<close>

definition stable_hashes :: "'e block_env_scheme \<Rightarrow> db_reader \<Rightarrow> u64 \<Rightarrow> (db_error, string list option) result" where
  "stable_hashes env rd h =
     bindE (GetBlockHashsByBlockHeight rd h []) (\<lambda>(st, hashs).
     if st \<noteq> DB_SUCCESS then Inr None
     else bindE (GetBlocksByBlockHash rd hashs []) (\<lambda>(st2, blocksRaw).
       if st2 \<noteq> DB_SUCCESS then Inr None
       else Inr (map_option (\<lambda>bs. map blk_hash (filter (\<lambda>b. \<not> be_now env - blk_time b < kStabilityTime) bs)) (parse_blocks env blocksRaw))))"

text \<open>\<open>while (startHeight <= endHeight && startHeight <= top)\<close>: it does not end at the largest number.\<close>

fun collect_stable :: "'e block_env_scheme \<Rightarrow> db_reader \<Rightarrow> u64 list \<Rightarrow> (db_error, FastSyncBlockHashs list option) result" where
  "collect_stable env rd [] = Inr (Some [])"
| "collect_stable env rd (h # hs) = bindE (stable_hashes env rd h) (\<lambda>r. case r of
     None \<Rightarrow> Inr None
   | Some hashs \<Rightarrow> bindE (collect_stable env rd hs) (\<lambda>rest.
       Inr (map_option ((#) \<lparr>fs_height = h, fs_hashs = hashs\<rparr>) rest)))"

definition GetHeightBlockHash_stable :: "'e block_env_scheme \<Rightarrow> db_reader \<Rightarrow> u64 \<Rightarrow> u64 \<Rightarrow> (db_error, FastSyncBlockHashs list option) result" where
  "GetHeightBlockHash_stable env rd startHeight endHeight =
     bindE (GetBlockTop rd 0) (\<lambda>(st, top_h).
     if st \<noteq> DB_SUCCESS then Inr None
     else bindE (heights startHeight (min endHeight top_h)) (collect_stable env rd))"

text \<open>The third overload leaves out the end of the range.\<close>

fun collect_map :: "db_reader \<Rightarrow> u64 list \<Rightarrow> (u64, string list) omap \<Rightarrow> (db_error, (u64, string list) omap option) result" where
  "collect_map rd [] m = Inr (Some m)"
| "collect_map rd (h # hs) m = bindE (GetBlockHashsByBlockHeight rd h []) (\<lambda>(st, hashs).
     if st \<noteq> DB_SUCCESS then Inr None else collect_map rd hs (om_insert h hashs m))"

definition GetHeightBlockHash_map :: "db_reader \<Rightarrow> u64 \<Rightarrow> u64 \<Rightarrow> (db_error, (u64, string list) omap option) result" where
  "GetHeightBlockHash_map rd startHeight endHeight =
     bindE (GetBlockTop rd 0) (\<lambda>(st, top_h).
     if st \<noteq> DB_SUCCESS then Inr None
     else collect_map rd (map word_of_nat [unat startHeight..<min (unat endHeight) (Suc (unat top_h))]) [])"

section \<open>The state of the synchronisation\<close>

record sync_state =
  newSyncFailHeight :: u64
  runFastSync :: bool
  inFastSyncFail :: bool
  runNewSync :: bool
  newSyncStartHeight :: u64
  syncHeightCnt :: u32
  syncSendNewSyncNum :: u64
  syncSendFastSyncNum :: u64
  syncSendZeroSyncNum :: u64
  runFastSuncNum :: u32
  runZeroSyncNum :: u32
  syncThreadRuning :: bool
  fastSyncHeightCnt :: u32
  syncFromZeroCache :: "(u64, block_map) omap"
  syncFromZeroReserveHeights :: "u64 list"
  memory :: sync_memory

definition SetFastSync :: "u64 \<Rightarrow> sync_state \<Rightarrow> sync_state" where
  "SetFastSync syncStartHeight s = s\<lparr>runFastSync := True, newSyncFailHeight := syncStartHeight\<rparr>"

definition SetNewSyncHeight :: "u64 \<Rightarrow> sync_state \<Rightarrow> sync_state" where
  "SetNewSyncHeight h s =
     (let s1 = s\<lparr>runNewSync := True\<rparr>;
          s2 = (if newSyncStartHeight s1 = 0 then s1\<lparr>newSyncStartHeight := h\<rparr> else s1)
      in if newSyncStartHeight s2 > h then s2\<lparr>newSyncStartHeight := h\<rparr> else s2)"

datatype sync_event = AddRollbackBlock block_map | AddFastSyncBlock block_map SaveType | AddSyncBlock block_map SaveType

section \<open>The vote on the hashes of a range\<close>

record FastSyncHelper =
  fh_hits :: u32
  fh_ids :: "string list"
  fh_height :: u64

type_synonym fast_hits = "(string, FastSyncHelper) omap"

definition vote_hash :: "string \<Rightarrow> u64 \<Rightarrow> string \<Rightarrow> fast_hits \<Rightarrow> fast_hits" where
  "vote_hash nodeId h hash m =
     (let value = (case om_find m hash of None \<Rightarrow> \<lparr>fh_hits = 0, fh_ids = [], fh_height = h\<rparr> | Some v \<Rightarrow> v)
      in om_insert hash (value\<lparr>fh_hits := fh_hits value + 1, fh_ids := insort_insert nodeId (fh_ids value)\<rparr>) m)"

text \<open>
  One answer. The set \<open>heightHashs\<close> is declared outside the loop over the heights and grows from
  height to height; \<open>insert\<close> keeps what an earlier answer said about a height.
\<close>

fun read_heights :: "string \<Rightarrow> FastSyncBlockHashs list \<Rightarrow> string list \<times> fast_hits \<times> (u64, string list) omap \<Rightarrow>
    string list \<times> fast_hits \<times> (u64, string list) omap" where
  "read_heights nodeId [] st = st"
| "read_heights nodeId (e # es) (heightHashs, syncHashs, fastSyncHashs) =
     (let heightHashs' = fold insort_insert (fs_hashs e) heightHashs
      in read_heights nodeId es (heightHashs', fold (vote_hash nodeId (fs_height e)) (fs_hashs e) syncHashs,
           om_insert_new (fs_height e, heightHashs') fastSyncHashs))"

fun read_answers :: "(string \<Rightarrow> (string \<times> FastSyncBlockHashs list) option) \<Rightarrow> string list \<Rightarrow>
    fast_hits \<times> (u64, string list) omap \<times> u32 \<Rightarrow> fast_hits \<times> (u64, string list) omap \<times> u32" where
  "read_answers parse [] st = st"
| "read_answers parse (d # ds) (syncHashs, fastSyncHashs, ret_num) = (case parse d of
     None \<Rightarrow> read_answers parse ds (syncHashs, fastSyncHashs, ret_num)
   | Some (nodeId, hashs) \<Rightarrow>
       (case read_heights nodeId hashs ([], syncHashs, fastSyncHashs) of (_, syncHashs', fastSyncHashs') \<Rightarrow>
          read_answers parse ds (syncHashs', fastSyncHashs', ret_num + 1)))"

text \<open>\<open>std::set_difference\<close> on sorted ranges.\<close>

fun set_difference :: "'a::linorder list \<Rightarrow> 'a list \<Rightarrow> 'a list" where
  "set_difference [] ys = []"
| "set_difference (x # xs) [] = x # xs"
| "set_difference (x # xs) (y # ys) =
     (if x < y then x # set_difference xs (y # ys)
      else if y < x then set_difference (x # xs) ys
      else set_difference xs ys)"

text \<open>
  Own blocks of a voted height that the first answer for this height does not name: the
  first one that is more than ten blocks below the chain height is rolled back.
\<close>

fun roll_missing :: "'e block_env_scheme \<Rightarrow> db_reader \<Rightarrow> u64 \<Rightarrow> string list \<Rightarrow> block_map \<times> u64 \<Rightarrow> (db_error, (block_map \<times> u64) option) result" where
  "roll_missing env rd chainHeight [] rb = Inr (Some rb)"
| "roll_missing env rd chainHeight (diffHash # ds) rb =
     bindE (GetBlockByBlockHash rd diffHash []) (\<lambda>(res, strblock).
     if res \<noteq> DB_SUCCESS then Inr None
     else let block = (case be_parse_block env strblock of Some b \<Rightarrow> b | None \<Rightarrow> be_partial_block env strblock); tmp_height = u64_height block in
       if tmp_height < chainHeight \<and> chainHeight - tmp_height > 10 then Inr (Some (AddBlockToMap block (fst rb), tmp_height))
       else roll_missing env rd chainHeight ds rb)"

definition fast_enough :: "u32 \<Rightarrow> u32 \<Rightarrow> bool" where
  "fast_enough hits ret_num \<longleftrightarrow> of_nat (unat hits) \<ge> dmul (of_nat (unat ret_num)) (dbl (33 / 50))"

text \<open>
  One entry of the votes: a hash with too few votes whose own block is older than a minute is
  rolled back and ends the loop (\<open>True\<close>); a voted hash may roll back other blocks of its height
  and is requested unless it is known.
\<close>

type_synonym fast_scan = "(string \<times> FastSyncHelper) list \<times> block_map \<times> u64"

definition scan_entry :: "'e block_env_scheme \<Rightarrow> db_reader \<Rightarrow> u64 \<Rightarrow> u32 \<Rightarrow> (u64, string list) omap \<Rightarrow> (u64, string list) omap \<Rightarrow>
    string \<times> FastSyncHelper \<Rightarrow> fast_scan \<Rightarrow> (db_error, (bool \<times> fast_scan) option) result" where
  "scan_entry env rd chainHeight ret_num fastSyncHashs blockHeightHashes e st =
     (case (e, st) of ((hash, helper), (remain, rollback, need)) \<Rightarrow>
      let localHashs = (case om_find blockHeightHashes (fh_height helper) of None \<Rightarrow> [] | Some hs \<Rightarrow> hs) in
      if \<not> fast_enough (fh_hits helper) ret_num then
        bindE (GetBlockByBlockHash rd hash []) (\<lambda>(st1, block_raw).
        if st1 = DB_SUCCESS then (case be_parse_block env block_raw of
            None \<Rightarrow> Inr None
          | Some block \<Rightarrow> if be_now env - blk_time block > kStabilityTime
              then Inr (Some (True, remain, AddBlockToMap block rollback, u64_height block))
              else Inr (Some (False, remain, rollback, need)))
        else Inr (Some (False, remain, rollback, need)))
      else bindE (GetBlockHashesByBlockHeight rd (fh_height helper) (fh_height helper) []) (\<lambda>(st1, selfBlockHashes).
        if st1 \<noteq> DB_SUCCESS then Inr None
        else bindE (case om_find fastSyncHashs (fh_height helper) of
              None \<Rightarrow> Inr (Some (rollback, need))
            | Some named \<Rightarrow> roll_missing env rd chainHeight (set_difference (sort selfBlockHashes) named) (rollback, need)) (\<lambda>r.
          case r of None \<Rightarrow> Inr None
          | Some (rollback', need') \<Rightarrow>
              Inr (Some (False, if hash \<in> set localHashs then remain else remain @ [(hash, helper)], rollback', need')))))"

fun scan_votes :: "'e block_env_scheme \<Rightarrow> db_reader \<Rightarrow> u64 \<Rightarrow> u32 \<Rightarrow> (u64, string list) omap \<Rightarrow> (u64, string list) omap \<Rightarrow>
    fast_hits \<Rightarrow> fast_scan \<Rightarrow> (db_error, fast_scan option) result" where
  "scan_votes env rd chainHeight ret_num fastSyncHashs own [] st = Inr (Some st)"
| "scan_votes env rd chainHeight ret_num fastSyncHashs own (e # es) st =
     bindE (scan_entry env rd chainHeight ret_num fastSyncHashs own e st) (\<lambda>r. case r of
       None \<Rightarrow> Inr None
     | Some (True, st') \<Rightarrow> Inr (Some st')
     | Some (False, st') \<Rightarrow> scan_votes env rd chainHeight ret_num fastSyncHashs own es st')"

text \<open>The nodes that named every requested hash, and the hashes by height in the order found.\<close>

definition common_ids :: "(string \<times> FastSyncHelper) list \<Rightarrow> string list" where
  "common_ids remain = fold (\<lambda>e ids. set_intersection (fh_ids (snd e)) ids) (tl remain) (fh_ids (snd (hd remain)))"

fun add_request :: "u64 \<Rightarrow> string \<Rightarrow> FastSyncBlockHashs list \<Rightarrow> FastSyncBlockHashs list" where
  "add_request h hash [] = [\<lparr>fs_height = h, fs_hashs = [hash]\<rparr>]"
| "add_request h hash (e # es) =
     (if fs_height e = h then e\<lparr>fs_hashs := fs_hashs e @ [hash]\<rparr> # es else e # add_request h hash es)"

definition requests :: "(string \<times> FastSyncHelper) list \<Rightarrow> FastSyncBlockHashs list" where
  "requests remain = fold (\<lambda>(hash, helper). add_request (fh_height helper) hash) remain []"

record fast_env = block_env +
  ask_fast_hash :: "string list \<Rightarrow> nat \<Rightarrow> u64 \<Rightarrow> u64 \<Rightarrow> bool \<times> string list"
  parse_fast_hash :: "string \<Rightarrow> (string \<times> FastSyncBlockHashs list) option"
  ask_fast_block :: "string \<Rightarrow> FastSyncBlockHashs list \<Rightarrow> bool \<times> string list"
  parse_fast_block :: "string \<Rightarrow> (u64 \<times> string list) list option"
  sort_fast_blocks :: "(u64 \<times> string list) list \<Rightarrow> (u64 \<times> string list) list"

type_synonym 'a sync_result = "(db_error, sync_state \<times> sync_event list \<times> 'a) result"

definition fast_decide :: "net \<Rightarrow> 'e block_env_scheme \<Rightarrow> sync_state \<Rightarrow> fast_scan \<Rightarrow> sync_state \<times> sync_event list \<times> bool \<times> FastSyncBlockHashs list \<times> string list" where
  "fast_decide s env st scan =
     (case scan of (remain, rollback, need) \<Rightarrow>
      if rollback \<noteq> [] then
        (if unat (syncSendFastSyncNum st) < length (filter (\<lambda>n. se_qualified env (address n)) (GetNodelist NODE_ALL False s))
         then (st\<lparr>newSyncFailHeight := need, inFastSyncFail := True, syncSendFastSyncNum := word_of_nat UINT32_MAX\<rparr>, [], False, [], [])
         else (st, [AddRollbackBlock rollback], False, [], []))
      else if remain = [] then (st, [], False, [], [])
      else (st, [], common_ids remain \<noteq> [], requests remain, common_ids remain))"

definition GetFastSyncSumHashNode :: "'e fast_env_scheme \<Rightarrow> db_reader \<Rightarrow> net \<Rightarrow> string list \<Rightarrow> u64 \<Rightarrow> u64 \<Rightarrow> u64 \<Rightarrow> sync_state \<Rightarrow>
    (bool \<times> FastSyncBlockHashs list \<times> string list) sync_result" where
  "GetFastSyncSumHashNode env rd s sendNodeIds startSyncHeight endSyncHeight chainHeight st =
     (let sendNum = length sendNodeIds;
          (ok, retDatas) = ask_fast_hash env sendNodeIds (dtrunc (dmul (of_nat sendNum) (dbl (4 / 5)))) startSyncHeight endSyncHeight
      in if \<not> ok \<and> of_nat (length retDatas) < dmul (of_nat sendNum) (dbl (1 / 2)) then Inr (st, [], False, [], [])
      else case read_answers (parse_fast_hash env) retDatas ([], [], 0) of (syncHashs, fastSyncHashs, ret_num) \<Rightarrow>
        bindE (GetHeightBlockHash_map rd startSyncHeight endSyncHeight) (\<lambda>r. case r of
          None \<Rightarrow> Inr (st, [], False, [], [])
        | Some blockHeightHashes \<Rightarrow>
            bindE (scan_votes env rd chainHeight ret_num fastSyncHashs blockHeightHashes syncHashs ([], [], 0)) (\<lambda>r2. case r2 of
              None \<Rightarrow> Inr (st, [], False, [], [])
            | Some scan \<Rightarrow> Inr (fast_decide s env st scan))))"

section \<open>The download\<close>

fun good_blocks :: "'e block_env_scheme \<Rightarrow> string list \<Rightarrow> CBlock list" where
  "good_blocks env [] = []"
| "good_blocks env (raw # raws) = (case be_parse_block env raw of
     None \<Rightarrow> good_blocks env raws
   | Some block \<Rightarrow> if blk_hash block \<noteq> hash_of_block env block then good_blocks env raws else block # good_blocks env raws)"

definition GetFastSyncBlockData :: "'e fast_env_scheme \<Rightarrow> db_reader \<Rightarrow> string \<Rightarrow> FastSyncBlockHashs list \<Rightarrow> u64 \<Rightarrow> (db_error, sync_event list \<times> bool) result" where
  "GetFastSyncBlockData env rd sendNodeId requestHashs chainHeight =
     (if requestHashs = [] then Inr ([], True)
      else let (ok, retDatas) = ask_fast_block env sendNodeId requestHashs in
      if \<not> ok then Inr ([], False)
      else if retDatas = [] then Inr ([], False)
      else case parse_fast_block env (retDatas ! 0) of
        None \<Rightarrow> Inr ([], False)
      | Some blocks \<Rightarrow>
          let data = fold AddBlockToMap (good_blocks env (concat (map snd (sort_fast_blocks env blocks)))) []
          in bindE (GetBlockTop rd 0) (\<lambda>(st, top_h).
            if st \<noteq> DB_SUCCESS then Inr ([], False)
            else Inr ([AddFastSyncBlock data (GetSaveSyncType env top_h chainHeight)], True)))"

fun try_nodes :: "'e fast_env_scheme \<Rightarrow> db_reader \<Rightarrow> FastSyncBlockHashs list \<Rightarrow> u64 \<Rightarrow> string list \<Rightarrow> (db_error, sync_event list \<times> bool) result" where
  "try_nodes env rd requestHashs chainHeight [] = Inr ([], False)"
| "try_nodes env rd requestHashs chainHeight (nodeId # ids) =
     bindE (GetFastSyncBlockData env rd nodeId requestHashs chainHeight) (\<lambda>(ev, ok).
     if ok then Inr (ev, True)
     else bindE (try_nodes env rd requestHashs chainHeight ids) (\<lambda>(ev', ok'). Inr (ev @ ev', ok')))"

definition RunFastSyncOnce :: "'e fast_env_scheme \<Rightarrow> db_reader \<Rightarrow> (string \<Rightarrow> (string \<times> string) option) \<Rightarrow> (string list \<Rightarrow> nat \<Rightarrow> bool \<times> string list) \<Rightarrow> net \<Rightarrow>
    string list \<Rightarrow> u64 \<Rightarrow> u64 \<Rightarrow> u64 \<Rightarrow> u32 \<Rightarrow> sync_state \<Rightarrow> bool sync_result" where
  "RunFastSyncOnce env rd parse ask s pledgeAddr chainHeight startSyncHeight endSyncHeight syncNodeCount st =
     (if startSyncHeight > endSyncHeight then Inr (st, [], False)
      else bindE (GetSyncNode env rd parse ask s (unat syncNodeCount) chainHeight pledgeAddr (memory st) []) (\<lambda>(mem, ret, sendNodeIds).
        let st1 = st\<lparr>memory := mem\<rparr> in
        if ret \<noteq> 0 then Inr (st1, [], False)
        else bindE (GetFastSyncSumHashNode env rd s sendNodeIds startSyncHeight endSyncHeight chainHeight st1) (\<lambda>(st2, ev, ok, requestHashs, retNodeIds).
          if \<not> ok then Inr (st2, ev, False)
          else bindE (try_nodes env rd requestHashs chainHeight retNodeIds) (\<lambda>(ev2, flag). Inr (st2, ev @ ev2, flag)))))"

section \<open>The answering side\<close>

definition SendFastSyncGetHashAck :: "'e block_env_scheme \<Rightarrow> db_reader \<Rightarrow> u64 \<Rightarrow> u64 \<Rightarrow> (db_error, (u64 \<times> FastSyncBlockHashs list) option) result" where
  "SendFastSyncGetHashAck env rd startHeight endHeight =
     (if startHeight > endHeight then Inr None
      else if endHeight - startHeight > 100000 then Inr None
      else bindE (GetBlockTop rd 0) (\<lambda>(st, nodeBlockHeight).
        if st \<noteq> DB_SUCCESS then Inr None
        else bindE (GetHeightBlockHash_stable env rd startHeight endHeight) (\<lambda>r. Inr (map_option (Pair nodeBlockHeight) r))))"

fun asked_hashes :: "db_reader \<Rightarrow> FastSyncBlockHashs list \<Rightarrow> (db_error, string list option) result" where
  "asked_hashes rd [] = Inr (Some [])"
| "asked_hashes rd (e # es) = bindE (GetBlockHashsByBlockHeight rd (fs_height e) []) (\<lambda>(st, dbHashs).
     if st \<noteq> DB_SUCCESS then Inr None
     else bindE (asked_hashes rd es) (\<lambda>r. Inr (map_option ((@) (filter (\<lambda>h. h \<in> set (fs_hashs e)) dbHashs)) r)))"

fun add_ack_block :: "u64 \<Rightarrow> string \<Rightarrow> (u64 \<times> string list) list \<Rightarrow> (u64 \<times> string list) list" where
  "add_ack_block h raw [] = [(h, [raw])]"
| "add_ack_block h raw ((h', raws) # es) = (if h' = h then (h', raws @ [raw]) # es else (h', raws) # add_ack_block h raw es)"

fun group_blocks :: "'e block_env_scheme \<Rightarrow> string list \<Rightarrow> (u64 \<times> string list) list \<Rightarrow> (u64 \<times> string list) list option" where
  "group_blocks env [] ack = Some ack"
| "group_blocks env (raw # raws) ack = (case be_parse_block env raw of
     None \<Rightarrow> None | Some block \<Rightarrow> group_blocks env raws (add_ack_block (u64_height block) raw ack))"

definition SendFastSyncGetBlockAck :: "'e block_env_scheme \<Rightarrow> db_reader \<Rightarrow> FastSyncBlockHashs list \<Rightarrow> (db_error, (u64 \<times> string list) list option) result" where
  "SendFastSyncGetBlockAck env rd requestHashs =
     bindE (asked_hashes rd requestHashs) (\<lambda>r. case r of
       None \<Rightarrow> Inr None
     | Some blockHashes \<Rightarrow> bindE (GetBlocksByBlockHash rd blockHashes []) (\<lambda>(st, blocks).
         if st \<noteq> DB_SUCCESS then Inr None else Inr (group_blocks env blocks [])))"

text \<open>The handlers return a code and, for a request, the answer that is sent.\<close>

definition HandleFastSyncGetHashReq :: "'e block_env_scheme \<Rightarrow> db_reader \<Rightarrow> net \<Rightarrow> int \<Rightarrow> string \<Rightarrow> u64 \<Rightarrow> u64 \<Rightarrow>
    (db_error, int \<times> (u64 \<times> FastSyncBlockHashs list) option) result" where
  "HandleFastSyncGetHashReq env rd s f self_node_id start_height end_height =
     (if \<not> PeerNodeVerifyNodeId f self_node_id s then Inr (-1, None)
      else bindE (SendFastSyncGetHashAck env rd start_height end_height) (\<lambda>ack. Inr (0, ack)))"

definition HandleFastSyncGetHashAck :: "net \<Rightarrow> int \<Rightarrow> string \<Rightarrow> string \<Rightarrow> string \<Rightarrow> waits \<Rightarrow> waits \<times> int" where
  "HandleFastSyncGetHashAck s f self_node_id msg_id data g =
     (if \<not> PeerNodeVerifyNodeId f self_node_id s then (g, -1)
      else (fst (AddWaitData msg_id self_node_id data g), 0))"

definition HandleFastSyncGetBlockReq :: "'e block_env_scheme \<Rightarrow> db_reader \<Rightarrow> net \<Rightarrow> int \<Rightarrow> string \<Rightarrow> FastSyncBlockHashs list \<Rightarrow>
    (db_error, int \<times> (u64 \<times> string list) list option) result" where
  "HandleFastSyncGetBlockReq env rd s f self_node_id hashs =
     (if \<not> PeerNodeVerifyNodeId f self_node_id s then Inr (-1, None)
      else bindE (SendFastSyncGetBlockAck env rd hashs) (\<lambda>ack. Inr (0, ack)))"

definition HandleFastSyncGetBlockAck :: "net \<Rightarrow> int \<Rightarrow> string \<Rightarrow> string \<Rightarrow> waits \<Rightarrow> waits \<times> int" where
  "HandleFastSyncGetBlockAck s f msg_id data g = (case FindNodeByFd f s of
     None \<Rightarrow> (g, -1)
   | Some node \<Rightarrow> (fst (AddWaitData msg_id (address node) data g), 0))"

section \<open>Who answered\<close>

text \<open>An answer with the address of the node on the other end of its connection.\<close>

fun authentic :: "net \<Rightarrow> int \<times> string \<times> string \<times> string \<Rightarrow> bool" where
  "authentic s (f, self_node_id, msg_id, data) \<longleftrightarrow> (\<exists>node. FindNodeByFd f s = Some node \<and> address node = self_node_id)"

lemma handle_acks_arrive:
  "fold (\<lambda>(f, nodeId, msgId, data) g. fst (HandleFastSyncGetHashAck s f nodeId msgId data g)) acks g =
   arrive (map (\<lambda>(f, nodeId, msgId, data). (msgId, nodeId, data)) (filter (authentic s) acks)) g"
proof (induction acks arbitrary: g)
  case (Cons a acks)
  obtain f nodeId msgId data where a: "a = (f, nodeId, msgId, data)" by (cases a)
  have "fst (HandleFastSyncGetHashAck s f nodeId msgId data g) = (if authentic s a then fst (AddWaitData msgId nodeId data g) else g)"
    by (auto simp: a HandleFastSyncGetHashAck_def PeerNodeVerifyNodeId_def split: option.splits)
  then show ?case using Cons.IH by (auto simp: a arrive_def)
qed (simp add: arrive_def)

text \<open>
  No node can answer in the name of another one: whatever answers arrive on the
  connections, a waiting request collects the first answer of each asked node among those
  that came over this node's own connection.
\<close>

theorem fast_acks_by_connection:
  assumes "om_find g msgId = Some d"
  shows "\<exists>d'. om_find (fold (\<lambda>(f, nodeId, msgId, data) g. fst (HandleFastSyncGetHashAck s f nodeId msgId data g)) acks g) msgId = Some d' \<and>
    retNum d' = retNum d \<and>
    gdata d' = gdata d @ first_answers (set (res_ids d))
      (map (\<lambda>(f, nodeId, m, data). (nodeId, data)) (filter (\<lambda>a. authentic s a \<and> fst (snd (snd a)) = msgId) acks))"
proof -
  have "answers_to msgId (map (\<lambda>(f, nodeId, msgId, data). (msgId, nodeId, data)) (filter (authentic s) acks)) =
      map (\<lambda>(f, nodeId, m, data). (nodeId, data)) (filter (\<lambda>a. authentic s a \<and> fst (snd (snd a)) = msgId) acks)"
    by (induction acks) auto
  then show ?thesis
    using arrive_find [OF assms, of "map (\<lambda>(f, nodeId, msgId, data). (msgId, nodeId, data)) (filter (authentic s) acks)"]
    by (simp add: handle_acks_arrive)
qed

theorem fast_acks_by_connection_witness:
  "\<exists>d'. om_find (fold (\<lambda>(f, nodeId, msgId, data) g. fst (HandleFastSyncGetHashAck (sample_net [''a'']) f nodeId msgId data g))
      [(3, ''b'', ''id'', ''forged''), (3, ''a'', ''id'', ''true'')] [(''id'', \<lparr>retNum = 1, timeOutSec = 1, gdata = [], res_ids = [''a'', ''b'']\<rparr>)]) ''id'' = Some d' \<and>
    gdata d' = [''true'']"
proof -
  have "FindNodeByFd 3 (sample_net [''a'']) = Some (sample_node ''a'')" "address (sample_node ''a'') = ''a''"
    by (simp_all add: FindNodeByFd_def sample_net_def sample_node_def om_find_if_def)
  then show ?thesis
    using fast_acks_by_connection [where s = "sample_net [''a'']" and acks = "[(3, ''b'', ''id'', ''forged''), (3, ''a'', ''id'', ''true'')]"
      and g = "[(''id'', \<lparr>retNum = 1, timeOutSec = 1, gdata = [], res_ids = [''a'', ''b'']\<rparr>)]" and msgId = "''id''", simplified, OF refl] by auto
qed

section \<open>What the votes say\<close>

text \<open>The votes in the order they are read: who, for which height, which hash.\<close>

definition fast_log :: "(string \<times> FastSyncBlockHashs list) list \<Rightarrow> (string \<times> u64 \<times> string) list" where
  "fast_log acks = concat (map (\<lambda>(nodeId, es). concat (map (\<lambda>e. map (\<lambda>hash. (nodeId, fs_height e, hash)) (fs_hashs e)) es)) acks)"

abbreviation votes_for :: "string \<Rightarrow> (string \<times> u64 \<times> string) list \<Rightarrow> (string \<times> u64 \<times> string) list" where
  "votes_for hash vs \<equiv> filter (\<lambda>v. snd (snd v) = hash) vs"

definition counted :: "fast_hits \<Rightarrow> (string \<times> u64 \<times> string) list \<Rightarrow> bool" where
  "counted m vs \<longleftrightarrow> om_wf m \<and> (\<forall>hash. case om_find m hash of
     None \<Rightarrow> votes_for hash vs = []
   | Some v \<Rightarrow> votes_for hash vs \<noteq> [] \<and> fh_hits v = word_of_nat (length (votes_for hash vs)) \<and>
       fh_height v = fst (snd (hd (votes_for hash vs))) \<and> sorted (fh_ids v) \<and> set (fh_ids v) = fst ` set (votes_for hash vs))"

lemma counted_Nil [simp]: "counted [] []"
  by (simp add: counted_def)

lemma counted_vote:
  assumes "counted m vs"
  shows "counted (vote_hash nodeId h hash m) (vs @ [(nodeId, h, hash)])"
  unfolding counted_def
proof (intro conjI allI)
  show "om_wf (vote_hash nodeId h hash m)" using assms by (simp add: counted_def vote_hash_def Let_def om_wf_insert)
next
  fix hash'
  have *: "case om_find m hash' of
     None \<Rightarrow> votes_for hash' vs = []
   | Some v \<Rightarrow> votes_for hash' vs \<noteq> [] \<and> fh_hits v = word_of_nat (length (votes_for hash' vs)) \<and>
       fh_height v = fst (snd (hd (votes_for hash' vs))) \<and> sorted (fh_ids v) \<and> set (fh_ids v) = fst ` set (votes_for hash' vs)"
    using assms unfolding counted_def by blast
  then show "case om_find (vote_hash nodeId h hash m) hash' of
     None \<Rightarrow> votes_for hash' (vs @ [(nodeId, h, hash)]) = []
   | Some v \<Rightarrow> votes_for hash' (vs @ [(nodeId, h, hash)]) \<noteq> [] \<and> fh_hits v = word_of_nat (length (votes_for hash' (vs @ [(nodeId, h, hash)]))) \<and>
       fh_height v = fst (snd (hd (votes_for hash' (vs @ [(nodeId, h, hash)])))) \<and> sorted (fh_ids v) \<and>
       set (fh_ids v) = fst ` set (votes_for hash' (vs @ [(nodeId, h, hash)]))"
    by (cases "hash' = hash"; cases "om_find m hash'")
      (auto simp: vote_hash_def om_find_insert Let_def insort_insert_key_def sorted_insort set_insort_key split: option.splits)
qed

lemma counted_votes:
  "counted m vs \<Longrightarrow> counted (fold (vote_hash nodeId h) hashs m) (vs @ map (\<lambda>hash. (nodeId, h, hash)) hashs)"
proof (induction hashs arbitrary: m vs)
  case (Cons hash hashs)
  from Cons.IH [OF counted_vote [OF Cons.prems]] show ?case by simp
qed simp

lemma counted_heights:
  "counted m vs \<Longrightarrow> counted (fst (snd (read_heights nodeId es (acc, m, f))))
     (vs @ concat (map (\<lambda>e. map (\<lambda>hash. (nodeId, fs_height e, hash)) (fs_hashs e)) es))"
proof (induction es arbitrary: acc m f vs)
  case (Cons e es)
  from Cons.IH [OF counted_votes [OF Cons.prems]] show ?case by (simp add: Let_def)
qed simp

lemma counted_answers:
  "counted m vs \<Longrightarrow> read_answers parse ds (m, f, n) = (m', f', n') \<Longrightarrow>
   counted m' (vs @ fast_log (List.map_filter parse ds)) \<and> n' = n + word_of_nat (length (List.map_filter parse ds))"
proof (induction ds arbitrary: m f n vs)
  case Nil
  then show ?case by (simp add: fast_log_def map_filter_simps)
next
  case (Cons d ds)
  show ?case
  proof (cases "parse d")
    case None
    with Cons show ?thesis by (simp add: map_filter_simps)
  next
    case (Some a)
    obtain nodeId es where a: "a = (nodeId, es)" by (cases a)
    obtain acc1 m1 f1 where r: "read_heights nodeId es ([], m, f) = (acc1, m1, f1)" by (cases "read_heights nodeId es ([], m, f)")
    have "counted m1 (vs @ concat (map (\<lambda>e. map (\<lambda>hash. (nodeId, fs_height e, hash)) (fs_hashs e)) es))"
      using counted_heights [OF Cons.prems(1), of nodeId es "[]" f] r by simp
    moreover have "read_answers parse ds (m1, f1, n + 1) = (m', f', n')"
      using Cons.prems(2) by (simp add: Some a r)
    ultimately show ?thesis
      using Cons.IH by (fastforce simp: Some a map_filter_simps fast_log_def add.assoc)
  qed
qed

text \<open>The scan, when it ends without a rollback, keeps the voted hashes that are not known.\<close>

definition wanted_vote :: "u32 \<Rightarrow> (u64, string list) omap \<Rightarrow> string \<times> FastSyncHelper \<Rightarrow> bool" where
  "wanted_vote ret_num own e \<longleftrightarrow> fast_enough (fh_hits (snd e)) ret_num \<and>
     fst e \<notin> set (case om_find own (fh_height (snd e)) of None \<Rightarrow> [] | Some hs \<Rightarrow> hs)"

lemma om_insert_nonempty [simp]: "om_insert k v m \<noteq> []"
  by (cases m) auto

lemma AddBlockToMap_nonempty [simp]: "AddBlockToMap b m \<noteq> []"
  by (simp add: AddBlockToMap_def split: option.split)

lemma roll_missing_grows:
  "roll_missing env rd chainHeight ds (rollback, need) = Inr (Some (rollback', need')) \<Longrightarrow> rollback' = [] \<Longrightarrow> rollback = []"
  by (induction env rd chainHeight ds "(rollback, need)" rule: roll_missing.induct)
    (auto simp: bindE_eq_Inr_iff Let_def split: if_splits prod.splits)

lemma scan_entry_kept:
  assumes "scan_entry env rd chainHeight ret_num fastSyncHashs own e (remain, rollback, need) = Inr (Some (stop, remain', rollback', need'))"
    and "rollback' = []"
  shows "\<not> stop \<and> rollback = [] \<and> remain' = (if wanted_vote ret_num own e then remain @ [e] else remain)"
  using assms roll_missing_grows
  by (cases e) (fastforce simp: scan_entry_def wanted_vote_def bindE_eq_Inr_iff Let_def split: if_splits prod.splits option.splits)

lemma scan_votes_kept:
  "scan_votes env rd chainHeight ret_num fastSyncHashs own es (remain, rollback, need) = Inr (Some (remain', [], need')) \<Longrightarrow>
   rollback = [] \<and> remain' = remain @ filter (wanted_vote ret_num own) es"
proof (induction es arbitrary: remain rollback need)
  case (Cons e es)
  then obtain stop r1 b1 n1 where e: "scan_entry env rd chainHeight ret_num fastSyncHashs own e (remain, rollback, need) = Inr (Some (stop, r1, b1, n1))"
    by (auto simp: bindE_eq_Inr_iff split: option.splits)
  show ?case
  proof (cases stop)
    case True
    then show ?thesis using scan_entry_kept [OF e] Cons.prems e by auto
  next
    case False
    then have "scan_votes env rd chainHeight ret_num fastSyncHashs own es (r1, b1, n1) = Inr (Some (remain', [], need'))"
      using Cons.prems e by simp
    from Cons.IH [OF this] scan_entry_kept [OF e] show ?thesis by auto
  qed
qed simp

definition request_pairs :: "FastSyncBlockHashs list \<Rightarrow> (u64 \<times> string) set" where
  "request_pairs reqs = (\<Union>r \<in> set reqs. Pair (fs_height r) ` set (fs_hashs r))"

lemma add_request_pairs: "request_pairs (add_request h hash es) = insert (h, hash) (request_pairs es)"
  by (induction es) (auto simp: request_pairs_def)

lemma requests_pairs_from:
  "request_pairs (fold (\<lambda>(hash, helper). add_request (fh_height helper) hash) remain es) =
   (\<lambda>(hash, helper). (fh_height helper, hash)) ` set remain \<union> request_pairs es"
proof (induction remain arbitrary: es)
  case (Cons e remain)
  then show ?case by (cases e) (simp add: add_request_pairs)
qed simp

lemma requests_pairs: "request_pairs (requests remain) = (\<lambda>(hash, helper). (fh_height helper, hash)) ` set remain"
  using requests_pairs_from [of remain "[]"] by (simp add: requests_def request_pairs_def)

lemma set_intersection_subset: "set (set_intersection xs ys) \<subseteq> set xs"
  by (induction xs ys rule: set_intersection.induct) auto

lemma sorted_set_intersection: "sorted xs \<Longrightarrow> sorted (set_intersection xs ys)"
  by (induction xs ys rule: set_intersection.induct) (auto dest: subsetD [OF set_intersection_subset])

lemma fold_set_intersection:
  "sorted ids \<Longrightarrow> \<forall>e \<in> set es. sorted (f e) \<Longrightarrow>
   set (fold (\<lambda>e ids. set_intersection (f e) ids) es ids) = set ids \<inter> (\<Inter>e \<in> set es. set (f e))"
proof (induction es arbitrary: ids)
  case (Cons e es)
  then show ?case by (simp add: sorted_set_intersection set_set_intersection Int_ac)
qed simp

lemma common_ids_set:
  "remain \<noteq> [] \<Longrightarrow> \<forall>e \<in> set remain. sorted (fh_ids (snd e)) \<Longrightarrow> set (common_ids remain) = (\<Inter>e \<in> set remain. set (fh_ids (snd e)))"
  by (cases remain) (simp_all add: common_ids_def fold_set_intersection)

lemma decimal_066: "decimal 33 50 (dbl (33 / 50))" by code_simp

lemma fast_enough_iff:
  assumes "hits < 2 ^ 32" and "n < 2 ^ 32"
  shows "fast_enough (word_of_nat hits) (word_of_nat n) \<longleftrightarrow> 33 * n \<le> 50 * hits"
proof -
  have "unat (word_of_nat hits :: u32) = hits" "unat (word_of_nat n :: u32) = n"
    using assms by (simp_all add: unat_of_nat)
  moreover have "n < 2 ^ 40" using assms(2) by simp
  ultimately show ?thesis
    using dmul_le [OF decimal_066, of n hits] by (simp add: fast_enough_def)
qed

lemma counted_entry:
  assumes "counted m vs" and "(hash, v) \<in> set m"
  shows "votes_for hash vs \<noteq> []" and "fh_hits v = word_of_nat (length (votes_for hash vs))"
    and "fh_height v = fst (snd (hd (votes_for hash vs)))" and "sorted (fh_ids v)" and "set (fh_ids v) = fst ` set (votes_for hash vs)"
proof -
  have "om_find m hash = Some v" using assms by (simp add: counted_def om_find_in)
  then show "votes_for hash vs \<noteq> []" "fh_hits v = word_of_nat (length (votes_for hash vs))"
      "fh_height v = fst (snd (hd (votes_for hash vs)))" "sorted (fh_ids v)" "set (fh_ids v) = fst ` set (votes_for hash vs)"
    using assms(1) [unfolded counted_def, THEN conjunct2, rule_format, of hash] by simp_all
qed

lemma counted_voted:
  assumes "counted m vs" and "votes_for hash vs \<noteq> []"
  shows "\<exists>v. (hash, v) \<in> set m"
  using assms(1) [unfolded counted_def, THEN conjunct2, rule_format, of hash] assms
  by (cases "om_find m hash") (auto simp: counted_def om_find_in)

text \<open>
  C31: When the vote on a range of heights succeeds, with fewer than \<open>2 ^ 32\<close> answers and
  mentions of hashes, what is asked for are exactly the hashes that are mentioned at least 0.66
  times as often as there are readable answers (every mention counts) and that are not among
  the own hashes read for the height under which they were mentioned first. Every node that is
  then asked mentioned all of them, the state has not changed and nothing is rolled back.
\<close>

theorem fast_sync_requests_voted:
  assumes "GetFastSyncSumHashNode env rd s nodes start_h end_h chainHeight st = Inr (st', ev, True, reqs, ids)"
    and "acks = List.map_filter (parse_fast_hash env) (snd (ask_fast_hash env nodes (dtrunc (dmul (of_nat (length nodes)) (dbl (4 / 5)))) start_h end_h))"
    and "length acks < 2 ^ 32" and "length (fast_log acks) < 2 ^ 32"
    and "GetHeightBlockHash_map rd start_h end_h = Inr (Some own)"
  shows "st' = st \<and> ev = [] \<and> ids \<noteq> [] \<and>
    request_pairs reqs = {(h, hash). \<exists>v vs. votes_for hash (fast_log acks) = v # vs \<and> h = fst (snd v) \<and>
      33 * length acks \<le> 50 * length (v # vs) \<and> hash \<notin> set (case om_find own h of None \<Rightarrow> [] | Some hs \<Rightarrow> hs)} \<and>
    (\<forall>id \<in> set ids. \<forall>(h, hash) \<in> request_pairs reqs. \<exists>h'. (id, h', hash) \<in> set (fast_log acks))"
proof -
  obtain ok datas where ask: "ask_fast_hash env nodes (dtrunc (dmul (of_nat (length nodes)) (dbl (4 / 5)))) start_h end_h = (ok, datas)" by fastforce
  obtain m f n where r: "read_answers (parse_fast_hash env) datas ([], [], 0) = (m, f, n)" by (cases "read_answers (parse_fast_hash env) datas ([], [], 0)")
  have m: "counted m (fast_log acks)" and n: "n = word_of_nat (length acks)"
    using counted_answers [OF counted_Nil r] by (simp_all add: assms(2) ask)
  obtain remain rollback need where scan: "scan_votes env rd chainHeight n f own m ([], [], 0) = Inr (Some (remain, rollback, need))"
      and fin: "(st', ev, True, reqs, ids) = fast_decide s env st (remain, rollback, need)"
    using assms(1) by (auto simp: GetFastSyncSumHashNode_def Let_def ask r assms(5) bindE_eq_Inr_iff split: if_splits option.splits)
  then have rb: "rollback = []" and ne: "remain \<noteq> []" and res: "st' = st" "ev = []" "ids = common_ids remain" "reqs = requests remain" "ids \<noteq> []"
    by (auto simp: fast_decide_def split: if_splits)
  have remain: "remain = filter (wanted_vote n own) m"
    using scan_votes_kept [of env rd chainHeight n f own m "[]" "[]" 0 remain need] scan rb by simp
  have small: "length (votes_for hash (fast_log acks)) < 2 ^ 32" for hash
    using assms(4) length_filter_le [of _ "fast_log acks"] by (meson le_less_trans)
  have enough: "fast_enough (fh_hits v) n \<longleftrightarrow> 33 * length acks \<le> 50 * length (votes_for hash (fast_log acks))" if "(hash, v) \<in> set m" for hash v
    using fast_enough_iff [OF small assms(3)] counted_entry(2) [OF m that] n by simp
  have "request_pairs reqs = {(h, hash). \<exists>v vs. votes_for hash (fast_log acks) = v # vs \<and> h = fst (snd v) \<and>
      33 * length acks \<le> 50 * length (v # vs) \<and> hash \<notin> set (case om_find own h of None \<Rightarrow> [] | Some hs \<Rightarrow> hs)}" (is "_ = ?R")
  proof (intro set_eqI iffI)
    fix p assume "p \<in> request_pairs reqs"
    then obtain hash v where p: "p = (fh_height v, hash)" and v: "(hash, v) \<in> set m" and w: "wanted_vote n own (hash, v)"
      unfolding res requests_pairs remain by auto
    then show "p \<in> ?R"
      using enough [OF v] counted_entry(1,3) [OF m v] by (cases "votes_for hash (fast_log acks)") (auto simp: wanted_vote_def)
  next
    fix p assume "p \<in> ?R"
    then obtain hash v vs where p: "p = (fst (snd v), hash)" and vs: "votes_for hash (fast_log acks) = v # vs" and le: "33 * length acks \<le> 50 * length (v # vs)"
        and new: "hash \<notin> set (case om_find own (fst (snd v)) of None \<Rightarrow> [] | Some hs \<Rightarrow> hs)" by auto
    then obtain helper where helper: "(hash, helper) \<in> set m" using counted_voted [OF m, of hash] by auto
    then have "fh_height helper = fst (snd v)" and "wanted_vote n own (hash, helper)"
      using enough [OF helper] counted_entry(3) [OF m helper] vs le new by (simp_all add: wanted_vote_def)
    then show "p \<in> request_pairs reqs" using helper unfolding res requests_pairs remain p by force
  qed
  moreover have "\<exists>h'. (id, h', hash) \<in> set (fast_log acks)" if i: "id \<in> set ids" and q: "(h, hash) \<in> request_pairs reqs" for id h hash
  proof -
    obtain v where v: "(hash, v) \<in> set remain" using q unfolding res requests_pairs by auto
    then have vm: "(hash, v) \<in> set m" unfolding remain by simp
    have "\<forall>e \<in> set remain. sorted (fh_ids (snd e))"
      using counted_entry(4) [OF m] unfolding remain by auto
    then have "id \<in> set (fh_ids v)" using i v common_ids_set [OF ne] unfolding res by fastforce
    then show ?thesis using counted_entry(5) [OF m vm] by auto
  qed
  ultimately show ?thesis using res by blast
qed

section \<open>What the download hands over\<close>

abbreviation block_key :: "CBlock \<Rightarrow> int \<times> u64" where
  "block_key b \<equiv> (blk_height b, blk_time b)"

lemma CBlockCompare_iff: "CBlockCompare a b \<longleftrightarrow> blk_height b < blk_height a \<or> blk_height a = blk_height b \<and> blk_time b < blk_time a"
  by (auto simp: CBlockCompare_def)

lemma bs_insert_set:
  "sorted_wrt CBlockCompare cs \<Longrightarrow> set (bs_insert b cs) = (if block_key b \<in> block_key ` set cs then set cs else insert b (set cs))"
  by (induction cs) (auto simp: CBlockCompare_iff split: if_splits)

lemma bs_insert_subset: "set (bs_insert b cs) \<subseteq> insert b (set cs)"
  by (induction cs) auto

lemma bs_insert_sorted: "sorted_wrt CBlockCompare cs \<Longrightarrow> sorted_wrt CBlockCompare (bs_insert b cs)"
proof (induction cs)
  case (Cons c cs)
  have "\<forall>d \<in> set (bs_insert b cs). d = b \<or> d \<in> set cs" using bs_insert_subset [of b cs] by auto
  moreover have "CBlockCompare b c \<Longrightarrow> \<forall>d \<in> set cs. CBlockCompare b d"
    using Cons.prems by (auto simp: CBlockCompare_iff)
  ultimately show ?case using Cons by auto
qed simp

text \<open>The first block of its height and time in a list.\<close>

definition first_of :: "CBlock list \<Rightarrow> CBlock \<Rightarrow> bool" where
  "first_of bs b \<longleftrightarrow> (\<exists>us vs. bs = us @ b # vs \<and> block_key b \<notin> block_key ` set us)"

lemma first_of_snoc: "first_of (bs @ [c]) b \<longleftrightarrow> first_of bs b \<or> b = c \<and> block_key c \<notin> block_key ` set bs"
proof
  assume "first_of (bs @ [c]) b"
  then obtain us vs where *: "bs @ [c] = us @ b # vs" "block_key b \<notin> block_key ` set us" by (auto simp: first_of_def)
  show "first_of bs b \<or> b = c \<and> block_key c \<notin> block_key ` set bs"
  proof (cases vs rule: rev_cases)
    case (snoc vs' d)
    then show ?thesis using * by (auto simp: first_of_def)
  qed (use * in auto)
next
  assume "first_of bs b \<or> b = c \<and> block_key c \<notin> block_key ` set bs"
  then show "first_of (bs @ [c]) b"
  proof
    assume "first_of bs b"
    then obtain us vs where "bs @ [c] = us @ b # (vs @ [c])" "block_key b \<notin> block_key ` set us" by (auto simp: first_of_def)
    then show ?thesis unfolding first_of_def by blast
  qed (auto simp: first_of_def)
qed

lemma first_of_key:
  assumes "c \<in> set bs"
  shows "\<exists>b. first_of bs b \<and> block_key b = block_key c"
proof -
  from assms obtain us b vs where *: "bs = us @ b # vs" "block_key b = block_key c" "\<forall>x \<in> set us. block_key x \<noteq> block_key c"
    using split_list_first_prop [of bs "\<lambda>x. block_key x = block_key c"] by auto
  then have "block_key b \<notin> block_key ` set us" by force
  with * show ?thesis unfolding first_of_def by blast
qed

definition holds :: "block_map \<Rightarrow> u64 \<Rightarrow> CBlock \<Rightarrow> bool" where
  "holds m h b \<longleftrightarrow> (\<exists>cs. om_find m h = Some cs \<and> b \<in> set cs)"

lemma AddBlockToMap_holds:
  assumes "\<forall>h cs. om_find m h = Some cs \<longrightarrow> sorted_wrt CBlockCompare cs"
  shows "holds (AddBlockToMap c m) h b \<longleftrightarrow> holds m h b \<or> h = u64_height c \<and> b = c \<and> (\<forall>d. holds m h d \<longrightarrow> block_key d \<noteq> block_key c)"
    and "\<forall>h cs. om_find (AddBlockToMap c m) h = Some cs \<longrightarrow> sorted_wrt CBlockCompare cs"
  using assms bs_insert_set bs_insert_sorted
  by (auto simp: AddBlockToMap_def holds_def om_find_insert image_iff split: option.splits if_splits)

lemma fold_AddBlockToMap:
  "(\<forall>h cs. om_find (fold AddBlockToMap bs []) h = Some cs \<longrightarrow> sorted_wrt CBlockCompare cs) \<and>
   (holds (fold AddBlockToMap bs []) h b \<longleftrightarrow> first_of bs b \<and> h = u64_height b)"
proof (induction bs arbitrary: h b rule: rev_induct)
  case Nil
  then show ?case by (simp add: holds_def first_of_def)
next
  case (snoc c bs)
  let ?m = "fold AddBlockToMap bs []"
  have sorted: "\<forall>h cs. om_find ?m h = Some cs \<longrightarrow> sorted_wrt CBlockCompare cs" and m: "holds ?m h b \<longleftrightarrow> first_of bs b \<and> h = u64_height b" for h b
    using snoc.IH by blast+
  have new: "(\<forall>d. holds ?m (u64_height c) d \<longrightarrow> block_key d \<noteq> block_key c) \<longleftrightarrow> block_key c \<notin> block_key ` set bs"
    unfolding m
  proof
    assume all: "\<forall>d. first_of bs d \<and> u64_height c = u64_height d \<longrightarrow> block_key d \<noteq> block_key c"
    show "block_key c \<notin> block_key ` set bs"
    proof
      assume "block_key c \<in> block_key ` set bs"
      then obtain d where "d \<in> set bs" "block_key d = block_key c" by auto
      with first_of_key obtain b where "first_of bs b" "block_key b = block_key c" by metis
      then show False using all [rule_format, of b] by simp
    qed
  next
    assume "block_key c \<notin> block_key ` set bs"
    then show "\<forall>d. first_of bs d \<and> u64_height c = u64_height d \<longrightarrow> block_key d \<noteq> block_key c"
      by (auto simp: first_of_def)
  qed
  have "holds (fold AddBlockToMap (bs @ [c]) []) h b \<longleftrightarrow> holds ?m h b \<or> h = u64_height c \<and> b = c \<and> (\<forall>d. holds ?m h d \<longrightarrow> block_key d \<noteq> block_key c)"
    using AddBlockToMap_holds(1) [OF sorted] by simp
  also have "\<dots> \<longleftrightarrow> first_of (bs @ [c]) b \<and> h = u64_height b"
    using new by (auto simp: m first_of_snoc)
  finally show ?case using AddBlockToMap_holds(2) [OF sorted, of c] by simp
qed

lemma good_blocks_set: "b \<in> set (good_blocks env raws) \<longleftrightarrow> (\<exists>raw \<in> set raws. be_parse_block env raw = Some b) \<and> blk_hash b = hash_of_block env b"
  by (induction raws) (auto split: option.splits)

text \<open>
  C32: A download that asks for something and succeeds looks at the first answer only. It hands
  over those blocks of this answer that can be parsed and whose hash is the hash of their
  content, each under its height, except that of several such blocks with the same height and
  time only the first (in the order of the sorted answer) is kept.
\<close>

theorem fast_download_exact:
  assumes "GetFastSyncBlockData env rd nodeId reqs chainHeight = Inr (ev, True)" and "reqs \<noteq> []"
  shows "\<exists>blocks data top_h. parse_fast_block env (hd (snd (ask_fast_block env nodeId reqs))) = Some blocks \<and>
    ev = [AddFastSyncBlock data (GetSaveSyncType env top_h chainHeight)] \<and> GetBlockTop rd 0 = Inr (DB_SUCCESS, top_h) \<and>
    (\<forall>h b. holds data h b \<longleftrightarrow> first_of (good_blocks env (concat (map snd (sort_fast_blocks env blocks)))) b \<and> h = u64_height b) \<and>
    (\<forall>h b. holds data h b \<longrightarrow> blk_hash b = hash_of_block env b)"
proof -
  obtain ok d ds where ask: "ask_fast_block env nodeId reqs = (ok, d # ds)"
    using assms by (cases "ask_fast_block env nodeId reqs"; cases "snd (ask_fast_block env nodeId reqs)")
      (auto simp: GetFastSyncBlockData_def split: if_splits)
  with assms obtain blocks top_h where b: "parse_fast_block env d = Some blocks" "GetBlockTop rd 0 = Inr (DB_SUCCESS, top_h)"
      "ev = [AddFastSyncBlock (fold AddBlockToMap (good_blocks env (concat (map snd (sort_fast_blocks env blocks)))) []) (GetSaveSyncType env top_h chainHeight)]"
    by (auto simp: GetFastSyncBlockData_def bindE_eq_Inr_iff Let_def split: if_splits option.splits prod.splits)
  let ?bs = "good_blocks env (concat (map snd (sort_fast_blocks env blocks)))"
  have "first_of ?bs b \<Longrightarrow> blk_hash b = hash_of_block env b" for b
    using good_blocks_set [of b env] by (auto simp: first_of_def) (metis in_set_conv_decomp)
  with b fold_AddBlockToMap [of ?bs] show ?thesis by (simp add: ask)
qed

section \<open>Examples\<close>

definition sample_blk :: "string \<Rightarrow> CBlock" where
  "sample_blk hash = \<lparr>blk_version = 0, blk_hash = hash, blk_prevhash = [], blk_height = 5, blk_time = 1, blk_merkleroot = [], blk_sign = [], blk_txs = [], blk_data = []\<rparr>"

definition fast_reader :: "string \<Rightarrow> db_reader" where
  "fast_reader own = \<lparr>ReadData = (\<lambda>key value. Inr (if key = kBlockTopKey then (DB_SUCCESS, ''7'')
       else if key = kBlockHash2BlcokRawKey @ ''y'' then (DB_SUCCESS, ''y'') else (DB_NOT_FOUND, []))),
     MultiReadData = (\<lambda>keys values. Inr (DB_SUCCESS, [own]))\<rparr>"

definition fast_sample :: "(string \<times> FastSyncBlockHashs list) list \<Rightarrow> fast_env" where
  "fast_sample acks = \<lparr>se_qualified = (\<lambda>a. True), se_kMinUnstakeHeight = 5, se_KMinSyncQualNodes = 2, se_kNeed_node_threshold = 3, se_draw = (\<lambda>k. k),
     be_parse_block = (\<lambda>raw. Some (sample_blk raw)), be_partial_block = sample_blk, be_ser_block = (\<lambda>b. []), be_sha256 = (\<lambda>s. ''x''), be_now = 0,
     be_sum_hash_range = 100, be_floor = (\<lambda>h. h), be_ceiling = (\<lambda>h. h),
     ask_fast_hash = (\<lambda>nodes n a b. (True, map fst acks)), parse_fast_hash = (\<lambda>d. map_option (Pair d) (map_of acks d)),
     ask_fast_block = (\<lambda>node reqs. (True, [''answer''])), parse_fast_block = (\<lambda>d. Some [(5, [''x'', ''z''])]), sort_fast_blocks = (\<lambda>bs. bs)\<rparr>"

definition start_state :: sync_state where
  "start_state = \<lparr>newSyncFailHeight = 0, runFastSync = False, inFastSyncFail = False, runNewSync = False, newSyncStartHeight = 0, syncHeightCnt = 100,
     syncSendNewSyncNum = 2, syncSendFastSyncNum = 2, syncSendZeroSyncNum = 2, runFastSuncNum = 0, runZeroSyncNum = 0, syncThreadRuning = True,
     fastSyncHeightCnt = 0, syncFromZeroCache = [], syncFromZeroReserveHeights = [],
     memory = \<lparr>forceFindBaseChain = False, lastEqualHeight = 0, equalHeightCount = 0\<rparr>\<rparr>"

lemma fast_reader_top: "GetBlockTop (fast_reader own) 0 = Inr (DB_SUCCESS, 7)"
proof -
  have "to_string 7 = ''7''" by code_simp
  then have "stoul ''7'' = Inr 7" using stoul_to_string [of 7] by simp
  then show ?thesis by (simp add: GetBlockTop_def read_unsigned_def fast_reader_def)
qed

lemma fast_reader_range: "GetHeightBlockHash_map (fast_reader own) 5 5 = Inr (Some [])"
  by (simp add: GetHeightBlockHash_map_def fast_reader_top)

lemma fast_reader_hashes: "GetBlockHashesByBlockHeight (fast_reader own) 5 5 [] = Inr (DB_SUCCESS, split_to own [])"
proof -
  have "heights 5 5 = Inr [5]" by (simp add: heights_def)
  then show ?thesis by (simp add: GetBlockHashesByBlockHeight_def fast_reader_def)
qed

lemma fast_two: "fast_enough 2 2" "fast_enough 3 3" "fast_enough 2 3"
  using fast_enough_iff [of 2 2] fast_enough_iff [of 3 3] fast_enough_iff [of 2 3] by simp_all

lemma fast_sample_ask: "ask_fast_hash (fast_sample acks) nodes n a b = (True, map fst acks)"
  by (simp add: fast_sample_def)

lemma fast_run:
  assumes "\<And>n. ask_fast_hash env nodes n a b = (True, datas)" and "read_answers (parse_fast_hash env) datas ([], [], 0) = (m, f, n)"
    and "GetHeightBlockHash_map rd a b = Inr (Some own)" and "scan_votes env rd chainHeight n f own m ([], [], 0) = Inr (Some scan)"
  shows "GetFastSyncSumHashNode env rd s nodes a b chainHeight st = Inr (fast_decide s env st scan)"
  by (simp add: GetFastSyncSumHashNode_def assms)

lemma sample_known:
  "GetFastSyncSumHashNode (fast_sample [(''m'', [\<lparr>fs_height = 5, fs_hashs = [''x'', ''y'']\<rparr>]), (''n'', [\<lparr>fs_height = 5, fs_hashs = [''x'', ''y'']\<rparr>])])
     (fast_reader ''x'') (sample_net []) [''m'', ''n''] 5 5 20 start_state =
   Inr (start_state, [], True, [\<lparr>fs_height = 5, fs_hashs = [''x'', ''y'']\<rparr>], [''m'', ''n''])"
proof -
  let ?env = "fast_sample [(''m'', [\<lparr>fs_height = 5, fs_hashs = [''x'', ''y'']\<rparr>]), (''n'', [\<lparr>fs_height = 5, fs_hashs = [''x'', ''y'']\<rparr>])]"
  let ?x = "\<lparr>fh_hits = 2, fh_ids = [''m'', ''n''], fh_height = 5\<rparr>"
  have read: "read_answers (parse_fast_hash ?env) [''m'', ''n''] ([], [], 0) = ([(''x'', ?x), (''y'', ?x)], [(5, [''x'', ''y''])], 2)"
    by code_simp
  have own: "split_to ''x'' [] = [''x'']" by code_simp
  have scan: "scan_votes ?env (fast_reader ''x'') 20 2 [(5, [''x'', ''y''])] [] [(''x'', ?x), (''y'', ?x)] ([], [], 0) = Inr (Some ([(''x'', ?x), (''y'', ?x)], [], 0))"
    by (simp add: scan_entry_def fast_two fast_reader_hashes own)
  have fin: "fast_decide (sample_net []) ?env start_state ([(''x'', ?x), (''y'', ?x)], [], 0) =
    (start_state, [], True, [\<lparr>fs_height = 5, fs_hashs = [''x'', ''y'']\<rparr>], [''m'', ''n''])"
    by code_simp
  have ask: "ask_fast_hash ?env [''m'', ''n''] n 5 5 = (True, [''m'', ''n''])" for n by (simp add: fast_sample_ask)
  show ?thesis unfolding fast_run [OF ask read fast_reader_range scan] fin ..
qed

text \<open>A block that the node already has is asked for again.\<close>

theorem fast_sync_requests_voted_witness:
  "\<exists>reqs. GetFastSyncSumHashNode (fast_sample [(''m'', [\<lparr>fs_height = 5, fs_hashs = [''x'', ''y'']\<rparr>]), (''n'', [\<lparr>fs_height = 5, fs_hashs = [''x'', ''y'']\<rparr>])])
       (fast_reader ''x'') (sample_net []) [''m'', ''n''] 5 5 20 start_state = Inr (start_state, [], True, reqs, [''m'', ''n'']) \<and>
     request_pairs reqs = {(5, ''x''), (5, ''y'')}"
proof -
  let ?acks = "[(''m'', [\<lparr>fs_height = 5, fs_hashs = [''x'', ''y'']\<rparr>]), (''n'', [\<lparr>fs_height = 5, fs_hashs = [''x'', ''y'']\<rparr>])]"
  have acks: "?acks = List.map_filter (parse_fast_hash (fast_sample ?acks))
      (snd (ask_fast_hash (fast_sample ?acks) [''m'', ''n''] (dtrunc (dmul (of_nat (length [''m'', ''n''])) (dbl (4 / 5)))) 5 5))"
    unfolding fast_sample_ask by (simp add: fast_sample_def map_filter_simps)
  have short: "length ?acks < 2 ^ 32" "length (fast_log ?acks) < 2 ^ 32" by (simp_all add: fast_log_def)
  have voted: "{(h, hash). \<exists>v vs. votes_for hash (fast_log ?acks) = v # vs \<and> h = fst (snd v) \<and>
      33 * length ?acks \<le> 50 * length (v # vs) \<and> hash \<notin> set (case om_find [] h of None \<Rightarrow> [] | Some hs \<Rightarrow> hs)} = {(5 :: u64, ''x''), (5, ''y'')}"
    by (auto simp: fast_log_def split: if_split_asm)
  show ?thesis
    using fast_sync_requests_voted [OF sample_known acks short fast_reader_range] sample_known unfolding voted by blast
qed

text \<open>
  The answer that arrives first decides what is rolled back: here two of three answers, and so the
  vote, confirm the own block \<open>y\<close>, but the first answer does not name it and it is rolled back.
\<close>

theorem fast_first_answer_rolls_back:
  "GetFastSyncSumHashNode (fast_sample [(''l'', [\<lparr>fs_height = 5, fs_hashs = [''x'']\<rparr>]), (''m'', [\<lparr>fs_height = 5, fs_hashs = [''x'', ''y'']\<rparr>]),
       (''n'', [\<lparr>fs_height = 5, fs_hashs = [''x'', ''y'']\<rparr>])]) (fast_reader ''x_y'') (sample_net []) [''l'', ''m'', ''n''] 5 5 20 start_state =
     Inr (start_state, [AddRollbackBlock [(5, [sample_blk ''y''])]], False, [], []) \<and>
   fast_enough 2 3"
proof -
  let ?env = "fast_sample [(''l'', [\<lparr>fs_height = 5, fs_hashs = [''x'']\<rparr>]), (''m'', [\<lparr>fs_height = 5, fs_hashs = [''x'', ''y'']\<rparr>]), (''n'', [\<lparr>fs_height = 5, fs_hashs = [''x'', ''y'']\<rparr>])]"
  let ?x = "\<lparr>fh_hits = 3, fh_ids = [''l'', ''m'', ''n''], fh_height = 5\<rparr>" and ?y = "\<lparr>fh_hits = 2, fh_ids = [''m'', ''n''], fh_height = 5\<rparr>"
  have read: "read_answers (parse_fast_hash ?env) [''l'', ''m'', ''n''] ([], [], 0) = ([(''x'', ?x), (''y'', ?y)], [(5, [''x''])], 3)"
    by code_simp
  have own: "split_to ''x_y'' [] = [''x'', ''y'']" "sort [''x'', ''y''] = [''x'', ''y'']" "set_difference [''x'', ''y''] [''x''] = [''y'']" by code_simp+
  have get: "GetBlockByBlockHash (fast_reader ''x_y'') ''y'' [] = Inr (DB_SUCCESS, ''y'')" by code_simp
  have env: "be_parse_block ?env raw = Some (sample_blk raw)" for raw by (simp add: fast_sample_def)
  have y: "u64_height (sample_blk ''y'') = 5" by (simp add: sample_blk_def)
  have add: "AddBlockToMap (sample_blk ''y'') [] = [(5, [sample_blk ''y''])]" "AddBlockToMap (sample_blk ''y'') [(5, [sample_blk ''y''])] = [(5, [sample_blk ''y''])]"
    by (simp_all add: AddBlockToMap_def sample_blk_def CBlockCompare_def)
  have scan: "scan_votes ?env (fast_reader ''x_y'') 20 3 [(5, [''x''])] [] [(''x'', ?x), (''y'', ?y)] ([], [], 0) =
      Inr (Some ([(''x'', ?x), (''y'', ?y)], [(5, [sample_blk ''y''])], 5))"
    by (simp add: scan_entry_def fast_two fast_reader_hashes own get env y add Let_def)
  have fin: "fast_decide (sample_net []) ?env start_state ([(''x'', ?x), (''y'', ?y)], [(5, [sample_blk ''y''])], 5) =
      (start_state, [AddRollbackBlock [(5, [sample_blk ''y''])]], False, [], [])"
    by (simp add: fast_decide_def sample_net_nodes)
  have ask: "ask_fast_hash ?env [''l'', ''m'', ''n''] n 5 5 = (True, [''l'', ''m'', ''n''])" for n by (simp add: fast_sample_ask)
  show ?thesis unfolding fast_run [OF ask read fast_reader_range scan] fin using fast_two by simp
qed

theorem fast_download_exact_witness:
  "\<exists>data top_h. GetFastSyncBlockData (fast_sample []) (fast_reader []) ''m'' [\<lparr>fs_height = 5, fs_hashs = [''x'', ''z'']\<rparr>] 20 =
     Inr ([AddFastSyncBlock data (GetSaveSyncType (fast_sample []) top_h 20)], True) \<and> holds data 5 (sample_blk ''x'') \<and> \<not> holds data 5 (sample_blk ''z'')"
proof -
  let ?req = "[\<lparr>fs_height = 5, fs_hashs = [''x'', ''z'']\<rparr>]"
  have good: "good_blocks (fast_sample []) [''x'', ''z''] = [sample_blk ''x'']"
    by (simp add: hash_of_block_def fast_sample_def sample_blk_def)
  have fields: "parse_fast_block (fast_sample []) d = Some [(5, [''x'', ''z''])]" "sort_fast_blocks (fast_sample []) bs = bs"
      "ask_fast_block (fast_sample []) node reqs = (True, [''answer''])" for d bs node reqs
    by (simp_all add: fast_sample_def)
  have "\<exists>ev. GetFastSyncBlockData (fast_sample []) (fast_reader []) ''m'' ?req 20 = Inr (ev, True)"
    by (simp add: GetFastSyncBlockData_def fast_reader_top fields Let_def del: good_blocks.simps)
  then obtain ev where run: "GetFastSyncBlockData (fast_sample []) (fast_reader []) ''m'' ?req 20 = Inr (ev, True)" by blast
  obtain data top_h where d: "ev = [AddFastSyncBlock data (GetSaveSyncType (fast_sample []) top_h 20)]"
      "\<forall>h b. holds data h b \<longleftrightarrow> first_of [sample_blk ''x''] b \<and> h = u64_height b"
    using fast_download_exact [OF run] by (auto simp: fields good simp del: good_blocks.simps)
  have "first_of [sample_blk ''x''] b \<longleftrightarrow> b = sample_blk ''x''" for b
    by (auto simp: first_of_def Cons_eq_append_conv)
  then show ?thesis using run d by (auto simp: sample_blk_def)
qed

end
