(* ===== verification/Sync_New.thy ===== *)
theory Sync_New
  imports Sync_Fast
begin

text \<open>
  Ordinary synchronisation, \<open>ca/sync_block.cpp\<close>: the vote on the sum hash of every height
  (\<open>_GetSyncSumHashNode\<close>), the ranges of heights that differ, the vote on the block hashes of a range
  (\<open>_GetSyncBlockHashNode\<close>), the download (\<open>_GetSyncBlockData\<close>) and the run that combines them
  (\<open>_RunNewSyncOnce\<close>).
\<close>

section \<open>The surroundings\<close>

text \<open>
  \<open>ask_sum\<close>, \<open>ask_hash\<close> and \<open>ask_block\<close> send a request to the given nodes and wait; the others
  parse answers. \<open>partial_hash\<close> is what a failed parse leaves in the list of hashes. The two
  sorting functions are calls of \<open>std::sort\<close>, which leaves the order of equal elements open.
\<close>

record new_env = fast_env +
  ask_sum :: "string list \<Rightarrow> nat \<Rightarrow> u64 \<Rightarrow> u64 \<Rightarrow> bool \<times> string list"
  parse_sum :: "string \<Rightarrow> (string \<times> u64 \<times> (u64 \<times> u64 \<times> string) list) option"
  ask_hash :: "string list \<Rightarrow> nat \<Rightarrow> u64 \<Rightarrow> u64 \<Rightarrow> bool \<times> string list"
  parse_hash :: "string \<Rightarrow> (string \<times> int \<times> string list) option"
  partial_hash :: "string \<Rightarrow> string list"
  ask_block :: "string list \<Rightarrow> string list \<Rightarrow> bool \<times> string list"
  parse_block_ack :: "string \<Rightarrow> string list option"
  sort_keys :: "(string \<times> u32) list \<Rightarrow> (string \<times> u32) list"
  sort_lists :: "(string \<times> string list) list \<Rightarrow> (string \<times> string list) list"

text \<open>Every function returns the calls it makes of the block helper and its result.\<close>

type_synonym 'a run = "(tx_error, sync_event list \<times> 'a) result"

section \<open>The download\<close>

text \<open>The blocks of the answers that were asked for and have the right hash, in order.\<close>

definition asked_blocks :: "'e new_env_scheme \<Rightarrow> string list \<Rightarrow> string list \<Rightarrow> CBlock list" where
  "asked_blocks env reqHashes retDatas =
     good_blocks env (filter (\<lambda>raw. case be_parse_block env raw of None \<Rightarrow> False | Some block \<Rightarrow> blk_hash block \<in> set reqHashes)
       (concat (List.map_filter (parse_block_ack env) retDatas)))"

definition GetSyncBlockData :: "'e new_env_scheme \<Rightarrow> string list \<Rightarrow> string list \<Rightarrow> sync_event list \<times> int" where
  "GetSyncBlockData env sendNodeIds reqHashes =
     (if reqHashes = [] \<or> sendNodeIds = [] then ([], 0)
      else let (ok, retDatas) = ask_block env sendNodeIds reqHashes in
      if \<not> ok \<and> retDatas = [] then ([], -3)
      else ([AddSyncBlock (fold AddBlockToMap (asked_blocks env reqHashes retDatas) []) SyncNormal], 0))"

section \<open>The vote on block hashes\<close>

type_synonym hash_votes = "(string, string list) omap"

definition vote_names :: "string \<Rightarrow> string \<Rightarrow> hash_votes \<Rightarrow> hash_votes" where
  "vote_names nodeId key m =
     om_insert key (insort_insert nodeId (case om_find m key of None \<Rightarrow> [] | Some v \<Rightarrow> v)) m"

text \<open>Answers that cannot be read or report an error do not count.\<close>

definition valid_acks :: "'e new_env_scheme \<Rightarrow> string list \<Rightarrow> (string \<times> string list) list" where
  "valid_acks env retDatas =
     List.map_filter (\<lambda>d. case parse_hash env d of None \<Rightarrow> None | Some (nodeId, code, hashes) \<Rightarrow> if code \<noteq> 0 then None else Some (nodeId, hashes)) retDatas"

definition hash_table :: "(string \<times> string list) list \<Rightarrow> hash_votes" where
  "hash_table acks = fold (\<lambda>(nodeId, hashes). fold (vote_names nodeId) hashes) acks []"

text \<open>
  The scan of the voted hashes. The node set starts as the voters of the first wanted hash;
  afterwards its intersections with other voters are inserted into it.
\<close>

record hash_scan =
  hs_exits :: "string list"
  hs_verify :: "string list"
  hs_nodes :: "string list"
  hs_rollback :: block_map

definition scan_hash :: "'e new_env_scheme \<Rightarrow> db_reader \<Rightarrow> u64 \<Rightarrow> nat \<Rightarrow> string \<times> string list \<Rightarrow> hash_scan \<Rightarrow> (db_error, hash_scan option) result" where
  "scan_hash env rd chainHeight verifyNum e sc =
     bindE (GetBlockByBlockHash rd (fst e) []) (\<lambda>(res, strblock).
     if res \<noteq> DB_SUCCESS \<and> res \<noteq> DB_NOT_FOUND then Inr None
     else let sc1 = (if res = DB_SUCCESS then sc\<lparr>hs_exits := hs_exits sc @ [fst e]\<rparr> else sc) in
       Inr (Some
         (if length (snd e) \<ge> verifyNum then
            (if res = DB_NOT_FOUND then
               sc1\<lparr>hs_verify := insort_insert (fst e) (hs_verify sc1),
                   hs_nodes := (if hs_nodes sc1 = [] then snd e else fold insort_insert (set_intersection (hs_nodes sc1) (snd e)) (hs_nodes sc1))\<rparr>
             else sc1)
          else (case (if res = DB_SUCCESS then be_parse_block env strblock else None) of
              None \<Rightarrow> sc1
            | Some block \<Rightarrow> if u64_height block < chainHeight - 10 then sc1\<lparr>hs_rollback := AddBlockToMap block (hs_rollback sc1)\<rparr> else sc1))))"

fun scan_hashes :: "'e new_env_scheme \<Rightarrow> db_reader \<Rightarrow> u64 \<Rightarrow> nat \<Rightarrow> hash_votes \<Rightarrow> hash_scan \<Rightarrow> (db_error, hash_scan option) result" where
  "scan_hashes env rd chainHeight verifyNum [] sc = Inr (Some sc)"
| "scan_hashes env rd chainHeight verifyNum (e # es) sc =
     bindE (scan_hash env rd chainHeight verifyNum e sc) (\<lambda>r. case r of
       None \<Rightarrow> Inr None | Some sc' \<Rightarrow> scan_hashes env rd chainHeight verifyNum es sc')"

text \<open>Own blocks of the range that no answer names, if they are more than ten below the chain.\<close>

definition read_block :: "'e block_env_scheme \<Rightarrow> string \<Rightarrow> CBlock" where
  "read_block env strblock = (case be_parse_block env strblock of Some b \<Rightarrow> b | None \<Rightarrow> be_partial_block env strblock)"

fun roll_unnamed :: "'e new_env_scheme \<Rightarrow> db_reader \<Rightarrow> u64 \<Rightarrow> string list \<Rightarrow> block_map \<Rightarrow> (db_error, block_map) result" where
  "roll_unnamed env rd chainHeight [] rb = Inr rb"
| "roll_unnamed env rd chainHeight (h # hs) rb =
     bindE (GetBlockByBlockHash rd h []) (\<lambda>(st, strblock).
     if st \<noteq> DB_SUCCESS then roll_unnamed env rd chainHeight hs rb
     else let block = read_block env strblock; tmpHeight = u64_height block in
       roll_unnamed env rd chainHeight hs (if tmpHeight < chainHeight \<and> chainHeight - tmpHeight > 10 then AddBlockToMap block rb else rb))"

definition own_unnamed :: "db_reader \<Rightarrow> u64 \<Rightarrow> u64 \<Rightarrow> u64 \<Rightarrow> string list \<Rightarrow> (db_error, string list option) result" where
  "own_unnamed rd startSyncHeight endSyncHeight selfNodeHeight exitsHashes =
     (let endHeight = (if endSyncHeight > selfNodeHeight then selfNodeHeight else endSyncHeight) in
      if endHeight \<ge> startSyncHeight then
        bindE (GetBlockHashesByBlockHeight rd startSyncHeight endHeight []) (\<lambda>(st, blockHashes).
          Inr (if st \<noteq> DB_SUCCESS then None else Some (set_difference (sort blockHashes) (sort exitsHashes))))
      else Inr (Some []))"

definition qualified_count :: "'e sync_env_scheme \<Rightarrow> net \<Rightarrow> nat" where
  "qualified_count env s = length (filter (\<lambda>n. se_qualified env (address n)) (GetNodelist NODE_ALL False s))"

text \<open>The result is the code, the nodes to ask and the hashes to ask for.\<close>

definition hash_result :: "'e new_env_scheme \<Rightarrow> net \<Rightarrow> u64 \<Rightarrow> hash_scan \<Rightarrow> sync_event list \<times> int \<times> string list \<times> string list" where
  "hash_result env s newSyncSnedNum sc =
     (if hs_rollback sc \<noteq> [] then
        (if unat newSyncSnedNum < qualified_count env s then ([], -7, [], [])
         else ([AddRollbackBlock (hs_rollback sc)], -8, [], []))
      else if hs_verify sc = [] then ([], 0, [], [])
      else ([], if hs_nodes sc = [] then -9 else 0, hs_nodes sc, hs_verify sc))"

definition GetSyncBlockHashNode :: "'e new_env_scheme \<Rightarrow> db_reader \<Rightarrow> net \<Rightarrow> string list \<Rightarrow> u64 \<Rightarrow> u64 \<Rightarrow> u64 \<Rightarrow> u64 \<Rightarrow> u64 \<Rightarrow>
    (int \<times> string list \<times> string list) run" where
  "GetSyncBlockHashNode env rd s sendNodeIds startSyncHeight endSyncHeight selfNodeHeight chainHeight newSyncSnedNum =
     (let sendNum = length sendNodeIds;
          (ok, retDatas) = ask_hash env sendNodeIds (dtrunc (dmul (of_nat sendNum) (dbl (4 / 5)))) startSyncHeight endSyncHeight
      in if \<not> ok \<and> of_nat (length retDatas) < dmul (of_nat sendNum) (dbl (1 / 2)) then Inr ([], -3, [], [])
      else let acks = valid_acks env retDatas; verifyNum = length acks div 5 * 4 in
        lift_db (bindE (scan_hashes env rd chainHeight verifyNum (hash_table acks) \<lparr>hs_exits = [], hs_verify = [], hs_nodes = [], hs_rollback = []\<rparr>) (\<lambda>r. case r of
          None \<Rightarrow> Inr ([], -4, [], [])
        | Some sc \<Rightarrow> bindE (own_unnamed rd startSyncHeight endSyncHeight selfNodeHeight (hs_exits sc)) (\<lambda>r2. case r2 of
            None \<Rightarrow> Inr ([], -5, [], [])
          | Some v_diff \<Rightarrow> bindE (roll_unnamed env rd chainHeight v_diff (hs_rollback sc)) (\<lambda>rb.
              Inr (hash_result env s newSyncSnedNum (sc\<lparr>hs_rollback := rb\<rparr>)))))))"

section \<open>Blocks by an agreed sum\<close>

text \<open>
  The message object is reused: after the loop it holds the last answer, whether it counted
  or not.
\<close>

definition last_hashes :: "'e new_env_scheme \<Rightarrow> string list \<Rightarrow> string list" where
  "last_hashes env retDatas = (if retDatas = [] then []
     else case parse_hash env (last retDatas) of Some (nodeId, code, hashes) \<Rightarrow> hashes | None \<Rightarrow> partial_hash env (last retDatas))"

fun roll_old :: "'e new_env_scheme \<Rightarrow> db_reader \<Rightarrow> string list \<Rightarrow> block_map \<Rightarrow> (db_error, block_map option) result" where
  "roll_old env rd [] rb = Inr (Some rb)"
| "roll_old env rd (diffHash # ds) rb =
     bindE (GetBlockByBlockHash rd diffHash []) (\<lambda>(res, strblock).
     if res \<noteq> DB_SUCCESS then Inr None
     else let block = read_block env strblock in
       roll_old env rd ds (if blk_time block < be_now env - 5 * 60 * 1000000 then AddBlockToMap block rb else rb))"

definition fetch_needed :: "'e new_env_scheme \<Rightarrow> string list \<Rightarrow> string list \<Rightarrow> string list \<Rightarrow> sync_event list \<times> int" where
  "fetch_needed env sendNodeIds ack_hashes selfBlockHashes =
     (case GetSyncBlockData env sendNodeIds (set_difference ack_hashes selfBlockHashes) of (ev, ret) \<Rightarrow> (ev, if ret \<noteq> 0 then -8 else 0))"

definition roll_or_fetch :: "'e new_env_scheme \<Rightarrow> string list \<Rightarrow> string list \<Rightarrow> string list \<Rightarrow> block_map option \<Rightarrow> sync_event list \<times> int" where
  "roll_or_fetch env sendNodeIds ack_hashes selfBlockHashes r = (case r of
     None \<Rightarrow> ([], -6)
   | Some rb \<Rightarrow> if rb \<noteq> [] then ([AddRollbackBlock rb], -7) else fetch_needed env sendNodeIds ack_hashes selfBlockHashes)"

definition GetSyncBlockBySumHashNode :: "'e new_env_scheme \<Rightarrow> db_reader \<Rightarrow> string list \<Rightarrow> u64 \<Rightarrow> u64 \<Rightarrow> u64 \<Rightarrow> int run" where
  "GetSyncBlockBySumHashNode env rd sendNodeIds startSyncHeight endSyncHeight selfNodeHeight =
     (let sendNum = length sendNodeIds;
          (ok, retDatas) = ask_hash env sendNodeIds (dtrunc (dmul (of_nat sendNum) (dbl (4 / 5)))) startSyncHeight endSyncHeight
      in if \<not> ok \<and> of_nat (length retDatas) < dmul (of_nat sendNum) (dbl (1 / 2)) then Inr ([], -3)
      else if length (remdups (map (\<lambda>a. concat (snd a)) (valid_acks env retDatas))) \<noteq> 1 then Inr ([], -4)
      else let ack_hashes = last_hashes env retDatas in
        if selfNodeHeight \<ge> startSyncHeight then
          lift_db (bindE (GetBlockHashesByBlockHeight rd startSyncHeight endSyncHeight []) (\<lambda>(st, hashes).
            if st \<noteq> DB_SUCCESS then Inr ([], -5)
            else let selfBlockHashes = sort hashes in
              bindE (roll_old env rd (set_difference selfBlockHashes ack_hashes) []) (\<lambda>r.
                Inr (roll_or_fetch env sendNodeIds ack_hashes selfBlockHashes r))))
        else Inr (fetch_needed env sendNodeIds ack_hashes []))"

section \<open>The vote on the sums of heights\<close>

text \<open>
  The table of sums by hash (first height, as a 32-bit number, and voters) and the list of
  votes by text \<open>start_end_hash\<close> with their counts.
\<close>

type_synonym sum_table = "(string, u32 \<times> string list) omap"

definition sum_key :: "u64 \<times> u64 \<times> string \<Rightarrow> string" where
  "sum_key v = (case v of (start_h, end_h, hash) \<Rightarrow> dec start_h @ ''_'' @ dec end_h @ ''_'' @ hash)"

fun bump_key :: "string \<Rightarrow> (string \<times> u32) list \<Rightarrow> (string \<times> u32) list" where
  "bump_key key [] = [(key, 1)]"
| "bump_key key ((k, n) # ds) = (if key = k then (k, n + 1) # ds else (k, n) # bump_key key ds)"

definition add_sum :: "string \<Rightarrow> u64 \<times> u64 \<times> string \<Rightarrow> sum_table \<times> (string \<times> u32) list \<Rightarrow> sum_table \<times> (string \<times> u32) list" where
  "add_sum nodeId v t = (case (v, t) of ((start_h, end_h, hash), (consensusMap, syncHashDatas)) \<Rightarrow>
     let value = (case om_find consensusMap hash of None \<Rightarrow> (ucast start_h, []) | Some e \<Rightarrow> e)
     in (om_insert hash (fst value, snd value @ [nodeId]) consensusMap, bump_key (sum_key v) syncHashDatas))"

definition read_sums :: "(string \<times> u64 \<times> (u64 \<times> u64 \<times> string) list) list \<Rightarrow> sum_table \<times> (string \<times> u32) list" where
  "read_sums acks = fold (\<lambda>(nodeId, top_h, hashes). fold (add_sum nodeId) hashes) acks ([], [])"

text \<open>A height whose sums disagree, in a round that asked every node.\<close>

datatype sum_step = Finish int | Skip | Compare

fun roll_forked :: "'e new_env_scheme \<Rightarrow> db_reader \<Rightarrow> string list \<Rightarrow> block_map \<Rightarrow> (db_error, block_map) result" where
  "roll_forked env rd [] rb = Inr rb"
| "roll_forked env rd (h # hs) rb =
     bindE (GetBlockByBlockHash rd h []) (\<lambda>(st, strblock).
     if st \<noteq> DB_SUCCESS then roll_forked env rd hs rb
     else case be_parse_block env strblock of
       None \<Rightarrow> roll_forked env rd hs rb
     | Some block \<Rightarrow> roll_forked env rd hs (if blk_time block < be_now env - 1 * 60 * 1000000 then AddBlockToMap block rb else rb))"

definition fork_rollback :: "'e new_env_scheme \<Rightarrow> db_reader \<Rightarrow> u64 \<Rightarrow> (db_error, sync_event list \<times> sum_step) result" where
  "fork_rollback env rd startHeight =
     bindE (GetHeightBlockHash rd startHeight startHeight) (\<lambda>r. case r of
       None \<Rightarrow> Inr ([], Skip)
     | Some hashes \<Rightarrow> bindE (roll_forked env rd hashes []) (\<lambda>rb.
         if rb \<noteq> [] then Inr ([AddRollbackBlock rb], Finish (-6)) else Inr ([], Compare)))"

definition lists_of_height :: "'e new_env_scheme \<Rightarrow> sum_table \<Rightarrow> u64 \<Rightarrow> (string \<times> string list) list" where
  "lists_of_height env consensusMap startHeight =
     sort_lists env (map (\<lambda>(hash, h, ids). (hash, ids)) (filter (\<lambda>e. ucast (fst (snd e)) = startHeight) consensusMap))"

text \<open>\<open>nodeLists.at(0)\<close> throws when no sum was first seen at this height.\<close>

definition disagreement :: "'e new_env_scheme \<Rightarrow> db_reader \<Rightarrow> nat \<Rightarrow> nat \<Rightarrow> sum_table \<Rightarrow> u64 \<Rightarrow> u64 \<Rightarrow> u64 \<Rightarrow> sum_step run" where
  "disagreement env rd sendNum recvNum consensusMap startHeight endHeight selfNodeHeight =
     bindE (lift_db (GetBlockHashsByBlockHeight rd startHeight [])) (\<lambda>(res, selfBlockHashes).
     let self_sumhash = SumHeightHash env selfBlockHashes in
     case lists_of_height env consensusMap startHeight of
       [] \<Rightarrow> Inl VectorIndex
     | (best, ids) # _ \<Rightarrow>
         if of_nat (length ids) < dmul (of_nat recvNum) (dbl (51 / 100)) \<and> of_nat recvNum \<ge> dmul (of_nat sendNum) (dbl (4 / 5)) \<and> startHeight \<le> selfNodeHeight
         then lift_db (fork_rollback env rd startHeight)
         else if of_nat (length ids) \<ge> dmul (of_nat recvNum) (dbl (51 / 100)) \<and> of_nat recvNum > dmul (of_nat sendNum) (dbl (4 / 5)) \<and>
           (startHeight \<le> selfNodeHeight \<or> startHeight = selfNodeHeight + 1)
         then (if self_sumhash \<noteq> best then
                 bindE (GetSyncBlockBySumHashNode env rd ids startHeight endHeight selfNodeHeight) (\<lambda>(ev, ret).
                   Inr (ev, if ret \<noteq> 0 then Finish (-7) else Compare))
               else Inr ([], Compare))
         else Inr ([], Skip))"

text \<open>The sum of the own hashes; a failed read leaves the list empty.\<close>

definition own_sum :: "'e new_env_scheme \<Rightarrow> db_reader \<Rightarrow> u64 \<Rightarrow> u64 \<Rightarrow> (db_error, string) result" where
  "own_sum env rd startHeight endHeight =
     bindE (GetBlockHashesByBlockHeight rd startHeight endHeight []) (\<lambda>(st, hashes). Inr (SumHeightHash env hashes))"

definition compare_sum :: "'e new_env_scheme \<Rightarrow> db_reader \<Rightarrow> u64 \<Rightarrow> u64 \<Rightarrow> string \<Rightarrow> u64 list \<Rightarrow> sync_event list \<Rightarrow> (u64 list + int) run" where
  "compare_sum env rd startHeight endHeight hash hs ev =
     bindE (lift_db (own_sum env rd startHeight endHeight)) (\<lambda>own.
     if hash = own then Inr (ev, Inl hs)
     else bindE (lift_db (heights startHeight endHeight)) (\<lambda>new. Inr (ev, Inl (fold insort_insert new hs))))"

text \<open>One entry of the votes. \<open>Inr\<close> of a code ends the function.\<close>

definition sum_entry :: "'e new_env_scheme \<Rightarrow> db_reader \<Rightarrow> u64 \<Rightarrow> nat \<Rightarrow> nat \<Rightarrow> nat \<Rightarrow> sum_table \<Rightarrow> string \<times> u32 \<Rightarrow> u64 list \<Rightarrow> (u64 list + int) run" where
  "sum_entry env rd newSyncSnedNum sendNum recvNum verifyNum consensusMap d hs =
     (let data_key = split_to (fst d) [] in
      if length data_key < 3 then Inr ([], Inl hs)
      else bindE (lift_db (lift_num (stoul (data_key ! 0)))) (\<lambda>a. bindE (lift_db (lift_num (stoul (data_key ! 1)))) (\<lambda>b.
        let startHeight = word_of_nat a; endHeight = word_of_nat b in
        if unat (snd d) < verifyNum then
          bindE (lift_db (GetBlockTop rd 0)) (\<lambda>(st, selfNodeHeight).
          if st \<noteq> DB_SUCCESS then Inr ([], Inr (-5))
          else if unat newSyncSnedNum \<ge> UINT32_MAX then
            bindE (disagreement env rd sendNum recvNum consensusMap startHeight endHeight selfNodeHeight) (\<lambda>(ev, step).
              case step of Finish code \<Rightarrow> Inr (ev, Inr code) | Skip \<Rightarrow> Inr (ev, Inl hs)
              | Compare \<Rightarrow> compare_sum env rd startHeight endHeight (data_key ! 2) hs ev)
          else Inr ([], Inr (-8)))
        else compare_sum env rd startHeight endHeight (data_key ! 2) hs [])))"

fun sum_entries :: "'e new_env_scheme \<Rightarrow> db_reader \<Rightarrow> u64 \<Rightarrow> nat \<Rightarrow> nat \<Rightarrow> nat \<Rightarrow> sum_table \<Rightarrow> (string \<times> u32) list \<Rightarrow> u64 list \<Rightarrow> (u64 list + int) run" where
  "sum_entries env rd newNum sendNum recvNum verifyNum consensusMap [] hs = Inr ([], Inl hs)"
| "sum_entries env rd newNum sendNum recvNum verifyNum consensusMap (d # ds) hs =
     bindE (sum_entry env rd newNum sendNum recvNum verifyNum consensusMap d hs) (\<lambda>(ev, r). case r of
       Inr code \<Rightarrow> Inr (ev, Inr code)
     | Inl hs' \<Rightarrow> bindE (sum_entries env rd newNum sendNum recvNum verifyNum consensusMap ds hs') (\<lambda>(ev', r'). Inr (ev @ ev', r')))"

text \<open>
  The ranges of consecutive heights; \<open>-1\<close> means that no range is open. A height that does not
  continue the open range closes it and is not the start of the next one.
\<close>

fun group_heights :: "u64 list \<Rightarrow> u64 \<Rightarrow> u64 \<Rightarrow> (u64, u64) omap \<Rightarrow> (u64, u64) omap" where
  "group_heights [] start_h end_h m = (if start_h \<noteq> -1 \<and> end_h \<noteq> -1 then om_insert_new (start_h, end_h) m else m)"
| "group_heights (v # vs) start_h end_h m =
     (if start_h = -1 \<and> end_h = -1 then group_heights vs v v m
      else if v \<noteq> end_h + 1 then group_heights vs (-1) (-1) (om_insert_new (start_h, end_h) m)
      else group_heights vs start_h v m)"

definition add_top_ranges :: "u64 \<Rightarrow> u64 \<Rightarrow> (u64, u64) omap \<Rightarrow> (u64, u64) omap" where
  "add_top_ranges endSyncHeight chainHeight m =
     (if endSyncHeight \<ge> chainHeight - 10 then
        (if chainHeight > 10 then om_insert_new (chainHeight, chainHeight + 10) (om_insert_new (chainHeight - 10, chainHeight) m)
         else om_insert_new (1, chainHeight + 10) m)
      else m)"

text \<open>The result: the code, the ranges, the nodes that answered and the height of the chain.\<close>

definition sum_result :: "db_reader \<Rightarrow> u64 \<Rightarrow> string list \<Rightarrow> u64 \<Rightarrow> sync_event list \<times> (u64 list + int) \<Rightarrow> (int \<times> (u64, u64) omap \<times> string list \<times> u64) run" where
  "sum_result rd endSyncHeight retNodeIds chainHeight res = (case snd res of
     Inr code \<Rightarrow> Inr (fst res, code, [], retNodeIds, chainHeight)
   | Inl hs \<Rightarrow> bindE (lift_db (GetBlockTop rd 0)) (\<lambda>_.
       Inr (fst res, 0, add_top_ranges endSyncHeight chainHeight (group_heights hs (-1) (-1) []), retNodeIds, chainHeight)))"

definition GetSyncSumHashNode :: "'e new_env_scheme \<Rightarrow> db_reader \<Rightarrow> string list \<Rightarrow> u64 \<Rightarrow> u64 \<Rightarrow> u64 \<Rightarrow>
    (int \<times> (u64, u64) omap \<times> string list \<times> u64) run" where
  "GetSyncSumHashNode env rd sendNodeIds startSyncHeight endSyncHeight newSyncSnedNum =
     (let sendNum = length sendNodeIds;
          acceptanceRate = dbl (if unat newSyncSnedNum \<ge> UINT32_MAX then 9 / 10 else 4 / 5);
          (ok, retDatas) = ask_sum env sendNodeIds (dtrunc (dmul (of_nat sendNum) acceptanceRate)) startSyncHeight endSyncHeight
      in if \<not> ok \<and> (retDatas = [] \<or> length retDatas < sendNum div 2) then Inr ([], -3, [], [], 0)
      else let acks = List.map_filter (parse_sum env) retDatas; retNodeIds = map fst acks;
               retNodeTops = sort (map (\<lambda>a. fst (snd a)) acks);
               verifyNum = dtrunc (dmul (of_nat (length retNodeTops)) (dbl (33 / 50))) in
        if verifyNum \<ge> length retNodeTops then Inr ([], -4, [], retNodeIds, 0)
        else let chainHeight = retNodeTops ! verifyNum; (consensusMap, syncHashDatas) = read_sums acks in
          bindE (sum_entries env rd newSyncSnedNum sendNum (length retDatas) verifyNum consensusMap (sort_keys env syncHashDatas) [])
            (sum_result rd endSyncHeight retNodeIds chainHeight))"

section \<open>A run\<close>

fun sync_ranges :: "'e new_env_scheme \<Rightarrow> db_reader \<Rightarrow> net \<Rightarrow> string list \<Rightarrow> u64 \<Rightarrow> u64 \<Rightarrow> u64 \<Rightarrow> bool \<Rightarrow> (u64 \<times> u64) list \<Rightarrow> int option run" where
  "sync_ranges env rd s retNodeIds selfNodeHeight chainHeight num fast [] = Inr ([], None)"
| "sync_ranges env rd s retNodeIds selfNodeHeight chainHeight num fast (syncHeight # rs) =
     bindE (GetSyncBlockHashNode env rd s retNodeIds (fst syncHeight) (snd syncHeight) selfNodeHeight chainHeight num) (\<lambda>(ev, ret, secRetNodeIds, reqHashes).
     if ret \<noteq> 0 then Inr (ev, Some (ret - 3000))
     else case GetSyncBlockData env secRetNodeIds reqHashes of (ev2, ret2) \<Rightarrow>
       if ret2 \<noteq> 0 then Inr (ev @ ev2, Some (if fast then 2 else ret2 - 4000))
       else bindE (sync_ranges env rd s retNodeIds selfNodeHeight chainHeight num fast rs) (\<lambda>(ev3, r). Inr (ev @ ev2 @ ev3, r)))"

text \<open>\<open>fast\<close> is the flag \<open>runFastSync\<close>, which this function only reads.\<close>

definition RunNewSyncOnce :: "'e new_env_scheme \<Rightarrow> db_reader \<Rightarrow> (string \<Rightarrow> (string \<times> string) option) \<Rightarrow> (string list \<Rightarrow> nat \<Rightarrow> bool \<times> string list) \<Rightarrow> net \<Rightarrow>
    string list \<Rightarrow> u64 \<Rightarrow> u64 \<Rightarrow> u64 \<Rightarrow> u64 \<Rightarrow> u32 \<Rightarrow> bool \<Rightarrow> sync_memory \<Rightarrow> (sync_memory \<times> int) run" where
  "RunNewSyncOnce env rd parse ask s pledgeAddr chainHeight selfNodeHeight startSyncHeight endSyncHeight syncNodeCount fast mem =
     (if startSyncHeight > endSyncHeight then Inr ([], mem, -1)
      else bindE (lift_db (GetSyncNode env rd parse ask s (unat syncNodeCount) chainHeight pledgeAddr mem [])) (\<lambda>(mem1, ret, sendNodeIds).
      if ret \<noteq> 0 then Inr ([], mem1, ret - 1000)
      else bindE (GetSyncSumHashNode env rd sendNodeIds startSyncHeight endSyncHeight (ucast syncNodeCount)) (\<lambda>(ev, ret1, needSyncHeights, retNodeIds, chain').
        if ret1 < 0 then Inr (ev, mem1, ret1 - 2000)
        else bindE (sync_ranges env rd s retNodeIds selfNodeHeight chain' (ucast syncNodeCount) fast needSyncHeights) (\<lambda>(ev2, r).
          Inr (ev @ ev2, mem1, case r of Some code \<Rightarrow> code | None \<Rightarrow> if fast then 99 else if ret1 = 99 then 1 else 0)))))"

section \<open>What a run gives to the block helper\<close>

lemma AddBlockToMap_sub: "holds (AddBlockToMap c m) h b \<Longrightarrow> holds m h b \<or> b = c \<and> h = u64_height c"
  using bs_insert_subset by (fastforce simp: AddBlockToMap_def holds_def om_find_insert split: option.splits if_splits)

lemma holds_Nil [simp]: "\<not> holds [] h b"
  by (simp add: holds_def)

text \<open>Blocks to save have the hash of their content; blocks to roll back are own blocks.\<close>

definition own_block :: "'e block_env_scheme \<Rightarrow> db_reader \<Rightarrow> CBlock \<Rightarrow> bool" where
  "own_block env rd b \<longleftrightarrow> (\<exists>hash raw. GetBlockByBlockHash rd hash [] = Inr (DB_SUCCESS, raw) \<and> b = read_block env raw)"

definition own_map :: "'e block_env_scheme \<Rightarrow> db_reader \<Rightarrow> block_map \<Rightarrow> bool" where
  "own_map env rd m \<longleftrightarrow> (\<forall>h b. holds m h b \<longrightarrow> own_block env rd b \<and> h = u64_height b)"

fun event_ok :: "'e block_env_scheme \<Rightarrow> db_reader \<Rightarrow> sync_event \<Rightarrow> bool" where
  "event_ok env rd (AddSyncBlock data ty) \<longleftrightarrow> ty = SyncNormal \<and> (\<forall>h b. holds data h b \<longrightarrow> blk_hash b = hash_of_block env b \<and> h = u64_height b)"
| "event_ok env rd (AddRollbackBlock rb) \<longleftrightarrow> own_map env rd rb"
| "event_ok env rd (AddFastSyncBlock data ty) \<longleftrightarrow> False"

lemma own_map_Nil [simp]: "own_map env rd []"
  by (simp add: own_map_def)

lemma own_map_add: "own_map env rd m \<Longrightarrow> own_block env rd b \<Longrightarrow> own_map env rd (AddBlockToMap b m)"
  by (auto simp: own_map_def dest!: AddBlockToMap_sub)

lemma own_read: "GetBlockByBlockHash rd hash [] = Inr (DB_SUCCESS, raw) \<Longrightarrow> own_block env rd (read_block env raw)"
  by (auto simp: own_block_def)

lemma own_parsed: "GetBlockByBlockHash rd hash [] = Inr (DB_SUCCESS, raw) \<Longrightarrow> be_parse_block env raw = Some b \<Longrightarrow> own_block env rd b"
  using own_read [of rd hash raw env] by (simp add: read_block_def)

lemmas own_intros = own_map_add own_read own_parsed

lemma roll_unnamed_own: "roll_unnamed env rd chainHeight hs rb = Inr rb' \<Longrightarrow> own_map env rd rb \<Longrightarrow> own_map env rd rb'"
  by (induction hs arbitrary: rb) (fastforce simp: bindE_eq_Inr_iff Let_def intro: own_intros split: if_splits)+

lemma roll_old_own: "roll_old env rd ds rb = Inr (Some rb') \<Longrightarrow> own_map env rd rb \<Longrightarrow> own_map env rd rb'"
  by (induction ds arbitrary: rb) (fastforce simp: bindE_eq_Inr_iff Let_def intro: own_intros split: if_splits)+

lemma roll_forked_own: "roll_forked env rd hs rb = Inr rb' \<Longrightarrow> own_map env rd rb \<Longrightarrow> own_map env rd rb'"
proof (induction hs arbitrary: rb)
  case (Cons h hs)
  then obtain st raw where get: "GetBlockByBlockHash rd h [] = Inr (st, raw)" by (auto simp: bindE_eq_Inr_iff)
  then have "st = DB_SUCCESS \<Longrightarrow> be_parse_block env raw = Some b \<Longrightarrow> own_block env rd b" for b
    using own_parsed by blast
  then show ?case using Cons by (auto simp: get intro: own_map_add split: if_splits option.splits)
qed simp

lemma scan_hash_spec:
  assumes "scan_hash env rd chainHeight n e sc = Inr (Some sc')"
  obtains res raw where "GetBlockByBlockHash rd (fst e) [] = Inr (res, raw)" and "res = DB_SUCCESS \<or> res = DB_NOT_FOUND"
    and "hs_verify sc' = (if n \<le> length (snd e) \<and> res = DB_NOT_FOUND then insort_insert (fst e) (hs_verify sc) else hs_verify sc)"
    and "hs_nodes sc' = (if n \<le> length (snd e) \<and> res = DB_NOT_FOUND then
          (if hs_nodes sc = [] then snd e else fold insort_insert (set_intersection (hs_nodes sc) (snd e)) (hs_nodes sc)) else hs_nodes sc)"
    and "hs_rollback sc' = hs_rollback sc \<or> (\<exists>b. own_block env rd b \<and> hs_rollback sc' = AddBlockToMap b (hs_rollback sc))"
proof -
  obtain res raw where get: "GetBlockByBlockHash rd (fst e) [] = Inr (res, raw)"
    using assms by (auto simp: scan_hash_def bindE_eq_Inr_iff)
  then have own: "res = DB_SUCCESS \<Longrightarrow> be_parse_block env raw = Some b \<Longrightarrow> own_block env rd b" for b
    using own_parsed by blast
  have res: "res = DB_SUCCESS \<or> res = DB_NOT_FOUND" using assms by (auto simp: scan_hash_def get split: if_split_asm)
  show ?thesis
  proof (rule that [OF get res])
    show "hs_verify sc' = (if n \<le> length (snd e) \<and> res = DB_NOT_FOUND then insort_insert (fst e) (hs_verify sc) else hs_verify sc)"
      "hs_nodes sc' = (if n \<le> length (snd e) \<and> res = DB_NOT_FOUND then
          (if hs_nodes sc = [] then snd e else fold insort_insert (set_intersection (hs_nodes sc) (snd e)) (hs_nodes sc)) else hs_nodes sc)"
      "hs_rollback sc' = hs_rollback sc \<or> (\<exists>b. own_block env rd b \<and> hs_rollback sc' = AddBlockToMap b (hs_rollback sc))"
      using assms res own by (cases "n \<le> length (snd e)"; cases "be_parse_block env raw"; auto simp: scan_hash_def get Let_def)+
  qed
qed

lemma scan_hash_own:
  "scan_hash env rd chainHeight n e sc = Inr (Some sc') \<Longrightarrow> own_map env rd (hs_rollback sc) \<Longrightarrow> own_map env rd (hs_rollback sc')"
  by (erule scan_hash_spec) (auto intro: own_map_add)

lemma scan_hashes_own:
  "scan_hashes env rd chainHeight n es sc = Inr (Some sc') \<Longrightarrow> own_map env rd (hs_rollback sc) \<Longrightarrow> own_map env rd (hs_rollback sc')"
  by (induction es arbitrary: sc) (auto simp: bindE_eq_Inr_iff dest: scan_hash_own split: option.splits)

lemma asked_blocks_set:
  "b \<in> set (asked_blocks env reqHashes retDatas) \<Longrightarrow> blk_hash b \<in> set reqHashes \<and> blk_hash b = hash_of_block env b"
  by (auto simp: asked_blocks_def good_blocks_set split: option.splits)

lemma first_of_mem: "first_of bs b \<Longrightarrow> b \<in> set bs"
  by (auto simp: first_of_def)

lemma GetSyncBlockData_ok: "e \<in> set (fst (GetSyncBlockData env ids reqHashes)) \<Longrightarrow> event_ok env rd e"
  using fold_AddBlockToMap asked_blocks_set first_of_mem
  by (fastforce simp: GetSyncBlockData_def split: if_splits prod.splits)

abbreviation no_scan :: hash_scan where
  "no_scan \<equiv> \<lparr>hs_exits = [], hs_verify = [], hs_nodes = [], hs_rollback = []\<rparr>"

lemma GetSyncBlockHashNode_cases:
  assumes "GetSyncBlockHashNode env rd s ids start_h end_h self chain num = Inr (ev, r)"
  obtains (failed) "ev = []" and "fst r < 0"
  | (voted) acks sc v_diff rb
    where "acks = valid_acks env (snd (ask_hash env ids (dtrunc (dmul (of_nat (length ids)) (dbl (4 / 5)))) start_h end_h))"
      and "scan_hashes env rd chain (length acks div 5 * 4) (hash_table acks) no_scan = Inr (Some sc)"
      and "own_unnamed rd start_h end_h self (hs_exits sc) = Inr (Some v_diff)"
      and "roll_unnamed env rd chain v_diff (hs_rollback sc) = Inr rb"
      and "(ev, r) = hash_result env s num (sc\<lparr>hs_rollback := rb\<rparr>)"
proof -
  obtain ok datas where ask: "ask_hash env ids (dtrunc (dmul (of_nat (length ids)) (dbl (4 / 5)))) start_h end_h = (ok, datas)" by fastforce
  let ?acks = "valid_acks env datas"
  show ?thesis
  proof (cases "\<not> ok \<and> of_nat (length datas) < dmul (of_nat (length ids)) (dbl (1 / 2))")
    case True
    then show ?thesis using assms that(1) by (auto simp: GetSyncBlockHashNode_def ask)
  next
    case False
    then obtain r1 where r1: "scan_hashes env rd chain (length ?acks div 5 * 4) (hash_table ?acks) no_scan = Inr r1"
      using assms by (auto simp: GetSyncBlockHashNode_def ask Let_def bindE_eq_Inr_iff)
    show ?thesis
    proof (cases r1)
      case None
      then show ?thesis using assms False that(1) by (auto simp: GetSyncBlockHashNode_def ask Let_def r1)
    next
      case (Some sc)
      then obtain r2 where r2: "own_unnamed rd start_h end_h self (hs_exits sc) = Inr r2"
        using assms False by (auto simp: GetSyncBlockHashNode_def ask Let_def r1 bindE_eq_Inr_iff)
      show ?thesis
      proof (cases r2)
        case None
        then show ?thesis using assms False that(1) by (auto simp: GetSyncBlockHashNode_def ask Let_def r1 Some r2)
      next
        case v: (Some v_diff)
        then show ?thesis using assms False that(2) [OF _ r1 [unfolded Some] r2 [unfolded v]]
          by (auto simp: GetSyncBlockHashNode_def ask Let_def r1 Some r2 bindE_eq_Inr_iff)
      qed
    qed
  qed
qed

lemma GetSyncBlockHashNode_ok:
  assumes "GetSyncBlockHashNode env rd s ids start_h end_h self chain num = Inr (ev, r)" and "e \<in> set ev"
  shows "event_ok env rd e"
  using assms(1)
proof (cases rule: GetSyncBlockHashNode_cases)
  case (voted acks sc v_diff rb)
  have "own_map env rd rb" using roll_unnamed_own [OF voted(4)] scan_hashes_own [OF voted(2)] by simp
  then show ?thesis using assms(2) voted(5) by (auto simp: hash_result_def split: if_splits)
qed (use assms(2) in simp)

lemma GetSyncBlockBySumHashNode_ok:
  "GetSyncBlockBySumHashNode env rd ids a b self = Inr (ev, r) \<Longrightarrow> e \<in> set ev \<Longrightarrow> event_ok env rd e"
proof -
  have fetch: "e \<in> set (fst (fetch_needed env ids hs own)) \<Longrightarrow> event_ok env rd e" for hs own
    using GetSyncBlockData_ok [of e env ids "set_difference hs own" rd] by (simp add: fetch_needed_def split_beta)
  assume run: "GetSyncBlockBySumHashNode env rd ids a b self = Inr (ev, r)" and e: "e \<in> set ev"
  consider "ev = []" | hs own where "fetch_needed env ids hs own = (ev, r)"
    | ds r' hs own where "roll_old env rd ds [] = Inr r'" "roll_or_fetch env ids hs own r' = (ev, r)"
    using run by (auto simp: GetSyncBlockBySumHashNode_def bindE_eq_Inr_iff Let_def split_beta split: if_split_asm)
  then show ?thesis
  proof cases
    case 1
    then show ?thesis using e by simp
  next
    case 2
    then show ?thesis using e fetch by (metis fst_conv)
  next
    case 3
    show ?thesis
    proof (cases r')
      case None
      then show ?thesis using 3 e by (simp add: roll_or_fetch_def)
    next
      case (Some rb)
      then show ?thesis using 3 e fetch [of hs own] roll_old_own [of env rd ds "[]" rb] by (auto simp: roll_or_fetch_def split: if_split_asm)
    qed
  qed
qed

lemma disagreement_ok: "disagreement env rd sendNum n m a b self = Inr (ev, r) \<Longrightarrow> e \<in> set ev \<Longrightarrow> event_ok env rd e"
proof -
  assume run: "disagreement env rd sendNum n m a b self = Inr (ev, r)" and e: "e \<in> set ev"
  have fork: "event_ok env rd e" if "fork_rollback env rd h = Inr (ev', r')" "e \<in> set ev'" for h ev' r'
    using that roll_forked_own by (fastforce simp: fork_rollback_def bindE_eq_Inr_iff split_beta split: if_split_asm option.split_asm)
  consider "ev = []" | h where "fork_rollback env rd h = Inr (ev, r)" | ids r' where "GetSyncBlockBySumHashNode env rd ids a b self = Inr (ev, r')"
  proof (cases "lists_of_height env m a")
    case Nil
    then show ?thesis using run by (auto simp: disagreement_def bindE_eq_Inr_iff Let_def)
  next
    case (Cons l ls)
    obtain best ids where l: "l = (best, ids)" by (cases l)
    show ?thesis using run that by (auto simp: disagreement_def bindE_eq_Inr_iff Let_def Cons l split: if_split_asm)
  qed
  then show ?thesis using e fork GetSyncBlockBySumHashNode_ok by cases auto
qed

lemma compare_sum_events: "compare_sum env rd a b hash hs ev = Inr (ev', r) \<Longrightarrow> ev' = ev"
  by (auto simp: compare_sum_def bindE_eq_Inr_iff split: if_split_asm)

lemma sum_entry_ok: "sum_entry env rd num sendNum n v m d hs = Inr (ev, r) \<Longrightarrow> e \<in> set ev \<Longrightarrow> event_ok env rd e"
proof -
  assume run: "sum_entry env rd num sendNum n v m d hs = Inr (ev, r)" and e: "e \<in> set ev"
  consider "ev = []" | a b self ev' step hash where "disagreement env rd sendNum n m a b self = Inr (ev', step)"
      "(case step of Finish code \<Rightarrow> Inr (ev', Inr code) | Skip \<Rightarrow> Inr (ev', Inl hs) | Compare \<Rightarrow> compare_sum env rd a b hash hs ev') = Inr (ev, r)"
    using run compare_sum_events by (fastforce simp: sum_entry_def bindE_eq_Inr_iff Let_def split: if_split_asm prod.split_asm)
  then show ?thesis
  proof cases
    case 2
    then have "ev' = ev" by (cases step) (auto dest: compare_sum_events)
    with 2 e show ?thesis using disagreement_ok by blast
  qed (use e in simp)
qed

lemma sum_entries_ok: "sum_entries env rd num sendNum n v m ds hs = Inr (ev, r) \<Longrightarrow> e \<in> set ev \<Longrightarrow> event_ok env rd e"
proof (induction ds arbitrary: hs ev r)
  case (Cons d ds)
  then obtain ev1 r1 where d: "sum_entry env rd num sendNum n v m d hs = Inr (ev1, r1)" by (auto simp: bindE_eq_Inr_iff)
  show ?case
  proof (cases r1)
    case (Inl hs')
    with Cons.prems d obtain ev2 r2 where "sum_entries env rd num sendNum n v m ds hs' = Inr (ev2, r2)" "ev = ev1 @ ev2"
      by (auto simp: bindE_eq_Inr_iff)
    then show ?thesis using Cons.IH Cons.prems(2) sum_entry_ok [OF d] by auto
  next
    case (Inr code)
    then show ?thesis using Cons.prems d sum_entry_ok [OF d] by simp
  qed
qed simp

lemma sum_result_events: "sum_result rd b ids chain res = Inr (ev, r) \<Longrightarrow> fst res = ev"
  by (cases "snd res") (auto simp: sum_result_def bindE_eq_Inr_iff)

lemma GetSyncSumHashNode_ok: "GetSyncSumHashNode env rd ids a b num = Inr (ev, r) \<Longrightarrow> e \<in> set ev \<Longrightarrow> event_ok env rd e"
proof -
  assume run: "GetSyncSumHashNode env rd ids a b num = Inr (ev, r)" and e: "e \<in> set ev"
  then obtain n k v m ds hs r' where "sum_entries env rd num n k v m ds hs = Inr (ev, r')"
    by (auto simp: GetSyncSumHashNode_def bindE_eq_Inr_iff Let_def split_beta dest!: sum_result_events split: if_split_asm)
  with e show ?thesis by (rule sum_entries_ok [rotated])
qed

lemma sync_ranges_ok: "sync_ranges env rd s ids self chain num fast rs = Inr (ev, r) \<Longrightarrow> e \<in> set ev \<Longrightarrow> event_ok env rd e"
proof (induction rs arbitrary: ev r)
  case (Cons sh rs)
  then obtain ev1 ret ids2 reqs where h: "GetSyncBlockHashNode env rd s ids (fst sh) (snd sh) self chain num = Inr (ev1, ret, ids2, reqs)"
    by (auto simp: bindE_eq_Inr_iff)
  obtain ev2 ret2 where d: "GetSyncBlockData env ids2 reqs = (ev2, ret2)" by fastforce
  then have d_ok: "x \<in> set ev2 \<Longrightarrow> event_ok env rd x" for x using GetSyncBlockData_ok [of x env ids2 reqs rd] by simp
  from Cons.prems(1) consider "ev = ev1" | "ev = ev1 @ ev2" | ev3 r3 where "sync_ranges env rd s ids self chain num fast rs = Inr (ev3, r3)" "ev = ev1 @ ev2 @ ev3"
    by (auto simp: h d bindE_eq_Inr_iff split: if_split_asm)
  then show ?case
    using Cons.prems(2) GetSyncBlockHashNode_ok [OF h] d_ok Cons.IH by cases auto
qed simp

text \<open>
  C28: A synchronisation run hands only such blocks to the block helper that are safe to take:
  every block to be saved has the hash of its content and stands under its height, and every
  block to be rolled back is one of the node's own blocks. Nothing is saved as a fast
  synchronisation.
\<close>

theorem new_sync_safe:
  assumes "RunNewSyncOnce env rd parse ask s pledgeAddr chainHeight selfNodeHeight start_h end_h n fast mem = Inr (ev, mem', code)" and "e \<in> set ev"
  shows "event_ok env rd e"
proof -
  consider "ev = []" | ev1 ids a b num r where "GetSyncSumHashNode env rd ids a b num = Inr (ev1, r)" "ev = ev1"
    | ev1 ev2 ids a b num r1 ids2 chain r2 rs where "GetSyncSumHashNode env rd ids a b num = Inr (ev1, r1)"
        "sync_ranges env rd s ids2 selfNodeHeight chain num fast rs = Inr (ev2, r2)" "ev = ev1 @ ev2"
    using assms(1) by (auto simp: RunNewSyncOnce_def bindE_eq_Inr_iff Let_def split_beta split: if_split_asm)
  then show ?thesis
    using assms(2) GetSyncSumHashNode_ok sync_ranges_ok by cases auto
qed

section \<open>Which blocks are asked for\<close>

definition voters :: "(string \<times> string list) list \<Rightarrow> string \<Rightarrow> string set" where
  "voters acks key = {nodeId. \<exists>hashes. (nodeId, hashes) \<in> set acks \<and> key \<in> set hashes}"

definition table_ok :: "hash_votes \<Rightarrow> (string \<times> string) list \<Rightarrow> bool" where
  "table_ok m vs \<longleftrightarrow> om_wf m \<and> (\<forall>key. case om_find m key of
     None \<Rightarrow> \<forall>nodeId. (nodeId, key) \<notin> set vs
   | Some v \<Rightarrow> v \<noteq> [] \<and> sorted v \<and> distinct v \<and> set v = {nodeId. (nodeId, key) \<in> set vs})"

lemma table_ok_vote:
  assumes "table_ok m vs"
  shows "table_ok (vote_names nodeId key m) (vs @ [(nodeId, key)])"
  unfolding table_ok_def
proof (intro conjI allI)
  show "om_wf (vote_names nodeId key m)" using assms by (simp add: table_ok_def vote_names_def om_wf_insert)
next
  fix key'
  have *: "case om_find m key' of None \<Rightarrow> \<forall>nodeId. (nodeId, key') \<notin> set vs
     | Some v \<Rightarrow> v \<noteq> [] \<and> sorted v \<and> distinct v \<and> set v = {nodeId. (nodeId, key') \<in> set vs}"
    using assms unfolding table_ok_def by blast
  have ne: "insort_insert x xs \<noteq> []" for x :: string and xs by (metis empty_iff insertI1 list.set(1) set_insort_insert)
  show "case om_find (vote_names nodeId key m) key' of None \<Rightarrow> \<forall>n. (n, key') \<notin> set (vs @ [(nodeId, key)])
     | Some v \<Rightarrow> v \<noteq> [] \<and> sorted v \<and> distinct v \<and> set v = {n. (n, key') \<in> set (vs @ [(nodeId, key)])}"
    using * ne by (cases "key' = key"; cases "om_find m key'")
      (auto simp: vote_names_def om_find_insert set_insort_insert sorted_insort_insert distinct_insort_insert)
qed

lemma table_ok_votes: "table_ok m vs \<Longrightarrow> table_ok (fold (vote_names nodeId) hashes m) (vs @ map (Pair nodeId) hashes)"
proof (induction hashes arbitrary: m vs)
  case (Cons h hashes)
  from Cons.IH [OF table_ok_vote [OF Cons.prems]] show ?case by simp
qed simp

lemma table_ok_acks:
  "table_ok m vs \<Longrightarrow> table_ok (fold (\<lambda>(nodeId, hashes). fold (vote_names nodeId) hashes) acks m) (vs @ concat (map (\<lambda>(nodeId, hashes). map (Pair nodeId) hashes) acks))"
proof (induction acks arbitrary: m vs)
  case (Cons a acks)
  obtain nodeId hashes where a: "a = (nodeId, hashes)" by (cases a)
  from Cons.IH [OF table_ok_votes [OF Cons.prems]] show ?case by (simp add: a)
qed simp

lemma hash_table_spec:
  shows "om_wf (hash_table acks)"
    and "(key, v) \<in> set (hash_table acks) \<Longrightarrow> v \<noteq> [] \<and> distinct v \<and> set v = voters acks key"
    and "voters acks key \<noteq> {} \<Longrightarrow> \<exists>v. (key, v) \<in> set (hash_table acks)"
proof -
  define vs where "vs = concat (map (\<lambda>(nodeId, hashes). map (Pair nodeId) hashes) acks)"
  have ok: "table_ok (hash_table acks) vs"
    using table_ok_acks [of "[]" "[]" acks] by (simp add: hash_table_def table_ok_def vs_def)
  then show wf: "om_wf (hash_table acks)" by (simp add: table_ok_def)
  have vs: "{n. (n, key) \<in> set vs} = voters acks key" for key by (auto simp: voters_def vs_def)
  have find: "case om_find (hash_table acks) key of None \<Rightarrow> \<forall>n. (n, key) \<notin> set vs
      | Some v \<Rightarrow> v \<noteq> [] \<and> sorted v \<and> distinct v \<and> set v = voters acks key" for key
    using ok unfolding table_ok_def vs by blast
  show "v \<noteq> [] \<and> distinct v \<and> set v = voters acks key" if "(key, v) \<in> set (hash_table acks)"
    using find [of key] that by (simp add: om_find_in [OF wf])
  show "\<exists>v. (key, v) \<in> set (hash_table acks)" if "voters acks key \<noteq> {}"
    using find [of key] that vs [of key] by (cases "om_find (hash_table acks) key") (auto simp: om_find_in [OF wf])
qed

definition unknown :: "db_reader \<Rightarrow> string \<Rightarrow> bool" where
  "unknown rd key \<longleftrightarrow> (\<exists>raw. GetBlockByBlockHash rd key [] = Inr (DB_NOT_FOUND, raw))"

lemma fold_insort_subset: "set xs \<subseteq> set ys \<Longrightarrow> fold insort_insert xs ys = ys"
  by (induction xs) (auto simp: insort_insert_key_def)

lemma scan_hashes_spec:
  assumes "scan_hashes env rd chainHeight n es sc = Inr (Some sc')" and "\<forall>e \<in> set es. snd e \<noteq> []" and "sorted (hs_verify sc)" and "distinct (hs_verify sc)"
  shows "sorted (hs_verify sc') \<and> distinct (hs_verify sc') \<and>
    set (hs_verify sc') = set (hs_verify sc) \<union> fst ` set (filter (\<lambda>e. n \<le> length (snd e) \<and> unknown rd (fst e)) es) \<and>
    hs_nodes sc' = (if hs_nodes sc \<noteq> [] then hs_nodes sc else case filter (\<lambda>e. n \<le> length (snd e) \<and> unknown rd (fst e)) es of [] \<Rightarrow> [] | e # _ \<Rightarrow> snd e)"
  using assms
proof (induction es arbitrary: sc)
  case (Cons e es)
  from Cons.prems(1) obtain sc1 where sc1: "scan_hash env rd chainHeight n e sc = Inr (Some sc1)"
      and rest: "scan_hashes env rd chainHeight n es sc1 = Inr (Some sc')"
    by (auto simp: bindE_eq_Inr_iff split: option.split_asm)
  from sc1 obtain res raw where get: "GetBlockByBlockHash rd (fst e) [] = Inr (res, raw)" "res = DB_SUCCESS \<or> res = DB_NOT_FOUND"
    and v: "hs_verify sc1 = (if n \<le> length (snd e) \<and> res = DB_NOT_FOUND then insort_insert (fst e) (hs_verify sc) else hs_verify sc)"
    and nodes: "hs_nodes sc1 = (if n \<le> length (snd e) \<and> res = DB_NOT_FOUND then
          (if hs_nodes sc = [] then snd e else fold insort_insert (set_intersection (hs_nodes sc) (snd e)) (hs_nodes sc)) else hs_nodes sc)"
    by (rule scan_hash_spec)
  have un: "res = DB_NOT_FOUND \<longleftrightarrow> unknown rd (fst e)" using get by (auto simp: unknown_def)
  have same: "fold insort_insert (set_intersection (hs_nodes sc) (snd e)) (hs_nodes sc) = hs_nodes sc"
    by (rule fold_insort_subset) (rule set_intersection_subset)
  have "sorted (hs_verify sc1)" "distinct (hs_verify sc1)"
    using Cons.prems(3,4) by (simp_all add: v sorted_insort_insert distinct_insort_insert)
  from Cons.IH [OF rest _ this] Cons.prems(2) show ?case
    by (auto simp: v nodes un same set_insort_insert)
qed simp

text \<open>
  C30: When the vote on a range succeeds with something to ask for, the hashes are exactly
  those that the node does not have and that at least \<open>4 * (n div 5)\<close> of the \<open>n\<close> valid answers
  name, in order; the nodes that are then asked are those that named the first of them. (With
  fewer than five answers the bound is zero: a single answer is enough.)
\<close>

theorem sync_hashes_exact:
  assumes "GetSyncBlockHashNode env rd s nodes start_h end_h self chainHeight num = Inr (ev, 0, ids, reqs)" and "reqs \<noteq> []"
    and "acks = valid_acks env (snd (ask_hash env nodes (dtrunc (dmul (of_nat (length nodes)) (dbl (4 / 5)))) start_h end_h))"
  shows "ev = [] \<and> sorted reqs \<and> distinct reqs \<and> set ids = voters acks (hd reqs) \<and>
    set reqs = {key. voters acks key \<noteq> {} \<and> unknown rd key \<and> 4 * (length acks div 5) \<le> card (voters acks key)}"
  using assms(1)
proof (cases rule: GetSyncBlockHashNode_cases)
  case (voted acks' sc v_diff rb)
  have acks: "acks' = acks" using voted(1) assms(3) by simp
  let ?n = "length acks div 5 * 4" and ?t = "hash_table acks"
  let ?W = "filter (\<lambda>e. ?n \<le> length (snd e) \<and> unknown rd (fst e)) ?t"
  from voted(5) assms(2) have r: "ev = []" "ids = hs_nodes sc" "reqs = hs_verify sc" "hs_nodes sc \<noteq> []"
    by (auto simp: hash_result_def split: if_split_asm)
  have voted_by: "\<forall>e \<in> set ?t. snd e \<noteq> []" using hash_table_spec(2) by fastforce
  have sc: "sorted reqs" "distinct reqs" "set reqs = fst ` set ?W" "ids = (case ?W of [] \<Rightarrow> [] | e # _ \<Rightarrow> snd e)"
    using scan_hashes_spec [OF voted(2) [unfolded acks] voted_by] r by simp_all
  have "map fst ?W = reqs"
    using sc(1,2,3) om_wf_filter [OF hash_table_spec(1)]
    by (intro sorted_distinct_set_unique) (simp_all add: om_wf_def strict_sorted_iff)
  then obtain e W where W: "?W = e # W" "fst e = hd reqs" using assms(2) by (cases ?W) auto
  then have "e \<in> set ?W" by simp
  then have "e \<in> set ?t" by (rule subsetD [OF filter_is_subset])
  then have "(hd reqs, snd e) \<in> set ?t" using W(2) by (metis prod.collapse)
  then have "set ids = voters acks (hd reqs)" using hash_table_spec(2) [of "hd reqs" "snd e" acks] sc(4) W by simp
  moreover have "set reqs = {key. voters acks key \<noteq> {} \<and> unknown rd key \<and> 4 * (length acks div 5) \<le> card (voters acks key)}"
  proof (intro set_eqI iffI)
    fix key assume "key \<in> set reqs"
    then obtain v where "(key, v) \<in> set ?t" "?n \<le> length v" "unknown rd key" unfolding sc(3) by auto
    then show "key \<in> {key. voters acks key \<noteq> {} \<and> unknown rd key \<and> 4 * (length acks div 5) \<le> card (voters acks key)}"
      using hash_table_spec(2) [of key v acks] distinct_card [of v] by auto
  next
    fix key assume "key \<in> {key. voters acks key \<noteq> {} \<and> unknown rd key \<and> 4 * (length acks div 5) \<le> card (voters acks key)}"
    then obtain v where v: "(key, v) \<in> set ?t" "unknown rd key" "?n \<le> card (voters acks key)" using hash_table_spec(3) [of acks key] by auto
    then have "?n \<le> length v" using hash_table_spec(2) [of key v acks] distinct_card [of v] by simp
    with v have "(key, v) \<in> set ?W" by simp
    from imageI [OF this, of fst] show "key \<in> set reqs" unfolding sc(3) by simp
  qed
  ultimately show ?thesis using r sc(1,2) by simp
qed (use assms in simp)

section \<open>Heights that are lost\<close>

lemma word_of_nat_less_top: "a < 2 ^ 64 - 1 \<Longrightarrow> (word_of_nat a :: u64) \<noteq> -1"
proof
  assume a: "a < 2 ^ 64 - 1" and "(word_of_nat a :: u64) = -1"
  then have "(word_of_nat (Suc a) :: u64) = 0" by simp
  then have "unat (word_of_nat (Suc a) :: u64) = 0" by simp
  moreover have "unat (word_of_nat (Suc a) :: u64) = Suc a" using a by (simp add: unat_of_nat del: of_nat_Suc)
  ultimately show False by simp
qed

lemma group_run:
  "b + n < 2 ^ 64 - 1 \<Longrightarrow> a \<le> b \<Longrightarrow>
   group_heights (map word_of_nat [Suc b..<Suc (b + n)] @ vs) (word_of_nat a) (word_of_nat b) m = group_heights vs (word_of_nat a) (word_of_nat (b + n)) m"
proof (induction n arbitrary: b)
  case (Suc n)
  have "[Suc b..<Suc (b + Suc n)] = Suc b # [Suc (Suc b)..<Suc (Suc b + n)]" by (simp add: upt_rec)
  moreover have "(word_of_nat a :: u64) \<noteq> -1" using Suc.prems by (intro word_of_nat_less_top) simp
  moreover have "(word_of_nat (Suc b) :: u64) = word_of_nat b + 1" by simp
  ultimately show ?case using Suc.IH [of "Suc b"] Suc.prems by simp
qed simp

text \<open>
  When the heights that differ form two runs, the first height of the second run is in no
  range: it is not synchronised.
\<close>

theorem sync_gap_height_lost:
  assumes "a \<le> b" and "Suc b < c" and "c < d" and "d < 2 ^ 64 - 1"
  shows "group_heights (map word_of_nat ([a..<Suc b] @ [c..<Suc d])) (-1) (-1) [] = [(word_of_nat a, word_of_nat b), (word_of_nat (Suc c), word_of_nat d)]"
proof -
  let ?w = "word_of_nat :: nat \<Rightarrow> u64"
  have a: "[a..<Suc b] = a # [Suc a..<Suc (a + (b - a))]" and c: "[c..<Suc d] = c # Suc c # [Suc (Suc c)..<Suc (Suc c + (d - Suc c))]"
    using assms by (simp_all add: upt_rec)
  have ne: "?w a \<noteq> -1" "?w b \<noteq> -1" "?w (Suc c) \<noteq> -1" "?w d \<noteq> -1" using assms by (auto intro!: word_of_nat_less_top simp del: of_nat_Suc)
  have gap: "?w c \<noteq> ?w b + 1"
  proof
    assume "?w c = ?w b + 1"
    then have "unat (?w c) = unat (?w (Suc b))" by (simp add: add.commute)
    moreover have "unat (?w c) = c" "unat (?w (Suc b)) = Suc b" using assms by (simp_all add: unat_of_nat del: of_nat_Suc)
    ultimately show False using assms(2) by simp
  qed
  have less: "?w a < ?w (Suc c)" using assms by (simp add: word_less_nat_alt unat_of_nat del: of_nat_Suc)
  have "group_heights (map ?w ([a..<Suc b] @ [c..<Suc d])) (-1) (-1) [] = group_heights (map ?w [Suc a..<Suc (a + (b - a))] @ map ?w [c..<Suc d]) (?w a) (?w a) []"
    unfolding a by simp
  also have "\<dots> = group_heights (map ?w [c..<Suc d]) (?w a) (?w b) []"
    using group_run [of a "b - a" a "map ?w [c..<Suc d]" "[]"] assms by simp
  also have "\<dots> = group_heights (map ?w [Suc (Suc c)..<Suc (Suc c + (d - Suc c))] @ []) (?w (Suc c)) (?w (Suc c)) [(?w a, ?w b)]"
    unfolding c using ne gap by (simp add: om_insert_new_def del: of_nat_Suc)
  also have "\<dots> = group_heights [] (?w (Suc c)) (?w d) [(?w a, ?w b)]"
    using group_run [of "Suc c" "d - Suc c" "Suc c" "[]" "[(?w a, ?w b)]"] assms by simp
  also have "\<dots> = [(?w a, ?w b), (?w (Suc c), ?w d)]"
    using ne less by (auto simp add: om_insert_new_def simp del: of_nat_Suc)
  finally show ?thesis .
qed

theorem sync_gap_height_lost_witness: "group_heights [1, 2, 5, 6, 7] (-1) (-1) [] = [(1, 2), (6, 7)]"
  using sync_gap_height_lost [of 1 2 5 7] by (simp add: upt_rec)

text \<open>On a chain below height ten the last ten heights are left out: the difference wraps around.\<close>

lemma top_ranges_short_chain:
  assumes "chainHeight < 10" and "endSyncHeight < 2 ^ 63"
  shows "add_top_ranges endSyncHeight chainHeight m = m"
proof -
  have "unat (chainHeight - 10) = unat chainHeight + 2 ^ 64 - 10"
    using assms(1) by (simp add: unat_sub_if' word_less_nat_alt)
  moreover have "unat endSyncHeight < 2 ^ 63" using assms(2) by (simp add: word_less_nat_alt)
  ultimately have "\<not> chainHeight - 10 \<le> endSyncHeight" by (simp add: word_le_nat_alt)
  then show ?thesis by (simp add: add_top_ranges_def)
qed

section \<open>Examples\<close>

definition new_sample :: "(string \<times> u64 \<times> (u64 \<times> u64 \<times> string) list) list \<Rightarrow> (string \<times> string list) list \<Rightarrow> new_env" where
  "new_sample sums_of hashes_of = \<lparr>se_qualified = (\<lambda>a. True), se_kMinUnstakeHeight = 100, se_KMinSyncQualNodes = 1, se_kNeed_node_threshold = 3, se_draw = (\<lambda>k. 0),
     be_parse_block = (\<lambda>raw. Some (sample_blk raw)), be_partial_block = sample_blk, be_ser_block = (\<lambda>b. []), be_sha256 = (\<lambda>s. ''x''), be_now = 0,
     be_sum_hash_range = 100, be_floor = (\<lambda>h. h), be_ceiling = (\<lambda>h. h),
     ask_fast_hash = (\<lambda>nodes n a b. (False, [])), parse_fast_hash = (\<lambda>d. None), ask_fast_block = (\<lambda>node reqs. (False, [])), parse_fast_block = (\<lambda>d. None), sort_fast_blocks = (\<lambda>bs. bs),
     ask_sum = (\<lambda>nodes n a b. (True, map fst sums_of)), parse_sum = (\<lambda>d. map_option (Pair d) (map_of sums_of d)),
     ask_hash = (\<lambda>nodes n a b. (True, map fst hashes_of)), parse_hash = (\<lambda>d. map_option (\<lambda>hs. (d, 0, hs)) (map_of hashes_of d)), partial_hash = (\<lambda>d. []),
     ask_block = (\<lambda>nodes reqs. (True, [''data''])), parse_block_ack = (\<lambda>d. Some [''x'', ''z'']), sort_keys = (\<lambda>ks. ks), sort_lists = (\<lambda>ls. ls)\<rparr>"

lemma new_sample_simps [simp]:
  "ask_sum (new_sample us vs) nodes n a b = (True, map fst us)" "parse_sum (new_sample us vs) d = map_option (Pair d) (map_of us d)"
  "ask_hash (new_sample us vs) nodes n a b = (True, map fst vs)" "parse_hash (new_sample us vs) d = map_option (\<lambda>hs. (d, 0, hs)) (map_of vs d)"
  "sort_keys (new_sample us vs) ks = ks" "sort_lists (new_sample us vs) ls = ls" "be_sha256 (new_sample us vs) t = ''x''"
  "ask_block (new_sample us vs) nodes reqs = (True, [''data''])" "parse_block_ack (new_sample us vs) d = Some [''x'', ''z'']"
  "be_parse_block (new_sample us vs) raw = Some (sample_blk raw)" "be_ser_block (new_sample us vs) blk = []"
  by (simp_all add: new_sample_def)









text \<open>A hash that one of two answers names is asked for, from the nodes that named the first one.\<close>

lemma new_sample_acks: "valid_acks (new_sample us [(''m'', [''x'']), (''n'', [''x'', ''z''])]) [''m'', ''n''] = [(''m'', [''x'']), (''n'', [''x'', ''z''])]"
  by (simp add: valid_acks_def map_filter_simps)

lemma sample_votes:
  assumes "7 < start_h" and "7 < end_h"
  shows "GetSyncBlockHashNode (new_sample us [(''m'', [''x'']), (''n'', [''x'', ''z''])]) (fast_reader []) s [''m'', ''n''] start_h end_h 7 20 2 =
    Inr ([], 0, [''m'', ''n''], [''x'', ''z''])"
proof -
  have "\<not> start_h \<le> 7" using assms(1) by simp
  then have own: "own_unnamed (fast_reader []) start_h end_h 7 hs = Inr (Some [])" for hs using assms(2) by (simp add: own_unnamed_def)
  have table: "hash_table [(''m'', [''x'']), (''n'', [''x'', ''z''])] = [(''x'', [''m'', ''n'']), (''z'', [''n''])]" by code_simp
  have get: "GetBlockByBlockHash (fast_reader []) ''x'' [] = Inr (DB_NOT_FOUND, [])" "GetBlockByBlockHash (fast_reader []) ''z'' [] = Inr (DB_NOT_FOUND, [])" by code_simp+
  have sets: "set_intersection [''m'', ''n''] [''n''] = [''n'']" "insort_insert ''n'' [''m'', ''n''] = [''m'', ''n'']" "insort_insert ''x'' [] = [''x'']" "insort_insert ''z'' [''x''] = [''x'', ''z'']"
    by code_simp+
  show ?thesis
    by (simp add: GetSyncBlockHashNode_def new_sample_acks table scan_hash_def get sets own hash_result_def Let_def)
qed

theorem sync_hashes_exact_witness:
  "\<exists>ids. GetSyncBlockHashNode (new_sample [] [(''m'', [''x'']), (''n'', [''x'', ''z''])]) (fast_reader []) (sample_net []) [''m'', ''n''] 8 9 7 20 2 = Inr ([], 0, ids, [''x'', ''z'']) \<and>
     set ids = voters [(''m'', [''x'']), (''n'', [''x'', ''z''])] ''x'' \<and> ''z'' \<in> {key. card (voters [(''m'', [''x'']), (''n'', [''x'', ''z''])] key) \<ge> 4 * (2 div 5)}"
  using sync_hashes_exact [OF sample_votes, of 8 9 "[(''m'', [''x'']), (''n'', [''x'', ''z''])]"] sample_votes [of 8 9] by (simp add: new_sample_acks)

lemma sample_data:
  "GetSyncBlockData (new_sample us vs) [''m'', ''n''] [''x'', ''z''] = ([AddSyncBlock [(5, [sample_blk ''x''])] SyncNormal], 0)"
proof -
  have "asked_blocks (new_sample us vs) [''x'', ''z''] [''data''] = [sample_blk ''x'']"
    by (simp add: asked_blocks_def map_filter_simps hash_of_block_def sample_blk_def)
  moreover have "fold AddBlockToMap [sample_blk ''x''] [] = [(5, [sample_blk ''x''])]"
    by (simp add: AddBlockToMap_def sample_blk_def)
  ultimately show ?thesis by (simp add: GetSyncBlockData_def)
qed

theorem new_sync_safe_witness:
  "\<exists>ev mem' code. RunNewSyncOnce (new_sample [(''m'', 20, []), (''n'', 20, [])] [(''m'', [''x'']), (''n'', [''x'', ''z''])]) (fast_reader []) (\<lambda>d. None) (\<lambda>nodes n. (False, []))
      (sample_net [''m'', ''n'']) [] 7 7 1 12 2 False \<lparr>forceFindBaseChain = True, lastEqualHeight = 0, equalHeightCount = 0\<rparr> = Inr (ev, mem', code) \<and>
    AddSyncBlock [(5, [sample_blk ''x''])] SyncNormal \<in> set ev \<and>
    event_ok (new_sample [(''m'', 20, []), (''n'', 20, [])] [(''m'', [''x'']), (''n'', [''x'', ''z''])]) (fast_reader []) (AddSyncBlock [(5, [sample_blk ''x''])] SyncNormal)"
proof -
  let ?env = "new_sample [(''m'', 20, []), (''n'', 20, [])] [(''m'', [''x'']), (''n'', [''x'', ''z''])]"
  let ?mem = "\<lparr>forceFindBaseChain = True, lastEqualHeight = 0, equalHeightCount = 0\<rparr>" and ?net = "sample_net [''m'', ''n'']"
  let ?add = "AddSyncBlock [(5, [sample_blk ''x''])] SyncNormal"
  have wanted: "wanted ?env 2 7 (map sample_node [''m'', ''n'']) = 2" by (simp add: wanted_def new_sample_def)
  have fields: "se_kMinUnstakeHeight ?env = 100" "se_qualified ?env a" "se_draw ?env k = 0" for a k by (simp_all add: new_sample_def)
  have pick: "pick_nodes (<) 7 (se_draw ?env) 0 2 [] (map sample_node [''m'', ''n'']) = ([''m'', ''n''], 2)"
    by (simp add: pick_nodes.simps fields sample_node_def insort_insert_key_def)
  have basic: "GetSyncNodeBasic ?env (fast_reader []) ?net 2 7 (<) [] = Inr (0, [''m'', ''n''])"
  proof -
    have all: "filter (\<lambda>n. se_qualified ?env (address n)) (map sample_node [''m'', ''n'']) = map sample_node [''m'', ''n'']" by (simp add: fields)
    have again: "pick_nodes (<) 7 (se_draw ?env) 2 2 [''m'', ''n''] ns = ([''m'', ''n''], 2)" for ns by (simp add: pick_nodes.simps)
    have "\<not> of_nat 2 < dmul (of_nat 2) (dbl (1 / 2))" using dmul_le(1) [OF decimal_half, of 2 2] by (simp add: not_less)
    then show ?thesis
      unfolding GetSyncNodeBasic_def fast_reader_top sample_net_nodes Let_def bindE_Inr prod.case wanted all pick again by (simp add: fields)
  qed
  have chosen: "GetSyncNode ?env (fast_reader []) (\<lambda>d. None) (\<lambda>nodes n. (False, [])) ?net 2 7 [] ?mem [] =
      Inr (?mem\<lparr>equalHeightCount := 0, lastEqualHeight := 7, forceFindBaseChain := False\<rparr>, 0, [''m'', ''n''])"
    by (simp add: GetSyncNode_def fast_reader_top choose_side_def basic)
  have num: "dtrunc (dmul 2 (dbl (33 / 50))) = 1" using dtrunc_dmul [OF decimal_066, of 2] by simp
  have sum: "GetSyncSumHashNode ?env (fast_reader []) [''m'', ''n''] 1 12 2 = Inr ([], 0, [(10, 20), (20, 30)], [''m'', ''n''], 20)"
    by (simp add: GetSyncSumHashNode_def map_filter_simps Let_def read_sums_def num sum_result_def fast_reader_top add_top_ranges_def om_insert_new_def)
  have "RunNewSyncOnce ?env (fast_reader []) (\<lambda>d. None) (\<lambda>nodes n. (False, [])) ?net [] 7 7 1 12 2 False ?mem =
      Inr ([?add, ?add], ?mem\<lparr>equalHeightCount := 0, lastEqualHeight := 7, forceFindBaseChain := False\<rparr>, 0)"
    by (simp add: RunNewSyncOnce_def chosen sum sample_votes sample_data)
  from new_sync_safe [OF this, of ?add] this show ?thesis by (intro exI conjI) (assumption, simp_all)
qed

end
