(* ===== verification/Sync_Zero.thy ===== *)
theory Sync_Zero
  imports Sync_New
begin

text \<open>
  Synchronisation from far behind, \<open>ca/sync_block.cpp\<close>: the vote on the stored sums of a hundred
  heights (\<open>_GetFromZeroSyncSumHashNode\<close>), the download of all blocks below a sum
  (\<open>_GetFromZeroSyncBlockData\<close>) into a cache, and the run that combines them
  (\<open>_RunFromZeroSyncOnce\<close>).
\<close>

record zero_env = new_env +
  ask_zero_sum :: "string list \<Rightarrow> nat \<Rightarrow> u64 list \<Rightarrow> bool \<times> string list"
  parse_zero_sum :: "string \<Rightarrow> (string \<times> int \<times> (u64 \<times> string) list) option"
  ask_zero_block :: "(string \<times> u64) list \<Rightarrow> string list"
  parse_zero_block :: "string \<Rightarrow> (u64 \<times> string list) option"

section \<open>The vote on stored sums\<close>

type_synonym zero_table = "(string, u64 \<times> string list) omap"

text \<open>The answer that brings a new sum only creates its entry; its node is not counted.\<close>

definition add_zero_sum :: "string \<Rightarrow> u64 \<times> string \<Rightarrow> zero_table \<Rightarrow> zero_table" where
  "add_zero_sum nodeId v m = (case om_find m (snd v) of
     None \<Rightarrow> om_insert (snd v) (fst v, []) m
   | Some (h, ids) \<Rightarrow> om_insert (snd v) (h, ids @ [nodeId]) m)"

text \<open>An answer with code zero has no sums; it counts as a success only when every node is asked.\<close>

definition zero_acks :: "'e zero_env_scheme \<Rightarrow> string list \<Rightarrow> (string \<times> (u64 \<times> string) list) list" where
  "zero_acks env retDatas = List.map_filter (\<lambda>d. case parse_zero_sum env d of
     None \<Rightarrow> None | Some (nodeId, code, vs) \<Rightarrow> if code = 0 then None else Some (nodeId, vs)) retDatas"

definition empty_acks :: "'e zero_env_scheme \<Rightarrow> string list \<Rightarrow> nat" where
  "empty_acks env retDatas = length (filter (\<lambda>d. case parse_zero_sum env d of None \<Rightarrow> False | Some (nodeId, code, vs) \<Rightarrow> code = 0) retDatas)"

definition zero_table_of :: "(string \<times> (u64 \<times> string) list) list \<Rightarrow> zero_table" where
  "zero_table_of acks = fold (\<lambda>(nodeId, vs). fold (add_zero_sum nodeId) vs) acks []"

definition zero_enough :: "nat \<Rightarrow> nat \<Rightarrow> bool" where
  "zero_enough votes successCount \<longleftrightarrow> of_nat votes \<ge> dmul (of_nat successCount) (dbl (33 / 50))"

type_synonym zero_choice = "(u64, string) omap \<times> string list"

text \<open>
  The scan of the sums; when every node was asked, the first sum without enough votes that is
  near the own height replaces the whole result by the largest group for its height.
\<close>

fun zero_scan :: "'e zero_env_scheme \<Rightarrow> bool \<Rightarrow> u64 \<Rightarrow> nat \<Rightarrow> zero_table \<Rightarrow> zero_table \<Rightarrow> zero_choice \<Rightarrow> zero_choice" where
  "zero_scan env full self successCount table [] (sumHashes, retNodeIds) = (sumHashes, retNodeIds)"
| "zero_scan env full self successCount table ((hash, h, ids) # es) (sumHashes, retNodeIds) =
     (if zero_enough (length ids) successCount
      then zero_scan env full self successCount table es (om_insert h hash sumHashes, fold insort_insert ids retNodeIds)
      else if full \<and> \<not> h > self div 100 * 100 + 100 \<and> om_find sumHashes h = None then
        (case sort_lists env (map (\<lambda>(hash', h', ids'). (hash', ids')) (filter (\<lambda>e. fst (snd e) = h) table)) of
           [] \<Rightarrow> ([], []) | (best, ids') # _ \<Rightarrow> ([(h, best)], fold insort_insert ids' []))
      else zero_scan env full self successCount table es (sumHashes, retNodeIds))"

definition GetFromZeroSyncSumHashNode :: "'e zero_env_scheme \<Rightarrow> string list \<Rightarrow> u64 list \<Rightarrow> u64 \<Rightarrow> u64 \<Rightarrow> int \<times> string list \<times> (u64, string) omap" where
  "GetFromZeroSyncSumHashNode env sendNodeIds sendHeights selfNodeHeight syncSendZeroNum =
     (let sendNum = length sendNodeIds;
          acceptanceRate = dbl (if unat syncSendZeroNum > UINT32_MAX then 9 / 10 else 4 / 5);
          (ok, retDatas) = ask_zero_sum env sendNodeIds (dtrunc (dmul (of_nat sendNum) acceptanceRate)) sendHeights
      in if \<not> ok \<and> (retDatas = [] \<or> length retDatas < sendNum div 2) then (-3, [], [])
      else let full = (unat syncSendZeroNum \<ge> UINT32_MAX); acks = zero_acks env retDatas;
               successCount = length acks + (if full then empty_acks env retDatas else 0);
               byzantineSuccess = (if full then successCount \<ge> dtrunc (dmul (of_nat sendNum) (dbl (4 / 5)))
                                   else successCount > dtrunc (dmul (of_nat sendNum) (dbl (33 / 50)))) in
        if \<not> byzantineSuccess then (-4, [], [])
        else case zero_scan env full selfNodeHeight successCount (zero_table_of acks) (zero_table_of acks) ([], []) of (sumHashes, retNodeIds) \<Rightarrow>
          (if sumHashes = [] then -5 else 0, retNodeIds, sumHashes))"

section \<open>The download\<close>

text \<open>The blocks of an answer up to the first that cannot be read, and their hashes by height.\<close>

fun leading_blocks :: "'e block_env_scheme \<Rightarrow> string list \<Rightarrow> CBlock list" where
  "leading_blocks env [] = []"
| "leading_blocks env (raw # raws) = (case be_parse_block env raw of None \<Rightarrow> [] | Some b \<Rightarrow> b # leading_blocks env raws)"

definition check_data :: "CBlock list \<Rightarrow> (u64, string list) omap" where
  "check_data bs = fold (\<lambda>b m. om_insert (u64_height b) ((case om_find m (u64_height b) of None \<Rightarrow> [] | Some hs \<Rightarrow> hs) @ [blk_hash b]) m) bs []"

fun read_own :: "'e block_env_scheme \<Rightarrow> db_reader \<Rightarrow> string list \<Rightarrow> block_map \<Rightarrow> (db_error, block_map option) result" where
  "read_own env rd [] rb = Inr (Some rb)"
| "read_own env rd (h # hs) rb = bindE (GetBlockByBlockHash rd h []) (\<lambda>(st, raw).
     if st \<noteq> DB_SUCCESS then Inr None else read_own env rd hs (AddBlockToMap (read_block env raw) rb))"

text \<open>
  The own blocks of the heights of an answer are compared with it; those it does not name are
  rolled back. \<open>Inr\<close> of a code ends the function.
\<close>

definition zero_roll :: "'e sync_env_scheme \<Rightarrow> net \<Rightarrow> block_map option \<Rightarrow> sync_state \<Rightarrow> sync_state \<times> sync_event list \<times> int option" where
  "zero_roll env s r st = (case r of
     None \<Rightarrow> (st, [], Some (-6))
   | Some rb \<Rightarrow>
       if rb \<noteq> [] then
         (if unat (syncSendZeroSyncNum st) < qualified_count env s
          then (st\<lparr>syncSendZeroSyncNum := word_of_nat UINT32_MAX\<rparr>, [], Some (-7))
          else (st, [AddRollbackBlock rb], None))
       else (st, [], None))"

definition zero_height :: "'e zero_env_scheme \<Rightarrow> db_reader \<Rightarrow> net \<Rightarrow> u64 \<Rightarrow> u64 \<times> string list \<Rightarrow> sync_state \<Rightarrow>
    (db_error, sync_state \<times> sync_event list \<times> int option) result" where
  "zero_height env rd s selfNodeHeight e st =
     (if selfNodeHeight \<ge> fst e then
        bindE (GetBlockHashesByBlockHeight rd (fst e) (fst e) []) (\<lambda>(status, blockHashes).
        if status \<noteq> DB_SUCCESS then Inr (st, [], Some (-5))
        else if SumHeightHash env blockHashes \<noteq> SumHeightHash env (snd e) then
          bindE (read_own env rd (set_difference (sort blockHashes) (sort (snd e))) []) (\<lambda>r. Inr (zero_roll env s r st))
        else Inr (st, [], None))
      else Inr (st, [], None))"

fun zero_heights :: "'e zero_env_scheme \<Rightarrow> db_reader \<Rightarrow> net \<Rightarrow> u64 \<Rightarrow> (u64 \<times> string list) list \<Rightarrow> sync_state \<Rightarrow>
    (db_error, sync_state \<times> sync_event list \<times> int option) result" where
  "zero_heights env rd s self [] st = Inr (st, [], None)"
| "zero_heights env rd s self (e # es) st = bindE (zero_height env rd s self e st) (\<lambda>(st1, ev, r). case r of
     Some code \<Rightarrow> Inr (st1, ev, Some code)
   | None \<Rightarrow> bindE (zero_heights env rd s self es st1) (\<lambda>(st2, ev', r'). Inr (st2, ev @ ev', r')))"

text \<open>
  The answers. Accepted blocks go to the cache under the height of their sum; a block's hash
  is not compared with its content.
\<close>

fun zero_answers :: "'e zero_env_scheme \<Rightarrow> db_reader \<Rightarrow> net \<Rightarrow> u64 \<Rightarrow> (u64, string) omap \<Rightarrow> string list \<Rightarrow> sync_state \<Rightarrow>
    (db_error, sync_state \<times> sync_event list \<times> (u64 list + int)) result" where
  "zero_answers env rd s self sumHashes [] st = Inr (st, [], Inl [])"
| "zero_answers env rd s self sumHashes (d # ds) st = (case parse_zero_block env d of
     None \<Rightarrow> zero_answers env rd s self sumHashes ds st
   | Some (h, raws) \<Rightarrow>
       let blocks = leading_blocks env raws in
       if om_find sumHashes h \<noteq> Some (SumHeightsHash env (check_data blocks)) then zero_answers env rd s self sumHashes ds st
       else bindE (zero_heights env rd s self (check_data blocks) st) (\<lambda>(st1, ev, r). case r of
         Some code \<Rightarrow> Inr (st1, ev, Inr code)
       | None \<Rightarrow> bindE (zero_answers env rd s self sumHashes ds
             (st1\<lparr>syncFromZeroCache := om_insert h (fold AddBlockToMap blocks []) (syncFromZeroCache st1)\<rparr>)) (\<lambda>(st2, ev2, r2).
           Inr (st2, ev @ ev2, case r2 of Inl hs \<Rightarrow> Inl (h # hs) | Inr code \<Rightarrow> Inr code))))"

text \<open>
  When every height was served, the cache is handed over and emptied. The code does this in
  a detached thread, under the lock of the cache and without a signal to the run; here it
  happens before the run returns, so the model covers the schedules in which that thread
  finishes before the next run fills the cache again.
\<close>

definition zero_finish :: "u64 list \<Rightarrow> u64 list \<Rightarrow> sync_state \<Rightarrow> sync_state \<times> sync_event list \<times> int" where
  "zero_finish sendHeights successHeights st =
     (if successHeights = [] then (st, [], -8)
      else let rest = fold remove1 successHeights sendHeights; st1 = st\<lparr>syncFromZeroReserveHeights := rest\<rparr> in
        if rest \<noteq> [] then (st1, [], -9)
        else (st1\<lparr>syncFromZeroCache := []\<rparr>, map (\<lambda>c. AddSyncBlock (snd c) SyncFromZero) (syncFromZeroCache st1), 0))"

definition GetFromZeroSyncBlockData :: "'e zero_env_scheme \<Rightarrow> db_reader \<Rightarrow> net \<Rightarrow> (u64, string) omap \<Rightarrow> u64 list \<Rightarrow> string list \<Rightarrow> u64 \<Rightarrow> sync_state \<Rightarrow> int sync_result" where
  "GetFromZeroSyncBlockData env rd s sumHashes sendHeights sendNodeIds selfNodeHeight st =
     (if sendNodeIds = [] \<or> sumHashes = [] then Inr (st, [], -1)
      else let nodes = take (length sumHashes) sendNodeIds in
      if length nodes \<noteq> length sumHashes then Inr (st, [], -2)
      else bindE (zero_answers env rd s selfNodeHeight sumHashes (ask_zero_block env (zip nodes (map fst sumHashes))) st) (\<lambda>(st1, ev, r). case r of
        Inr code \<Rightarrow> Inr (st1, ev, code)
      | Inl successHeights \<Rightarrow> (case zero_finish sendHeights successHeights st1 of (st2, ev2, code) \<Rightarrow> Inr (st2, ev @ ev2, code))))"

section \<open>A run\<close>

fun more_heights :: "u64 \<Rightarrow> nat \<Rightarrow> u64 \<Rightarrow> u64 \<Rightarrow> u64 list" where
  "more_heights step_h 0 limit syncHeight = []"
| "more_heights step_h (Suc n) limit syncHeight =
     (let h = syncHeight + step_h in if h > limit then [] else h # more_heights step_h n limit h)"

definition zero_start_heights :: "'e block_env_scheme \<Rightarrow> nat \<Rightarrow> u64 \<Rightarrow> u64 \<Rightarrow> u64 list" where
  "zero_start_heights env nodes chainHeight selfNodeHeight =
     (let limit = be_floor env chainHeight - be_sum_hash_range env; syncHeight = be_ceiling env selfNodeHeight;
          limit' = (if limit - syncHeight > 1000 then syncHeight + 1000 else limit)
      in syncHeight # more_heights (be_sum_hash_range env) (unat (word_of_nat nodes - 1 :: u64)) limit' syncHeight)"

definition RunFromZeroSyncOnce :: "'e zero_env_scheme \<Rightarrow> db_reader \<Rightarrow> net \<Rightarrow> u64 \<Rightarrow> u64 \<Rightarrow> u32 \<Rightarrow> sync_state \<Rightarrow> int sync_result" where
  "RunFromZeroSyncOnce env rd s chainHeight selfNodeHeight syncNodeCount st =
     bindE (GetSyncNodeSimplify env rd s (unat syncNodeCount) []) (\<lambda>(ret, sendNodeIds).
     if ret \<noteq> 0 then Inr (st, [], ret - 1000)
     else let hts = (if syncFromZeroReserveHeights st \<noteq> [] then syncFromZeroReserveHeights st
                         else zero_start_heights env (length sendNodeIds) chainHeight selfNodeHeight);
              st1 = st\<lparr>syncFromZeroReserveHeights := []\<rparr> in
       case GetFromZeroSyncSumHashNode env sendNodeIds hts selfNodeHeight (syncSendZeroSyncNum st1) of (ret1, retNodeIds, sumHashes) \<Rightarrow>
         if ret1 < 0 then Inr (st1, [], ret1 - 2000)
         else bindE (GetFromZeroSyncBlockData env rd s sumHashes hts retNodeIds selfNodeHeight st1) (\<lambda>(st2, ev, ret2).
           Inr (st2, ev, if ret2 \<noteq> 0 then ret2 - 3000 else 0)))"

section \<open>What is handed over\<close>

definition sum_matches :: "'e block_env_scheme \<Rightarrow> (u64, string) omap \<Rightarrow> u64 \<Rightarrow> block_map \<Rightarrow> bool" where
  "sum_matches env sumHashes h m \<longleftrightarrow> (\<exists>blocks. m = fold AddBlockToMap blocks [] \<and> om_find sumHashes h = Some (SumHeightsHash env (check_data blocks)))"

lemma set_om_insert_sub: "set (om_insert k v m) \<subseteq> insert (k, v) (set m)"
  by (induction k v m rule: om_insert.induct) auto

lemma read_own_own: "read_own env rd hs rb = Inr (Some rb') \<Longrightarrow> own_map env rd rb \<Longrightarrow> own_map env rd rb'"
proof (induction hs arbitrary: rb)
  case (Cons h hs)
  then obtain raw where "GetBlockByBlockHash rd h [] = Inr (DB_SUCCESS, raw)" "read_own env rd hs (AddBlockToMap (read_block env raw) rb) = Inr (Some rb')"
    by (auto simp: bindE_eq_Inr_iff split: if_split_asm)
  then show ?case using Cons.IH Cons.prems(2) own_map_add own_read by blast
qed simp

lemma zero_roll_spec:
  assumes "zero_roll env s r st = (st', ev, res)" and "\<forall>rb. r = Some rb \<longrightarrow> own_map env' rd rb"
  shows "syncFromZeroCache st' = syncFromZeroCache st \<and> (\<forall>x \<in> set ev. \<exists>rb. x = AddRollbackBlock rb \<and> own_map env' rd rb) \<and> (\<forall>code. res = Some code \<longrightarrow> code < 0)"
  using assms by (cases r) (auto simp: zero_roll_def split: if_split_asm)

lemma zero_height_spec:
  assumes "zero_height env rd s self e st = Inr (st', ev, r)"
  shows "syncFromZeroCache st' = syncFromZeroCache st \<and> (\<forall>x \<in> set ev. \<exists>rb. x = AddRollbackBlock rb \<and> own_map env rd rb) \<and> (\<forall>code. r = Some code \<longrightarrow> code < 0)"
proof -
  from assms consider "st' = st" "ev = []" "r = None \<or> r = Some (-5)" | r' hs where "read_own env rd hs [] = Inr r'" "zero_roll env s r' st = (st', ev, r)"
    by (auto simp: zero_height_def bindE_eq_Inr_iff split: if_split_asm)
  then show ?thesis
  proof cases
    case 2
    then have "\<forall>rb. r' = Some rb \<longrightarrow> own_map env rd rb" using read_own_own by fastforce
    from zero_roll_spec [OF 2(2) this] show ?thesis .
  qed auto
qed

lemma zero_heights_spec:
  "zero_heights env rd s self es st = Inr (st', ev, r) \<Longrightarrow>
   syncFromZeroCache st' = syncFromZeroCache st \<and> (\<forall>x \<in> set ev. \<exists>rb. x = AddRollbackBlock rb \<and> own_map env rd rb) \<and> (\<forall>code. r = Some code \<longrightarrow> code < 0)"
proof (induction es arbitrary: st ev r)
  case (Cons e es)
  then obtain st1 ev1 r1 where e: "zero_height env rd s self e st = Inr (st1, ev1, r1)" by (auto simp: bindE_eq_Inr_iff)
  show ?case
  proof (cases r1)
    case None
    with Cons.prems e obtain ev2 where "zero_heights env rd s self es st1 = Inr (st', ev2, r)" "ev = ev1 @ ev2"
      by (auto simp: bindE_eq_Inr_iff)
    then show ?thesis using Cons.IH zero_height_spec [OF e] by auto
  next
    case (Some code)
    then show ?thesis using Cons.prems e zero_height_spec [OF e] by auto
  qed
qed simp

lemma zero_answers_spec:
  assumes "zero_answers env rd s self sumHashes ds st = Inr (st', ev, r)" and "\<forall>(h, m) \<in> set (syncFromZeroCache st). sum_matches env sumHashes h m"
  shows "(\<forall>(h, m) \<in> set (syncFromZeroCache st'). sum_matches env sumHashes h m) \<and> (\<forall>x \<in> set ev. \<exists>rb. x = AddRollbackBlock rb \<and> own_map env rd rb) \<and>
    fst ` set (syncFromZeroCache st) \<subseteq> fst ` set (syncFromZeroCache st') \<and> (\<forall>hs. r = Inl hs \<longrightarrow> set hs \<subseteq> fst ` set (syncFromZeroCache st')) \<and>
    (\<forall>code. r = Inr code \<longrightarrow> code < 0)"
  using assms
proof (induction ds arbitrary: st ev r)
  case (Cons d ds)
  show ?case
  proof (cases "parse_zero_block env d")
    case None
    then show ?thesis using Cons by simp
  next
    case (Some a)
    obtain h raws where a: "a = (h, raws)" by (cases a)
    let ?bs = "leading_blocks env raws"
    show ?thesis
    proof (cases "om_find sumHashes h = Some (SumHeightsHash env (check_data ?bs))")
      case False
      then show ?thesis using Cons by (simp add: Some a Let_def)
    next
      case True
      with Cons.prems(1) obtain st1 ev1 r1 where z: "zero_heights env rd s self (check_data ?bs) st = Inr (st1, ev1, r1)"
        by (auto simp: Some a Let_def bindE_eq_Inr_iff)
      note zs = zero_heights_spec [OF z]
      show ?thesis
      proof (cases r1)
        case r1: (Some code)
        then have "st' = st1" "ev = ev1" "r = Inr code" using Cons.prems(1) True z by (auto simp: Some a Let_def)
        then show ?thesis using zs Cons.prems(2) r1 by simp
      next
        case r1: None
        let ?st = "st1\<lparr>syncFromZeroCache := om_insert h (fold AddBlockToMap ?bs []) (syncFromZeroCache st1)\<rparr>"
        from Cons.prems(1) True z r1 obtain ev2 r2 where rest: "zero_answers env rd s self sumHashes ds ?st = Inr (st', ev2, r2)"
            and out: "ev = ev1 @ ev2" "r = (case r2 of Inl hs \<Rightarrow> Inl (h # hs) | Inr code \<Rightarrow> Inr code)"
          by (auto simp: Some a Let_def bindE_eq_Inr_iff)
        have "sum_matches env sumHashes h (fold AddBlockToMap ?bs [])" using True by (auto simp: sum_matches_def)
        then have "\<forall>(h, m) \<in> set (syncFromZeroCache ?st). sum_matches env sumHashes h m"
          using Cons.prems(2) zs set_om_insert_sub [of h _ "syncFromZeroCache st1"] by fastforce
        from Cons.IH [OF rest this] zs out show ?thesis
          by (auto simp: set_om_insert split: sum.split_asm)
      qed
    qed
  qed
qed simp

lemma fold_remove1_empty: "fold remove1 xs ys = [] \<Longrightarrow> set ys \<subseteq> set xs"
proof (induction xs arbitrary: ys)
  case (Cons x xs)
  then have "set (remove1 x ys) \<subseteq> set xs" by simp
  then show ?case by (metis (no_types, opaque_lifting) in_set_remove1 insert_iff list.simps(15) subset_iff)
qed simp

text \<open>
  C33: A download that succeeds from an empty cache serves every height that was asked for: for
  each there are blocks whose hashes add up to the sum the vote chose, and these are
  handed over. Everything handed over belongs to such a sum, and only own blocks are rolled
  back.
\<close>

theorem zero_sync_complete:
  assumes "GetFromZeroSyncBlockData env rd s sumHashes sendHeights nodes self st = Inr (st', ev, 0)" and "syncFromZeroCache st = []"
  shows "syncFromZeroCache st' = [] \<and> syncFromZeroReserveHeights st' = [] \<and>
    (\<forall>h \<in> set sendHeights. \<exists>data. AddSyncBlock data SyncFromZero \<in> set ev \<and> sum_matches env sumHashes h data) \<and>
    (\<forall>e \<in> set ev. (\<exists>h data. e = AddSyncBlock data SyncFromZero \<and> sum_matches env sumHashes h data) \<or> (\<exists>rb. e = AddRollbackBlock rb \<and> own_map env rd rb))"
proof -
  obtain st1 ev1 r where z: "zero_answers env rd s self sumHashes (ask_zero_block env (zip (take (length sumHashes) nodes) (map fst sumHashes))) st = Inr (st1, ev1, r)"
    using assms(1) by (auto simp: GetFromZeroSyncBlockData_def Let_def bindE_eq_Inr_iff split: if_split_asm)
  note zs = zero_answers_spec [OF z]
  have inl: "r = Inr code \<Longrightarrow> code < 0" for code using zs assms(2) by simp
  have run: "(case r of Inr code \<Rightarrow> Inr (st1, ev1, code)
      | Inl hs \<Rightarrow> (case zero_finish sendHeights hs st1 of (st2, ev2, code) \<Rightarrow> Inr (st2, ev1 @ ev2, code))) = (Inr (st', ev, 0) :: int sync_result)"
    using assms(1) by (auto simp: GetFromZeroSyncBlockData_def Let_def z split: if_split_asm)
  then obtain hs where r: "r = Inl hs" using inl by (cases r) auto
  let ?rest = "fold remove1 hs sendHeights"
  from run r have out: "?rest = []" "st' = st1\<lparr>syncFromZeroReserveHeights := [], syncFromZeroCache := []\<rparr>"
      "ev = ev1 @ map (\<lambda>c. AddSyncBlock (snd c) SyncFromZero) (syncFromZeroCache st1)"
    by (auto simp: zero_finish_def Let_def split: if_split_asm)
  have cache: "\<forall>(h, m) \<in> set (syncFromZeroCache st1). sum_matches env sumHashes h m" using zs assms(2) by simp
  have "\<exists>data. AddSyncBlock data SyncFromZero \<in> set ev \<and> sum_matches env sumHashes h data" if "h \<in> set sendHeights" for h
  proof -
    have "h \<in> fst ` set (syncFromZeroCache st1)" using that fold_remove1_empty [OF out(1)] zs r assms(2) by auto
    then obtain data where "(h, data) \<in> set (syncFromZeroCache st1)" by auto
    then show ?thesis using cache unfolding out(3) by force
  qed
  moreover have "(\<exists>h data. e = AddSyncBlock data SyncFromZero \<and> sum_matches env sumHashes h data) \<or> (\<exists>rb. e = AddRollbackBlock rb \<and> own_map env rd rb)" if "e \<in> set ev" for e
    using that zs assms(2) cache unfolding out(3) by fastforce
  ultimately show ?thesis unfolding out(2) by simp
qed

section \<open>What is not checked\<close>

lemma check_data_heights: "fst ` set (check_data bs) = u64_height ` set bs"
proof (induction bs rule: rev_induct)
  case (snoc b bs)
  then show ?case by (simp add: check_data_def set_om_insert)
qed (simp add: check_data_def)

lemma check_data_cong:
  assumes "map (\<lambda>b. (u64_height b, blk_hash b)) bs = map (\<lambda>b. (u64_height b, blk_hash b)) cs"
  shows "check_data bs = check_data cs"
proof -
  have *: "check_data us = fold (\<lambda>(h, hash) m. om_insert h ((case om_find m h of None \<Rightarrow> [] | Some hs \<Rightarrow> hs) @ [hash]) m) (map (\<lambda>b. (u64_height b, blk_hash b)) us) []" for us
    by (simp add: check_data_def fold_map comp_def)
  show ?thesis unfolding * [of bs] * [of cs] assms ..
qed

lemma zero_heights_above: "\<forall>e \<in> set es. self < fst e \<Longrightarrow> zero_heights env rd s self es st = Inr (st, [], None)"
  by (induction es) (auto simp: zero_height_def not_le)

text \<open>
  C34: The content of a block is not checked: blocks that carry the heights and the hashes of
  the honest ones are taken and handed over, whatever else is in them, because neither their
  hashes are recomputed nor more than one node is asked for them.
\<close>

theorem zero_sync_forged_accepted:
  assumes "v = SumHeightsHash env (check_data honest)" and "ask_zero_block env [(nodeId, h)] = [d]" and "parse_zero_block env d = Some (h, raws)"
    and "map (\<lambda>b. (u64_height b, blk_hash b)) (leading_blocks env raws) = map (\<lambda>b. (u64_height b, blk_hash b)) honest"
    and "\<forall>b \<in> set honest. self < u64_height b" and "syncFromZeroCache st = []"
  shows "\<exists>st'. GetFromZeroSyncBlockData env rd s [(h, v)] [h] [nodeId] self st =
    Inr (st', [AddSyncBlock (fold AddBlockToMap (leading_blocks env raws) []) SyncFromZero], 0)"
proof -
  have data: "check_data (leading_blocks env raws) = check_data honest" using assms(4) by (rule check_data_cong)
  have "\<forall>e \<in> set (check_data honest). self < fst e"
    using assms(5) check_data_heights [of honest] by force
  then have "zero_heights env rd s self (check_data honest) st = Inr (st, [], None)" by (rule zero_heights_above)
  then show ?thesis
    using assms(1-3,6) data by (simp add: GetFromZeroSyncBlockData_def zero_finish_def Let_def)
qed

definition zero_sample :: "(string \<times> (u64 \<times> string) list) list \<Rightarrow> zero_env" where
  "zero_sample acks = new_env.extend (new_sample [] []) (zero_env.fields (\<lambda>nodes n hs. (True, map fst acks)) (\<lambda>d. map_option (\<lambda>vs. (d, 1, vs)) (map_of acks d))
     (\<lambda>reqs. [''data'']) (\<lambda>d. Some (100, [''z''])))"

lemma zero_sample_simps [simp]:
  "ask_zero_sum (zero_sample acks) nodes n hs = (True, map fst acks)" "parse_zero_sum (zero_sample acks) d = map_option (\<lambda>vs. (d, 1, vs)) (map_of acks d)"
  "ask_zero_block (zero_sample acks) reqs = [''data'']" "parse_zero_block (zero_sample acks) d = Some (100, [''z''])"
  "be_parse_block (zero_sample acks) raw = Some (sample_blk raw)" "be_sha256 (zero_sample acks) t = ''x''" "be_ser_block (zero_sample acks) b = []"
  by (simp_all add: zero_sample_def new_env.defs zero_env.defs new_sample_def)

theorem zero_sync_forged_accepted_witness:
  "\<exists>st'. GetFromZeroSyncBlockData (zero_sample []) (fast_reader []) (sample_net []) [(100, ''x'')] [100] [''m''] 4 start_state =
     Inr (st', [AddSyncBlock [(5, [sample_blk ''z''])] SyncFromZero], 0) \<and> blk_hash (sample_blk ''z'') \<noteq> hash_of_block (zero_sample []) (sample_blk ''z'')"
proof -
  have "hash_of_block (zero_sample []) (sample_blk ''z'') = ''x''" by (simp add: hash_of_block_def)
  moreover have "fold AddBlockToMap [sample_blk ''z''] [] = [(5, [sample_blk ''z''])]" by (simp add: AddBlockToMap_def sample_blk_def)
  moreover have "\<exists>st'. GetFromZeroSyncBlockData (zero_sample []) (fast_reader []) (sample_net []) [(100, ''x'')] [100] [''m''] 4 start_state =
     Inr (st', [AddSyncBlock (fold AddBlockToMap (leading_blocks (zero_sample []) [''z'']) []) SyncFromZero], 0)"
    by (rule zero_sync_forged_accepted [where honest = "[(sample_blk ''z'')\<lparr>blk_merkleroot := ''honest''\<rparr>]"])
      (simp_all add: SumHeightsHash_def SumHeightHash_def sample_blk_def start_state_def)
  ultimately show ?thesis by (simp add: sample_blk_def)
qed

theorem zero_sync_complete_witness:
  "\<exists>st' ev. GetFromZeroSyncBlockData (zero_sample []) (fast_reader []) (sample_net []) [(100, ''x'')] [100] [''m''] 4 start_state = Inr (st', ev, 0) \<and>
     (\<exists>data. AddSyncBlock data SyncFromZero \<in> set ev \<and> sum_matches (zero_sample []) [(100, ''x'')] 100 data)"
proof -
  have "\<exists>st' ev. GetFromZeroSyncBlockData (zero_sample []) (fast_reader []) (sample_net []) [(100, ''x'')] [100] [''m''] 4 start_state = Inr (st', ev, 0)"
    by (simp add: GetFromZeroSyncBlockData_def Let_def SumHeightsHash_def SumHeightHash_def check_data_def sample_blk_def zero_height_def zero_finish_def start_state_def)
  then obtain st' ev where run: "GetFromZeroSyncBlockData (zero_sample []) (fast_reader []) (sample_net []) [(100, ''x'')] [100] [''m''] 4 start_state = Inr (st', ev, 0)" by blast
  have "syncFromZeroCache start_state = []" by (simp add: start_state_def)
  from zero_sync_complete [OF run this] run show ?thesis by auto
qed

text \<open>
  The node that first names a sum is not counted among its voters: two nodes that are asked
  and agree do not reach two thirds.
\<close>

theorem zero_two_agree_fail:
  "GetFromZeroSyncSumHashNode (zero_sample [(''m'', [(100, ''x'')]), (''n'', [(100, ''x'')])]) [''m'', ''n''] [100] 0 2 = (-5, [], [])"
proof -
  let ?acks = "[(''m'', [(100, ''x'')]), (''n'', [(100, ''x'')])] :: (string \<times> (u64 \<times> string) list) list"
  have table: "zero_table_of ?acks = [(''x'', 100, [''n''])]" by code_simp
  have acks: "zero_acks (zero_sample ?acks) [''m'', ''n''] = ?acks" by (simp add: zero_acks_def map_filter_simps)
  have num: "dtrunc (dmul 2 (dbl (33 / 50))) = 1" using dtrunc_dmul [OF decimal_066, of 2] by simp
  have few: "\<not> zero_enough (Suc 0) (Suc (Suc 0))" using dmul_le(1) [OF decimal_066, of "Suc (Suc 0)" "Suc 0"] by (simp add: zero_enough_def)
  show ?thesis
    using few by (simp add: GetFromZeroSyncSumHashNode_def acks table num Let_def)
qed

end
