(* ===== verification/Sync_Thread.thy ===== *)
theory Sync_Thread
  imports Sync_Zero
begin

text \<open>
  The synchronisation thread of \<open>ca/sync_block.cpp\<close> as a state machine over the flags of
  \<open>sync_state\<close>, and the answers a node gives to the requests of others.
\<close>

section \<open>Answering other nodes\<close>

text \<open>
  The loop over the heights of a sum request. It ends at \<open>end_h\<close> or at the first height that
  cannot be read; \<open>n\<close> bounds the number of turns.
\<close>

fun sum_loop :: "'e block_env_scheme \<Rightarrow> db_reader \<Rightarrow> nat \<Rightarrow> u64 \<Rightarrow> u64 \<Rightarrow> (db_error, (u64 \<times> u64 \<times> string) list option) result" where
  "sum_loop env rd 0 i end_h = Inl DbDiverges"
| "sum_loop env rd (Suc n) i end_h = bindE (GetHeightBlockHash rd i i) (\<lambda>r. case r of
     None \<Rightarrow> Inr None
   | Some block_hashes \<Rightarrow>
       let e = (i, i, SumHeightHash env block_hashes); j = (if i + 1 > end_h then end_h else i + 1)
       in if i = j then Inr (Some [e]) else bindE (sum_loop env rd n (i + 1) end_h) (\<lambda>r2. Inr (map_option ((#) e) r2)))"

definition SendSyncGetSumHashAck :: "'e block_env_scheme \<Rightarrow> db_reader \<Rightarrow> u64 \<Rightarrow> u64 \<Rightarrow> (db_error, (u64 \<times> (u64 \<times> u64 \<times> string) list) option) result" where
  "SendSyncGetSumHashAck env rd startHeight endHeight =
     (if startHeight > endHeight then Inr None
      else if endHeight - startHeight > 1000 then Inr None
      else bindE (GetBlockTop rd 0) (\<lambda>(st, selfNodeHeight).
        if st \<noteq> DB_SUCCESS then Inr None
        else let end_h = (if endHeight > selfNodeHeight then selfNodeHeight else endHeight)
          in bindE (sum_loop env rd (2 ^ 64) startHeight end_h) (\<lambda>r. Inr (map_option (Pair selfNodeHeight) r))))"

text \<open>The answer has a node id, empty as long as it is not set, a code and the hashes.\<close>

definition SendSyncGetHeightHashAck :: "db_reader \<Rightarrow> string \<Rightarrow> u64 \<Rightarrow> u64 \<Rightarrow> (db_error, string \<times> int \<times> string list) result" where
  "SendSyncGetHeightHashAck rd selfId startHeight endHeight =
     (if startHeight > endHeight then Inr ([], -1, [])
      else if endHeight - startHeight > 500 then Inr ([], -2, [])
      else bindE (GetBlockTop rd 0) (\<lambda>(st, selfNodeHeight).
        if st \<noteq> DB_SUCCESS then Inr (selfId, -3, [])
        else let endHeight' = (if endHeight > selfNodeHeight then selfNodeHeight + 1 else endHeight) in
          if startHeight > endHeight' then Inr (selfId, -4, [])
          else bindE (GetBlockHashesByBlockHeight rd startHeight endHeight' []) (\<lambda>(st2, blockHashes).
            if st2 \<noteq> DB_SUCCESS then Inr (selfId, -5, []) else Inr (selfId, 0, sort blockHashes))))"

definition SendSyncGetBlockAck :: "db_reader \<Rightarrow> string list \<Rightarrow> (db_error, string list option) result" where
  "SendSyncGetBlockAck rd reqHashes =
     (if length reqHashes > 5000 then Inr None
      else bindE (GetBlocksByBlockHash rd reqHashes []) (\<lambda>(st, blocks). Inr (if st \<noteq> DB_SUCCESS then None else Some blocks)))"

fun stored_sums :: "db_reader \<Rightarrow> u64 list \<Rightarrow> (db_error, (u64 \<times> string) list) result" where
  "stored_sums rd [] = Inr []"
| "stored_sums rd (h # hs) = bindE (GetSumHashByHeight rd h []) (\<lambda>(st, sumHash).
     bindE (stored_sums rd hs) (\<lambda>rest. Inr (if st \<noteq> DB_SUCCESS then rest else (h, sumHash) # rest)))"

definition SendFromZeroSyncGetSumHashAck :: "db_reader \<Rightarrow> u64 list \<Rightarrow> (db_error, int \<times> (u64 \<times> string) list) result" where
  "SendFromZeroSyncGetSumHashAck rd hs = bindE (stored_sums rd hs) (\<lambda>vs. Inr (if vs = [] then 0 else 1, vs))"

definition SendFromZeroSyncGetBlockAck :: "'e block_env_scheme \<Rightarrow> db_reader \<Rightarrow> u64 \<Rightarrow> (db_error, (u64 \<times> string list) option) result" where
  "SendFromZeroSyncGetBlockAck env rd h =
     (if h < be_sum_hash_range env then Inr None
      else bindE (GetBlockHashesByBlockHeight rd (h - be_sum_hash_range env + 1) h []) (\<lambda>(st, blockhashes).
        if st \<noteq> DB_SUCCESS then Inr None
        else bindE (GetBlocksByBlockHash rd blockhashes []) (\<lambda>(st2, blockraws).
          Inr (if st2 \<noteq> DB_SUCCESS then None else Some (h, blockraws)))))"

text \<open>\<open>calc\<close> is \<open>CalculateHeightSumHash\<close> of the consensus library.\<close>

definition SendSyncNodeHashAck :: "db_reader \<Rightarrow> (u64 \<Rightarrow> u64 \<Rightarrow> string option) \<Rightarrow> sync_state \<Rightarrow> (db_error, string option) result" where
  "SendSyncNodeHashAck rd calc st = bindE (GetBlockTop rd 0) (\<lambda>(status, nodeBlockHeight).
     Inr (if status \<noteq> DB_SUCCESS then None else calc (nodeBlockHeight - ucast (syncHeightCnt st)) nodeBlockHeight))"

text \<open>Blocks another node misses, by a transaction of the block or by the block's own hash.\<close>

definition SendBlockByUtxoAck :: "db_reader \<Rightarrow> string \<Rightarrow> (db_error, int + string) result" where
  "SendBlockByUtxoAck rd utxo = bindE (GetBlockHashByTransactionHash rd utxo []) (\<lambda>(st, strBlockHash).
     if st \<noteq> DB_SUCCESS then Inr (Inl (-1))
     else bindE (GetBlockByBlockHash rd strBlockHash []) (\<lambda>(st2, blockstr).
       if st2 \<noteq> DB_SUCCESS then Inr (Inl (-2)) else if blockstr = [] then Inr (Inl (-3)) else Inr (Inr blockstr)))"

definition block_by_name :: "db_reader \<Rightarrow> string \<times> bool \<Rightarrow> (db_error, int + string) result" where
  "block_by_name rd e = (if snd e then SendBlockByUtxoAck rd (fst e)
     else bindE (GetBlockByBlockHash rd (fst e) []) (\<lambda>(st, blockstr).
       if st \<noteq> DB_SUCCESS then Inr (Inl (-2)) else if blockstr = [] then Inr (Inl (-3)) else Inr (Inr blockstr)))"

fun SendBlockByHashAck :: "db_reader \<Rightarrow> (string \<times> bool) list \<Rightarrow> (db_error, int + (string \<times> bool \<times> string) list) result" where
  "SendBlockByHashAck rd [] = Inr (Inr [])"
| "SendBlockByHashAck rd (e # es) = bindE (block_by_name rd e) (\<lambda>r. case r of
     Inl code \<Rightarrow> Inr (Inl code)
   | Inr blockstr \<Rightarrow> bindE (SendBlockByHashAck rd es) (\<lambda>r2. Inr (map_sum id ((#) (fst e, snd e, blockstr)) r2)))"

text \<open>
  Every handler first checks that the message comes over the connection of the node it names.
  A request is answered by the function for its kind; an answer is stored for the waiting
  request, except that an answer with blocks is credited to the node of the connection.
\<close>

definition handle_req :: "net \<Rightarrow> int \<Rightarrow> string \<Rightarrow> (db_error, 'a) result \<Rightarrow> (db_error, int \<times> 'a option) result" where
  "handle_req s f self_node_id answer =
     (if \<not> PeerNodeVerifyNodeId f self_node_id s then Inr (-1, None) else bindE answer (\<lambda>a. Inr (0, Some a)))"

definition HandleSyncGetSumHashReq :: "'e block_env_scheme \<Rightarrow> db_reader \<Rightarrow> net \<Rightarrow> int \<Rightarrow> string \<Rightarrow> u64 \<Rightarrow> u64 \<Rightarrow>
    (db_error, int \<times> (u64 \<times> (u64 \<times> u64 \<times> string) list) option option) result" where
  "HandleSyncGetSumHashReq env rd s f nodeId start_h end_h = handle_req s f nodeId (SendSyncGetSumHashAck env rd start_h end_h)"

definition HandleSyncGetHeightHashReq :: "db_reader \<Rightarrow> string \<Rightarrow> net \<Rightarrow> int \<Rightarrow> string \<Rightarrow> u64 \<Rightarrow> u64 \<Rightarrow>
    (db_error, int \<times> (string \<times> int \<times> string list) option) result" where
  "HandleSyncGetHeightHashReq rd selfId s f nodeId start_h end_h = handle_req s f nodeId (SendSyncGetHeightHashAck rd selfId start_h end_h)"

definition HandleSyncGetBlockReq :: "db_reader \<Rightarrow> net \<Rightarrow> int \<Rightarrow> string \<Rightarrow> string list \<Rightarrow> (db_error, int \<times> string list option option) result" where
  "HandleSyncGetBlockReq rd s f nodeId hashes = handle_req s f nodeId (SendSyncGetBlockAck rd hashes)"

definition HandleFromZeroSyncGetSumHashReq :: "db_reader \<Rightarrow> net \<Rightarrow> int \<Rightarrow> string \<Rightarrow> u64 list \<Rightarrow> (db_error, int \<times> (int \<times> (u64 \<times> string) list) option) result" where
  "HandleFromZeroSyncGetSumHashReq rd s f nodeId hs = handle_req s f nodeId (SendFromZeroSyncGetSumHashAck rd hs)"

definition HandleFromZeroSyncGetBlockReq :: "'e block_env_scheme \<Rightarrow> db_reader \<Rightarrow> net \<Rightarrow> int \<Rightarrow> string \<Rightarrow> u64 \<Rightarrow>
    (db_error, int \<times> (u64 \<times> string list) option option) result" where
  "HandleFromZeroSyncGetBlockReq env rd s f nodeId h = handle_req s f nodeId (SendFromZeroSyncGetBlockAck env rd h)"

definition HandleSyncNodeHashReq :: "db_reader \<Rightarrow> (u64 \<Rightarrow> u64 \<Rightarrow> string option) \<Rightarrow> sync_state \<Rightarrow> net \<Rightarrow> int \<Rightarrow> string \<Rightarrow> (db_error, int \<times> string option option) result" where
  "HandleSyncNodeHashReq rd calc st s f nodeId = handle_req s f nodeId (SendSyncNodeHashAck rd calc st)"

definition HandleBlockByUtxoReq :: "db_reader \<Rightarrow> net \<Rightarrow> int \<Rightarrow> string \<Rightarrow> string \<Rightarrow> (db_error, int \<times> (int + string) option) result" where
  "HandleBlockByUtxoReq rd s f addr utxo = handle_req s f addr (SendBlockByUtxoAck rd utxo)"

definition HandleBlockByHashReq :: "db_reader \<Rightarrow> net \<Rightarrow> int \<Rightarrow> string \<Rightarrow> (string \<times> bool) list \<Rightarrow>
    (db_error, int \<times> (int + (string \<times> bool \<times> string) list) option) result" where
  "HandleBlockByHashReq rd s f addr missinghashs =
     handle_req s f addr (SendBlockByHashAck rd (fold (\<lambda>(h, tx_or_block). om_insert h tx_or_block) missinghashs []))"

definition store_ack :: "net \<Rightarrow> int \<Rightarrow> string \<Rightarrow> string \<Rightarrow> string \<Rightarrow> waits \<Rightarrow> waits \<times> int" where
  "store_ack s f self_node_id msg_id data g =
     (if \<not> PeerNodeVerifyNodeId f self_node_id s then (g, -1) else (fst (AddWaitData msg_id self_node_id data g), 0))"

definition HandleSyncGetSumHashAck :: "net \<Rightarrow> int \<Rightarrow> string \<Rightarrow> string \<Rightarrow> string \<Rightarrow> waits \<Rightarrow> waits \<times> int" where
  "HandleSyncGetSumHashAck s f self_node_id msg_id data g = store_ack s f self_node_id msg_id data g"

definition HandleSyncGetHeightHashAck :: "net \<Rightarrow> int \<Rightarrow> string \<Rightarrow> string \<Rightarrow> string \<Rightarrow> waits \<Rightarrow> waits \<times> int" where
  "HandleSyncGetHeightHashAck s f self_node_id msg_id data g = store_ack s f self_node_id msg_id data g"

definition HandleFromZeroSyncGetSumHashAck :: "net \<Rightarrow> int \<Rightarrow> string \<Rightarrow> string \<Rightarrow> string \<Rightarrow> waits \<Rightarrow> waits \<times> int" where
  "HandleFromZeroSyncGetSumHashAck s f self_node_id msg_id data g = store_ack s f self_node_id msg_id data g"

definition HandleFromZeroSyncGetBlockAck :: "net \<Rightarrow> int \<Rightarrow> string \<Rightarrow> string \<Rightarrow> string \<Rightarrow> waits \<Rightarrow> waits \<times> int" where
  "HandleFromZeroSyncGetBlockAck s f self_node_id msg_id data g = store_ack s f self_node_id msg_id data g"

definition HandleSyncNodeHashAck :: "net \<Rightarrow> int \<Rightarrow> string \<Rightarrow> string \<Rightarrow> string \<Rightarrow> waits \<Rightarrow> waits \<times> int" where
  "HandleSyncNodeHashAck s f self_node_id msg_id data g = store_ack s f self_node_id msg_id data g"

definition HandleBlockByUtxoAck :: "net \<Rightarrow> int \<Rightarrow> string \<Rightarrow> string \<Rightarrow> string \<Rightarrow> waits \<Rightarrow> waits \<times> int" where
  "HandleBlockByUtxoAck s f addr msg_id data g = store_ack s f addr msg_id data g"

definition HandleBlockByHashAck :: "net \<Rightarrow> int \<Rightarrow> string \<Rightarrow> string \<Rightarrow> string \<Rightarrow> waits \<Rightarrow> waits \<times> int" where
  "HandleBlockByHashAck s f addr msg_id data g = store_ack s f addr msg_id data g"

definition HandleSyncGetBlockAck :: "net \<Rightarrow> int \<Rightarrow> string \<Rightarrow> string \<Rightarrow> waits \<Rightarrow> waits \<times> int" where
  "HandleSyncGetBlockAck s f msg_id data g = (case FindNodeByFd f s of
     None \<Rightarrow> (g, -1) | Some node \<Rightarrow> (fst (AddWaitData msg_id (address node) data g), 0))"

section \<open>Properties of the answers\<close>

text \<open>An answer with blocks holds every block asked for, or it is not sent at all.\<close>

lemma missing_blocks_all:
  "SendBlockByHashAck rd es = Inr (Inr bs) \<Longrightarrow>
     map (\<lambda>(h, b, raw). (h, b)) bs = es \<and> (\<forall>(h, b, raw)\<in>set bs. raw \<noteq> [] \<and> block_by_name rd (h, b) = Inr (Inr raw))"
proof (induction es arbitrary: bs)
  case (Cons e es)
  obtain r where r: "block_by_name rd e = Inr r" using Cons.prems by (auto simp: bindE_eq_Inr_iff)
  then obtain raw where raw: "r = Inr raw" using Cons.prems by (cases r) auto
  with Cons.prems r obtain r2 where r2: "SendBlockByHashAck rd es = Inr r2" "map_sum id ((#) (fst e, snd e, raw)) r2 = Inr bs"
    by (auto simp: bindE_eq_Inr_iff)
  then obtain bs2 where bs2: "r2 = Inr bs2" "bs = (fst e, snd e, raw) # bs2" by (cases r2) auto
  have "raw \<noteq> []" using r raw by (auto simp: block_by_name_def SendBlockByUtxoAck_def bindE_eq_Inr_iff split_beta split: if_split_asm)
  then show ?case using Cons.IH r2(1) r raw bs2 by auto
qed simp

text \<open>
  A request for the block hashes of a range that reaches above the own top is answered with
  code -5 and no hashes: the range is cut to one above the top, and a database that reports a
  missing entry for a read of several keys (as \<open>MultiReadData\<close> does) has none for that height.
\<close>

lemma height_hash_ack_above_top:
  assumes "GetBlockTop rd 0 = Inr (DB_SUCCESS, h)" and range: "a \<le> b" "b - a \<le> 500" "h < b" "a \<le> h + 1" "unat (h + 1) < 2 ^ 64 - 1"
    and missing: "\<And>keys. kBlockHeight2BlockHashKey @ dec (h + 1) \<in> set keys \<Longrightarrow> \<exists>st vs. MultiReadData rd keys [] = Inr (st, vs) \<and> st \<noteq> DB_SUCCESS"
  shows "SendSyncGetHeightHashAck rd selfId a b = Inr (selfId, -5, [])"
proof -
  have le: "unat a \<le> unat (h + 1)" using range(4) by (simp add: word_le_nat_alt)
  define hs :: "u64 list" where "hs = map word_of_nat [unat a..<Suc (unat (h + 1))]"
  let ?keys = "map (\<lambda>h. kBlockHeight2BlockHashKey @ dec h) hs"
  have "h + 1 \<in> set hs" unfolding hs_def using le by (auto simp: image_iff intro!: bexI [of _ "unat (h + 1)"])
  then have key: "kBlockHeight2BlockHashKey @ dec (h + 1) \<in> set ?keys" by simp
  obtain st vs where "MultiReadData rd ?keys [] = Inr (st, vs)" "st \<noteq> DB_SUCCESS" using missing [OF key] by blast
  moreover have "heights a (h + 1) = Inr hs"
    using range(5) by (simp add: heights_def hs_def)
  ultimately have "\<exists>hs. GetBlockHashesByBlockHeight rd a (h + 1) [] = Inr (st, hs)"
    by (simp add: GetBlockHashesByBlockHeight_def)
  then show ?thesis using assms(1) range \<open>st \<noteq> DB_SUCCESS\<close> by (auto simp: SendSyncGetHeightHashAck_def Let_def not_less)
qed

section \<open>The thread\<close>

abbreviation all_nodes_num :: u64 where
  "all_nodes_num \<equiv> word_of_nat UINT32_MAX"

definition min_nodes :: "'e sync_env_scheme \<Rightarrow> u64" where
  "min_nodes env = word_of_nat (se_KMinSyncQualNodes env)"

definition ThreadStart_init :: "sync_state \<Rightarrow> sync_state" where
  "ThreadStart_init st = st\<lparr>syncHeightCnt := (if syncHeightCnt st > 200 then 200 else syncHeightCnt st), fastSyncHeightCnt := 0, syncThreadRuning := True\<rparr>"

definition ThreadStart :: "bool \<Rightarrow> sync_state \<Rightarrow> sync_state" where
  "ThreadStart start st = st\<lparr>syncThreadRuning := start\<rparr>"

definition ThreadStop :: "sync_state \<Rightarrow> sync_state" where
  "ThreadStop st = st\<lparr>syncThreadRuning := False\<rparr>"

text \<open>
  The flags are static variables without a lock, which other threads write while a turn is
  under way. A turn therefore has points, numbered from 0, at which such writes take effect:
  between its tests of the flags, before and after a run. \<open>asks i\<close> is what arrives at point \<open>i\<close>.
\<close>

datatype sync_request = FastRequest u64 | NewRequest u64 | SwitchThread bool

fun serve :: "sync_request \<Rightarrow> sync_state \<Rightarrow> sync_state" where
  "serve (FastRequest h) st = SetFastSync h st"
| "serve (NewRequest h) st = SetNewSyncHeight h st"
| "serve (SwitchThread b) st = ThreadStart b st"

definition take_requests :: "sync_request list \<Rightarrow> sync_state \<Rightarrow> sync_state" where
  "take_requests rs st = fold serve rs st"

definition prepare_turn :: "(nat \<Rightarrow> sync_request list) \<Rightarrow> u64 \<Rightarrow> sync_state \<Rightarrow> sync_state" where
  "prepare_turn asks selfNodeHeight st =
     (let st1 = st\<lparr>syncFromZeroCache := filter (\<lambda>e. \<not> fst e < selfNodeHeight) (syncFromZeroCache st)\<rparr>;
          st2 = take_requests (asks 0) (if runFastSuncNum st1 \<ge> 5 \<and> runFastSync st1 then st1\<lparr>runFastSuncNum := 0, runFastSync := False\<rparr> else st1)
      in if runNewSync st2 then st2\<lparr>runFastSuncNum := 0, runFastSync := False\<rparr> else st2)"

definition fast_range :: "u64 \<Rightarrow> sync_state \<Rightarrow> u64 \<times> u64" where
  "fast_range selfNodeHeight st =
     (let cnt = ucast (fastSyncHeightCnt st);
          start0 = (if newSyncFailHeight st > cnt then newSyncFailHeight st - cnt else newSyncFailHeight st);
          start_h = (if start0 > selfNodeHeight then selfNodeHeight + 1 else start0)
      in (start_h, start_h + cnt))"

definition fast_turn :: "'e zero_env_scheme \<Rightarrow> db_reader \<Rightarrow> (string \<Rightarrow> (string \<times> string) option) \<Rightarrow> (string list \<Rightarrow> nat \<Rightarrow> bool \<times> string list) \<Rightarrow> net \<Rightarrow>
    (nat \<Rightarrow> sync_request list) \<Rightarrow> string list \<Rightarrow> u64 \<Rightarrow> u64 \<Rightarrow> sync_state \<Rightarrow> (tx_error, sync_state \<times> sync_event list) result" where
  "fast_turn env rd parse ask s asks pledgeAddr chainHeight selfNodeHeight st =
     (let st1 = take_requests (asks 2) (st\<lparr>runFastSuncNum := runFastSuncNum st + 1\<rparr>); (start_h, end_h) = fast_range selfNodeHeight st1 in
      bindE (lift_db (RunFastSyncOnce env rd parse ask s pledgeAddr chainHeight start_h end_h (ucast (syncSendFastSyncNum st1)) st1)) (\<lambda>(st2, ev, ok).
        let st3 = take_requests (asks 4) ((take_requests (asks 3) st2)\<lparr>syncSendFastSyncNum := (if ok then min_nodes env else all_nodes_num), runFastSync := False\<rparr>)
        in Inr (if inFastSyncFail st3 then st3\<lparr>inFastSyncFail := False, runFastSync := True\<rparr> else st3, ev)))"

definition zero_turn :: "'e zero_env_scheme \<Rightarrow> db_reader \<Rightarrow> net \<Rightarrow> (nat \<Rightarrow> sync_request list) \<Rightarrow> nat \<Rightarrow> u64 \<Rightarrow> u64 \<Rightarrow> sync_state \<Rightarrow> (tx_error, sync_state \<times> sync_event list) result" where
  "zero_turn env rd s asks pledged chainHeight selfNodeHeight st =
     (let st1 = (if unat (syncSendZeroSyncNum st) < pledged div 2 then st\<lparr>syncSendZeroSyncNum := word_of_nat (pledged div 2)\<rparr> else st) in
      bindE (lift_db (RunFromZeroSyncOnce env rd s chainHeight selfNodeHeight (ucast (syncSendZeroSyncNum st1)) st1)) (\<lambda>(st2, ev, runStatus).
        let st3 = take_requests (asks 3) st2 in
        Inr (if runStatus = 0 then st3\<lparr>syncSendZeroSyncNum := min_nodes env\<rparr>
             else st3\<lparr>syncSendZeroSyncNum := all_nodes_num, runZeroSyncNum := runZeroSyncNum st3 + 1\<rparr>, ev)))"

text \<open>The range of an ordinary run and the state in which it starts.\<close>

definition new_range :: "u64 \<Rightarrow> u64 \<Rightarrow> sync_state \<Rightarrow> u64 \<times> u64 \<times> u64 \<times> sync_state" where
  "new_range chainHeight selfNodeHeight st =
     (let self = (if newSyncFailHeight st \<noteq> 0 then newSyncFailHeight st else selfNodeHeight); cnt = ucast (syncHeightCnt st);
          start_h = (if self > cnt then (if self - cnt \<le> 0 then 1 else self - cnt) else 1);
          end_h = (if chainHeight - 10 \<le> self then self + 1 else self + cnt) in
      if runNewSync st then
        (let st1 = (if newSyncStartHeight st > self then st\<lparr>newSyncStartHeight := self\<rparr> else st); a = newSyncStartHeight st1
         in (self, if a > cnt then a - cnt else 1, a + cnt, st1))
      else (self, start_h, end_h, st))"

definition after_new :: "'e sync_env_scheme \<Rightarrow> int \<Rightarrow> sync_state \<Rightarrow> sync_state" where
  "after_new env runStatus st =
     (if runStatus < 0 then st\<lparr>newSyncFailHeight := 0, runFastSync := False, syncSendNewSyncNum := all_nodes_num\<rparr>
      else if runStatus = 0 then st\<lparr>runZeroSyncNum := 0, runNewSync := False, newSyncStartHeight := 0, newSyncFailHeight := 0, runFastSync := False,
        syncSendNewSyncNum := min_nodes env\<rparr>
      else st\<lparr>syncSendNewSyncNum := all_nodes_num\<rparr>)"

definition new_turn :: "'e zero_env_scheme \<Rightarrow> db_reader \<Rightarrow> (string \<Rightarrow> (string \<times> string) option) \<Rightarrow> (string list \<Rightarrow> nat \<Rightarrow> bool \<times> string list) \<Rightarrow> net \<Rightarrow>
    (nat \<Rightarrow> sync_request list) \<Rightarrow> string list \<Rightarrow> u64 \<Rightarrow> u64 \<Rightarrow> sync_state \<Rightarrow> (tx_error, sync_state \<times> sync_event list) result" where
  "new_turn env rd parse ask s asks pledgeAddr chainHeight selfNodeHeight st =
     (case new_range chainHeight selfNodeHeight st of (self, start_h, end_h, st0) \<Rightarrow>
      let st1 = take_requests (asks 3) st0 in
      bindE (RunNewSyncOnce env rd parse ask s pledgeAddr chainHeight self start_h end_h (ucast (syncSendNewSyncNum st1)) (runFastSync st1) (memory st1)) (\<lambda>(ev, mem, runStatus).
        Inr (after_new env runStatus (take_requests (asks 4) (st1\<lparr>memory := mem\<rparr>)), ev)))"

text \<open>One turn of the loop after the wait; \<open>chain\<close> is the result of \<open>ObtainChainHeight\<close>.\<close>

definition sync_turn :: "'e zero_env_scheme \<Rightarrow> db_reader \<Rightarrow> (string \<Rightarrow> (string \<times> string) option) \<Rightarrow> (string list \<Rightarrow> nat \<Rightarrow> bool \<times> string list) \<Rightarrow> net \<Rightarrow>
    u64 option \<Rightarrow> (nat \<Rightarrow> sync_request list) \<Rightarrow> sync_state \<Rightarrow> (tx_error, sync_state \<times> sync_event list) result" where
  "sync_turn env rd parse ask s chain asks st = (case chain of
     None \<Rightarrow> Inr (st, [])
   | Some chainHeight \<Rightarrow>
       bindE (lift_db (GetBlockTop rd 0)) (\<lambda>(status, selfNodeHeight).
       if status \<noteq> DB_SUCCESS then Inr (st, [])
       else let pledgeAddr = map address (filter (\<lambda>n. se_qualified env (address n)) (GetNodelist NODE_ALL False s));
                st1 = take_requests (asks 1) (prepare_turn asks selfNodeHeight st) in
         if runFastSync st1 then fast_turn env rd parse ask s asks pledgeAddr chainHeight selfNodeHeight st1
         else let st2 = take_requests (asks 2) st1 in
           if GetSaveSyncType env selfNodeHeight chainHeight = SyncFromZero \<and> \<not> (runNewSync st2 \<or> runZeroSyncNum st2 > 2)
           then zero_turn env rd s asks (length pledgeAddr) chainHeight selfNodeHeight st2
           else new_turn env rd parse ask s asks pledgeAddr chainHeight selfNodeHeight st2))"

section \<open>The states of the thread\<close>

text \<open>
  The thread takes turns, whatever the database, the network and the answers are, while other
  threads request a synchronisation or start and stop the thread, between turns and in the
  middle of them. In a quiet history nothing arrives in the middle of a turn.
\<close>

definition sync_init :: "nat \<Rightarrow> sync_state" where
  "sync_init k = \<lparr>newSyncFailHeight = 0, runFastSync = False, inFastSyncFail = False, runNewSync = False, newSyncStartHeight = 0, syncHeightCnt = 100,
     syncSendNewSyncNum = word_of_nat k, syncSendFastSyncNum = word_of_nat k, syncSendZeroSyncNum = word_of_nat k, runFastSuncNum = 0, runZeroSyncNum = 0,
     syncThreadRuning = False, fastSyncHeightCnt = 0, syncFromZeroCache = [], syncFromZeroReserveHeights = [],
     memory = \<lparr>forceFindBaseChain = False, lastEqualHeight = 0, equalHeightCount = 0\<rparr>\<rparr>"

inductive sync_reach :: "bool \<Rightarrow> nat \<Rightarrow> sync_state \<Rightarrow> bool" for quiet k where
  init: "sync_reach quiet k (sync_init k)"
| started: "sync_reach quiet k st \<Longrightarrow> sync_reach quiet k (ThreadStart_init st)"
| stopped: "sync_reach quiet k st \<Longrightarrow> sync_reach quiet k (ThreadStop st)"
| asked: "sync_reach quiet k st \<Longrightarrow> sync_reach quiet k (serve a st)"
| turn: "sync_reach quiet k st \<Longrightarrow> syncThreadRuning st \<Longrightarrow> se_KMinSyncQualNodes (env :: unit zero_env_scheme) = k \<Longrightarrow>
    (quiet \<Longrightarrow> asks = (\<lambda>_. [])) \<Longrightarrow> sync_turn env rd parse ask s chain asks st = Inr (st', ev) \<Longrightarrow> sync_reach quiet k st'"

definition sync_inv :: "nat \<Rightarrow> sync_state \<Rightarrow> bool" where
  "sync_inv k st \<longleftrightarrow> runZeroSyncNum st \<le> 3 \<and> fastSyncHeightCnt st = 0 \<and> syncHeightCnt st \<le> 200 \<and>
     syncSendNewSyncNum st \<in> {word_of_nat k, all_nodes_num} \<and> syncSendFastSyncNum st \<in> {word_of_nat k, all_nodes_num}"

text \<open>What the runs and the requests leave alone; a request for an ordinary run is never taken back by them.\<close>

definition same_counts :: "sync_state \<Rightarrow> sync_state \<Rightarrow> bool" where
  "same_counts st st' \<longleftrightarrow> runFastSuncNum st' = runFastSuncNum st \<and> runZeroSyncNum st' = runZeroSyncNum st \<and> fastSyncHeightCnt st' = fastSyncHeightCnt st \<and>
     syncHeightCnt st' = syncHeightCnt st \<and> syncSendNewSyncNum st' = syncSendNewSyncNum st \<and> syncSendFastSyncNum st' \<in> {syncSendFastSyncNum st, all_nodes_num} \<and>
     (runNewSync st \<longrightarrow> runNewSync st')"

lemma same_counts_refl [simp]: "same_counts st st"
  by (simp add: same_counts_def)

lemma same_counts_trans: "same_counts a b \<Longrightarrow> same_counts b c \<Longrightarrow> same_counts a c"
  by (auto simp: same_counts_def)

lemma serve_frame: "same_counts st (serve a st)"
  by (cases a) (auto simp: same_counts_def SetFastSync_def SetNewSyncHeight_def ThreadStart_def Let_def)

lemma take_requests_frame: "same_counts st (take_requests rs st)"
proof (induction rs arbitrary: st)
  case (Cons a rs)
  show ?case using same_counts_trans [OF serve_frame [of st a] Cons.IH] by (simp add: take_requests_def)
qed (simp add: take_requests_def)

lemma take_requests_Nil [simp]: "take_requests [] st = st"
  by (simp add: take_requests_def)

lemma sync_inv_same: "sync_inv k st \<Longrightarrow> same_counts st st' \<Longrightarrow> sync_inv k st'"
  by (auto simp: sync_inv_def same_counts_def)

lemma fast_vote_frame:
  "GetFastSyncSumHashNode env rd s ids a b chain st = Inr (st', x) \<Longrightarrow> same_counts st st'"
proof -
  have decide: "same_counts st (fst (fast_decide s env st scan))" for scan
    by (cases scan) (auto simp: fast_decide_def same_counts_def)
  assume "GetFastSyncSumHashNode env rd s ids a b chain st = Inr (st', x)"
  then consider "st' = st" | scan where "fast_decide s env st scan = (st', x)"
    by (auto simp: GetFastSyncSumHashNode_def Let_def split_beta bindE_eq_Inr_iff split: if_split_asm option.split_asm)
  then show ?thesis using decide by cases (auto, metis fst_conv)
qed

lemma fast_run_frame:
  "RunFastSyncOnce env rd parse ask s pledgeAddr chain a b n st = Inr (st', x) \<Longrightarrow> same_counts st st'"
proof -
  assume run: "RunFastSyncOnce env rd parse ask s pledgeAddr chain a b n st = Inr (st', x)"
  have mem: "same_counts st (st\<lparr>memory := m\<rparr>)" for m by (simp add: same_counts_def)
  from run consider "st' = st" | m where "st' = st\<lparr>memory := m\<rparr>" | m ids x' where "GetFastSyncSumHashNode env rd s ids a b chain (st\<lparr>memory := m\<rparr>) = Inr (st', x')"
    by (auto simp: RunFastSyncOnce_def Let_def split_beta bindE_eq_Inr_iff split: if_split_asm)
  then show ?thesis using mem fast_vote_frame same_counts_trans by cases (auto, blast)
qed





lemma prepare_turn_frame:
  "sync_inv k st \<Longrightarrow> sync_inv k (prepare_turn asks self st)" "runNewSync st \<Longrightarrow> runNewSync (prepare_turn asks self st)"
proof -
  let ?st1 = "st\<lparr>syncFromZeroCache := filter (\<lambda>e. \<not> fst e < self) (syncFromZeroCache st)\<rparr>"
  let ?st2 = "if runFastSuncNum ?st1 \<ge> 5 \<and> runFastSync ?st1 then ?st1\<lparr>runFastSuncNum := 0, runFastSync := False\<rparr> else ?st1"
  let ?st3 = "take_requests (asks 0) ?st2"
  have eq: "prepare_turn asks self st = (if runNewSync ?st3 then ?st3\<lparr>runFastSuncNum := 0, runFastSync := False\<rparr> else ?st3)"
    by (simp add: prepare_turn_def Let_def)
  note frame = take_requests_frame [of ?st2 "asks 0"]
  show "sync_inv k (prepare_turn asks self st)" if "sync_inv k st"
  proof -
    have "sync_inv k ?st2" using that by (simp add: sync_inv_def)
    then have "sync_inv k ?st3" by (rule sync_inv_same [OF _ frame])
    then show ?thesis unfolding eq by (simp add: sync_inv_def)
  qed
  show "runNewSync (prepare_turn asks self st)" if "runNewSync st"
    using that frame unfolding eq by (simp add: same_counts_def)
qed


lemma fast_turn_result:
  assumes "fast_turn env rd parse ask s asks pledgeAddr chain self st = Inr (st', ev)"
  obtains st4 where "same_counts (st\<lparr>runFastSuncNum := runFastSuncNum st + 1\<rparr>) (st4\<lparr>syncSendFastSyncNum := syncSendFastSyncNum st\<rparr>)"
    and "syncSendFastSyncNum st4 \<in> {min_nodes env, all_nodes_num}"
    and "st' = (if inFastSyncFail st4 then st4\<lparr>inFastSyncFail := False, runFastSync := True\<rparr> else st4)"
proof -
  let ?st1 = "take_requests (asks 2) (st\<lparr>runFastSuncNum := runFastSuncNum st + 1\<rparr>)"
  obtain st2 ev2 ok where run: "RunFastSyncOnce env rd parse ask s pledgeAddr chain (fst (fast_range self ?st1)) (snd (fast_range self ?st1))
      (ucast (syncSendFastSyncNum ?st1)) ?st1 = Inr (st2, ev2, ok)"
    and st': "st' = (let st3 = take_requests (asks 4) ((take_requests (asks 3) st2)\<lparr>syncSendFastSyncNum := (if ok then min_nodes env else all_nodes_num), runFastSync := False\<rparr>)
        in if inFastSyncFail st3 then st3\<lparr>inFastSyncFail := False, runFastSync := True\<rparr> else st3)"
    using assms by (auto simp: fast_turn_def Let_def split_beta bindE_eq_Inr_iff)
  let ?st3 = "(take_requests (asks 3) st2)\<lparr>syncSendFastSyncNum := (if ok then min_nodes env else all_nodes_num), runFastSync := False\<rparr>"
  have "same_counts (st\<lparr>runFastSuncNum := runFastSuncNum st + 1\<rparr>) (take_requests (asks 3) st2)"
    using take_requests_frame fast_run_frame [OF run] same_counts_trans by blast
  moreover have "same_counts ?st3 (take_requests (asks 4) ?st3)" by (rule take_requests_frame)
  ultimately show ?thesis
    by (intro that [of "take_requests (asks 4) ?st3"]) (auto simp: st' Let_def same_counts_def)
qed

lemma fast_turn_inv:
  assumes "fast_turn env rd parse ask s asks pledgeAddr chain self st = Inr (st', ev)" "sync_inv (se_KMinSyncQualNodes env) st"
  shows "sync_inv (se_KMinSyncQualNodes env) st'" and "runFastSuncNum st' = runFastSuncNum st + 1" and "runNewSync st \<Longrightarrow> runNewSync st'"
  using assms(1) by (rule fast_turn_result; use assms(2) in \<open>auto simp: sync_inv_def same_counts_def min_nodes_def\<close>)+


lemma new_range_frame: "new_range chain self0 st = (self, a, b, st1) \<Longrightarrow> same_counts st st1"
  by (auto simp: new_range_def Let_def same_counts_def split: if_split_asm)


lemma new_turn_run:
  assumes "new_turn env rd parse ask s asks ids chain self0 st = Inr (st', ev)"
  obtains self a b n fast mem mem' st2 code where "same_counts st st2" and "st' = after_new env code st2"
    and "RunNewSyncOnce env rd parse ask s ids chain self a b n fast mem = Inr (ev, mem', code)"
proof -
  obtain self a b st0 where r: "new_range chain self0 st = (self, a, b, st0)" by (cases "new_range chain self0 st")
  let ?st1 = "take_requests (asks 3) st0"
  have "same_counts ?st1 (?st1\<lparr>memory := mem\<rparr>)" for mem by (simp add: same_counts_def)
  then have "same_counts st (take_requests (asks 4) (?st1\<lparr>memory := mem\<rparr>))" for mem
    using new_range_frame [OF r] take_requests_frame same_counts_trans by blast
  moreover obtain mem code where "RunNewSyncOnce env rd parse ask s ids chain self a b (ucast (syncSendNewSyncNum ?st1)) (runFastSync ?st1) (memory ?st1) = Inr (ev, mem, code)"
      "st' = after_new env code (take_requests (asks 4) (?st1\<lparr>memory := mem\<rparr>))"
    using assms by (auto simp: new_turn_def r Let_def bindE_eq_Inr_iff)
  ultimately show ?thesis using that by blast
qed


lemma sync_turn_cases:
  assumes "sync_turn env rd parse ask s chain asks st = Inr (st', ev)"
  obtains "st' = st"
    | ids h self where "runFastSync (take_requests (asks 1) (prepare_turn asks self st))"
        "fast_turn env rd parse ask s asks ids h self (take_requests (asks 1) (prepare_turn asks self st)) = Inr (st', ev)"
    | n h self st2 where "st2 = take_requests (asks 2) (take_requests (asks 1) (prepare_turn asks self st))" "\<not> runNewSync st2" "\<not> runZeroSyncNum st2 > 2"
        "zero_turn env rd s asks n h self st2 = Inr (st', ev)"
    | ids h self st2 where "st2 = take_requests (asks 2) (take_requests (asks 1) (prepare_turn asks self st))"
        "new_turn env rd parse ask s asks ids h self st2 = Inr (st', ev)"
  using assms
  by (auto simp: sync_turn_def Let_def split_beta bindE_eq_Inr_iff split: option.split_asm if_split_asm)




text \<open>
  A node without others: no run finds nodes to ask, so that a fast turn fails and counts. It
  serves as the example, and shows how a request in the middle of a turn escapes the limit:
  the counter is tested before the request is there, and counts it afterwards.
\<close>

definition lone_env :: zero_env where
  "lone_env = (zero_sample [])\<lparr>se_kMinUnstakeHeight := 5, se_KMinSyncQualNodes := 2\<rparr>"

lemma lone_basic: "GetSyncNodeBasic lone_env (fast_reader []) (sample_net []) num h disc [] = Inr (-2, [])"
  by (simp add: GetSyncNodeBasic_def fast_reader_top sample_net_nodes lone_env_def Let_def)

lemma lone_nodes: "\<exists>m'. GetSyncNode lone_env (fast_reader []) parse ask (sample_net []) num chain ids m [] = Inr (m', -2, [])"
  by (auto simp: GetSyncNode_def choose_side_def fast_reader_top lone_basic Let_def)

lemma lone_fast_run: "\<exists>m. RunFastSyncOnce lone_env (fast_reader []) parse ask (sample_net []) ids chain a b n st = Inr (st\<lparr>memory := m\<rparr>, [], False)"
proof (cases "a > b")
  case True
  then show ?thesis by (intro exI [of _ "memory st"]) (simp add: RunFastSyncOnce_def)
next
  case False
  obtain m' where "GetSyncNode lone_env (fast_reader []) parse ask (sample_net []) (unat n) chain ids (memory st) [] = Inr (m', -2, [])"
    using lone_nodes by blast
  then show ?thesis using False by (intro exI [of _ m']) (simp add: RunFastSyncOnce_def Let_def)
qed

definition idle :: "sync_state \<Rightarrow> bool" where
  "idle st \<longleftrightarrow> syncThreadRuning st \<and> \<not> runNewSync st \<and> \<not> inFastSyncFail st"

text \<open>A failed fast turn, with requests before the decision what to run.\<close>

lemma lone_turn:
  assumes "idle st" and "\<forall>i \<ge> 2. asks i = []" and "st1 = take_requests (asks 1) (prepare_turn asks 7 st)" and "idle st1" and "runFastSync st1"
  shows "\<exists>st'. sync_turn lone_env (fast_reader []) parse ask (sample_net []) (Some 20) asks st = Inr (st', []) \<and> idle st' \<and>
    \<not> runFastSync st' \<and> runFastSuncNum st' = runFastSuncNum st1 + 1"
proof -
  let ?st = "st1\<lparr>runFastSuncNum := runFastSuncNum st1 + 1\<rparr>"
  obtain m where run: "RunFastSyncOnce lone_env (fast_reader []) parse ask (sample_net []) [] 20 (fst (fast_range 7 ?st)) (snd (fast_range 7 ?st))
      (ucast (syncSendFastSyncNum ?st)) ?st = Inr (?st\<lparr>memory := m\<rparr>, [], False)"
    using lone_fast_run by blast
  have asks: "asks 2 = []" "asks 3 = []" "asks 4 = []" using assms(2) by simp_all
  have "sync_turn lone_env (fast_reader []) parse ask (sample_net []) (Some 20) asks st =
      fast_turn lone_env (fast_reader []) parse ask (sample_net []) asks [] 20 7 st1"
    using assms(5) unfolding assms(3) by (simp add: sync_turn_def fast_reader_top sample_net_nodes Let_def)
  then show ?thesis
    using run assms(4) by (auto simp: fast_turn_def asks Let_def split_beta idle_def)
qed

lemma lone_requested_turn:
  assumes "sync_reach quiet 2 st" and "idle st" and "runFastSuncNum st < 5"
  shows "\<exists>st'. sync_reach quiet 2 st' \<and> idle st' \<and> \<not> runFastSync st' \<and> runFastSuncNum st' = runFastSuncNum st + 1"
proof -
  let ?st = "serve (FastRequest 7) st" and ?prep = "prepare_turn (\<lambda>_. []) 7 (serve (FastRequest 7) st)"
  have prep: "idle ?prep" "runFastSync ?prep" "runFastSuncNum ?prep = runFastSuncNum st" and st: "idle ?st"
    using assms(2,3) by (auto simp: prepare_turn_def idle_def SetFastSync_def Let_def not_le)
  obtain st' where turn: "sync_turn lone_env (fast_reader []) (\<lambda>_. None) (\<lambda>_ _. (False, [])) (sample_net []) (Some 20) (\<lambda>_. []) ?st = Inr (st', [])"
      and st': "idle st'" "\<not> runFastSync st'" "runFastSuncNum st' = runFastSuncNum st + 1"
    using lone_turn [OF st, of "\<lambda>_. []"] prep by fastforce
  have "sync_reach quiet 2 ?st" by (rule sync_reach.asked [OF assms(1)])
  then have "sync_reach quiet 2 st'"
    by (rule sync_reach.turn [OF _ _ _ _ turn]) (use st in \<open>simp_all add: idle_def lone_env_def\<close>)
  with st' show ?thesis by blast
qed

lemma start_reach: "sync_reach quiet 2 start_state"
proof -
  have "start_state = ThreadStart_init (sync_init 2)" by (simp add: start_state_def sync_init_def ThreadStart_init_def)
  moreover have "sync_reach quiet 2 (ThreadStart_init (sync_init 2))" by (rule sync_reach.started, rule sync_reach.init)
  ultimately show ?thesis by (elim ssubst)
qed

lemma lone_turns:
  "n \<le> 5 \<Longrightarrow> \<exists>st. sync_reach quiet 2 st \<and> idle st \<and> \<not> runFastSync st \<and> runFastSuncNum st = word_of_nat n"
proof (induction n)
  case 0
  show ?case using start_reach by (intro exI [of _ start_state]) (simp add: idle_def start_state_def)
next
  case (Suc n)
  then obtain st where st: "sync_reach quiet 2 st" "idle st" "runFastSuncNum st = word_of_nat n" by auto
  have "n \<in> {0, 1, 2, 3, 4}" using Suc.prems by auto
  then have "runFastSuncNum st < 5" unfolding st(3) by auto
  from lone_requested_turn [OF st(1,2) this] show ?case unfolding st(3) by (auto simp: ac_simps)
qed


text \<open>A request in the middle of a turn makes a sixth fast run.\<close>

theorem fast_counter_race:
  "\<exists>st. sync_reach False 2 st \<and> runFastSuncNum st = 6"
proof -
  obtain st where st: "sync_reach False 2 st" "idle st" "\<not> runFastSync st" "runFastSuncNum st = 5" using lone_turns [of 5 False] by auto
  define asks where "asks = (\<lambda>i. if i = (1 :: nat) then [FastRequest 7] else [])"
  let ?st1 = "take_requests (asks 1) (prepare_turn asks 7 st)"
  have st1: "idle ?st1" "runFastSync ?st1" "runFastSuncNum ?st1 = 5"
    using st(2-4) by (auto simp: asks_def prepare_turn_def take_requests_def idle_def SetFastSync_def Let_def)
  obtain st' where turn: "sync_turn lone_env (fast_reader []) (\<lambda>_. None) (\<lambda>_ _. (False, [])) (sample_net []) (Some 20) asks st = Inr (st', [])"
      and num: "runFastSuncNum st' = 6"
    using lone_turn [OF st(2) _ refl st1(1,2), of "\<lambda>_. None" "\<lambda>_ _. (False, [])"] st1(3) by (auto simp: asks_def)
  have "sync_reach False 2 st'"
    by (rule sync_reach.turn [OF st(1) _ _ _ turn]) (use st(2) in \<open>simp_all add: idle_def lone_env_def\<close>)
  with num show ?thesis by blast
qed

text \<open>
  A request for an ordinary synchronisation is only withdrawn by a turn in which
  \<open>_RunNewSyncOnce\<close> was made and returned 0: failed and unfinished runs keep it.
\<close>

lemma new_turn_done:
  assumes turn: "new_turn env rd parse ask s asks ids chain self0 st = Inr (st', ev)" and kept: "runNewSync st" "\<not> runNewSync st'"
  shows "\<exists>self a b n fast mem mem'. RunNewSyncOnce env rd parse ask s ids chain self a b n fast mem = Inr (ev, mem', 0)"
proof -
  from turn obtain self a b n fast mem mem' st2 code where run: "same_counts st st2" "st' = after_new env code st2"
    "RunNewSyncOnce env rd parse ask s ids chain self a b n fast mem = Inr (ev, mem', code)"
    by (rule new_turn_run)
  then have "code = 0" using kept by (auto simp: after_new_def same_counts_def split: if_split_asm)
  then show ?thesis using run(3) by blast
qed

lemma sync_request_kept:
  assumes turn: "sync_turn env rd parse ask s chain asks st = Inr (st', ev)" and inv: "sync_inv (se_KMinSyncQualNodes env) st"
    and kept: "runNewSync st" "\<not> runNewSync st'"
  shows "\<exists>ids h self a b n fast mem mem'. RunNewSyncOnce env rd parse ask s ids h self a b n fast mem = Inr (ev, mem', 0)"
proof -
  have prep: "runNewSync (take_requests (asks 1) (prepare_turn asks self st))" for self
    using prepare_turn_frame(2) [OF kept(1)] take_requests_frame [of "prepare_turn asks self st" "asks 1"] by (simp add: same_counts_def)
  then have prep2: "runNewSync (take_requests (asks 2) (take_requests (asks 1) (prepare_turn asks self st)))" for self
    using take_requests_frame [of "take_requests (asks 1) (prepare_turn asks self st)" "asks 2"] by (simp add: same_counts_def)
  have inv1: "sync_inv (se_KMinSyncQualNodes env) (take_requests (asks 1) (prepare_turn asks self st))" for self
    using sync_inv_same [OF prepare_turn_frame(1) [OF inv] take_requests_frame] .
  from turn show ?thesis
  proof (cases rule: sync_turn_cases)
    case 1
    then show ?thesis using kept by simp
  next
    case (2 ids h self)
    then show ?thesis using fast_turn_inv(3) [OF 2(2) inv1 prep] kept(2) by simp
  next
    case (3 n h self st2)
    then show ?thesis using prep2 by simp
  next
    case (4 ids h self st2)
    then show ?thesis using new_turn_done [OF 4(2)] prep2 kept(2) by blast
  qed
qed

end
