(* ===== verification/Block_Queue.thy ===== *)
theory Block_Queue
  imports Sync_Thread
begin

text \<open>
  The queues of the block helper of \<open>ca/block_helper.cpp\<close>: blocks from broadcasts, from
  synchronisation, blocks that wait for their predecessor, blocks to be rolled back and the
  hashes of blocks that are missing. Every operation that fills them, the conflict of a new
  block with the queued ones, the check of contract blocks, and the search for missing blocks.
\<close>

section \<open>Data\<close>

datatype BlockObtainMean = Normal | ByPreHash | ByUtxo

datatype ContractPreHashStatus = PreHashNormal | DbBlockException | MemBlockException | Waiting | PreHashErr

datatype doubleSpendType = repeatenDoubleSpend | newDoubleSpend | oldDoubleSpend | invalidDoubleSpend | doubleSpendErr

record MissingBlock =
  mb_hash :: string
  mb_time :: u64
  mb_txOrBlock :: bool
  mb_triggerCount :: u64

definition mb_less :: "MissingBlock \<Rightarrow> MissingBlock \<Rightarrow> bool" where
  "mb_less a b = (if mb_hash a = mb_hash b then False else mb_time a < mb_time b)"

text \<open>
  \<open>std::set::insert\<close> with a given order: the place is the first element the new one precedes, and
  the element before that place must precede the new one.
\<close>

definition set_insert :: "('a \<Rightarrow> 'a \<Rightarrow> bool) \<Rightarrow> 'a \<Rightarrow> 'a list \<Rightarrow> 'a list" where
  "set_insert lt e xs =
     (let pre = takeWhile (\<lambda>c. \<not> lt e c) xs; post = dropWhile (\<lambda>c. \<not> lt e c) xs
      in if pre = [] \<or> lt (last pre) e then pre @ e # post else xs)"

text \<open>\<open>std::multimap::insert\<close>: after the entries with the same key.\<close>

definition mm_insert :: "'k::linorder \<Rightarrow> 'v \<Rightarrow> ('k \<times> 'v) list \<Rightarrow> ('k \<times> 'v) list" where
  "mm_insert k v m = takeWhile (\<lambda>e. fst e \<le> k) m @ (k, v) # dropWhile (\<lambda>e. fst e \<le> k) m"

text \<open>The state of the helper; the stack has its top in front. \<open>processing\<close> is the static variable of \<open>Process\<close>.\<close>

record helper =
  missingPrehash :: bool
  missingUtxos :: "string list"
  broadcastBlocks :: "CBlock list"
  syncBlocks :: "CBlock list"
  fastSyncBlocks :: "CBlock list"
  rollbackBlocks :: block_map
  pendingBlocks :: "(u64, (string \<times> CBlock) list) omap"
  hashPendingBlocks :: "(string, u64 \<times> CBlock) omap"
  utxoMissingBlocks :: "CBlock list"
  missingBlocks :: "MissingBlock list"
  doubleSpendBlocks :: "(string, CBlock) omap"
  duplicateChecker :: "(string, bool \<times> u64) omap"
  contractBlocks :: "(string, CBlock) omap"
  stopBlocking :: bool
  whetherRunSendBlockByUtxoReq :: bool
  processing :: bool
  syncType :: SaveType

definition new_helper :: helper where
  "new_helper = \<lparr>missingPrehash = False, missingUtxos = [], broadcastBlocks = [], syncBlocks = [], fastSyncBlocks = [], rollbackBlocks = [],
     pendingBlocks = [], hashPendingBlocks = [], utxoMissingBlocks = [], missingBlocks = [], doubleSpendBlocks = [], duplicateChecker = [],
     contractBlocks = [], stopBlocking = True, whetherRunSendBlockByUtxoReq = True, processing = False, syncType = Unknow\<rparr>"

text \<open>
  What the helper hands to other components: status messages with the hashes of conflicting
  transactions, tasks for the thread pool, requests for a synchronisation, rollbacks and saved blocks.
\<close>

datatype helper_event =
    TxStatusTask CBlock CBlock
  | StatusMsg string string "(string \<times> int) list"
  | NewSync u64
  | FastSync u64
  | SeekUtxo string
  | RolledBack string int
  | SavedBlock CBlock SaveType BlockObtainMean
  | PostTransaction CBlock
  | HeightChanged
  | SyncThread bool

datatype helper_error = HelperDb db_error | NoOwners | NoSign | EndIterator | OutOfFuel

definition lift_h :: "(db_error, 'a) result \<Rightarrow> (helper_error, 'a) result" where
  "lift_h r = (case r of Inl e \<Rightarrow> Inl (HelperDb e) | Inr x \<Rightarrow> Inr x)"

lemma lift_h_Inr [simp]: "lift_h (Inr x) = Inr x" "lift_h r = Inr x \<longleftrightarrow> r = Inr x"
  by (auto simp: lift_h_def split: sum.splits)

text \<open>
  The functions of the prebuilt library. A verification or a save reports, besides its code,
  whether it called \<open>SetMissingPrehash\<close> and for which outputs it called \<open>PushMissUTXO\<close>. A save
  works on a transaction of the database: its second result is the database that a commit
  makes visible. \<open>he_json\<close> lists, by hash of a transaction of a contract block, the pairs of the
  member \<open>contractPreHash\<close>; there is no value where the parser or the access throws.
\<close>

record core_result =
  cr_ret :: int
  cr_prehash :: bool
  cr_utxos :: "string list"

record 'w helper_env = block_env +
  he_rd :: "'w \<Rightarrow> db_reader"
  he_VerifyBlock :: "'w \<Rightarrow> CBlock \<Rightarrow> core_result"
  he_VerifyFlow :: "'w \<Rightarrow> CBlock \<Rightarrow> bool \<Rightarrow> int \<times> (string \<times> int) list"
  he_SaveBlock :: "'w \<Rightarrow> CBlock \<Rightarrow> SaveType \<Rightarrow> BlockObtainMean \<Rightarrow> core_result \<times> 'w"
  he_commit :: "'w \<Rightarrow> CBlock \<Rightarrow> bool"
  he_RollBackByHash :: "'w \<Rightarrow> string \<Rightarrow> 'w \<times> int"
  he_VerifyPreSaveBlock :: "'w \<Rightarrow> CBlock \<Rightarrow> int"
  he_DoubleSpendCheck :: "'w \<Rightarrow> CTransaction \<Rightarrow> int \<times> string"
  he_GetTransactionType :: "CTransaction \<Rightarrow> TransactionType"
  he_GenerateAddr :: "string \<Rightarrow> string"
  he_IsContractBlock :: "CBlock \<Rightarrow> bool"
  he_GetContractAddr :: "CTransaction \<Rightarrow> string"
  he_json :: "string \<Rightarrow> (string \<times> (string \<times> string) list option) list option"
  he_time_sort :: "CTransaction list \<Rightarrow> CTransaction list"
  he_defaultAddr :: string
  he_version :: u32
  he_steady :: int

text \<open>
  The helper beside the database, the cache of spent outputs, the block manager (the hashes it
  has seen, with the time of a steady clock) and what the helper handed out so far.
\<close>

record 'w bh =
  db :: 'w
  cache :: pending
  seen :: "(string \<times> int) list"
  hp :: helper
  out :: "helper_event list"

abbreviation emit :: "helper_event \<Rightarrow> 'w bh \<Rightarrow> 'w bh" where
  "emit e s \<equiv> s\<lparr>out := out s @ [e]\<rparr>"

abbreviation reader :: "('w, 'z) helper_env_scheme \<Rightarrow> 'w bh \<Rightarrow> db_reader" where
  "reader env s \<equiv> he_rd env (db s)"

section \<open>The block manager\<close>

definition addBlock :: "int \<Rightarrow> string \<Rightarrow> (string \<times> int) list \<Rightarrow> (string \<times> int) list \<times> bool" where
  "addBlock now blockHash blocks = (if map_of blocks blockHash \<noteq> None then (blocks, False) else ((blockHash, now) # blocks, True))"

definition hasBlock :: "string \<Rightarrow> (string \<times> int) list \<Rightarrow> bool" where
  "hasBlock blockHash blocks \<longleftrightarrow> map_of blocks blockHash \<noteq> None"

text \<open>Times are in nanoseconds.\<close>

definition removeExpiredBlocks :: "int \<Rightarrow> int \<Rightarrow> (string \<times> int) list \<Rightarrow> (string \<times> int) list" where
  "removeExpiredBlocks now seconds blocks = filter (\<lambda>e. \<not> now - snd e > seconds * 1000000000) blocks"

section \<open>The height of the chain\<close>

text \<open>Three quarters of the nodes may be below the height that is taken.\<close>

definition chain_index :: "nat \<Rightarrow> nat" where
  "chain_index n = dtrunc (dmul (of_nat n) (dbl (3 / 4)))"

definition ObtainChainHeight :: "'e sync_env_scheme \<Rightarrow> db_reader \<Rightarrow> net \<Rightarrow> (db_error, u64 option) result" where
  "ObtainChainHeight env rd s = bindE (GetBlockTop rd 0) (\<lambda>(status, tip).
     if status \<noteq> DB_SUCCESS then Inr None
     else let nodes = GetNodelist NODE_ALL False s in
       if nodes = [] then Inr (Some tip)
       else let qualifyingNode = (if tip < se_kMinUnstakeHeight env then nodes else filter (\<lambda>n. se_qualified env (address n)) nodes) in
         if \<not> tip < se_kMinUnstakeHeight env \<and> qualifyingNode = [] then Inr (Some tip)
         else let nodeHeights = sort (map (\<lambda>n. ucast (height n)) qualifyingNode) :: u64 list; verifyNum = chain_index (length nodeHeights)
           in Inr (if verifyNum \<ge> length nodeHeights then None else Some (nodeHeights ! verifyNum)))"

section \<open>Missing blocks and outputs\<close>

definition SetMissingPrehash :: "helper \<Rightarrow> helper" where
  "SetMissingPrehash h = h\<lparr>missingPrehash := True\<rparr>"

definition ResetMissingPrehash :: "helper \<Rightarrow> helper" where
  "ResetMissingPrehash h = h\<lparr>missingPrehash := False\<rparr>"

definition PushMissUTXO :: "string \<Rightarrow> helper \<Rightarrow> helper" where
  "PushMissUTXO utxo h = (let st = utxo # missingUtxos h in h\<lparr>missingUtxos := (if length st > 10 then [] else st)\<rparr>)"

definition PopMissUTXO :: "helper \<Rightarrow> helper" where
  "PopMissUTXO h = h\<lparr>missingUtxos := tl (missingUtxos h)\<rparr>"

definition GetMissBlock :: "'w bh \<Rightarrow> 'w bh" where
  "GetMissBlock s = (case missingUtxos (hp s) of [] \<Rightarrow> s | utxo # _ \<Rightarrow> emit (SeekUtxo utxo) s)"

definition AddMissing :: "string \<Rightarrow> u64 \<Rightarrow> bool \<Rightarrow> helper \<Rightarrow> helper" where
  "AddMissing hash now txOrBlock h =
     h\<lparr>missingBlocks := set_insert mb_less \<lparr>mb_hash = hash, mb_time = now, mb_txOrBlock = txOrBlock, mb_triggerCount = 0\<rparr> (missingBlocks h)\<rparr>"

definition AddPendingBlock :: "('w, 'z) helper_env_scheme \<Rightarrow> CBlock \<Rightarrow> 'w bh \<Rightarrow> (helper_error, 'w bh) result" where
  "AddPendingBlock env block s = bindE (lift_h (GetBlockTop (reader env s) 0)) (\<lambda>(status, selfNodeHeight).
     if status \<noteq> DB_SUCCESS then Inr s
     else let h = hp s; blockHeight = u64_height block;
              h1 = (if length (pendingBlocks h) < 1000
                    then h\<lparr>pendingBlocks := om_insert blockHeight (mm_insert (blk_prevhash block) block
                       (case om_find (pendingBlocks h) blockHeight of None \<Rightarrow> [] | Some m \<Rightarrow> m)) (pendingBlocks h)\<rparr>
                    else h)
       in Inr (s\<lparr>hp := (if blockHeight > selfNodeHeight + 3 then h1 else AddMissing (blk_prevhash block) (be_now env) False h1)\<rparr>))"

section \<open>Contract blocks\<close>

definition AddContractBlock :: "CBlock \<Rightarrow> string \<Rightarrow> helper \<Rightarrow> helper" where
  "AddContractBlock block contractTxPreHash h =
     (if length (contractBlocks h) < 1000 then h\<lparr>contractBlocks := om_insert contractTxPreHash block (contractBlocks h)\<rparr> else h)"

definition checkContractBlockCache :: "CBlock \<Rightarrow> string \<Rightarrow> helper \<Rightarrow> helper \<times> int" where
  "checkContractBlockCache block contractTxPreHash h = (case om_find (contractBlocks h) contractTxPreHash of
     Some old \<Rightarrow> if blk_time old > blk_time block then (AddContractBlock block contractTxPreHash h, 0) else (h, -1)
   | None \<Rightarrow> (AddContractBlock block contractTxPreHash h, 0))"

text \<open>Does the block in which the database saw the contract last follow the same predecessor?\<close>

definition same_predecessor :: "(string \<times> (string \<times> string) list option) list \<Rightarrow> string \<Rightarrow> string \<Rightarrow> string \<Rightarrow> u64 \<Rightarrow> u64 \<Rightarrow> ContractPreHashStatus" where
  "same_predecessor data DBContractPreHash contractAddr MEMContractPreHash blockTime dbTime =
     (case List.find (\<lambda>e. fst e = DBContractPreHash) data of
        None \<Rightarrow> PreHashErr
      | Some (_, None) \<Rightarrow> PreHashErr
      | Some (_, Some items) \<Rightarrow> if list_ex (\<lambda>it. fst it = contractAddr \<and> MEMContractPreHash = snd it) items
          then (if blockTime > dbTime then MemBlockException else DbBlockException)
          else Waiting)"

definition CheckContractPreHashStatus :: "('w, 'z) helper_env_scheme \<Rightarrow> db_reader \<Rightarrow> string \<Rightarrow> string \<Rightarrow> u64 \<Rightarrow> (db_error, ContractPreHashStatus \<times> string) result" where
  "CheckContractPreHashStatus env rd contractAddr MEMContractPreHash blockTime =
     (if MEMContractPreHash = [] \<or> contractAddr = [] then Inr (PreHashErr, [])
      else bindE (GetLatestUtxoByContractAddr rd contractAddr []) (\<lambda>(st, DBContractPreHash).
        if st \<noteq> DB_SUCCESS then Inr (PreHashErr, [])
        else if DBContractPreHash = MEMContractPreHash then Inr (PreHashNormal, [])
        else bindE (GetBlockHashByTransactionHash rd DBContractPreHash []) (\<lambda>(st2, strPrevBlockHash).
          if st2 \<noteq> DB_SUCCESS then Inr (PreHashErr, [])
          else bindE (GetBlockByBlockHash rd strPrevBlockHash []) (\<lambda>(st3, blockRaw).
            if st3 \<noteq> DB_SUCCESS then Inr (PreHashErr, [])
            else (case be_parse_block env blockRaw of
                None \<Rightarrow> Inr (PreHashErr, [])
              | Some block \<Rightarrow> Inr (case he_json env (blk_data block) of
                    None \<Rightarrow> PreHashErr
                  | Some data \<Rightarrow> same_predecessor data DBContractPreHash contractAddr MEMContractPreHash blockTime (blk_time block), blk_hash block))))))"

text \<open>
  The map of the predecessors has an entry for every transaction that names one. The first
  result of a step is the value returned early, the last one the predecessor that is waited for.
\<close>

definition prehash_map :: "(string \<times> (string \<times> string) list option) list \<Rightarrow> (string, (string \<times> string) list) omap option" where
  "prehash_map data = (if list_ex (\<lambda>e. snd e = None) data then None
     else Some (fold (\<lambda>(key, items) m. fold (\<lambda>it m. om_insert key ((case om_find m key of None \<Rightarrow> [] | Some v \<Rightarrow> v) @ [it]) m) (the items) m) data []))"

fun check_pairs :: "('w, 'z) helper_env_scheme \<Rightarrow> CBlock \<Rightarrow> string list \<Rightarrow> (string \<times> string) list \<Rightarrow> 'w bh \<Rightarrow>
    (helper_error, 'w bh \<times> int option \<times> string) result" where
  "check_pairs env block keys [] s = Inr (s, None, [])"
| "check_pairs env block keys ((addr, pre) # ps) s =
     (if pre \<in> set keys then check_pairs env block keys ps s
      else bindE (lift_h (CheckContractPreHashStatus env (reader env s) addr pre (blk_time block))) (\<lambda>(status, DBBlockHash). case status of
          PreHashNormal \<Rightarrow> (case checkContractBlockCache block pre (hp s) of (h, r) \<Rightarrow>
            if r \<noteq> 0 then Inr (s\<lparr>hp := h\<rparr>, Some (-2), []) else check_pairs env block keys ps (s\<lparr>hp := h\<rparr>))
        | MemBlockException \<Rightarrow> Inr (s, Some (-3), [])
        | DbBlockException \<Rightarrow> if DBBlockHash = blk_hash block then check_pairs env block keys ps s
            else (case he_RollBackByHash env (db s) DBBlockHash of (w, ret) \<Rightarrow>
              let s1 = emit (RolledBack DBBlockHash ret) (s\<lparr>db := w\<rparr>) in
              if ret \<noteq> 0 then Inr (s1, Some (-4), []) else check_pairs env block keys ps s1)
        | Waiting \<Rightarrow> (case checkContractBlockCache block pre (hp s) of (h, r) \<Rightarrow>
            if r \<noteq> 0 then Inr (s\<lparr>hp := h\<rparr>, Some (-5), []) else Inr (s\<lparr>hp := h\<rparr>, None, pre))
        | PreHashErr \<Rightarrow> check_pairs env block keys ps s))"

fun check_entries :: "('w, 'z) helper_env_scheme \<Rightarrow> CBlock \<Rightarrow> u64 \<Rightarrow> string list \<Rightarrow> (string \<times> (string \<times> string) list) list \<Rightarrow> 'w bh \<Rightarrow>
    (helper_error, 'w bh \<times> int \<times> string) result" where
  "check_entries env block self keys [] s = Inr (s, 0, [])"
| "check_entries env block self keys (e # es) s = bindE (check_pairs env block keys (snd e) s) (\<lambda>(s1, r, pre). case r of
     Some code \<Rightarrow> Inr (s1, code, [])
   | None \<Rightarrow> if pre \<noteq> []
       then Inr (if u64_height block \<le> self + 3 then s1\<lparr>hp := AddMissing pre (be_now env) True (hp s1)\<rparr> else s1, 0, pre)
       else check_entries env block self keys es s1)"

definition checkContractBlock :: "('w, 'z) helper_env_scheme \<Rightarrow> CBlock \<Rightarrow> 'w bh \<Rightarrow> (helper_error, 'w bh \<times> int \<times> string) result" where
  "checkContractBlock env block s = bindE (lift_h (GetBlockTop (reader env s) 0)) (\<lambda>(status, selfNodeHeight).
     if status \<noteq> DB_SUCCESS then Inr (s, -1, [])
     else (case Option.bind (he_json env (blk_data block)) prehash_map of
         None \<Rightarrow> Inr (s, -6, [])
       | Some m \<Rightarrow> check_entries env block selfNodeHeight (map fst m) m s))"

section \<open>Conflicts between blocks\<close>

definition conflicting_txs :: "('w, 'z) helper_env_scheme \<Rightarrow> CBlock \<Rightarrow> CBlock \<Rightarrow> (string \<times> int) list" where
  "conflicting_txs env oldBlock newBlock =
     concat (map (\<lambda>tx1. if he_GetTransactionType env tx1 \<noteq> kTransactionType_Tx then []
       else map (\<lambda>tx2. (tx_hash tx2, -99)) (filter (\<lambda>tx2. he_GetTransactionType env tx2 = kTransactionType_Tx \<and>
         CheckConflict_tx (he_GenerateAddr env) tx1 tx2) (blk_txs newBlock))) (blk_txs oldBlock))"

definition MakeTxStatusMsg :: "('w, 'z) helper_env_scheme \<Rightarrow> CBlock \<Rightarrow> CBlock \<Rightarrow> 'w bh \<Rightarrow> (helper_error, 'w bh) result" where
  "MakeTxStatusMsg env oldBlock newBlock s = (case blk_sign newBlock of
     [] \<Rightarrow> Inl NoSign
   | sg # _ \<Rightarrow> let destNode = he_GenerateAddr env (sign_pub sg) in
       Inr (if destNode \<noteq> he_defaultAddr env then emit (StatusMsg destNode (blk_hash newBlock) (conflicting_txs env oldBlock newBlock)) s else s))"

text \<open>The log line reads the entry that was found before it is compared with the end of the map.\<close>

definition CheckDoubleBlooming :: "('w, 'z) helper_env_scheme \<Rightarrow> doubleSpendType \<Rightarrow> CBlock \<Rightarrow> CBlock \<Rightarrow> 'w bh \<Rightarrow> (helper_error, 'w bh) result" where
  "CheckDoubleBlooming env kind other block s = (case kind of
     newDoubleSpend \<Rightarrow> (case om_find (duplicateChecker (hp s)) (blk_hash block) of
         None \<Rightarrow> Inl EndIterator | Some (status, _) \<Rightarrow> if status then MakeTxStatusMsg env other block s else Inr s)
   | oldDoubleSpend \<Rightarrow> (case om_find (duplicateChecker (hp s)) (blk_hash other) of
         None \<Rightarrow> Inl EndIterator | Some (status, _) \<Rightarrow> if status then MakeTxStatusMsg env block other s else Inr s)
   | _ \<Rightarrow> Inr s)"

section \<open>New blocks\<close>

abbreviation ta_insert :: "CBlock \<Rightarrow> CBlock list \<Rightarrow> CBlock list" where
  "ta_insert \<equiv> set_insert BlockTimeAscending"

definition queue_block :: "('w, 'z) helper_env_scheme \<Rightarrow> CBlock \<Rightarrow> u64 \<Rightarrow> bool \<Rightarrow> 'w bh \<Rightarrow> (helper_error, 'w bh) result" where
  "queue_block env block selfNodeHeight prevKnown s =
     (if prevKnown
      then Inr (if u64_height block \<le> selfNodeHeight + 1000 then s\<lparr>hp := (hp s)\<lparr>broadcastBlocks := ta_insert block (broadcastBlocks (hp s))\<rparr>\<rparr> else s)
      else AddPendingBlock env block s)"

definition take_block :: "('w, 'z) helper_env_scheme \<Rightarrow> CBlock \<Rightarrow> 'w bh \<Rightarrow> (helper_error, 'w bh) result" where
  "take_block env block s = bindE (lift_h (GetBlockTop (reader env s) 0)) (\<lambda>(res, selfNodeHeight).
     if res \<noteq> DB_SUCCESS then Inr s
     else bindE (lift_h (GetBlockByBlockHash (reader env s) (blk_prevhash block) [])) (\<lambda>(prevHashStatus, _).
       if he_IsContractBlock env block
       then bindE (checkContractBlock env block s) (\<lambda>(s1, ret, pre).
         if ret < 0 then Inr s1
         else if ret = 0 \<and> pre \<noteq> [] then Inr s1
         else queue_block env block selfNodeHeight (prevHashStatus = DB_SUCCESS) s1)
       else queue_block env block selfNodeHeight (prevHashStatus = DB_SUCCESS) s))"

definition older :: "CBlock \<Rightarrow> CBlock \<Rightarrow> bool" where
  "older cur block \<longleftrightarrow> (u64_height cur = u64_height block \<and> blk_time cur \<le> blk_time block) \<or> u64_height cur < u64_height block"

definition AddBroadcastBlock :: "('w, 'z) helper_env_scheme \<Rightarrow> CBlock \<Rightarrow> bool \<Rightarrow> 'w bh \<Rightarrow> (helper_error, 'w bh) result" where
  "AddBroadcastBlock env block status s =
     (if om_find (duplicateChecker (hp s)) (blk_hash block) \<noteq> None
      then Inr (if status then s\<lparr>hp := (hp s)\<lparr>duplicateChecker := om_insert (blk_hash block) (status, blk_time block) (duplicateChecker (hp s))\<rparr>\<rparr> else s)
      else if om_find (doubleSpendBlocks (hp s)) (blk_hash block) \<noteq> None then Inr s
      else let s1 = s\<lparr>hp := (hp s)\<lparr>duplicateChecker := om_insert (blk_hash block) (status, blk_time block) (duplicateChecker (hp s))\<rparr>\<rparr> in
        (case List.find (\<lambda>cur. CheckConflict_block (he_GenerateAddr env) (he_GetTransactionType env) cur block \<noteq> None) (broadcastBlocks (hp s1)) of
           None \<Rightarrow> take_block env block s1
         | Some cur \<Rightarrow> if older cur block then Inr (if status then emit (TxStatusTask cur block) s1 else s1)
             else let s2 = (case om_find (duplicateChecker (hp s1)) (blk_hash cur) of
                        Some (True, _) \<Rightarrow> emit (TxStatusTask block cur) s1 | _ \<Rightarrow> s1)
               in take_block env block (s2\<lparr>hp := (hp s2)\<lparr>broadcastBlocks := remove1 cur (broadcastBlocks (hp s2))\<rparr>\<rparr>)))"

definition AddSyncBlock_queue :: "block_map \<Rightarrow> SaveType \<Rightarrow> helper \<Rightarrow> helper" where
  "AddSyncBlock_queue syncBlockData type h = h\<lparr>syncBlocks := fold ta_insert (concat (map snd syncBlockData)) (syncBlocks h), syncType := type\<rparr>"

definition AddFastSyncBlock_queue :: "block_map \<Rightarrow> SaveType \<Rightarrow> helper \<Rightarrow> helper" where
  "AddFastSyncBlock_queue syncBlockData type h = h\<lparr>fastSyncBlocks := fold ta_insert (concat (map snd syncBlockData)) (fastSyncBlocks h), syncType := type\<rparr>"

definition AddRollbackBlock_queue :: "block_map \<Rightarrow> helper \<Rightarrow> helper" where
  "AddRollbackBlock_queue rollback_block_data h = h\<lparr>rollbackBlocks := rollback_block_data\<rparr>"

definition AddMissingBlock :: "CBlock \<Rightarrow> helper \<Rightarrow> helper" where
  "AddMissingBlock block h = h\<lparr>utxoMissingBlocks := utxoMissingBlocks h @ [block]\<rparr>"

definition AddSeekBlock :: "u64 \<Rightarrow> (CBlock \<times> string) list \<Rightarrow> helper \<Rightarrow> helper" where
  "AddSeekBlock now seekBlocks h = h\<lparr>hashPendingBlocks := fold (\<lambda>(block, _) m. case om_find m (blk_hash block) of
     None \<Rightarrow> om_insert (blk_hash block) (now, block) m | Some _ \<Rightarrow> m) seekBlocks (hashPendingBlocks h)\<rparr>"

definition StopSaveBlock :: "helper \<Rightarrow> helper" where
  "StopSaveBlock h = h\<lparr>stopBlocking := False\<rparr>"

text \<open>What a synchronisation run hands over reaches the queues.\<close>

fun take_event :: "sync_event \<Rightarrow> helper \<Rightarrow> helper" where
  "take_event (AddRollbackBlock m) h = AddRollbackBlock_queue m h"
| "take_event (AddFastSyncBlock m t) h = AddFastSyncBlock_queue m t h"
| "take_event (AddSyncBlock m t) h = AddSyncBlock_queue m t h"

section \<open>The height of the chain is one that honest nodes report\<close>

lemma sorted_count:
  assumes "sorted xs" and "k < length xs"
  shows "length xs - k \<le> length (filter (\<lambda>x. xs ! k \<le> x) xs)" and "Suc k \<le> length (filter (\<lambda>x. x \<le> xs ! k) xs)"
proof -
  have "filter (\<lambda>x. xs ! k \<le> x) (drop k xs) = drop k xs"
    using assms by (intro filter_True) (auto simp: in_set_conv_nth sorted_nth_mono)
  moreover have "filter (\<lambda>x. xs ! k \<le> x) xs = filter (\<lambda>x. xs ! k \<le> x) (take k xs) @ filter (\<lambda>x. xs ! k \<le> x) (drop k xs)"
    by (metis append_take_drop_id filter_append)
  ultimately show "length xs - k \<le> length (filter (\<lambda>x. xs ! k \<le> x) xs)" by simp
  have "filter (\<lambda>x. x \<le> xs ! k) (take (Suc k) xs) = take (Suc k) xs"
    using assms by (intro filter_True) (auto simp: in_set_conv_nth less_Suc_eq_le sorted_nth_mono)
  moreover have "filter (\<lambda>x. x \<le> xs ! k) xs = filter (\<lambda>x. x \<le> xs ! k) (take (Suc k) xs) @ filter (\<lambda>x. x \<le> xs ! k) (drop (Suc k) xs)"
    by (metis append_take_drop_id filter_append)
  ultimately show "Suc k \<le> length (filter (\<lambda>x. x \<le> xs ! k) xs)" using assms(2) by simp
qed

lemma count_sort_map: "length (filter P (sort (map f xs))) = length (filter (\<lambda>x. P (f x)) xs)"
proof -
  have "mset (filter P (sort (map f xs))) = mset (filter P (map f xs))" by (simp only: mset_filter mset_sort)
  then have "length (filter P (sort (map f xs))) = length (filter P (map f xs))" by (rule mset_eq_length)
  then show ?thesis by (simp add: filter_map o_def)
qed

lemma outvoted:
  assumes "length (filter (\<lambda>x. \<not> good x) xs) < length (filter Q xs)"
  shows "\<exists>x \<in> set xs. good x \<and> Q x"
proof (rule ccontr)
  assume "\<not> ?thesis"
  then have "filter Q xs = filter Q (filter (\<lambda>x. \<not> good x) xs)" by (auto intro: filter_cong)
  then have "length (filter Q xs) \<le> length (filter (\<lambda>x. \<not> good x) xs)" by (metis length_filter_le)
  with assms show False by simp
qed

text \<open>
  C39: As long as fewer than a quarter of the nodes that count are dishonest, the height of the
  chain is found, and it lies between the heights of two honest nodes, whatever the others report.
\<close>

theorem chain_height_honest:
  assumes tip: "GetBlockTop rd 0 = Inr (DB_SUCCESS, tip)"
    and nodes: "nodes = (if tip < se_kMinUnstakeHeight env then GetNodelist NODE_ALL False s
        else filter (\<lambda>n. se_qualified env (address n)) (GetNodelist NODE_ALL False s))"
    and few: "length nodes < 2 ^ 40" "4 * length (filter (\<lambda>n. \<not> honest n) nodes) < length nodes"
  shows "\<exists>h. ObtainChainHeight env rd s = Inr (Some h) \<and> (\<exists>a \<in> set nodes. honest a \<and> ucast (height a) \<le> h) \<and> (\<exists>b \<in> set nodes. honest b \<and> h \<le> ucast (height b))"
proof -
  let ?n = "length nodes" and ?f = "\<lambda>n. ucast (height n) :: u64" and ?d = "length (filter (\<lambda>n. \<not> honest n) nodes)"
  define hs where "hs = sort (map ?f nodes)"
  define k where "k = chain_index ?n"
  have k: "k = 3 * ?n div 4" using dtrunc_dmul [OF decimal_075 few(1)] by (simp add: k_def chain_index_def)
  then have less: "k < ?n" "?d < ?n - k" "?d < Suc k" using few(2) by linarith+
  have all: "GetNodelist NODE_ALL False s \<noteq> []" "nodes \<noteq> []" using nodes less(1) by (auto split: if_split_asm)
  have "ObtainChainHeight env rd s = Inr (Some (hs ! k))"
    unfolding ObtainChainHeight_def tip bindE_Inr prod.case Let_def nodes [symmetric] hs_def [symmetric] k_def [symmetric]
    using all less(1) by (simp add: hs_def k_def)
  moreover have sorted: "sorted hs" "k < length hs" "length hs = ?n" using less by (simp_all add: hs_def)
  then have "?n - k \<le> length (filter (\<lambda>x. hs ! k \<le> ?f x) nodes)" "Suc k \<le> length (filter (\<lambda>x. ?f x \<le> hs ! k) nodes)"
    using sorted_count [OF sorted(1,2)] by (simp_all add: hs_def count_sort_map)
  then have "\<exists>b \<in> set nodes. honest b \<and> hs ! k \<le> ?f b" "\<exists>a \<in> set nodes. honest a \<and> ?f a \<le> hs ! k"
    using less by (auto intro!: outvoted)
  ultimately show ?thesis by blast
qed

definition chain_sample :: sync_env where
  "chain_sample = \<lparr>se_qualified = (\<lambda>a. True), se_kMinUnstakeHeight = 100, se_KMinSyncQualNodes = 2, se_kNeed_node_threshold = 2, se_draw = (\<lambda>k. 0)\<rparr>"

theorem chain_height_honest_witness:
  "\<exists>h. ObtainChainHeight chain_sample top_reader (sample_net [''a'', ''b'', ''c'', ''d'', ''e'']) = Inr (Some h) \<and>
    (\<exists>(a :: Node) (b :: Node). address a \<noteq> ''e'' \<and> address b \<noteq> ''e'' \<and> ucast (height a) \<le> h \<and> h \<le> ucast (height b))"
proof -
  let ?nodes = "map sample_node [''a'', ''b'', ''c'', ''d'', ''e'']"
  have nodes: "?nodes = (if (7 :: u64) < se_kMinUnstakeHeight chain_sample then GetNodelist NODE_ALL False (sample_net [''a'', ''b'', ''c'', ''d'', ''e''])
      else filter (\<lambda>n. se_qualified chain_sample (address n)) (GetNodelist NODE_ALL False (sample_net [''a'', ''b'', ''c'', ''d'', ''e''])))"
    by (simp add: chain_sample_def sample_net_nodes)
  have few: "length ?nodes < 2 ^ 40" "4 * length (filter (\<lambda>n. \<not> address n \<noteq> ''e'') ?nodes) < length ?nodes"
    by (simp_all add: sample_node_def)
  show ?thesis using chain_height_honest [OF top_reader_top nodes few] by blast
qed

end
