(* ===== verification/Block_Seek.thy ===== *)
theory Block_Seek
  imports Block_Queue
begin

text \<open>
  The search for missing blocks of \<open>ca/block_helper.cpp\<close>: which hashes are asked for, what the
  answers of other nodes are turned into, and the rollback that a missing output leads to.
\<close>

section \<open>Asking other nodes for blocks\<close>

text \<open>
  A request goes to the nodes that \<open>GetSyncNodeSimplify\<close> chooses; the environment answers with
  whether enough answers came in time and the data of those that came.
\<close>

record 'w seek_env = "'w helper_env" +
  ke_ask_hash :: "string list \<Rightarrow> nat \<Rightarrow> (string \<times> bool) list \<Rightarrow> bool \<times> string list"
  ke_ask_utxo :: "string list \<Rightarrow> nat \<Rightarrow> string \<Rightarrow> bool \<times> string list"
  ke_parse_hash_ack :: "string \<Rightarrow> (string \<times> bool \<times> string) list option"
  ke_parse_utxo_ack :: "string \<Rightarrow> string option"

definition GetUtxoFindNode :: "'e sync_env_scheme \<Rightarrow> db_reader \<Rightarrow> net \<Rightarrow> nat \<Rightarrow> (db_error, int \<times> string list) result" where
  "GetUtxoFindNode env rd s num = GetSyncNodeSimplify env rd s num []"

text \<open>The common beginning of the three requests: an error code, or the nodes to ask.\<close>

definition seek_nodes :: "('w, 'z) seek_env_scheme \<Rightarrow> db_reader \<Rightarrow> net \<Rightarrow> (db_error, int + string list) result" where
  "seek_nodes env rd s = bindE (ObtainChainHeight env rd s) (\<lambda>chain. case chain of
     None \<Rightarrow> Inr (Inl (-1))
   | Some chainHeight \<Rightarrow> bindE (GetBlockTop rd 0) (\<lambda>(status, selfNodeHeight).
       if status \<noteq> DB_SUCCESS then Inr (Inl (-2))
       else bindE (GetUtxoFindNode env rd s (se_KMinSyncQualNodes env)) (\<lambda>(ret, sendNodeIds).
         Inr (if ret \<noteq> 0 then Inl (-4) else Inr sendNodeIds))))"

definition four_fifths :: "nat \<Rightarrow> nat" where
  "four_fifths n = dtrunc (dmul (of_nat n) (dbl (4 / 5)))"

definition too_few :: "bool \<Rightarrow> nat \<Rightarrow> string list \<Rightarrow> bool" where
  "too_few ok sendNum retDatas \<longleftrightarrow> \<not> ok \<and> \<not> checkByzantine (int sendNum) (int (length retDatas))"

text \<open>The first entry for a hash is counted twice.\<close>

fun count_seek :: "string \<times> bool \<times> string \<Rightarrow> (string, string \<times> u32) omap \<Rightarrow> (string, string \<times> u32) omap" where
  "count_seek (hash, _, raw) m = (case om_find m hash of
     None \<Rightarrow> om_insert hash (raw, 2) m
   | Some (raw0, n) \<Rightarrow> om_insert hash (raw0, n + 1) m)"

definition seek_table :: "('w, 'z) seek_env_scheme \<Rightarrow> string list \<Rightarrow> nat \<times> (string, string \<times> u32) omap" where
  "seek_table env retDatas =
     (let acks = List.map_filter (ke_parse_hash_ack env) retDatas in (length acks, fold (\<lambda>blocks m. fold count_seek blocks m) acks []))"

fun seek_parse :: "('w, 'z) seek_env_scheme \<Rightarrow> u32 \<Rightarrow> (string \<times> string \<times> u32) list \<Rightarrow> (CBlock \<times> string) list option" where
  "seek_parse env verifyNum [] = Some []"
| "seek_parse env verifyNum ((hash, raw, n) # es) =
     (if n > verifyNum
      then (case be_parse_block env raw of None \<Rightarrow> None | Some block \<Rightarrow> map_option ((#) (block, hash)) (seek_parse env verifyNum es))
      else seek_parse env verifyNum es)"

text \<open>The code and the task that is given to the pool.\<close>

definition SendBlockByHashReq :: "('w, 'z) seek_env_scheme \<Rightarrow> db_reader \<Rightarrow> net \<Rightarrow> (string, bool) omap \<Rightarrow>
    (db_error, int \<times> (CBlock \<times> string) list option) result" where
  "SendBlockByHashReq env rd s missingHashs = bindE (seek_nodes env rd s) (\<lambda>r. case r of
     Inl code \<Rightarrow> Inr (code, None)
   | Inr sendNodeIds \<Rightarrow>
       (case ke_ask_hash env sendNodeIds (four_fifths (length sendNodeIds)) missingHashs of (ok, retDatas) \<Rightarrow>
        if too_few ok (length sendNodeIds) retDatas then Inr (-7, None)
        else (case seek_table env retDatas of (succentCount, seekBlockHashes) \<Rightarrow>
          case seek_parse env (word_of_nat (succentCount div 5 * 4)) seekBlockHashes of
            None \<Rightarrow> Inr (-8, None)
          | Some seekBlocks \<Rightarrow> Inr (0, Some seekBlocks))))"

definition SeekBlockByContractPreHashReq :: "('w, 'z) seek_env_scheme \<Rightarrow> db_reader \<Rightarrow> net \<Rightarrow> string \<Rightarrow> (db_error, int \<times> string option) result" where
  "SeekBlockByContractPreHashReq env rd s seekBlockHash = bindE (seek_nodes env rd s) (\<lambda>r. case r of
     Inl code \<Rightarrow> Inr (code, None)
   | Inr sendNodeIds \<Rightarrow>
       (case ke_ask_hash env sendNodeIds (length sendNodeIds div 2) [(seekBlockHash, False)] of (ok, retDatas) \<Rightarrow>
        if too_few ok (length sendNodeIds) retDatas then Inr (-7, None)
        else (case concat (List.map_filter (ke_parse_hash_ack env) retDatas) of
            [] \<Rightarrow> Inr (-8, None)
          | (_, _, raw) # _ \<Rightarrow> Inr (0, Some raw))))"

section \<open>Which hashes are asked for\<close>

definition stored_already :: "db_reader \<Rightarrow> MissingBlock \<Rightarrow> (db_error, bool) result" where
  "stored_already rd e =
     (if mb_txOrBlock e then bindE (GetBlockHashByTransactionHash rd (mb_hash e) []) (\<lambda>(st, _). Inr (st = DB_SUCCESS))
      else bindE (GetBlockByBlockHash rd (mb_hash e) []) (\<lambda>(st, _). Inr (st = DB_SUCCESS)))"

text \<open>
  The scan of the missing blocks, oldest first, up to the first one that has waited for less
  than fifteen seconds: what stays, and the hashes to ask for.
\<close>

fun seek_scan :: "db_reader \<Rightarrow> u64 \<Rightarrow> MissingBlock list \<Rightarrow> (string, bool) omap \<Rightarrow> (db_error, MissingBlock list \<times> (string, bool) omap) result" where
  "seek_scan rd now [] missingHashs = Inr ([], missingHashs)"
| "seek_scan rd now (e # es) missingHashs =
     (if now - mb_time e > 30 * 1000000 \<or> mb_triggerCount e > 3 then seek_scan rd now es missingHashs
      else if now - mb_time e > 15 * 1000000
      then bindE (stored_already rd e) (\<lambda>known.
        if known \<or> om_find missingHashs (mb_hash e) \<noteq> None then seek_scan rd now es missingHashs
        else bindE (seek_scan rd now es (om_insert (mb_hash e) (mb_txOrBlock e) missingHashs)) (\<lambda>(rest, m).
          Inr (e\<lparr>mb_triggerCount := mb_triggerCount e + 1\<rparr> # rest, m)))
      else Inr (e # es, missingHashs))"

definition SeekBlockThread :: "('w, 'z) seek_env_scheme \<Rightarrow> net \<Rightarrow> 'w bh \<Rightarrow> (db_error, 'w bh \<times> (int \<times> (CBlock \<times> string) list option) option) result" where
  "SeekBlockThread env n s =
     (if missingBlocks (hp s) = [] then Inr (s, None)
      else bindE (seek_scan (reader env s) (be_now env) (missingBlocks (hp s)) []) (\<lambda>(rest, missingHashs).
        let s1 = s\<lparr>hp := (hp s)\<lparr>missingBlocks := rest\<rparr>\<rparr> in
        if missingHashs = [] then Inr (s1, None)
        else bindE (SendBlockByHashReq env (reader env s) n missingHashs) (\<lambda>r. Inr (s1, Some r))))"

section \<open>A block by one of its outputs\<close>

text \<open>The outputs a block spends; the search stops at the first block that spends the given one.\<close>

definition spends_output :: "CBlock \<Rightarrow> string \<Rightarrow> bool" where
  "spends_output block utxo = list_ex (\<lambda>tx. list_ex (\<lambda>vin. list_ex (\<lambda>p. prev_hash p = utxo) (vin_prevouts vin)) (utxo_vin (tx_utxo tx))) (blk_txs block)"

fun roll_blocks :: "('w, 'z) helper_env_scheme \<Rightarrow> db_reader \<Rightarrow> string \<Rightarrow> string \<Rightarrow> string list \<Rightarrow> (db_error, (int + CBlock) option) result" where
  "roll_blocks env rd utxo blockHash [] = Inr None"
| "roll_blocks env rd utxo blockHash (h # hs) = bindE (GetBlockByBlockHash rd h []) (\<lambda>(res, strblock).
     if res \<noteq> DB_SUCCESS then Inr (Some (Inl (-4)))
     else (case be_parse_block env strblock of
         None \<Rightarrow> Inr (Some (Inl (-5)))
       | Some block \<Rightarrow> if spends_output block utxo \<and> blk_hash block \<noteq> blockHash then Inr (Some (Inr block)) else roll_blocks env rd utxo blockHash hs))"

fun roll_down :: "('w, 'z) helper_env_scheme \<Rightarrow> db_reader \<Rightarrow> string \<Rightarrow> string \<Rightarrow> nat \<Rightarrow> (db_error, int + CBlock) result" where
  "roll_down env rd utxo blockHash 0 = Inr (Inl (-6))"
| "roll_down env rd utxo blockHash (Suc i) = bindE (GetBlockHashesByBlockHeight rd (word_of_nat (Suc i)) (word_of_nat (Suc i)) []) (\<lambda>(st, hashes).
     if st \<noteq> DB_SUCCESS then Inr (Inl (-3))
     else bindE (roll_blocks env rd utxo blockHash hashes) (\<lambda>r. case r of
         Some x \<Rightarrow> Inr x | None \<Rightarrow> roll_down env rd utxo blockHash i))"

text \<open>The search starts at the multiple of a hundred below the own height, as a signed 32-bit number.\<close>

definition RollbackPreviousBlocks :: "('w, 'z) helper_env_scheme \<Rightarrow> net \<Rightarrow> string \<Rightarrow> u64 \<Rightarrow> string \<Rightarrow> 'w bh \<Rightarrow> (db_error, 'w bh \<times> int) result" where
  "RollbackPreviousBlocks env n utxo shelfHeight blockHash s = bindE (ObtainChainHeight env (reader env s) n) (\<lambda>chain. case chain of
     None \<Rightarrow> Inr (s, -1)
   | Some chainHeight \<Rightarrow> if chainHeight < shelfHeight + 50 then Inr (s, -2)
       else let i = sint (ucast (word_of_nat (unat shelfHeight div 100 * 100) :: u64) :: 32 word) in
         bindE (roll_down env (reader env s) utxo blockHash (nat i)) (\<lambda>r. Inr (case r of
           Inl code \<Rightarrow> (s, code)
         | Inr block \<Rightarrow> (emit (FastSync (u64_height block)) s, 0))))"

text \<open>All answers must hold the same block; answers that do not parse are passed over.\<close>

fun same_raw :: "('w, 'z) seek_env_scheme \<Rightarrow> string list \<Rightarrow> bool \<Rightarrow> string \<Rightarrow> string option" where
  "same_raw env [] isFirst blockRaw = Some blockRaw"
| "same_raw env (d # ds) isFirst blockRaw = (case ke_parse_utxo_ack env d of
     None \<Rightarrow> same_raw env ds False blockRaw
   | Some raw \<Rightarrow> if isFirst then same_raw env ds False raw else if blockRaw \<noteq> raw then None else same_raw env ds False blockRaw)"

definition take_found :: "('w, 'z) seek_env_scheme \<Rightarrow> net \<Rightarrow> string \<Rightarrow> CBlock \<Rightarrow> 'w bh \<Rightarrow> (db_error, 'w bh \<times> int) result" where
  "take_found env n utxo block s = bindE (GetBlockByBlockHash (reader env s) (blk_hash block) []) (\<lambda>(st, _).
     if st = DB_SUCCESS
     then bindE (GetBlockTop (reader env s) 0) (\<lambda>(_, selfNodeHeight).
       bindE (RollbackPreviousBlocks env n utxo selfNodeHeight (blk_hash block) (emit (SyncThread False) s)) (\<lambda>(s1, ret).
         let s2 = emit (SyncThread True) s1 in
         if ret \<noteq> 0 then Inr (s2, -11) else Inr (s2\<lparr>hp := AddMissingBlock block (hp s2)\<rparr>, 0)))
     else Inr (s\<lparr>hp := AddMissingBlock block (hp s)\<rparr>, 0))"

definition take_answers :: "('w, 'z) seek_env_scheme \<Rightarrow> net \<Rightarrow> string \<Rightarrow> string list \<Rightarrow> 'w bh \<Rightarrow> (db_error, 'w bh \<times> int) result" where
  "take_answers env n utxo sendNodeIds s =
     (case ke_ask_utxo env sendNodeIds (four_fifths (length sendNodeIds)) utxo of (ok, retDatas) \<Rightarrow>
        if too_few ok (length sendNodeIds) retDatas then Inr (s, -7)
        else (case same_raw env retDatas True [] of
            None \<Rightarrow> Inr (s, -8)
          | Some blockRaw \<Rightarrow> if blockRaw = [] then Inr (s, -9)
              else (case be_parse_block env blockRaw of
                  None \<Rightarrow> Inr (s, -10)
                | Some block \<Rightarrow> take_found env n utxo block s)))"

definition utxo_block :: "('w, 'z) seek_env_scheme \<Rightarrow> net \<Rightarrow> string \<Rightarrow> 'w bh \<Rightarrow> (db_error, 'w bh \<times> int) result" where
  "utxo_block env n utxo s = bindE (seek_nodes env (reader env s) n) (\<lambda>r. case r of
     Inl code \<Rightarrow> Inr (s, code)
   | Inr sendNodeIds \<Rightarrow> take_answers env n utxo sendNodeIds s)"

text \<open>One search at a time; at its end the output is taken from the stack, whatever came of it.\<close>

definition SendBlockByUtxoReq :: "('w, 'z) seek_env_scheme \<Rightarrow> net \<Rightarrow> string \<Rightarrow> 'w bh \<Rightarrow> (db_error, 'w bh \<times> int) result" where
  "SendBlockByUtxoReq env n utxo s =
     (if \<not> whetherRunSendBlockByUtxoReq (hp s) then Inr (s, 0)
      else bindE (utxo_block env n utxo (s\<lparr>hp := (hp s)\<lparr>whetherRunSendBlockByUtxoReq := False\<rparr>\<rparr>)) (\<lambda>(s1, code).
        Inr (s1\<lparr>hp := (PopMissUTXO (hp s1))\<lparr>whetherRunSendBlockByUtxoReq := True\<rparr>\<rparr>, code)))"

end
