(* ===== verification/Block_Save.thy ===== *)
theory Block_Save
  imports Block_Seek
begin

text \<open>
  Saving and rolling back blocks, \<open>ca/block_helper.cpp\<close>: the checks before a block is saved, what
  follows from a saved block, and \<open>Process\<close>, which works through all queues.
\<close>

section \<open>A block that flows along the signing nodes\<close>

definition VerifyHeight :: "db_reader \<Rightarrow> CBlock \<Rightarrow> u64 \<Rightarrow> (db_error, bool) result" where
  "VerifyHeight rd block ownblockHeight = bindE (GetBlockHeightByBlockHash rd (blk_prevhash block) 0) (\<lambda>(st, preheight).
     Inr (st = DB_SUCCESS \<and> \<not> ownblockHeight > ucast (preheight + 5)))"

abbreviation read_ok :: "DBStatus \<Rightarrow> bool" where
  "read_ok st \<equiv> st = DB_SUCCESS \<or> st = DB_NOT_FOUND"

text \<open>The hashes are looked up last, and the conflicts inside the block are reported with its status.\<close>

definition flow_contents :: "('w, 'z) helper_env_scheme \<Rightarrow> CBlock \<Rightarrow> bool \<Rightarrow> 'w bh \<Rightarrow> (helper_error, int \<times> (string \<times> int) list) result" where
  "flow_contents env block isVerify s = bindE (lift_h (GetBlockByBlockHash (reader env s) (blk_hash block) [])) (\<lambda>(status, strTempHeader).
     if \<not> read_ok status then Inr (-8, [])
     else if strTempHeader \<noteq> [] then Inr (-9, [])
     else bindE (lift_h (GetBlockByBlockHash (reader env s) (blk_prevhash block) [])) (\<lambda>(status2, strPrevHeader).
       if \<not> read_ok status2 then Inr (-10, [])
       else if strPrevHeader = [] then Inr (-11, [])
       else let doubleSpentTransactions = CheckConflict_double (he_time_sort env) (he_GenerateAddr env) block in
         if doubleSpentTransactions \<noteq> [] then Inr (-12, map (\<lambda>tx. (tx_hash tx, -66)) doubleSpentTransactions)
         else (case he_VerifyFlow env (db s) block isVerify of (ret, status3) \<Rightarrow> Inr (if ret \<noteq> 0 then -13 else 0, status3))))"

definition VerifyFlowedBlock :: "('w, 'z) helper_env_scheme \<Rightarrow> net \<Rightarrow> CBlock \<Rightarrow> 'w bh \<Rightarrow> (helper_error, int \<times> (string \<times> int) list) result" where
  "VerifyFlowedBlock env n block s =
     (if blk_version block \<noteq> he_version env then Inr (-1, [])
      else (case blk_sign block of [] \<Rightarrow> Inl NoSign | sg # _ \<Rightarrow>
        let isVerify = (he_GenerateAddr env (sign_pub sg) \<noteq> he_defaultAddr env); blockHeight = u64_height block in
        if blk_hash block = [] then Inr (-2, [])
        else bindE (lift_h (GetBlockTop (reader env s) 0)) (\<lambda>(st, nodeHeight).
          if st \<noteq> DB_SUCCESS then Inr (-3, [])
          else if nodeHeight > 9 \<and> nodeHeight - 9 > blockHeight then Inr (-4, [])
          else if nodeHeight + 1 < blockHeight then Inr (-5, [])
          else bindE (lift_h (ObtainChainHeight env (reader env s) n)) (\<lambda>chain. case chain of
              None \<Rightarrow> Inr (-6, [])
            | Some chainHeight \<Rightarrow>
                if chainHeight > se_kMinUnstakeHeight env \<and> blockHeight < chainHeight - 10 \<and> be_now env - blk_time block > kStabilityTime then Inr (-7, [])
                else flow_contents env block isVerify s))))"

section \<open>Before a block is saved\<close>

text \<open>What the library reports through \<open>SetMissingPrehash\<close> and \<open>PushMissUTXO\<close>.\<close>

definition report :: "core_result \<Rightarrow> helper \<Rightarrow> helper" where
  "report cr h = fold PushMissUTXO (cr_utxos cr) (if cr_prehash cr then SetMissingPrehash h else h)"

definition add_double_spend :: "CBlock \<Rightarrow> 'w bh \<Rightarrow> 'w bh" where
  "add_double_spend block s = s\<lparr>hp := (hp s)\<lparr>doubleSpendBlocks := om_insert_new (blk_hash block, block) (doubleSpendBlocks (hp s))\<rparr>\<rparr>"

definition roll_back :: "('w, 'z) helper_env_scheme \<Rightarrow> string \<Rightarrow> 'w bh \<Rightarrow> 'w bh \<times> int" where
  "roll_back env hash s = (case he_RollBackByHash env (db s) hash of (w, ret) \<Rightarrow> (emit (RolledBack hash ret) (s\<lparr>db := w\<rparr>), ret))"

definition spends_as :: "('w, 'z) helper_env_scheme \<Rightarrow> string list \<Rightarrow> string \<Rightarrow> CBlock \<Rightarrow> bool" where
  "spends_as env owners missingUtxo b = list_ex (\<lambda>tx. tx_type tx = kTxTypeTx \<and>
     list_ex (\<lambda>vin. he_GenerateAddr env (sign_pub (vin_sign vin)) \<in> set owners \<and> list_ex (\<lambda>p. missingUtxo = prev_hash p) (vin_prevouts vin))
       (utxo_vin (tx_utxo tx))) (blk_txs b)"

text \<open>Which of two blocks that spend the same output stays: the lower one, and among equals the older one.\<close>

definition resolve_spend :: "('w, 'z) helper_env_scheme \<Rightarrow> CBlock \<Rightarrow> CBlock \<Rightarrow> 'w bh \<Rightarrow> (helper_error, 'w bh \<times> doubleSpendType) result" where
  "resolve_spend env block PBlock s =
     (if (u64_height block = u64_height PBlock \<and> blk_time block \<ge> blk_time PBlock) \<or> u64_height block > u64_height PBlock
      then bindE (CheckDoubleBlooming env newDoubleSpend PBlock block (add_double_spend block s)) (\<lambda>s1. Inr (s1, newDoubleSpend))
      else (case roll_back env (blk_hash PBlock) s of (s1, ret) \<Rightarrow>
        if ret \<noteq> 0 then Inr (s1, doubleSpendErr)
        else bindE (CheckDoubleBlooming env oldDoubleSpend PBlock block s1) (\<lambda>s2. Inr (s2, oldDoubleSpend))))"

definition DealDoubleSpend :: "('w, 'z) helper_env_scheme \<Rightarrow> CBlock \<Rightarrow> CTransaction \<Rightarrow> string \<Rightarrow> 'w bh \<Rightarrow> (helper_error, 'w bh \<times> doubleSpendType) result" where
  "DealDoubleSpend env block tx missingUtxo s = bindE (lift_h (GetBlockTop (reader env s) 0)) (\<lambda>(st, nodeHeight).
     if st \<noteq> DB_SUCCESS \<or> u64_height block > nodeHeight then Inr (s, doubleSpendErr)
     else bindE (lift_h (GetBlockHashesByBlockHeight (reader env s) (u64_height block) nodeHeight [])) (\<lambda>(st2, blockHashes).
       if st2 \<noteq> DB_SUCCESS then Inr (s, doubleSpendErr)
       else bindE (lift_h (GetBlocksByBlockHash (reader env s) blockHashes [])) (\<lambda>(st3, blocks).
         if st3 \<noteq> DB_SUCCESS then Inr (s, doubleSpendErr)
         else (case List.find (spends_as env (tx_owners tx) missingUtxo) (List.map_filter (be_parse_block env) blocks) of
             Some PBlock \<Rightarrow> resolve_spend env block PBlock s
           | None \<Rightarrow> Inr (add_double_spend block s, invalidDoubleSpend)))))"

definition hold_block :: "('w, 'z) helper_env_scheme \<Rightarrow> CBlock \<Rightarrow> 'w bh \<Rightarrow> 'w bh" where
  "hold_block env block s = s\<lparr>hp := (hp s)\<lparr>hashPendingBlocks := om_insert_new (blk_hash block, be_now env, block) (hashPendingBlocks (hp s))\<rparr>\<rparr>"

fun pre_txs :: "('w, 'z) helper_env_scheme \<Rightarrow> CBlock \<Rightarrow> CTransaction list \<Rightarrow> 'w bh \<Rightarrow> (helper_error, 'w bh \<times> int) result" where
  "pre_txs env block [] s = Inr (s, 0)"
| "pre_txs env block (tx # txs) s =
     (if he_GetTransactionType env tx \<noteq> kTransactionType_Tx then pre_txs env block txs s
      else (case he_DoubleSpendCheck env (db s) tx of (ret, missingUtxo) \<Rightarrow>
        if ret = 0 then pre_txs env block txs s
        else if ret = -5 \<or> ret = -7 \<or> (ret = -8 \<and> missingUtxo \<noteq> [])
        then bindE (lift_h (GetBlockHashByTransactionHash (reader env s) missingUtxo [])) (\<lambda>(st, _).
          if st = DB_SUCCESS
          then bindE (DealDoubleSpend env block tx missingUtxo s) (\<lambda>(s1, kind).
            if kind = newDoubleSpend then Inr (s1, -7)
            else if kind = oldDoubleSpend then pre_txs env block txs s1
            else if kind = invalidDoubleSpend then Inr (s1, -8) else Inr (s1, -9))
          else Inr (hold_block env block (s\<lparr>hp := AddMissing missingUtxo (be_now env) True (hp s)\<rparr>), ret))
        else Inr (hold_block env block s, ret)))"

text \<open>After a failed verification or save: ask for the predecessor, or for the block of a missing output.\<close>

definition ask_missing :: "CBlock \<Rightarrow> int \<Rightarrow> int \<Rightarrow> int \<Rightarrow> 'w bh \<Rightarrow> 'w bh \<times> int" where
  "ask_missing block a b c s =
     (if missingPrehash (hp s) then (emit (NewSync (u64_height block - 1)) (s\<lparr>hp := ResetMissingPrehash (hp s)\<rparr>), a)
      else if missingUtxos (hp s) \<noteq> [] then (GetMissBlock s, b)
      else (s, c))"

definition PreSaveProcess :: "('w, 'z) helper_env_scheme \<Rightarrow> CBlock \<Rightarrow> SaveType \<Rightarrow> BlockObtainMean \<Rightarrow> 'w bh \<Rightarrow> (helper_error, 'w bh \<times> int) result" where
  "PreSaveProcess env block saveType obtainMean s =
     (if saveType = SyncNormal
      then let cr = he_VerifyBlock env (db s) block; s1 = s\<lparr>hp := report cr (ResetMissingPrehash (hp s))\<rparr>
        in Inr (if cr_ret cr \<noteq> 0 then ask_missing block (-1) (-2) (-3) s1 else (s1, 0))
      else if saveType = Broadcast
      then bindE (lift_h (GetBlockTop (reader env s) 0)) (\<lambda>(st, nodeHeight).
        if st \<noteq> DB_SUCCESS then Inr (s, -4)
        else if obtainMean = Normal \<and> u64_height block + 50 < nodeHeight then Inr (s, -5)
        else if he_VerifyPreSaveBlock env (db s) block < 0 then Inr (s, -6)
        else pre_txs env block (blk_txs block) s)
      else Inr (s, 0))"

section \<open>After a block is saved\<close>

text \<open>
  A block that ends a stake or an investment: the other blocks of its height are rolled back once
  for each of their transactions and each signature of the block itself (not of the other
  block) by an owner of the transaction.
\<close>

fun roll_times :: "('w, 'z) helper_env_scheme \<Rightarrow> nat \<Rightarrow> string \<Rightarrow> 'w bh \<Rightarrow> 'w bh" where
  "roll_times env 0 hash s = s"
| "roll_times env (Suc k) hash s = roll_times env k hash (fst (roll_back env hash s))"

definition owner_signs :: "('w, 'z) helper_env_scheme \<Rightarrow> CBlock \<Rightarrow> CTransaction \<Rightarrow> nat" where
  "owner_signs env block tx = length (filter (\<lambda>sg. he_GenerateAddr env (sign_pub sg) \<in> set (tx_owners tx)) (drop (if IsNeedAgent tx then 0 else 1) (blk_sign block)))"

fun cancel_blocks :: "('w, 'z) helper_env_scheme \<Rightarrow> CBlock \<Rightarrow> CTransaction \<Rightarrow> string list \<Rightarrow> 'w bh \<Rightarrow> 'w bh" where
  "cancel_blocks env block tx [] s = s"
| "cancel_blocks env block tx (raw # raws) s = cancel_blocks env block tx raws (case be_parse_block env raw of
     None \<Rightarrow> s
   | Some heightBlock \<Rightarrow> if blk_hash heightBlock = blk_hash block then s
       else roll_times env (length (blk_txs heightBlock) * owner_signs env block tx) (blk_hash heightBlock) s)"

fun cancel_txs :: "('w, 'z) helper_env_scheme \<Rightarrow> CBlock \<Rightarrow> CTransaction list \<Rightarrow> 'w bh \<Rightarrow> (helper_error, 'w bh) result" where
  "cancel_txs env block [] s = Inr s"
| "cancel_txs env block (tx # txs) s =
     (if he_GetTransactionType env tx = kTransactionType_Tx \<and> (tx_type tx = kTxTypeUnstake \<or> tx_type tx = kTxTypeDisinvest)
      then bindE (lift_h (GetBlockHashsByBlockHeight (reader env s) (u64_height block) [])) (\<lambda>(st, blockHashs).
        if st \<noteq> DB_SUCCESS then cancel_txs env block txs s
        else bindE (lift_h (GetBlocksByBlockHash (reader env s) blockHashs [])) (\<lambda>(st2, blocks).
          cancel_txs env block txs (if st2 \<noteq> DB_SUCCESS then s else cancel_blocks env block tx blocks s)))
      else cancel_txs env block txs s)"

definition PostMembershipCancellationProcess :: "('w, 'z) helper_env_scheme \<Rightarrow> CBlock \<Rightarrow> 'w bh \<Rightarrow> (helper_error, 'w bh) result" where
  "PostMembershipCancellationProcess env block s = cancel_txs env block (blk_txs block) s"

text \<open>The pending blocks whose predecessor is the given block.\<close>

definition successors :: "CBlock \<Rightarrow> helper \<Rightarrow> CBlock list" where
  "successors block h = (case om_find (pendingBlocks h) (u64_height block + 1) of
     None \<Rightarrow> [] | Some m \<Rightarrow> map snd (filter (\<lambda>e. fst e = blk_hash block) m))"

fun save_all :: "(CBlock \<Rightarrow> 'w bh \<Rightarrow> (helper_error, 'w bh \<times> int) result) \<Rightarrow> CBlock list \<Rightarrow> 'w bh \<Rightarrow> (helper_error, 'w bh) result" where
  "save_all save [] s = Inr s"
| "save_all save (b # bs) s = bindE (save b s) (\<lambda>(s1, _). save_all save bs s1)"

text \<open>
  The loop over the transactions that looks for waiting contract blocks. Its first condition
  compares the type with two different values and always holds, so that the loop ends at its
  first transaction: what follows in the code is never reached (\<open>None\<close>).
\<close>

definition contract_follow :: "CTransaction list \<Rightarrow> bool option" where
  "contract_follow txs = (case txs of
     [] \<Rightarrow> Some True
   | tx # _ \<Rightarrow> if tx_type tx \<noteq> kTxTypeCallContract \<or> tx_type tx \<noteq> kTxTypeDeployContract then Some True else None)"

lemma contract_follow_ends [simp]: "contract_follow txs = Some True"
  by (auto simp: contract_follow_def split: list.split)

definition PostSaveProcess :: "('w, 'z) helper_env_scheme \<Rightarrow> (CBlock \<Rightarrow> 'w bh \<Rightarrow> (helper_error, 'w bh \<times> int) result) \<Rightarrow> CBlock \<Rightarrow> 'w bh \<Rightarrow> (helper_error, 'w bh) result" where
  "PostSaveProcess env save block s = bindE (save_all save (successors block (hp s)) (emit (PostTransaction block) s)) (\<lambda>s1.
     case contract_follow (blk_txs block) of
       None \<Rightarrow> Inl OutOfFuel
     | Some _ \<Rightarrow> PostMembershipCancellationProcess env block s1)"

definition store_block :: "('w, 'z) helper_env_scheme \<Rightarrow> (CBlock \<Rightarrow> 'w bh \<Rightarrow> (helper_error, 'w bh \<times> int) result) \<Rightarrow> CBlock \<Rightarrow> SaveType \<Rightarrow> BlockObtainMean \<Rightarrow>
    'w bh \<Rightarrow> (helper_error, 'w bh \<times> int) result" where
  "store_block env save block saveType obtainMean s = (case he_SaveBlock env (db s) block saveType obtainMean of (cr, w) \<Rightarrow>
     let s1 = s\<lparr>hp := report cr (ResetMissingPrehash (hp s))\<rparr> in
     if cr_ret cr \<noteq> 0
     then Inr (ask_missing block (-6) (-7) (-8)
       (if saveType = SyncNormal \<or> saveType = SyncFromZero then emit (NewSync (u64_height block)) s1 else s1))
     else if \<not> he_commit env w block then Inr (s1, -9)
     else (case Detection block (cache s1) of
         Inl _ \<Rightarrow> Inl NoOwners
       | Inr c \<Rightarrow> bindE (PostSaveProcess env save block (emit (SavedBlock block saveType obtainMean) (s1\<lparr>db := w, cache := c\<rparr>))) (\<lambda>s2. Inr (s2, 0))))"

definition save_step :: "('w, 'z) helper_env_scheme \<Rightarrow> (CBlock \<Rightarrow> 'w bh \<Rightarrow> (helper_error, 'w bh \<times> int) result) \<Rightarrow> CBlock \<Rightarrow> SaveType \<Rightarrow> BlockObtainMean \<Rightarrow>
    'w bh \<Rightarrow> (helper_error, 'w bh \<times> int) result" where
  "save_step env save block saveType obtainMean s = bindE (lift_h (GetBlockTop (reader env s) 0)) (\<lambda>(st, nodeHeight).
     if st \<noteq> DB_SUCCESS then Inr (s, -3)
     else if u64_height block \<ge> nodeHeight + 2 then Inr (s, -4)
     else bindE (lift_h (GetBlockByBlockHash (reader env s) (blk_hash block) [])) (\<lambda>(st2, _).
       if st2 = DB_SUCCESS then Inr (s, 0)
       else bindE (PreSaveProcess env block saveType obtainMean s) (\<lambda>(s1, ret).
         if ret < 0 then Inr (s1, -5) else store_block env save block saveType obtainMean s1)))"

text \<open>
  A saved block is followed by the pending blocks that name it as their predecessor: the
  recursion of the code, bounded by the first argument.
\<close>

fun SaveBlock :: "('w, 'z) helper_env_scheme \<Rightarrow> nat \<Rightarrow> CBlock \<Rightarrow> SaveType \<Rightarrow> BlockObtainMean \<Rightarrow> 'w bh \<Rightarrow> (helper_error, 'w bh \<times> int) result" where
  "SaveBlock env 0 block saveType obtainMean s = Inl OutOfFuel"
| "SaveBlock env (Suc k) block saveType obtainMean s = save_step env (\<lambda>b. SaveBlock env k b Broadcast ByPreHash) block saveType obtainMean s"

section \<open>Rolling back\<close>

definition contract_addrs :: "('w, 'z) helper_env_scheme \<Rightarrow> CBlock \<Rightarrow> string list" where
  "contract_addrs env block = (if he_IsContractBlock env block then filter (\<lambda>a. a \<noteq> []) (map (he_GetContractAddr env) (blk_txs block)) else [])"

fun contract_rollback :: "('w, 'z) helper_env_scheme \<Rightarrow> db_reader \<Rightarrow> string list \<Rightarrow> string list \<Rightarrow> string list \<Rightarrow> block_map \<Rightarrow> (db_error, block_map option) result" where
  "contract_rollback env rd addrs known [] m = Inr (Some m)"
| "contract_rollback env rd addrs known (h # hs) m = bindE (GetBlockByBlockHash rd h []) (\<lambda>(st, blockStr).
     if st \<noteq> DB_SUCCESS then Inr None
     else let block = read_block env blockStr in
       contract_rollback env rd addrs known hs
         (if blk_hash block \<notin> set known \<and> list_ex (\<lambda>a. a \<in> set addrs) (contract_addrs env block) then AddBlockToMap block m else m))"

definition RollbackContractBlock :: "('w, 'z) helper_env_scheme \<Rightarrow> 'w bh \<Rightarrow> (helper_error, 'w bh \<times> int) result" where
  "RollbackContractBlock env s =
     (let blocks = concat (map snd (rollbackBlocks (hp s))); addrMap = concat (map (contract_addrs env) blocks) in
      bindE (lift_h (GetBlockTop (reader env s) 0)) (\<lambda>(st, selfNodeHeight).
        if st \<noteq> DB_SUCCESS then Inr (s, -1)
        else (case rollbackBlocks (hp s) of [] \<Rightarrow> Inl EndIterator | (beginHeight, _) # _ \<Rightarrow>
          bindE (lift_h (GetBlockHashesByBlockHeight (reader env s) beginHeight selfNodeHeight [])) (\<lambda>(st2, block_hashes).
            if st2 \<noteq> DB_SUCCESS then Inr (s, -2)
            else bindE (lift_h (contract_rollback env (reader env s) addrMap (map blk_hash blocks) block_hashes (rollbackBlocks (hp s)))) (\<lambda>r. Inr (case r of
                None \<Rightarrow> (s, -3)
              | Some m \<Rightarrow> (s\<lparr>hp := (hp s)\<lparr>rollbackBlocks := m\<rparr>\<rparr>, 0)))))))"

fun roll_list :: "('w, 'z) helper_env_scheme \<Rightarrow> CBlock list \<Rightarrow> 'w bh \<Rightarrow> 'w bh \<times> int" where
  "roll_list env [] s = (s, 0)"
| "roll_list env (b # bs) s = (case roll_back env (blk_hash b) s of (s1, ret) \<Rightarrow> if ret \<noteq> 0 then (s1, -1) else roll_list env bs s1)"

definition RollbackBlocks :: "('w, 'z) helper_env_scheme \<Rightarrow> 'w bh \<Rightarrow> (helper_error, 'w bh \<times> int) result" where
  "RollbackBlocks env s =
     (if rollbackBlocks (hp s) = [] then Inr (s, 0)
      else bindE (RollbackContractBlock env s) (\<lambda>(s1, ret).
        if ret \<noteq> 0 then Inr (s1, -1)
        else Inr (roll_list env (concat (map snd (rev (rollbackBlocks (hp s1))))) s1)))"

section \<open>Working through the queues\<close>

text \<open>Blocks younger than a minute are taken from those to be rolled back.\<close>

definition drop_young :: "u64 \<Rightarrow> block_map \<Rightarrow> block_map" where
  "drop_young now m = concat (map (\<lambda>(h, bs). let kept = filter (\<lambda>b. \<not> now \<le> 60 * 1000000 + blk_time b) bs in
     if kept = [] \<and> bs \<noteq> [] then [] else [(h, kept)]) m)"

text \<open>A loop that reports whether \<open>Process\<close> goes on after it.\<close>

fun save_fast :: "('w, 'z) helper_env_scheme \<Rightarrow> nat \<Rightarrow> u64 \<Rightarrow> CBlock list \<Rightarrow> 'w bh \<Rightarrow> (helper_error, 'w bh \<times> bool) result" where
  "save_fast env k nodeHeight [] s = Inr (s, True)"
| "save_fast env k nodeHeight (b # bs) s =
     bindE (SaveBlock env k b (syncType (hp s)) (if u64_height b + 1 = nodeHeight then ByPreHash else Normal) s) (\<lambda>(s1, result).
       if result = -2 then Inr (emit (NewSync (u64_height b - 1)) s1, False)
       else if result \<noteq> 0 then Inr (s1, True) else save_fast env k nodeHeight bs s1)"

fun save_missing :: "('w, 'z) helper_env_scheme \<Rightarrow> nat \<Rightarrow> CBlock list \<Rightarrow> 'w bh \<Rightarrow> (helper_error, 'w bh) result" where
  "save_missing env k [] s = Inr s"
| "save_missing env k (b # bs) s = bindE (SaveBlock env k b (syncType (hp s)) ByUtxo s) (\<lambda>(s1, result).
     if result \<noteq> 0 then Inr s1 else save_missing env k bs s1)"

fun save_sync :: "('w, 'z) helper_env_scheme \<Rightarrow> nat \<Rightarrow> CBlock list \<Rightarrow> 'w bh \<Rightarrow> (helper_error, 'w bh \<times> bool) result" where
  "save_sync env k [] s = Inr (s, True)"
| "save_sync env k (b # bs) s =
     (if \<not> stopBlocking (hp s) then Inr (s, False)
      else bindE (SaveBlock env k b (syncType (hp s)) Normal s) (\<lambda>(s1, result).
        if result \<noteq> 0 then Inr (s1, True) else save_sync env k bs s1))"

fun save_broadcast :: "('w, 'z) helper_env_scheme \<Rightarrow> nat \<Rightarrow> CBlock list \<Rightarrow> 'w bh \<Rightarrow> (helper_error, 'w bh) result" where
  "save_broadcast env k [] s = Inr s"
| "save_broadcast env k (b # bs) s = bindE (lift_h (GetBlockByBlockHash (reader env s) (blk_hash b) [])) (\<lambda>(st, _).
     if st = DB_SUCCESS then save_broadcast env k bs s
     else bindE (SaveBlock env k b Broadcast Normal s) (\<lambda>(s1, _). save_broadcast env k bs s1))"

text \<open>
  The loop over the blocks that wait for an output. A save can add entries while the loop runs:
  it goes on with the first entry after the current one, and \<open>j\<close> bounds the number of its turns.
\<close>

fun save_held :: "('w, 'z) helper_env_scheme \<Rightarrow> nat \<Rightarrow> nat \<Rightarrow> (string \<Rightarrow> bool) \<Rightarrow> string list \<Rightarrow> 'w bh \<Rightarrow> (helper_error, 'w bh \<times> string list) result" where
  "save_held env k 0 after finished s = Inl OutOfFuel"
| "save_held env k (Suc j) after finished s = (case List.find (\<lambda>e. after (fst e)) (hashPendingBlocks (hp s)) of
     None \<Rightarrow> Inr (s, finished)
   | Some (hash, t, b) \<Rightarrow>
       if be_now env - t > 3 * 1000000 then save_held env k j (\<lambda>x. hash < x) (hash # finished) s
       else bindE (SaveBlock env k b Broadcast ByUtxo s) (\<lambda>(s1, result).
         save_held env k j (\<lambda>x. hash < x) (if result = 0 then hash # finished else finished) s1))"

definition process_queues :: "('w, 'z) helper_env_scheme \<Rightarrow> nat \<Rightarrow> nat \<Rightarrow> u64 \<Rightarrow> 'w bh \<Rightarrow> (helper_error, 'w bh) result" where
  "process_queues env k j nodeHeight s = bindE (save_fast env k nodeHeight (fastSyncBlocks (hp s)) s) (\<lambda>(s1, go1).
     if \<not> go1 then Inr s1
     else bindE (save_missing env k (utxoMissingBlocks (hp s1)) s1) (\<lambda>s2.
     let s3 = s2\<lparr>hp := (hp s2)\<lparr>utxoMissingBlocks := []\<rparr>\<rparr> in
     bindE (save_sync env k (syncBlocks (hp s3)) s3) (\<lambda>(s4, go2).
     if \<not> go2 then Inr s4
     else bindE (save_broadcast env k (broadcastBlocks (hp s4)) s4) (\<lambda>s5.
     bindE (save_held env k j (\<lambda>_. True) [] s5) (\<lambda>(s6, finished).
       Inr (s6\<lparr>hp := (hp s6)\<lparr>hashPendingBlocks := filter (\<lambda>e. fst e \<notin> set finished) (hashPendingBlocks (hp s6))\<rparr>\<rparr>))))))"

definition process_body :: "('w, 'z) helper_env_scheme \<Rightarrow> nat \<Rightarrow> nat \<Rightarrow> net \<Rightarrow> u64 \<Rightarrow> 'w bh \<Rightarrow> (helper_error, 'w bh) result" where
  "process_body env k j n nodeHeight s =
     bindE (RollbackBlocks env (s\<lparr>hp := (hp s)\<lparr>rollbackBlocks := drop_young (be_now env) (rollbackBlocks (hp s))\<rparr>\<rparr>)) (\<lambda>(s1, result).
     if result \<noteq> 0 then Inr s1
     else bindE (lift_h (ObtainChainHeight env (reader env s1) n)) (\<lambda>chain. case chain of
         None \<Rightarrow> Inr s1
       | Some chainHeight \<Rightarrow> process_queues env k j nodeHeight s1))"

text \<open>What is finished at the end of every run.\<close>

definition exit_queues :: "u64 \<Rightarrow> u64 \<Rightarrow> helper \<Rightarrow> helper" where
  "exit_queues newTop now h = h\<lparr>processing := False, fastSyncBlocks := [],
     pendingBlocks := filter (\<lambda>e. \<not> newTop \<ge> fst e + 20) (pendingBlocks h), rollbackBlocks := [], syncBlocks := [], broadcastBlocks := [],
     doubleSpendBlocks := filter (\<lambda>e. \<not> now \<ge> blk_time (snd e) + 30 * 1000000) (doubleSpendBlocks h),
     duplicateChecker := filter (\<lambda>e. \<not> now \<ge> snd (snd e) + 60 * 1000000) (duplicateChecker h),
     contractBlocks := filter (\<lambda>e. \<not> (newTop \<ge> u64_height (snd e) + 10 \<or> now \<ge> blk_time (snd e) + 30 * 1000000)) (contractBlocks h)\<rparr>"

definition process_exit :: "('w, 'z) helper_env_scheme \<Rightarrow> u64 \<Rightarrow> 'w bh \<Rightarrow> (helper_error, 'w bh) result" where
  "process_exit env nodeHeight s = bindE (lift_h (GetBlockTop (reader env s) 0)) (\<lambda>(st, newTop).
     let s1 = s\<lparr>seen := removeExpiredBlocks (he_steady env) 60 (seen s), hp := exit_queues newTop (be_now env) (hp s)\<rparr>
     in Inr (if st = DB_SUCCESS \<and> nodeHeight \<noteq> newTop then emit HeightChanged s1 else s1))"

text \<open>The height is read before the code for the end of the run is installed.\<close>

definition Process :: "('w, 'z) helper_env_scheme \<Rightarrow> nat \<Rightarrow> nat \<Rightarrow> net \<Rightarrow> 'w bh \<Rightarrow> (helper_error, 'w bh) result" where
  "Process env k j n s =
     (if processing (hp s) then Inr s
      else let s1 = s\<lparr>hp := (hp s)\<lparr>processing := True\<rparr>\<rparr> in
        bindE (lift_h (GetBlockTop (reader env s1) 0)) (\<lambda>(st, nodeHeight).
          if st \<noteq> DB_SUCCESS then Inr s1
          else bindE (process_body env k j n nodeHeight s1) (process_exit env nodeHeight)))"

end
