(* ===== verification/Block_Inv.thy ===== *)
theory Block_Inv
  imports Block_Save
begin

text \<open>
  Properties of the block helper: an invariant of its queues in every reachable state, that
  saving and \<open>Process\<close> come to an end, and what can go wrong.
\<close>

section \<open>Insertion into ordered sets\<close>

definition order_like :: "('a \<Rightarrow> 'a \<Rightarrow> bool) \<Rightarrow> bool" where
  "order_like lt \<longleftrightarrow> (\<forall>a b c. lt a b \<longrightarrow> lt b c \<longrightarrow> lt a c)"

lemma order_like_blocks: "order_like BlockTimeAscending"
  by (auto simp: order_like_def BlockTimeAscending_def split: if_split_asm)

lemma sorted_set_insert:
  assumes lt: "order_like lt" and xs: "sorted_wrt lt xs"
  shows "sorted_wrt lt (set_insert lt e xs)"
proof -
  define pre where "pre = takeWhile (\<lambda>c. \<not> lt e c) xs"
  define post where "post = dropWhile (\<lambda>c. \<not> lt e c) xs"
  have split: "sorted_wrt lt (pre @ post)" using xs by (simp add: pre_def post_def)
  have trans: "lt a b \<Longrightarrow> lt b c \<Longrightarrow> lt a c" for a b c using lt unfolding order_like_def by blast
  have post: "lt e y" if y: "y \<in> set post" for y
  proof -
    obtain z zs where z: "post = z # zs" using y by (cases post) auto
    then have "lt e z" using hd_dropWhile [of "\<lambda>c. \<not> lt e c" xs] by (simp add: post_def [symmetric])
    moreover have "y = z \<or> lt z y" using split that z by (auto simp: sorted_wrt_append)
    ultimately show ?thesis using trans by blast
  qed
  have pre: "lt x e" if "x \<in> set pre" "lt (last pre) e" for x
  proof -
    have "pre = butlast pre @ [last pre]" using that(1) by (cases pre) auto
    then have "x = last pre \<or> lt x (last pre)" using split that(1)
      by (metis Un_iff empty_iff empty_set list.set_intros(1) set_ConsD set_append sorted_wrt_append)
    then show ?thesis using trans that(2) by blast
  qed
  show ?thesis
    unfolding set_insert_def Let_def pre_def [symmetric] post_def [symmetric]
    using xs split pre post by (auto simp: sorted_wrt_append)
qed

lemma set_set_insert: "set (set_insert lt e xs) \<subseteq> insert e (set xs)"
  by (auto simp: set_insert_def Let_def dest: set_takeWhileD set_dropWhileD)

lemma mset_set_insert: "set_insert lt e xs = xs \<or> mset (set_insert lt e xs) = add_mset e (mset xs)"
proof -
  have "mset xs = mset (takeWhile (\<lambda>c. \<not> lt e c) xs) + mset (dropWhile (\<lambda>c. \<not> lt e c) xs)"
    by (metis mset_append takeWhile_dropWhile_id)
  then show ?thesis by (auto simp: set_insert_def Let_def)
qed

lemma set_mm_insert: "set (mm_insert k v m) = insert (k, v) (set m)"
proof -
  have "set m = set (takeWhile (\<lambda>e. fst e \<le> k) m) \<union> set (dropWhile (\<lambda>e. fst e \<le> k) m)"
    by (metis set_append takeWhile_dropWhile_id)
  then show ?thesis by (auto simp: mm_insert_def)
qed

section \<open>The invariant of the queues\<close>

definition keyed :: "('k::linorder, 'v) omap \<Rightarrow> ('k \<Rightarrow> 'v \<Rightarrow> bool) \<Rightarrow> bool" where
  "keyed m P \<longleftrightarrow> om_wf m \<and> (\<forall>(k, v) \<in> set m. P k v)"

definition pending_ok :: "u64 \<Rightarrow> (string \<times> CBlock) list \<Rightarrow> bool" where
  "pending_ok h m \<longleftrightarrow> (\<forall>(p, b) \<in> set m. p = blk_prevhash b \<and> u64_height b = h)"

definition helper_inv :: "helper \<Rightarrow> bool" where
  "helper_inv h \<longleftrightarrow>
     sorted_wrt BlockTimeAscending (broadcastBlocks h) \<and> sorted_wrt BlockTimeAscending (syncBlocks h) \<and> sorted_wrt BlockTimeAscending (fastSyncBlocks h) \<and>
     distinct (map blk_hash (broadcastBlocks h)) \<and> (\<forall>b \<in> set (broadcastBlocks h). om_find (duplicateChecker h) (blk_hash b) \<noteq> None) \<and>
     keyed (pendingBlocks h) pending_ok \<and> length (pendingBlocks h) \<le> 1000 \<and>
     keyed (hashPendingBlocks h) (\<lambda>k (t, b). k = blk_hash b) \<and> keyed (doubleSpendBlocks h) (\<lambda>k b. k = blk_hash b) \<and>
     om_wf (duplicateChecker h) \<and> om_wf (contractBlocks h) \<and> length (contractBlocks h) \<le> 1000 \<and> length (missingUtxos h) \<le> 10"

lemma keyed_insert: "keyed m P \<Longrightarrow> P k v \<Longrightarrow> keyed (om_insert k v m) P"
  using set_om_insert_sub [of k v m] by (auto simp: keyed_def om_wf_insert)

lemma keyed_insert_new: "keyed m P \<Longrightarrow> P (fst e) (snd e) \<Longrightarrow> keyed (om_insert_new e m) P"
  by (auto simp: om_insert_new_def keyed_insert split: option.split)

lemma keyed_filter: "keyed m P \<Longrightarrow> keyed (filter Q m) P"
  by (auto simp: keyed_def om_wf_filter)

lemma keyed_find: "keyed m P \<Longrightarrow> om_find m k = Some v \<Longrightarrow> P k v"
  unfolding keyed_def by (auto simp: om_find_in [symmetric])

lemma keyed_Nil [simp]: "keyed [] P"
  by (simp add: keyed_def)

lemma helper_inv_new: "helper_inv new_helper"
  by (simp add: helper_inv_def new_helper_def)

text \<open>Which changes saving a block can make: hashes of \<open>B\<close> may be added to the blocks that are held back.\<close>

definition held :: "helper \<Rightarrow> string set" where
  "held h = fst ` set (hashPendingBlocks h)"

definition quiet :: "string set \<Rightarrow> helper \<Rightarrow> helper \<Rightarrow> bool" where
  "quiet B h h' \<longleftrightarrow> pendingBlocks h' = pendingBlocks h \<and> broadcastBlocks h' = broadcastBlocks h \<and> syncBlocks h' = syncBlocks h \<and>
     fastSyncBlocks h' = fastSyncBlocks h \<and> rollbackBlocks h' = rollbackBlocks h \<and> utxoMissingBlocks h' = utxoMissingBlocks h \<and>
     duplicateChecker h' = duplicateChecker h \<and> contractBlocks h' = contractBlocks h \<and> processing h' = processing h \<and> stopBlocking h' = stopBlocking h \<and>
     syncType h' = syncType h \<and> held h' \<subseteq> held h \<union> B \<and> (helper_inv h \<longrightarrow> helper_inv h')"

lemma quiet_refl [simp]: "quiet B h h"
  by (simp add: quiet_def)

lemma quiet_trans [trans]: "quiet B h h1 \<Longrightarrow> quiet B h1 h2 \<Longrightarrow> quiet B h h2"
  unfolding quiet_def by auto

lemma quiet_mono: "quiet A h h' \<Longrightarrow> A \<subseteq> B \<Longrightarrow> quiet B h h'"
  by (auto simp: quiet_def)

lemma quiet_inv: "quiet B h h' \<Longrightarrow> helper_inv h \<Longrightarrow> helper_inv h'"
  by (simp add: quiet_def)

lemma quiet_prehash: "quiet B h (SetMissingPrehash h)" "quiet B h (ResetMissingPrehash h)"
  by (simp_all add: quiet_def SetMissingPrehash_def ResetMissingPrehash_def helper_inv_def held_def)

lemma quiet_push: "quiet B h (PushMissUTXO utxo h)"
  by (auto simp: quiet_def PushMissUTXO_def Let_def helper_inv_def held_def)

lemma quiet_report: "quiet B h (report cr h)"
proof -
  have "quiet B h0 h1 \<Longrightarrow> quiet B h0 (fold PushMissUTXO us h1)" for us h0 h1
    by (induction us arbitrary: h1) (simp_all add: quiet_trans [OF _ quiet_push])
  then show ?thesis by (simp add: report_def quiet_prehash)
qed

lemma quiet_missing: "quiet B h (AddMissing hash now tx h)"
  by (simp add: quiet_def AddMissing_def helper_inv_def held_def)

lemma quiet_hold: "blk_hash b \<in> B \<Longrightarrow> quiet B (hp s) (hp (hold_block env b s))"
  using keyed_insert_new [of "hashPendingBlocks (hp s)" "\<lambda>k (t, b). k = blk_hash b" "(blk_hash b, be_now env, b)"]
  by (auto simp: quiet_def hold_block_def helper_inv_def held_def om_insert_new_def set_om_insert split: option.splits)

lemma quiet_double: "quiet B (hp s) (hp (add_double_spend b s))"
  by (auto simp: quiet_def add_double_spend_def helper_inv_def held_def keyed_insert_new)

lemma hp_emit [simp]: "hp (emit e s) = hp s" by simp

lemma hp_miss [simp]: "hp (GetMissBlock s) = hp s"
  by (simp add: GetMissBlock_def split: list.split)

lemma hp_roll_back [simp]: "hp (fst (roll_back env hash s)) = hp s"
  by (simp add: roll_back_def split_beta)

lemma hp_roll_times [simp]: "hp (roll_times env k hash s) = hp s"
  by (induction k arbitrary: s) simp_all

lemma hp_cancel_blocks [simp]: "hp (cancel_blocks env b tx raws s) = hp s"
  by (induction raws arbitrary: s) (simp_all split: option.split)

lemma hp_status: "MakeTxStatusMsg env a b s = Inr s' \<Longrightarrow> hp s' = hp s"
  by (auto simp: MakeTxStatusMsg_def Let_def split: list.split_asm if_split_asm)

lemma hp_blooming: "CheckDoubleBlooming env kind a b s = Inr s' \<Longrightarrow> hp s' = hp s"
  by (auto simp: CheckDoubleBlooming_def hp_status split: doubleSpendType.split_asm option.split_asm prod.split_asm if_split_asm)

lemma hp_cancel: "cancel_txs env b txs s = Inr s' \<Longrightarrow> hp s' = hp s"
proof (induction txs arbitrary: s)
  case (Cons tx txs)
  then show ?case by (auto simp: bindE_eq_Inr_iff split_beta split: if_split_asm)
qed simp

lemma quiet_ask: "quiet B (hp s) (hp (fst (ask_missing b x y z s)))"
  by (simp add: ask_missing_def quiet_prehash)

lemma quiet_resolve: "resolve_spend env b pb s = Inr (s', kind) \<Longrightarrow> quiet B (hp s) (hp s')"
proof -
  assume r: "resolve_spend env b pb s = Inr (s', kind)"
  show ?thesis
  proof (cases "(u64_height b = u64_height pb \<and> blk_time b \<ge> blk_time pb) \<or> u64_height b > u64_height pb")
    case True
    with r show ?thesis using quiet_double [of B s b] by (auto simp: resolve_spend_def bindE_eq_Inr_iff dest!: hp_blooming)
  next
    case False
    obtain s1 ret where rb: "roll_back env (blk_hash pb) s = (s1, ret)" by fastforce
    then have "hp s1 = hp s" using hp_roll_back [of env "blk_hash pb" s] by simp
    with r False rb show ?thesis by (auto simp: resolve_spend_def bindE_eq_Inr_iff split: if_split_asm dest!: hp_blooming)
  qed
qed

lemma quiet_deal: "DealDoubleSpend env b tx u s = Inr (s', kind) \<Longrightarrow> quiet B (hp s) (hp s')"
  by (auto simp: DealDoubleSpend_def bindE_eq_Inr_iff split_beta quiet_double split: if_split_asm option.split_asm dest: quiet_resolve)

lemma quiet_pre_txs: "blk_hash b \<in> B \<Longrightarrow> pre_txs env b txs s = Inr (s', r) \<Longrightarrow> quiet B (hp s) (hp s')"
proof (induction txs arbitrary: s)
  case (Cons tx txs)
  show ?case
  proof (cases "he_GetTransactionType env tx \<noteq> kTransactionType_Tx")
    case True
    with Cons show ?thesis by simp
  next
    case tx: False
    obtain ret u where c: "he_DoubleSpendCheck env (db s) tx = (ret, u)" by fastforce
    have hold: "quiet B (hp s) (hp (hold_block env b s1))" if "quiet B (hp s) (hp s1)" for s1
      using quiet_trans [OF that quiet_hold [OF Cons.prems(1)]] .
    have miss: "quiet B (hp s) (hp (s\<lparr>hp := AddMissing u now True (hp s)\<rparr>))" for now by (simp add: quiet_missing)
    from Cons.prems(2) tx c consider "pre_txs env b txs s = Inr (s', r)" | "s' = hold_block env b s"
      | "s' = hold_block env b (s\<lparr>hp := AddMissing u (be_now env) True (hp s)\<rparr>)"
      | s1 kind where "DealDoubleSpend env b tx u s = Inr (s1, kind)" "pre_txs env b txs s1 = Inr (s', r) \<or> s' = s1"
      by (auto simp: bindE_eq_Inr_iff split_beta split: if_split_asm)
    then show ?thesis
    proof cases
      case 1
      then show ?thesis using Cons by simp
    next
      case 2
      then show ?thesis using hold [of s] by simp
    next
      case 3
      then show ?thesis using hold [OF miss] by simp
    next
      case (4 s1 kind)
      then show ?thesis using Cons.IH [OF Cons.prems(1), of s1] quiet_deal [OF 4(1)] quiet_trans by blast
    qed
  qed
qed simp

lemma quiet_PreSave:
  assumes "PreSaveProcess env b ty mean s = Inr (s', r)" and "blk_hash b \<in> B"
  shows "quiet B (hp s) (hp s')"
proof -
  let ?s1 = "s\<lparr>hp := report (he_VerifyBlock env (db s) b) (ResetMissingPrehash (hp s))\<rparr>"
  have s1: "quiet B (hp s) (hp ?s1)" using quiet_trans [OF quiet_prehash(2) quiet_report] by simp
  from assms(1) consider "s' = s" | "s' = ?s1" | "s' = fst (ask_missing b (-1) (-2) (-3) ?s1)" | "pre_txs env b (blk_txs b) s = Inr (s', r)"
    by (auto simp: PreSaveProcess_def Let_def bindE_eq_Inr_iff split_beta split: if_split_asm)
  then show ?thesis
    using s1 quiet_trans [OF s1 quiet_ask] quiet_pre_txs [OF assms(2)] by cases simp_all
qed

section \<open>Saving a block\<close>

definition pend_hashes :: "helper \<Rightarrow> string set" where
  "pend_hashes h = {blk_hash b |b. \<exists>k m p. (k, m) \<in> set (pendingBlocks h) \<and> (p, b) \<in> set m}"

lemma successors_pending: "b' \<in> set (successors b h) \<Longrightarrow> \<exists>m p. om_find (pendingBlocks h) (u64_height b + 1) = Some m \<and> (p, b') \<in> set m"
  by (cases "om_find (pendingBlocks h) (u64_height b + 1)") (auto simp: successors_def)

lemma successors_hash: "b' \<in> set (successors b h) \<Longrightarrow> blk_hash b' \<in> pend_hashes h"
  by (fastforce dest: successors_pending map_of_SomeD simp: pend_hashes_def)

lemma successors_height: "keyed (pendingBlocks h) pending_ok \<Longrightarrow> b' \<in> set (successors b h) \<Longrightarrow> u64_height b' = u64_height b + 1"
  using keyed_find [of "pendingBlocks h" pending_ok] by (fastforce dest!: successors_pending simp: pending_ok_def)

lemma quiet_pending: "quiet B h h' \<Longrightarrow> pendingBlocks h' = pendingBlocks h" "quiet B h h' \<Longrightarrow> pend_hashes h' = pend_hashes h"
  by (simp_all add: quiet_def pend_hashes_def)

lemma quiet_save_all:
  assumes "save_all save bs s = Inr s'"
    and "\<And>b s s' r. b \<in> set bs \<Longrightarrow> pendingBlocks (hp s) = P \<Longrightarrow> save b s = Inr (s', r) \<Longrightarrow> quiet B (hp s) (hp s')" and "pendingBlocks (hp s) = P"
  shows "quiet B (hp s) (hp s')"
  using assms
proof (induction bs arbitrary: s)
  case (Cons b bs)
  then obtain s1 r where b: "save b s = Inr (s1, r)" "save_all save bs s1 = Inr s'" by (auto simp: bindE_eq_Inr_iff)
  have q: "quiet B (hp s) (hp s1)" by (rule Cons.prems(2) [OF _ Cons.prems(3) b(1)]) simp
  moreover have "quiet B (hp s1) (hp s')"
  proof (rule Cons.IH [OF b(2)])
    show "pendingBlocks (hp s1) = P" using quiet_pending(1) [OF q] Cons.prems(3) by simp
  qed (use Cons.prems(2) in auto)
  ultimately show ?case by (rule quiet_trans)
qed simp

text \<open>A save that does not fail early, by its stages.\<close>

lemma store_cases:
  assumes "store_block env save b ty mean s = Inr (s', r)"
  obtains (failed) "quiet B (hp s) (hp s')" and "r \<noteq> 0" and "r \<noteq> -2"
  | (stored) s1 s2 where "quiet B (hp s) (hp s1)" and "out s1 = out s @ [SavedBlock b ty mean, PostTransaction b]"
      "save_all save (successors b (hp s1)) s1 = Inr s2" "hp s' = hp s2" "r = 0"
proof -
  obtain cr w where c: "he_SaveBlock env (db s) b ty mean = (cr, w)" by fastforce
  let ?s1 = "s\<lparr>hp := report cr (ResetMissingPrehash (hp s))\<rparr>"
  have q: "quiet B (hp s) (hp ?s1)" using quiet_trans [OF quiet_prehash(2) quiet_report] by simp
  let ?s2 = "if ty = SyncNormal \<or> ty = SyncFromZero then emit (NewSync (u64_height b)) ?s1 else ?s1"
  show thesis
  proof (cases "cr_ret cr \<noteq> 0 \<or> \<not> he_commit env w b")
    case True
    then have "s' = fst (ask_missing b (-6) (-7) (-8) ?s2) \<and> r \<in> {-6, -7, -8} \<or> s' = ?s1 \<and> r = -9"
      using assms c by (auto simp: store_block_def Let_def ask_missing_def split: if_split_asm)
    then show thesis using q quiet_trans [OF _ quiet_ask, of B "hp s" ?s2] by (intro failed) (auto simp: ask_missing_def split: if_splits)
  next
    case False
    let ?t = "\<lambda>ca. emit (PostTransaction b) (emit (SavedBlock b ty mean) (?s1\<lparr>db := w, cache := ca\<rparr>))"
    from False obtain ca s2 where "save_all save (successors b (hp (?t ca))) (?t ca) = Inr s2" "PostMembershipCancellationProcess env b s2 = Inr s'" "r = 0"
      using assms c by (auto simp: store_block_def Let_def PostSaveProcess_def bindE_eq_Inr_iff split: sum.split_asm)
    then show thesis using q by (intro stored [of "?t ca" s2]) (auto simp: PostMembershipCancellationProcess_def dest: hp_cancel)
  qed
qed

lemma save_step_cases:
  assumes "save_step env save b ty mean s = Inr (s', r)" and "blk_hash b \<in> B"
  obtains (ended) "quiet B (hp s) (hp s')" and "r \<noteq> -2"
  | (stored) s1 s2 where "quiet B (hp s) (hp s1)" "save_all save (successors b (hp s1)) s1 = Inr s2" "hp s' = hp s2" "r = 0"
proof -
  from assms(1) consider "s' = s" "r \<noteq> -2" | s1 x where "PreSaveProcess env b ty mean s = Inr (s1, x)" "s' = s1" "r = -5"
    | s1 x where "PreSaveProcess env b ty mean s = Inr (s1, x)" "store_block env save b ty mean s1 = Inr (s', r)"
    by (auto simp: save_step_def bindE_eq_Inr_iff split_beta split: if_split_asm)
  then show thesis
  proof cases
    case 1
    then show thesis by (intro ended) simp_all
  next
    case (2 s1 x)
    then show thesis using quiet_PreSave [OF 2(1) assms(2)] by (intro ended) simp_all
  next
    case (3 s1 x)
    have q: "quiet B (hp s) (hp s1)" by (rule quiet_PreSave [OF 3(1) assms(2)])
    from 3(2) show thesis
    proof (cases rule: store_cases [where B = B])
      case failed
      then show thesis using quiet_trans [OF q] by (intro ended) simp_all
    next
      case (stored s2 s3)
      then show thesis using quiet_trans [OF q stored(1)] by (intro that(2)) simp_all
    qed
  qed
qed

lemma quiet_SaveBlock:
  "SaveBlock env k b ty mean s = Inr (s', r) \<Longrightarrow> pend_hashes (hp s) \<subseteq> B \<Longrightarrow> blk_hash b \<in> B \<Longrightarrow> quiet B (hp s) (hp s') \<and> r \<noteq> -2"
proof (induction k arbitrary: b ty mean s s' r)
  case (Suc k)
  let ?save = "\<lambda>b. SaveBlock env k b Broadcast ByPreHash"
  from Suc.prems(1) have "save_step env ?save b ty mean s = Inr (s', r)" by simp
  from this Suc.prems(3) show ?case
  proof (cases rule: save_step_cases)
    case (stored s1 s2)
    have P: "pend_hashes (hp s1) \<subseteq> B" using quiet_pending(2) [OF stored(1)] Suc.prems(2) by simp
    have "quiet B (hp s1) (hp s2)"
    proof (rule quiet_save_all [OF stored(2)])
      fix b' t t' r'
      assume b': "b' \<in> set (successors b (hp s1))" and t: "pendingBlocks (hp t) = pendingBlocks (hp s1)" and run: "?save b' t = Inr (t', r')"
      have "pend_hashes (hp t) \<subseteq> B" using P t by (simp add: pend_hashes_def)
      moreover have "blk_hash b' \<in> B" using successors_hash [OF b'] P by blast
      ultimately show "quiet B (hp t) (hp t')" using Suc.IH [OF run] by blast
    qed simp
    then show ?thesis using quiet_trans [OF stored(1)] stored by simp
  qed simp
qed simp

lemma save_all_ends:
  fixes s :: "'w bh"
  assumes "\<And>b s. b \<in> set bs \<Longrightarrow> pendingBlocks (hp s) = P \<Longrightarrow> save b s \<noteq> Inl OutOfFuel"
    and "\<And>b s s' r. b \<in> set bs \<Longrightarrow> pendingBlocks (hp s) = P \<Longrightarrow> save b s = Inr (s', r) \<Longrightarrow> pendingBlocks (hp s') = P" and "pendingBlocks (hp s) = P"
  shows "save_all save bs s \<noteq> Inl OutOfFuel"
  using assms
proof (induction bs arbitrary: s)
  case (Cons b bs)
  show ?case
  proof (cases "save b s")
    case (Inl e)
    then show ?thesis using Cons.prems(1) [of b s] Cons.prems(3) by auto
  next
    case (Inr x)
    obtain s1 r where x: "x = (s1, r)" by (cases x)
    have P: "pendingBlocks (hp s1) = P" using Cons.prems(2) [of b s s1 r] Cons.prems(3) Inr x by simp
    have "save_all save bs s1 \<noteq> Inl OutOfFuel"
    proof (rule Cons.IH)
      fix b' and t :: "'w bh" assume "b' \<in> set bs" "pendingBlocks (hp t) = P"
      then show "save b' t \<noteq> Inl OutOfFuel" using Cons.prems(1) by simp
    next
      fix b' r' and t t' :: "'w bh" assume "b' \<in> set bs" "pendingBlocks (hp t) = P" "save b' t = Inr (t', r')"
      then show "pendingBlocks (hp t') = P" using Cons.prems(2) [of b' t t' r'] by simp
    qed (rule P)
    then show ?thesis by (simp add: Inr x)
  qed
qed simp

lemma bindE_Inl_iff: "bindE x f = Inl e \<longleftrightarrow> x = Inl e \<or> (\<exists>a. x = Inr a \<and> f a = Inl e)"
  by (cases x) auto

lemma lift_h_fuel [simp]: "lift_h r \<noteq> Inl OutOfFuel"
  by (auto simp: lift_h_def split: sum.split)

lemma blooming_fuel [simp]: "CheckDoubleBlooming env kind a b s \<noteq> Inl OutOfFuel"
  by (auto simp: CheckDoubleBlooming_def MakeTxStatusMsg_def Let_def split: doubleSpendType.split option.split list.split)

lemma deal_fuel [simp]: "DealDoubleSpend env b tx u s \<noteq> Inl OutOfFuel"
  by (auto simp: DealDoubleSpend_def resolve_spend_def bindE_Inl_iff split_beta split: option.split if_split_asm)

lemma pre_txs_fuel [simp]: "pre_txs env b txs s \<noteq> Inl OutOfFuel"
  by (induction txs arbitrary: s) (auto simp: bindE_Inl_iff split_beta split: if_split_asm)

lemma cancel_fuel [simp]: "cancel_txs env b txs s \<noteq> Inl OutOfFuel"
  by (induction txs arbitrary: s) (auto simp: bindE_Inl_iff split_beta split: if_split_asm)

lemma PreSave_fuel [simp]: "PreSaveProcess env b ty mean s \<noteq> Inl OutOfFuel"
  by (auto simp: PreSaveProcess_def Let_def bindE_Inl_iff split_beta split: if_split_asm)

lemma successors_cong: "pendingBlocks h' = pendingBlocks h \<Longrightarrow> successors b h' = successors b h"
  by (simp add: successors_def)

lemma save_step_ends:
  fixes s :: "'w bh"
  assumes "\<And>b' t. b' \<in> set (successors b (hp s)) \<Longrightarrow> pendingBlocks (hp t) = pendingBlocks (hp s) \<Longrightarrow> save b' t \<noteq> Inl OutOfFuel"
    and "\<And>b' t t' r. b' \<in> set (successors b (hp s)) \<Longrightarrow> pendingBlocks (hp t) = pendingBlocks (hp s) \<Longrightarrow> save b' t = Inr (t', r) \<Longrightarrow> pendingBlocks (hp t') = pendingBlocks (hp s)"
  shows "save_step env save b ty mean s \<noteq> Inl OutOfFuel"
proof
  assume e: "save_step env save b ty mean s = Inl OutOfFuel"
  then obtain s1 x where pre: "PreSaveProcess env b ty mean s = Inr (s1, x)" and st: "store_block env save b ty mean s1 = Inl OutOfFuel"
    by (auto simp: save_step_def bindE_Inl_iff split_beta split: if_split_asm)
  have P1: "pendingBlocks (hp s1) = pendingBlocks (hp s)" using quiet_pending(1) [OF quiet_PreSave [OF pre, of "{blk_hash b}"]] by simp
  obtain cr w where c: "he_SaveBlock env (db s1) b ty mean = (cr, w)" by fastforce
  let ?h = "report cr (ResetMissingPrehash (hp s1))"
  have P: "pendingBlocks ?h = pendingBlocks (hp s)"
    using quiet_pending(1) [OF quiet_trans [OF quiet_prehash(2) quiet_report, of _ "hp s1" cr]] P1 by simp
  let ?t = "\<lambda>ca. s1\<lparr>hp := ?h, db := w, cache := ca, out := out s1 @ [SavedBlock b ty mean, PostTransaction b]\<rparr>"
  from st c have "\<exists>ca. save_all save (successors b ?h) (?t ca) = Inl OutOfFuel"
    by (auto simp: store_block_def Let_def PostSaveProcess_def PostMembershipCancellationProcess_def bindE_Inl_iff split: if_split_asm sum.split_asm)
  then obtain t where t: "hp t = ?h" "save_all save (successors b ?h) t = Inl OutOfFuel" by force
  have "save_all save (successors b ?h) t \<noteq> Inl OutOfFuel"
  proof (rule save_all_ends [where P = "pendingBlocks (hp s)"])
    show "pendingBlocks (hp t) = pendingBlocks (hp s)" using t(1) P by simp
  next
    fix b' and t :: "'w bh" assume "b' \<in> set (successors b ?h)" "pendingBlocks (hp t) = pendingBlocks (hp s)"
    then show "save b' t \<noteq> Inl OutOfFuel" using assms(1) successors_cong [OF P] by metis
  next
    fix b' r and t t' :: "'w bh" assume "b' \<in> set (successors b ?h)" "pendingBlocks (hp t) = pendingBlocks (hp s)" "save b' t = Inr (t', r)"
    then show "pendingBlocks (hp t') = pendingBlocks (hp s)" using assms(2) successors_cong [OF P] by metis
  qed
  with t(2) show False by simp
qed

lemma SaveBlock_ends:
  fixes s :: "'w bh"
  shows "keyed (pendingBlocks (hp s)) pending_ok \<Longrightarrow> j < k \<Longrightarrow> u64_height b + 1 + word_of_nat j \<notin> fst ` set (pendingBlocks (hp s)) \<Longrightarrow>
   SaveBlock env k b ty mean s \<noteq> Inl OutOfFuel"
proof (induction k arbitrary: b ty mean s j)
  case (Suc k)
  let ?save = "\<lambda>b. SaveBlock env k b Broadcast ByPreHash"
  have "save_step env ?save b ty mean s \<noteq> Inl OutOfFuel"
  proof (rule save_step_ends)
    fix b' and t :: "'w bh" assume b': "b' \<in> set (successors b (hp s))" and t: "pendingBlocks (hp t) = pendingBlocks (hp s)"
    have h: "u64_height b' = u64_height b + 1" using successors_height [OF Suc.prems(1) b'] .
    have "u64_height b + 1 \<in> fst ` set (pendingBlocks (hp s))" using successors_pending [OF b'] by (force dest: map_of_SomeD)
    then have "u64_height b + 1 + word_of_nat 0 \<in> fst ` set (pendingBlocks (hp s))" by simp
    then have "j \<noteq> 0" using Suc.prems(3) by metis
    then obtain i where i: "j = Suc i" by (cases j) auto
    then have "u64_height b' + 1 + word_of_nat i \<notin> fst ` set (pendingBlocks (hp t))" using Suc.prems(3) t h by (simp add: add.assoc)
    then show "?save b' t \<noteq> Inl OutOfFuel" using Suc.IH [of t i b'] Suc.prems(1,2) t i by simp
  next
    fix b' r and t t' :: "'w bh" assume b': "b' \<in> set (successors b (hp s))" and t: "pendingBlocks (hp t) = pendingBlocks (hp s)" and run: "?save b' t = Inr (t', r)"
    then show "pendingBlocks (hp t') = pendingBlocks (hp s)"
      using quiet_SaveBlock [OF run, of UNIV] quiet_pending(1) by fastforce
  qed
  then show ?case by simp
qed simp

lemma free_height:
  assumes "length m < k" and "k \<le> 2 ^ 64"
  shows "\<exists>j < k. (h :: u64) + word_of_nat j \<notin> fst ` set m"
proof (rule ccontr)
  assume "\<not> ?thesis"
  then have sub: "(\<lambda>j. h + word_of_nat j) ` {..<k} \<subseteq> fst ` set m" by auto
  have "inj_on (\<lambda>j. h + word_of_nat j) {..<k}"
    using assms(2) by (auto simp: inj_on_def word_of_nat_eq_iff take_bit_nat_eq_self)
  then have "k \<le> card (fst ` set m)" using card_mono [OF _ sub] by (simp add: card_image)
  also have "\<dots> \<le> length m" by (metis card_length length_map set_map)
  finally show False using assms(1) by simp
qed

lemma SaveBlock_total:
  assumes "helper_inv (hp s)" and "length (pendingBlocks (hp s)) < k"
  shows "SaveBlock env k b ty mean s \<noteq> Inl OutOfFuel"
proof -
  let ?n = "Suc (length (pendingBlocks (hp s)))"
  have inv: "keyed (pendingBlocks (hp s)) pending_ok" "?n \<le> 2 ^ 64" using assms(1) by (simp_all add: helper_inv_def)
  obtain j where "j < ?n" "u64_height b + 1 + word_of_nat j \<notin> fst ` set (pendingBlocks (hp s))"
    using free_height [of "pendingBlocks (hp s)" ?n "u64_height b + 1"] inv(2) by auto
  then show ?thesis using SaveBlock_ends [OF inv(1), of j k b] assms(2) by simp
qed

section \<open>Working through the queues\<close>

text \<open>The hashes that saving the given blocks can add to those that are held back.\<close>

definition covers :: "string set \<Rightarrow> CBlock list \<Rightarrow> helper \<Rightarrow> bool" where
  "covers B bs h \<longleftrightarrow> pend_hashes h \<subseteq> B \<and> blk_hash ` set bs \<subseteq> B"

lemma covers_Cons: "covers B (b # bs) h \<Longrightarrow> SaveBlock env k b ty mean s = Inr (s', r) \<Longrightarrow> hp s = h \<Longrightarrow> quiet B h (hp s') \<and> covers B bs (hp s')"
  using quiet_SaveBlock [of env k b ty mean s s' r B] quiet_pending(2) [of B h "hp s'"] by (auto simp: covers_def)

lemma quiet_save_fast: "save_fast env k nh bs s = Inr (s', go) \<Longrightarrow> covers B bs (hp s) \<Longrightarrow> quiet B (hp s) (hp s')"
proof (induction bs arbitrary: s)
  case (Cons b bs)
  then obtain s1 r where run: "SaveBlock env k b (syncType (hp s)) (if u64_height b + 1 = nh then ByPreHash else Normal) s = Inr (s1, r)"
    and "hp s' = hp s1 \<or> save_fast env k nh bs s1 = Inr (s', go)"
    by (auto simp: bindE_eq_Inr_iff split: if_split_asm)
  then show ?case using covers_Cons [OF Cons.prems(2) run refl] Cons.IH [of s1] quiet_trans by auto
qed simp

lemma quiet_save_missing: "save_missing env k bs s = Inr s' \<Longrightarrow> covers B bs (hp s) \<Longrightarrow> quiet B (hp s) (hp s')"
proof (induction bs arbitrary: s)
  case (Cons b bs)
  then obtain s1 r where run: "SaveBlock env k b (syncType (hp s)) ByUtxo s = Inr (s1, r)" and "s' = s1 \<or> save_missing env k bs s1 = Inr s'"
    by (auto simp: bindE_eq_Inr_iff split: if_split_asm)
  then show ?case using covers_Cons [OF Cons.prems(2) run refl] Cons.IH [of s1] quiet_trans by auto
qed simp

lemma quiet_save_sync: "save_sync env k bs s = Inr (s', go) \<Longrightarrow> covers B bs (hp s) \<Longrightarrow> quiet B (hp s) (hp s')"
proof (induction bs arbitrary: s)
  case (Cons b bs)
  show ?case
  proof (cases "stopBlocking (hp s)")
    case True
    then obtain s1 r where run: "SaveBlock env k b (syncType (hp s)) Normal s = Inr (s1, r)" and "s' = s1 \<or> save_sync env k bs s1 = Inr (s', go)"
      using Cons.prems(1) by (auto simp: bindE_eq_Inr_iff split: if_split_asm)
    then show ?thesis using covers_Cons [OF Cons.prems(2) run refl] Cons.IH [of s1] quiet_trans by auto
  qed (use Cons.prems in simp)
qed simp

lemma quiet_save_broadcast: "save_broadcast env k bs s = Inr s' \<Longrightarrow> covers B bs (hp s) \<Longrightarrow> quiet B (hp s) (hp s')"
proof (induction bs arbitrary: s)
  case (Cons b bs)
  have tail: "covers B bs (hp s)" using Cons.prems(2) by (simp add: covers_def)
  from Cons.prems(1) consider "save_broadcast env k bs s = Inr s'"
    | s1 r where "SaveBlock env k b Broadcast Normal s = Inr (s1, r)" "save_broadcast env k bs s1 = Inr s'"
    by (auto simp: bindE_eq_Inr_iff split: if_split_asm)
  then show ?case
  proof cases
    case 1
    then show ?thesis using Cons.IH tail by simp
  next
    case (2 s1 r)
    then show ?thesis using covers_Cons [OF Cons.prems(2) 2(1) refl] Cons.IH [of s1] quiet_trans by blast
  qed
qed simp

lemma findSomeD: "List.find P xs = Some x \<Longrightarrow> x \<in> set xs \<and> P x"
  by (induction xs) (auto split: if_split_asm)

lemma held_entry:
  assumes "helper_inv h" and "List.find (\<lambda>e. after (fst e)) (hashPendingBlocks h) = Some (hash, t, b)"
  shows "hash = blk_hash b" and "hash \<in> held h" and "after hash"
proof -
  have mem: "(hash, t, b) \<in> set (hashPendingBlocks h)" "after hash"
    using findSomeD [OF assms(2)] by auto
  then show "hash \<in> held h" "after hash" by (force simp: held_def)+
  show "hash = blk_hash b" using assms(1) mem(1) by (auto simp: helper_inv_def keyed_def)
qed

lemma quiet_save_held:
  "save_held env k j after fin s = Inr (s', fin') \<Longrightarrow> helper_inv (hp s) \<Longrightarrow> pend_hashes (hp s) \<subseteq> B \<Longrightarrow> held (hp s) \<subseteq> B \<Longrightarrow> quiet B (hp s) (hp s')"
proof (induction j arbitrary: after fin s)
  case (Suc j)
  show ?case
  proof (cases "List.find (\<lambda>e. after (fst e)) (hashPendingBlocks (hp s))")
    case None
    then show ?thesis using Suc.prems(1) by simp
  next
    case (Some e)
    obtain hash t b where e: "e = (hash, t, b)" by (cases e)
    note entry = held_entry [OF Suc.prems(2) Some [unfolded e]]
    show ?thesis
    proof (cases "be_now env - t > 3 * 1000000")
      case True
      then show ?thesis using Suc.IH Suc.prems Some e by simp
    next
      case False
      then obtain s1 r fin1 where run: "SaveBlock env k b Broadcast ByUtxo s = Inr (s1, r)" and rest: "save_held env k j (\<lambda>x. hash < x) fin1 s1 = Inr (s', fin')"
        using Suc.prems(1) Some e by (auto simp: bindE_eq_Inr_iff)
      have q: "quiet B (hp s) (hp s1)" using quiet_SaveBlock [OF run Suc.prems(3)] entry Suc.prems(4) by auto
      moreover have "quiet B (hp s1) (hp s')"
        using Suc.IH [OF rest quiet_inv [OF q Suc.prems(2)]] quiet_pending(2) [OF q] q Suc.prems(3,4) by (auto simp: quiet_def)
      ultimately show ?thesis by (rule quiet_trans)
    qed
  qed
qed simp

lemma hp_roll_list: "hp (fst (roll_list env bs s)) = hp s"
proof (induction bs arbitrary: s)
  case (Cons b bs)
  obtain s1 r where rb: "roll_back env (blk_hash b) s = (s1, r)" by fastforce
  then have "hp s1 = hp s" using hp_roll_back [of env "blk_hash b" s] by simp
  with Cons rb show ?case by simp
qed simp

lemma hp_roll_listD: "roll_list env bs s = (s', r) \<Longrightarrow> hp s' = hp s"
  using hp_roll_list [of env bs s] by simp

lemma hp_RollbackBlocks: "RollbackBlocks env s = Inr (s', r) \<Longrightarrow> (hp s')\<lparr>rollbackBlocks := []\<rparr> = (hp s)\<lparr>rollbackBlocks := []\<rparr>"
proof -
  assume run: "RollbackBlocks env s = Inr (s', r)"
  have contract: "(hp s1)\<lparr>rollbackBlocks := []\<rparr> = (hp s)\<lparr>rollbackBlocks := []\<rparr>" if "RollbackContractBlock env s = Inr (s1, x)" for s1 x
    using that by (auto simp: RollbackContractBlock_def Let_def bindE_eq_Inr_iff split_beta split: if_split_asm list.split_asm option.split_asm)
  from run consider "s' = s" | s1 x where "RollbackContractBlock env s = Inr (s1, x)" "hp s' = hp s1"
    by (auto simp: RollbackBlocks_def bindE_eq_Inr_iff split: if_split_asm dest!: hp_roll_listD)
  then show ?thesis using contract by cases auto
qed

lemma but_rollback_same:
  fixes f :: "helper \<Rightarrow> 'a"
  assumes "h'\<lparr>rollbackBlocks := []\<rparr> = h\<lparr>rollbackBlocks := []\<rparr>" and "\<And>x. f (x\<lparr>rollbackBlocks := []\<rparr>) = f x"
  shows "f h' = f h"
  using assms(2) [of h'] assms(2) [of h] assms(1) by simp

lemma but_rollback:
  assumes "h'\<lparr>rollbackBlocks := []\<rparr> = h\<lparr>rollbackBlocks := []\<rparr>"
  shows "helper_inv h' = helper_inv h" and "pend_hashes h' = pend_hashes h" and "held h' = held h" and "pendingBlocks h' = pendingBlocks h"
    and "fastSyncBlocks h' = fastSyncBlocks h" and "utxoMissingBlocks h' = utxoMissingBlocks h" and "syncBlocks h' = syncBlocks h" and "broadcastBlocks h' = broadcastBlocks h"
proof -
  note same = but_rollback_same [OF assms]
  show "helper_inv h' = helper_inv h" by (rule same) (simp add: helper_inv_def)
  show "pend_hashes h' = pend_hashes h" by (rule same) (simp add: pend_hashes_def)
  show "held h' = held h" by (rule same) (simp add: held_def)
  show "pendingBlocks h' = pendingBlocks h" "fastSyncBlocks h' = fastSyncBlocks h" "utxoMissingBlocks h' = utxoMissingBlocks h"
    "syncBlocks h' = syncBlocks h" "broadcastBlocks h' = broadcastBlocks h" by (rule same, simp)+
qed

lemma covers_UNIV [simp]: "covers UNIV bs h"
  by (simp add: covers_def)

lemma helper_inv_queues: "helper_inv (h\<lparr>utxoMissingBlocks := bs\<rparr>) = helper_inv h" "helper_inv (h\<lparr>rollbackBlocks := m\<rparr>) = helper_inv h"
    "helper_inv (h\<lparr>processing := p\<rparr>) = helper_inv h" "helper_inv h \<Longrightarrow> helper_inv (h\<lparr>hashPendingBlocks := filter P (hashPendingBlocks h)\<rparr>)"
  by (simp_all add: helper_inv_def keyed_filter)

lemma process_queues_inv:
  assumes "process_queues env k j nh s = Inr s'" and inv: "helper_inv (hp s)"
  shows "helper_inv (hp s')"
proof -
  obtain s1 go1 where 1: "save_fast env k nh (fastSyncBlocks (hp s)) s = Inr (s1, go1)" using assms(1) by (auto simp: process_queues_def bindE_eq_Inr_iff)
  have i1: "helper_inv (hp s1)" using quiet_inv [OF quiet_save_fast [OF 1, of UNIV] inv] by simp
  show ?thesis
  proof (cases go1)
    case False
    then show ?thesis using assms(1) 1 i1 by (simp add: process_queues_def)
  next
    case go1: True
    then obtain s2 where 2: "save_missing env k (utxoMissingBlocks (hp s1)) s1 = Inr s2" using assms(1) 1 by (auto simp: process_queues_def bindE_eq_Inr_iff)
    let ?s3 = "s2\<lparr>hp := (hp s2)\<lparr>utxoMissingBlocks := []\<rparr>\<rparr>"
    have i3: "helper_inv (hp ?s3)" using quiet_inv [OF quiet_save_missing [OF 2, of UNIV] i1] by (simp add: helper_inv_queues)
    obtain s4 go2 where 4: "save_sync env k (syncBlocks (hp ?s3)) ?s3 = Inr (s4, go2)" using assms(1) 1 2 go1 by (auto simp: process_queues_def Let_def bindE_eq_Inr_iff)
    have i4: "helper_inv (hp s4)" using quiet_inv [OF quiet_save_sync [OF 4, of UNIV] i3] by simp
    show ?thesis
    proof (cases go2)
      case False
      then show ?thesis using assms(1) 1 2 4 go1 i4 by (simp add: process_queues_def Let_def)
    next
      case go2: True
      then obtain s5 s6 fin where 5: "save_broadcast env k (broadcastBlocks (hp s4)) s4 = Inr s5" and 6: "save_held env k j (\<lambda>_. True) [] s5 = Inr (s6, fin)"
        and s': "s' = s6\<lparr>hp := (hp s6)\<lparr>hashPendingBlocks := filter (\<lambda>e. fst e \<notin> set fin) (hashPendingBlocks (hp s6))\<rparr>\<rparr>"
        using assms(1) 1 2 4 go1 by (auto simp: process_queues_def Let_def bindE_eq_Inr_iff)
      have i5: "helper_inv (hp s5)" using quiet_inv [OF quiet_save_broadcast [OF 5, of UNIV] i4] by simp
      have "helper_inv (hp s6)" using quiet_inv [OF quiet_save_held [OF 6 i5, of UNIV] i5] by simp
      then show ?thesis by (simp add: s' helper_inv_queues)
    qed
  qed
qed

lemma length_filter_bound: "length xs \<le> n \<Longrightarrow> length (filter P xs) \<le> n"
  using length_filter_le [of P xs] by linarith

lemma helper_inv_exit: "helper_inv h \<Longrightarrow> helper_inv (exit_queues newTop now h)"
  unfolding helper_inv_def exit_queues_def by (simp add: keyed_filter om_wf_filter length_filter_bound del: not_le)

lemma process_exit_inv: "process_exit env nh s = Inr s' \<Longrightarrow> helper_inv (hp s) \<Longrightarrow> helper_inv (hp s')"
  by (auto simp: process_exit_def bindE_eq_Inr_iff Let_def helper_inv_exit)

lemma Process_inv:
  assumes "Process env k j n s = Inr s'" and inv: "helper_inv (hp s)"
  shows "helper_inv (hp s')"
proof -
  let ?s1 = "s\<lparr>hp := (hp s)\<lparr>processing := True\<rparr>\<rparr>"
  from assms(1) consider "s' = s" | "s' = ?s1" | nh s2 where "process_body env k j n nh ?s1 = Inr s2" "process_exit env nh s2 = Inr s'"
  proof (cases "processing (hp s)")
    case True
    then show ?thesis using assms(1) that(1) by (simp add: Process_def)
  next
    case False
    then obtain st nh where top: "GetBlockTop (reader env ?s1) 0 = Inr (st, nh)"
      using assms(1) by (auto simp: Process_def Let_def bindE_eq_Inr_iff)
    show ?thesis
    proof (cases "st = DB_SUCCESS")
      case True
      with False top assms(1) have "bindE (process_body env k j n nh ?s1) (process_exit env nh) = Inr s'" by (simp add: Process_def)
      then obtain s2 where "process_body env k j n nh ?s1 = Inr s2" "process_exit env nh s2 = Inr s'" by (auto simp: bindE_eq_Inr_iff)
      then show ?thesis by (rule that(3))
    next
      case False
      with \<open>\<not> processing (hp s)\<close> top assms(1) show ?thesis by (intro that(2)) (simp add: Process_def)
    qed
  qed
  then show ?thesis
  proof cases
    case (3 nh s2)
    let ?s0 = "?s1\<lparr>hp := (hp ?s1)\<lparr>rollbackBlocks := drop_young (be_now env) (rollbackBlocks (hp ?s1))\<rparr>\<rparr>"
    have i0: "helper_inv (hp ?s0)" using inv by (simp add: helper_inv_queues)
    from 3(1) obtain t r where roll: "RollbackBlocks env ?s0 = Inr (t, r)" and "s2 = t \<or> process_queues env k j nh t = Inr s2"
      by (auto simp: process_body_def bindE_eq_Inr_iff split: if_split_asm option.split_asm)
    moreover have "helper_inv (hp t)" using but_rollback(1) [OF hp_RollbackBlocks [OF roll]] i0 by simp
    ultimately have "helper_inv (hp s2)" using process_queues_inv by blast
    then show ?thesis using process_exit_inv [OF 3(2)] by simp
  qed (use inv in \<open>simp_all add: helper_inv_queues\<close>)
qed

section \<open>Everything comes to an end\<close>

definition can_save :: "nat \<Rightarrow> helper \<Rightarrow> bool" where
  "can_save k h \<longleftrightarrow> helper_inv h \<and> length (pendingBlocks h) < k"

lemma can_save_quiet: "can_save k h \<Longrightarrow> quiet B h h' \<Longrightarrow> can_save k h'"
  by (simp add: can_save_def quiet_def)

lemma can_save_save: "can_save k (hp s) \<Longrightarrow> SaveBlock env k b ty mean s \<noteq> Inl OutOfFuel"
    "can_save k (hp s) \<Longrightarrow> SaveBlock env k b ty mean s = Inr (s', r) \<Longrightarrow> can_save k (hp s')"
  using SaveBlock_total [of s k env b ty mean] quiet_SaveBlock [of env k b ty mean s s' r UNIV] can_save_quiet [of k "hp s" UNIV "hp s'"] by (auto simp: can_save_def)

lemma save_fast_ends: "can_save k (hp s) \<Longrightarrow> save_fast env k nh bs s \<noteq> Inl OutOfFuel"
proof (induction bs arbitrary: s)
  case (Cons b bs)
  let ?r = "SaveBlock env k b (syncType (hp s)) (if u64_height b + 1 = nh then ByPreHash else Normal) s"
  from Cons.prems have "?r \<noteq> Inl OutOfFuel" "?r = Inr (s1, r) \<Longrightarrow> can_save k (hp s1)" for s1 r by (rule can_save_save)+
  then show ?case using Cons.IH by (cases ?r) (auto split: if_split_asm)
qed simp

lemma save_missing_ends: "can_save k (hp s) \<Longrightarrow> save_missing env k bs s \<noteq> Inl OutOfFuel"
proof (induction bs arbitrary: s)
  case (Cons b bs)
  let ?r = "SaveBlock env k b (syncType (hp s)) ByUtxo s"
  from Cons.prems have "?r \<noteq> Inl OutOfFuel" "?r = Inr (s1, r) \<Longrightarrow> can_save k (hp s1)" for s1 r by (rule can_save_save)+
  then show ?case using Cons.IH by (cases ?r) (auto split: if_split_asm)
qed simp

lemma save_sync_ends: "can_save k (hp s) \<Longrightarrow> save_sync env k bs s \<noteq> Inl OutOfFuel"
proof (induction bs arbitrary: s)
  case (Cons b bs)
  let ?r = "SaveBlock env k b (syncType (hp s)) Normal s"
  from Cons.prems have "?r \<noteq> Inl OutOfFuel" "?r = Inr (s1, r) \<Longrightarrow> can_save k (hp s1)" for s1 r by (rule can_save_save)+
  then show ?case using Cons.IH by (cases ?r) (auto split: if_split_asm)
qed simp

lemma save_broadcast_ends: "can_save k (hp s) \<Longrightarrow> save_broadcast env k bs s \<noteq> Inl OutOfFuel"
proof (induction bs arbitrary: s)
  case (Cons b bs)
  let ?r = "SaveBlock env k b Broadcast Normal s"
  from Cons.prems have "?r \<noteq> Inl OutOfFuel" "?r = Inr (s1, r) \<Longrightarrow> can_save k (hp s1)" for s1 r by (rule can_save_save)+
  then show ?case using Cons.IH Cons.prems by (cases ?r) (auto simp: bindE_Inl_iff)
qed simp

text \<open>The loop over the blocks that are held back visits ever greater hashes of a finite set.\<close>

lemma save_held_ends:
  assumes "finite B"
  shows "can_save k (hp s) \<Longrightarrow> pend_hashes (hp s) \<subseteq> B \<Longrightarrow> held (hp s) \<subseteq> B \<Longrightarrow> (\<And>x y. after x \<Longrightarrow> x < y \<Longrightarrow> after y) \<Longrightarrow>
    card {x \<in> B. after x} < j \<Longrightarrow> save_held env k j after fin s \<noteq> Inl OutOfFuel"
proof (induction j arbitrary: after fin s)
  case (Suc j)
  have inv: "helper_inv (hp s)" using Suc.prems(1) by (simp add: can_save_def)
  show ?case
  proof (cases "List.find (\<lambda>e. after (fst e)) (hashPendingBlocks (hp s))")
    case (Some e)
    obtain hash t b where e: "e = (hash, t, b)" by (cases e)
    note entry = held_entry [OF inv Some [unfolded e]]
    have "{x \<in> B. hash < x} \<subset> {x \<in> B. after x}" using entry(2,3) Suc.prems(3,4) by blast
    then have "card {x \<in> B. hash < x} < card {x \<in> B. after x}" using assms by (intro psubset_card_mono) simp_all
    then have less: "card {x \<in> B. hash < x} < j" using Suc.prems(5) by simp
    have next_turn: "save_held env k j (\<lambda>x. hash < x) fin' s1 \<noteq> Inl OutOfFuel" if "can_save k (hp s1)" "pend_hashes (hp s1) \<subseteq> B" "held (hp s1) \<subseteq> B" for fin' s1
      by (rule Suc.IH [OF that _ less]) (rule less_trans)
    let ?r = "SaveBlock env k b Broadcast ByUtxo s"
    have r: "?r \<noteq> Inl OutOfFuel" using Suc.prems(1) by (rule can_save_save)
    have q: "can_save k (hp s1)" "pend_hashes (hp s1) \<subseteq> B" "held (hp s1) \<subseteq> B" if "?r = Inr (s1, x)" for s1 x
    proof -
      have q: "quiet B (hp s) (hp s1)" using quiet_SaveBlock [OF that Suc.prems(2)] entry Suc.prems(3) by blast
      show "can_save k (hp s1)" by (rule can_save_quiet [OF Suc.prems(1) q])
      show "pend_hashes (hp s1) \<subseteq> B" using quiet_pending(2) [OF q] Suc.prems(2) by simp
      show "held (hp s1) \<subseteq> B" using q Suc.prems(3) by (auto simp: quiet_def)
    qed
    show ?thesis
    proof (cases "be_now env - t > 3 * 1000000")
      case True
      then show ?thesis using next_turn [OF Suc.prems(1-3)] by (simp add: Some e)
    next
      case False
      then show ?thesis using r next_turn [OF q] by (cases ?r) (auto simp: Some e)
    qed
  qed simp
qed simp

definition queued :: "helper \<Rightarrow> CBlock list" where
  "queued h = fastSyncBlocks h @ utxoMissingBlocks h @ syncBlocks h @ broadcastBlocks h @ map (\<lambda>e. snd (snd e)) (hashPendingBlocks h) @ concat (map (\<lambda>e. map snd (snd e)) (pendingBlocks h))"

definition queued_hashes :: "helper \<Rightarrow> string set" where
  "queued_hashes h = blk_hash ` set (queued h)"

lemma queued_covers:
  assumes "helper_inv h"
  shows "pend_hashes h \<subseteq> queued_hashes h" and "held h \<subseteq> queued_hashes h" and "covers (queued_hashes h) (fastSyncBlocks h) h"
    and "covers (queued_hashes h) (utxoMissingBlocks h) h" and "covers (queued_hashes h) (syncBlocks h) h" and "covers (queued_hashes h) (broadcastBlocks h) h"
proof -
  show p: "pend_hashes h \<subseteq> queued_hashes h"
  proof
    fix x assume "x \<in> pend_hashes h"
    then obtain b k m q where b: "x = blk_hash b" "(k, m) \<in> set (pendingBlocks h)" "(q, b) \<in> set m" by (auto simp: pend_hashes_def)
    then have "b \<in> set (concat (map (\<lambda>e. map snd (snd e)) (pendingBlocks h)))" by force
    then show "x \<in> queued_hashes h" by (simp only: queued_hashes_def queued_def set_append b(1) UnI2 imageI)
  qed
  show "held h \<subseteq> queued_hashes h"
  proof
    fix x assume "x \<in> held h"
    then obtain t b where e: "(x, t, b) \<in> set (hashPendingBlocks h)" by (auto simp: held_def)
    then have "x = blk_hash b" using assms by (auto simp: helper_inv_def keyed_def)
    moreover have "b \<in> set (map (\<lambda>e. snd (snd e)) (hashPendingBlocks h))" using e by force
    ultimately show "x \<in> queued_hashes h" unfolding queued_hashes_def queued_def set_append by blast
  qed
  show "covers (queued_hashes h) (fastSyncBlocks h) h" "covers (queued_hashes h) (utxoMissingBlocks h) h" "covers (queued_hashes h) (syncBlocks h) h"
    "covers (queued_hashes h) (broadcastBlocks h) h"
    using p by (auto simp: covers_def queued_hashes_def queued_def)
qed

text \<open>What the loops keep: the blocks still to be saved are covered by the same hashes.\<close>

definition queue_ok :: "nat \<Rightarrow> string set \<Rightarrow> helper \<Rightarrow> bool" where
  "queue_ok k B h \<longleftrightarrow> can_save k h \<and> pend_hashes h \<subseteq> B \<and> held h \<subseteq> B \<and> blk_hash ` (set (fastSyncBlocks h) \<union> set (utxoMissingBlocks h) \<union> set (syncBlocks h) \<union> set (broadcastBlocks h)) \<subseteq> B"

lemma queue_ok_quiet: "queue_ok k B h \<Longrightarrow> quiet B h h' \<Longrightarrow> queue_ok k B h'"
proof -
  assume ok: "queue_ok k B h" and q: "quiet B h h'"
  have "can_save k h'" "pend_hashes h' = pend_hashes h" using ok q can_save_quiet quiet_pending(2) by (auto simp: queue_ok_def)
  moreover have "held h' \<subseteq> B" using ok q by (auto simp: queue_ok_def quiet_def)
  ultimately show ?thesis using ok q by (simp add: queue_ok_def quiet_def)
qed

lemma queue_ok_covers: "queue_ok k B h \<Longrightarrow> covers B (fastSyncBlocks h) h \<and> covers B (utxoMissingBlocks h) h \<and> covers B (syncBlocks h) h \<and> covers B (broadcastBlocks h) h"
  by (auto simp: queue_ok_def covers_def)

lemma queue_ok_start: "helper_inv h \<Longrightarrow> length (pendingBlocks h) < k \<Longrightarrow> queue_ok k (queued_hashes h) h"
  using queued_covers [of h] by (auto simp: queue_ok_def can_save_def covers_def)

lemma process_queues_ends:
  assumes fin: "finite B" "card B < j" and ok: "queue_ok k B (hp s)"
  shows "process_queues env k j nh s \<noteq> Inl OutOfFuel"
proof
  assume e: "process_queues env k j nh s = Inl OutOfFuel"
  have can: "can_save k h" if "queue_ok k B h" for h using that by (simp add: queue_ok_def)
  from e obtain s1 go1 where 1: "save_fast env k nh (fastSyncBlocks (hp s)) s = Inr (s1, go1)"
    by (auto simp: save_fast_ends [OF can [OF ok]] process_queues_def bindE_Inl_iff)
  have ok1: "queue_ok k B (hp s1)" using queue_ok_quiet [OF ok quiet_save_fast [OF 1]] queue_ok_covers [OF ok] by blast
  from e 1 obtain s2 where go1: "go1" and 2: "save_missing env k (utxoMissingBlocks (hp s1)) s1 = Inr s2"
    by (auto simp: save_missing_ends [OF can [OF ok1]] process_queues_def bindE_Inl_iff split: if_split_asm)
  let ?s3 = "s2\<lparr>hp := (hp s2)\<lparr>utxoMissingBlocks := []\<rparr>\<rparr>"
  have "queue_ok k B (hp s2)" using queue_ok_quiet [OF ok1 quiet_save_missing [OF 2]] queue_ok_covers [OF ok1] by blast
  then have ok3: "queue_ok k B (hp ?s3)" by (auto simp: queue_ok_def can_save_def helper_inv_queues pend_hashes_def held_def)
  from e 1 2 go1 obtain s4 go2 where 4: "save_sync env k (syncBlocks (hp ?s3)) ?s3 = Inr (s4, go2)"
    by (auto simp: save_sync_ends [OF can [OF ok3]] process_queues_def Let_def bindE_Inl_iff)
  have ok4: "queue_ok k B (hp s4)" using queue_ok_quiet [OF ok3 quiet_save_sync [OF 4]] queue_ok_covers [OF ok3] by blast
  from e 1 2 4 go1 obtain s5 where go2: "go2" and 5: "save_broadcast env k (broadcastBlocks (hp s4)) s4 = Inr s5"
    by (auto simp: save_broadcast_ends [OF can [OF ok4]] process_queues_def Let_def bindE_Inl_iff split: if_split_asm)
  have ok5: "queue_ok k B (hp s5)" using queue_ok_quiet [OF ok4 quiet_save_broadcast [OF 5]] queue_ok_covers [OF ok4] by blast
  then have "save_held env k j (\<lambda>_. True) [] s5 \<noteq> Inl OutOfFuel"
    using fin by (intro save_held_ends [OF fin(1)]) (simp_all add: queue_ok_def)
  then show False using e 1 2 4 5 go1 go2 by (auto simp: process_queues_def Let_def bindE_Inl_iff)
qed

text \<open>
  C37: \<open>Process\<close> comes to an end in every state with well-formed queues, whatever the database and
  the prebuilt library do: a recursion of depth 1001 (the limit on heights with pending blocks)
  and one turn more than there are queued blocks for the blocks that are held back are enough.
\<close>

theorem process_ends:
  assumes "helper_inv (hp s)" and "1000 < k" and "length (queued (hp s)) < j"
  shows "Process env k j n s \<noteq> Inl OutOfFuel"
proof
  assume e: "Process env k j n s = Inl OutOfFuel"
  let ?s1 = "s\<lparr>hp := (hp s)\<lparr>processing := True\<rparr>\<rparr>"
  let ?s0 = "?s1\<lparr>hp := (hp ?s1)\<lparr>rollbackBlocks := drop_young (be_now env) (rollbackBlocks (hp ?s1))\<rparr>\<rparr>"
  let ?B = "queued_hashes (hp s)"
  have B: "finite ?B" "card ?B < j" using assms(3) card_length [of "map blk_hash (queued (hp s))"] by (simp_all add: queued_hashes_def)
  have exit: "process_exit env nh t \<noteq> Inl OutOfFuel" for nh t by (auto simp: process_exit_def bindE_Inl_iff Let_def)
  from e obtain nh where body: "process_body env k j n nh ?s1 = Inl OutOfFuel"
    by (auto simp: Process_def Let_def bindE_Inl_iff exit split: if_split_asm)
  have roll: "RollbackBlocks env t \<noteq> Inl OutOfFuel" for t
    by (auto simp: RollbackBlocks_def RollbackContractBlock_def Let_def bindE_Inl_iff split: if_split_asm list.split_asm)
  from body obtain t r where t: "RollbackBlocks env ?s0 = Inr (t, r)" and q: "process_queues env k j nh t = Inl OutOfFuel"
    by (auto simp: process_body_def bindE_Inl_iff roll split: if_split_asm option.split_asm)
  have "length (pendingBlocks (hp s)) < k" using assms(1,2) by (simp add: helper_inv_def)
  then have "queue_ok k ?B (hp s)" by (rule queue_ok_start [OF assms(1)])
  then have "queue_ok k ?B (hp ?s0)" by (simp add: queue_ok_def can_save_def helper_inv_queues pend_hashes_def held_def)
  then have "queue_ok k ?B (hp t)" using but_rollback [OF hp_RollbackBlocks [OF t]] by (simp add: queue_ok_def can_save_def)
  then show False using process_queues_ends [OF B] q by blast
qed

section \<open>The reachable states\<close>

lemma distinct_set_insert:
  assumes "distinct (map f xs)" and "f e \<notin> f ` set xs"
  shows "distinct (map f (set_insert lt e xs))"
proof -
  have "xs = takeWhile (\<lambda>c. \<not> lt e c) xs @ dropWhile (\<lambda>c. \<not> lt e c) xs" by simp
  then obtain pre post where xs: "xs = pre @ post" "set_insert lt e xs = xs \<or> set_insert lt e xs = pre @ e # post"
    unfolding set_insert_def Let_def by metis
  then show ?thesis using assms by (elim disjE) (auto simp del: takeWhile_dropWhile_id)
qed

lemma sorted_wrt_remove1: "sorted_wrt P xs \<Longrightarrow> sorted_wrt P (remove1 x xs)"
  by (induction xs) (auto dest: set_remove1_subset [THEN subsetD])

lemma distinct_map_remove1: "distinct (map f xs) \<Longrightarrow> distinct (map f (remove1 x xs))"
  by (induction xs) (auto dest: set_remove1_subset [THEN subsetD])

lemma inv_broadcast_remove: "helper_inv h \<Longrightarrow> helper_inv (h\<lparr>broadcastBlocks := remove1 b (broadcastBlocks h)\<rparr>)"
  using set_remove1_subset [of b "broadcastBlocks h"] by (auto simp: helper_inv_def sorted_wrt_remove1 distinct_map_remove1)

lemma inv_duplicate: "helper_inv h \<Longrightarrow> helper_inv (h\<lparr>duplicateChecker := om_insert k v (duplicateChecker h)\<rparr>)"
  by (auto simp: helper_inv_def om_wf_insert om_find_insert)

lemma inv_broadcast_insert:
  assumes "helper_inv h" and "om_find (duplicateChecker h) (blk_hash b) \<noteq> None" and "blk_hash b \<notin> blk_hash ` set (broadcastBlocks h)"
  shows "helper_inv (h\<lparr>broadcastBlocks := ta_insert b (broadcastBlocks h)\<rparr>)"
proof -
  have "x = b \<or> x \<in> set (broadcastBlocks h)" if "x \<in> set (ta_insert b (broadcastBlocks h))" for x
    using set_set_insert [of BlockTimeAscending b "broadcastBlocks h"] that by blast
  then have "\<forall>x \<in> set (ta_insert b (broadcastBlocks h)). om_find (duplicateChecker h) (blk_hash x) \<noteq> None"
    using assms(1,2) unfolding helper_inv_def by blast
  then show ?thesis
    using assms sorted_set_insert [OF order_like_blocks] distinct_set_insert [of blk_hash "broadcastBlocks h" b] unfolding helper_inv_def by simp
qed

lemma inv_missing: "helper_inv (AddMissing hash now tx h) = helper_inv h"
  by (simp add: AddMissing_def helper_inv_def)

lemma inv_pending:
  assumes "helper_inv h" and "length (pendingBlocks h) < 1000"
  shows "helper_inv (h\<lparr>pendingBlocks := om_insert (u64_height b) (mm_insert (blk_prevhash b) b
    (case om_find (pendingBlocks h) (u64_height b) of None \<Rightarrow> [] | Some m \<Rightarrow> m)) (pendingBlocks h)\<rparr>)"
proof -
  let ?P = "pendingBlocks h" and ?old = "case om_find (pendingBlocks h) (u64_height b) of None \<Rightarrow> [] | Some m \<Rightarrow> m"
  have k: "keyed ?P pending_ok" using assms(1) by (simp add: helper_inv_def)
  have "pending_ok (u64_height b) ?old" using keyed_find [OF k] by (cases "om_find ?P (u64_height b)") (simp_all add: pending_ok_def)
  then have "pending_ok (u64_height b) (mm_insert (blk_prevhash b) b ?old)" by (auto simp: pending_ok_def set_mm_insert)
  then have "keyed (om_insert (u64_height b) (mm_insert (blk_prevhash b) b ?old) ?P) pending_ok" by (rule keyed_insert [OF k])
  moreover have "length (om_insert (u64_height b) (mm_insert (blk_prevhash b) b ?old) ?P) \<le> 1000"
    using length_om_insert [of ?P "u64_height b"] k assms(2) by (simp add: keyed_def)
  ultimately show ?thesis using assms(1) by (simp add: helper_inv_def)
qed

lemma AddPendingBlock_inv: "AddPendingBlock env b s = Inr s' \<Longrightarrow> helper_inv (hp s) \<Longrightarrow> helper_inv (hp s')"
  by (auto simp: AddPendingBlock_def Let_def bindE_eq_Inr_iff inv_missing inv_pending split: if_split_asm)

text \<open>The check of a contract block changes the contract blocks, the missing ones and the database.\<close>

definition contract_only :: "helper \<Rightarrow> helper \<Rightarrow> bool" where
  "contract_only h h' \<longleftrightarrow> h'\<lparr>contractBlocks := [], missingBlocks := []\<rparr> = h\<lparr>contractBlocks := [], missingBlocks := []\<rparr> \<and>
     (om_wf (contractBlocks h) \<and> length (contractBlocks h) \<le> 1000 \<longrightarrow> om_wf (contractBlocks h') \<and> length (contractBlocks h') \<le> 1000)"

lemma contract_only_refl [simp]: "contract_only h h"
  by (simp add: contract_only_def)

lemma contract_only_trans: "contract_only a b \<Longrightarrow> contract_only b c \<Longrightarrow> contract_only a c"
  by (auto simp: contract_only_def)

lemma contract_only_same:
  assumes "contract_only h h'"
  shows "broadcastBlocks h' = broadcastBlocks h" and "duplicateChecker h' = duplicateChecker h" and "helper_inv h \<Longrightarrow> helper_inv h'"
proof -
  have e: "h'\<lparr>contractBlocks := [], missingBlocks := []\<rparr> = h\<lparr>contractBlocks := [], missingBlocks := []\<rparr>" using assms by (simp add: contract_only_def)
  have same: "broadcastBlocks h' = broadcastBlocks h" "duplicateChecker h' = duplicateChecker h" "syncBlocks h' = syncBlocks h"
      "fastSyncBlocks h' = fastSyncBlocks h" "pendingBlocks h' = pendingBlocks h" "hashPendingBlocks h' = hashPendingBlocks h"
      "doubleSpendBlocks h' = doubleSpendBlocks h" "missingUtxos h' = missingUtxos h"
    using e by (cases h; cases h'; simp)+
  then show "broadcastBlocks h' = broadcastBlocks h" "duplicateChecker h' = duplicateChecker h" by simp_all
  show "helper_inv h'" if "helper_inv h" using that assms same by (simp add: helper_inv_def contract_only_def)
qed

lemma contract_only_missing: "contract_only h (AddMissing hash now tx h)"
  by (simp add: contract_only_def AddMissing_def)

lemma contract_only_cache: "checkContractBlockCache b pre h = (h', r) \<Longrightarrow> contract_only h h'"
proof -
  have "contract_only h (AddContractBlock b pre h)"
    using length_om_insert [of "contractBlocks h" pre b] by (auto simp: contract_only_def AddContractBlock_def om_wf_insert)
  then show "checkContractBlockCache b pre h = (h', r) \<Longrightarrow> contract_only h h'"
    by (auto simp: checkContractBlockCache_def split: option.split_asm if_split_asm)
qed

lemma contract_only_pairs: "check_pairs env b keys ps s = Inr (s', r, pre) \<Longrightarrow> contract_only (hp s) (hp s')"
proof (induction ps arbitrary: s)
  case (Cons p ps)
  obtain addr q where p: "p = (addr, q)" by (cases p)
  show ?case
  proof (cases "q \<in> set keys")
    case True
    then show ?thesis using Cons by (simp add: p)
  next
    case False
    then obtain status dbh where st: "CheckContractPreHashStatus env (reader env s) addr q (blk_time b) = Inr (status, dbh)"
      using Cons.prems by (auto simp: p bindE_eq_Inr_iff)
    obtain h x where c: "checkContractBlockCache b q (hp s) = (h, x)" by fastforce
    obtain w y where rb: "he_RollBackByHash env (db s) dbh = (w, y)" by fastforce
    have h: "contract_only (hp s) (hp (s\<lparr>hp := h\<rparr>))" using contract_only_cache [OF c] by simp
    note step = Cons.prems [unfolded p check_pairs.simps] False st c rb
    show ?thesis
    proof (cases status)
      case PreHashNormal
      then show ?thesis using step Cons.IH [of "s\<lparr>hp := h\<rparr>"] h contract_only_trans by (auto split: if_split_asm)
    next
      case DbBlockException
      then show ?thesis using step Cons.IH [of s] Cons.IH [of "emit (RolledBack dbh y) (s\<lparr>db := w\<rparr>)"] by (auto simp: Let_def split: if_split_asm)
    next
      case MemBlockException
      then show ?thesis using step by auto
    next
      case Waiting
      then show ?thesis using step h by (auto split: if_split_asm)
    next
      case PreHashErr
      then show ?thesis using step Cons.IH [of s] by auto
    qed
  qed
qed simp

lemma contract_only_entries: "check_entries env b self keys es s = Inr (s', r, pre) \<Longrightarrow> contract_only (hp s) (hp s')"
proof (induction es arbitrary: s)
  case (Cons e es)
  then obtain s1 x q where run: "check_pairs env b keys (snd e) s = Inr (s1, x, q)" by (auto simp: bindE_eq_Inr_iff)
  note one = contract_only_pairs [OF run]
  have miss: "contract_only (hp s) (hp (s1\<lparr>hp := AddMissing q (be_now env) True (hp s1)\<rparr>))"
    using contract_only_trans [OF one contract_only_missing] by simp
  show ?case
  proof (cases x)
    case (Some code)
    then show ?thesis using Cons.prems run one by simp
  next
    case None
    then show ?thesis using Cons.prems run one miss Cons.IH [of s1] contract_only_trans by (auto split: if_split_asm)
  qed
qed simp

lemma contract_only_check: "checkContractBlock env b s = Inr (s', r, pre) \<Longrightarrow> contract_only (hp s) (hp s')"
  by (auto simp: checkContractBlock_def bindE_eq_Inr_iff split: if_split_asm option.split_asm dest: contract_only_entries)

lemma queue_block_inv:
  assumes "queue_block env b self known s = Inr s'" and "helper_inv (hp s)" and "om_find (duplicateChecker (hp s)) (blk_hash b) \<noteq> None"
    and "blk_hash b \<notin> blk_hash ` set (broadcastBlocks (hp s))"
  shows "helper_inv (hp s')"
  using assms AddPendingBlock_inv inv_broadcast_insert [OF assms(2-4)] by (auto simp: queue_block_def split: if_split_asm)

lemma take_block_inv:
  assumes "take_block env b s = Inr s'" and "helper_inv (hp s)" and "om_find (duplicateChecker (hp s)) (blk_hash b) \<noteq> None"
    and "blk_hash b \<notin> blk_hash ` set (broadcastBlocks (hp s))"
  shows "helper_inv (hp s')"
proof -
  from assms(1) consider "s' = s" | self known where "queue_block env b self known s = Inr s'"
    | s1 r pre where "checkContractBlock env b s = Inr (s1, r, pre)" "s' = s1"
    | s1 r pre self known where "checkContractBlock env b s = Inr (s1, r, pre)" "queue_block env b self known s1 = Inr s'"
    by (auto simp: take_block_def bindE_eq_Inr_iff split_beta split: if_split_asm)
  then show ?thesis
  proof cases
    case 1
    then show ?thesis using assms(2) by simp
  next
    case 2
    then show ?thesis using queue_block_inv [OF _ assms(2-4)] by blast
  next
    case 3
    then show ?thesis using contract_only_same(3) [OF contract_only_check [OF 3(1)] assms(2)] by simp
  next
    case (4 s1 r pre self known)
    note c = contract_only_same [OF contract_only_check [OF 4(1)]]
    show ?thesis using queue_block_inv [OF 4(2) c(3) [OF assms(2)]] assms(3,4) c(1,2) by simp
  qed
qed

lemma AddBroadcastBlock_inv:
  assumes run: "AddBroadcastBlock env b status s = Inr s'" and inv: "helper_inv (hp s)"
  shows "helper_inv (hp s')"
proof (cases "om_find (duplicateChecker (hp s)) (blk_hash b) \<noteq> None \<or> om_find (doubleSpendBlocks (hp s)) (blk_hash b) \<noteq> None")
  case True
  then show ?thesis using run inv_duplicate [OF inv] inv by (auto simp: AddBroadcastBlock_def split: if_split_asm)
next
  case False
  define s1 where "s1 = s\<lparr>hp := (hp s)\<lparr>duplicateChecker := om_insert (blk_hash b) (status, blk_time b) (duplicateChecker (hp s))\<rparr>\<rparr>"
  have i1: "helper_inv (hp s1)" using inv_duplicate [OF inv] by (simp add: s1_def)
  have fresh: "om_find (duplicateChecker (hp s1)) (blk_hash b) \<noteq> None" "blk_hash b \<notin> blk_hash ` set (broadcastBlocks (hp s1))"
  proof -
    have known: "om_find (duplicateChecker (hp s)) (blk_hash x) \<noteq> None" if "x \<in> set (broadcastBlocks (hp s))" for x
      using inv that by (simp add: helper_inv_def)
    have none: "om_find (duplicateChecker (hp s)) (blk_hash b) = None" using False by (cases "om_find (duplicateChecker (hp s)) (blk_hash b)") simp_all
    show "om_find (duplicateChecker (hp s1)) (blk_hash b) \<noteq> None" by (simp add: s1_def om_find_insert)
    show "blk_hash b \<notin> blk_hash ` set (broadcastBlocks (hp s1))" using known none by (fastforce simp: s1_def)
  qed
  let ?find = "List.find (\<lambda>cur. CheckConflict_block (he_GenerateAddr env) (he_GetTransactionType env) cur b \<noteq> None) (broadcastBlocks (hp s1))"
  show ?thesis
  proof (cases ?find)
    case None
    then have "take_block env b s1 = Inr s'" using run False by (simp add: AddBroadcastBlock_def Let_def s1_def)
    then show ?thesis by (rule take_block_inv [OF _ i1 fresh])
  next
    case (Some cur)
    define s2 where "s2 = (case om_find (duplicateChecker (hp s1)) (blk_hash cur) of Some (True, _) \<Rightarrow> emit (TxStatusTask b cur) s1 | _ \<Rightarrow> s1)"
    have s2: "hp s2 = hp s1" by (auto simp: s2_def split: option.split bool.split)
    let ?s3 = "s2\<lparr>hp := (hp s2)\<lparr>broadcastBlocks := remove1 cur (broadcastBlocks (hp s2))\<rparr>\<rparr>"
    have "hp s' = hp s1 \<or> take_block env b ?s3 = Inr s'"
      using run False Some by (auto simp: AddBroadcastBlock_def Let_def s1_def [symmetric] s2_def [symmetric] split: if_split_asm)
    moreover have "helper_inv (hp ?s3)" using inv_broadcast_remove [OF i1] by (simp add: s2)
    moreover have "blk_hash b \<notin> blk_hash ` set (broadcastBlocks (hp ?s3))" using fresh(2) set_remove1_subset [of cur "broadcastBlocks (hp s1)"] by (auto simp: s2)
    ultimately show ?thesis using i1 fresh(1) take_block_inv [of env b ?s3 s'] by (auto simp: s2)
  qed
qed

lemma inv_event: "helper_inv h \<Longrightarrow> helper_inv (take_event e h)"
proof -
  have sorted: "sorted_wrt BlockTimeAscending (fold ta_insert bs q)" if "sorted_wrt BlockTimeAscending q" for bs q
    using that by (induction bs arbitrary: q) (simp_all add: sorted_set_insert [OF order_like_blocks])
  show "helper_inv h \<Longrightarrow> helper_inv (take_event e h)"
    by (cases e) (simp_all add: helper_inv_def AddRollbackBlock_queue_def AddFastSyncBlock_queue_def AddSyncBlock_queue_def sorted)
qed

lemma inv_seek: "helper_inv h \<Longrightarrow> helper_inv (AddSeekBlock now bs h)"
proof -
  have "keyed m (\<lambda>k (t, b). k = blk_hash b) \<Longrightarrow> keyed (fold (\<lambda>(block, _) m. case om_find m (blk_hash block) of
     None \<Rightarrow> om_insert (blk_hash block) (now, block) m | Some _ \<Rightarrow> m) bs m) (\<lambda>k (t, b). k = blk_hash b)" for m
    by (induction bs arbitrary: m) (auto simp: keyed_insert split: option.split)
  then show "helper_inv h \<Longrightarrow> helper_inv (AddSeekBlock now bs h)" by (simp add: AddSeekBlock_def helper_inv_def)
qed

lemma inv_thread: "SeekBlockThread env n s = Inr (s', r) \<Longrightarrow> helper_inv (hp s) \<Longrightarrow> helper_inv (hp s')"
  by (auto simp: SeekBlockThread_def Let_def bindE_eq_Inr_iff helper_inv_def split: if_split_asm)

lemma hp_RollbackPrevious:
  assumes "RollbackPreviousBlocks env n u h bh s = Inr (s', r)"
  shows "hp s' = hp s"
proof -
  obtain chain where chain: "ObtainChainHeight env (reader env s) n = Inr chain" using assms by (auto simp: RollbackPreviousBlocks_def bindE_eq_Inr_iff)
  show ?thesis
  proof (cases chain)
    case None
    then show ?thesis using assms chain by (simp add: RollbackPreviousBlocks_def)
  next
    case (Some c)
    show ?thesis
    proof (cases "c < h + 50")
      case True
      then show ?thesis using assms chain Some by (simp add: RollbackPreviousBlocks_def)
    next
      case False
      then obtain x where "(case x of Inl code \<Rightarrow> (s, code) | Inr block \<Rightarrow> (emit (FastSync (u64_height block)) s, 0)) = (s', r)"
        using assms chain Some by (auto simp: RollbackPreviousBlocks_def Let_def bindE_eq_Inr_iff)
      then show ?thesis by (cases x) auto
    qed
  qed
qed

lemma inv_missing_block: "helper_inv (AddMissingBlock b h) = helper_inv h"
  by (simp add: AddMissingBlock_def helper_inv_queues)

lemma take_found_inv: "take_found env n u b s = Inr (s', r) \<Longrightarrow> helper_inv (hp s) \<Longrightarrow> helper_inv (hp s')"
  by (auto simp: take_found_def Let_def bindE_eq_Inr_iff inv_missing_block split: if_split_asm dest!: hp_RollbackPrevious)

lemma take_answers_inv:
  assumes "take_answers env n u ids s = Inr (s', r)" and "helper_inv (hp s)"
  shows "helper_inv (hp s')"
proof -
  obtain ok datas where ask: "ke_ask_utxo env ids (four_fifths (length ids)) u = (ok, datas)" by fastforce
  show ?thesis
    using assms ask take_found_inv by (cases "same_raw env datas True []"; cases "be_parse_block env (the (same_raw env datas True []))")
      (auto simp: take_answers_def split: if_split_asm)
qed

lemma utxo_block_inv:
  assumes "utxo_block env n u s = Inr (s', r)" and "helper_inv (hp s)"
  shows "helper_inv (hp s')"
proof -
  obtain x where x: "seek_nodes env (reader env s) n = Inr x" using assms(1) by (auto simp: utxo_block_def bindE_eq_Inr_iff)
  then show ?thesis using assms take_answers_inv by (cases x) (auto simp: utxo_block_def)
qed

lemma SendBlockByUtxoReq_inv: "SendBlockByUtxoReq env n u s = Inr (s', r) \<Longrightarrow> helper_inv (hp s) \<Longrightarrow> helper_inv (hp s')"
proof -
  have pop: "helper_inv h \<Longrightarrow> helper_inv ((PopMissUTXO h)\<lparr>whetherRunSendBlockByUtxoReq := True\<rparr>)" for h
    by (auto simp: PopMissUTXO_def helper_inv_def)
  have run: "helper_inv (h\<lparr>whetherRunSendBlockByUtxoReq := False\<rparr>) = helper_inv h" for h by (simp add: helper_inv_def)
  assume "SendBlockByUtxoReq env n u s = Inr (s', r)" and inv: "helper_inv (hp s)"
  then consider "s' = s" | s1 code where "utxo_block env n u (s\<lparr>hp := (hp s)\<lparr>whetherRunSendBlockByUtxoReq := False\<rparr>\<rparr>) = Inr (s1, code)"
      "hp s' = (PopMissUTXO (hp s1))\<lparr>whetherRunSendBlockByUtxoReq := True\<rparr>"
    by (auto simp: SendBlockByUtxoReq_def bindE_eq_Inr_iff split: if_split_asm)
  then show ?thesis
  proof cases
    case (2 s1 code)
    then show ?thesis using utxo_block_inv [OF 2(1)] inv pop run by simp
  qed (use inv in simp)
qed

text \<open>
  The helper in use: blocks arrive by broadcast, from synchronisation runs and from searches, the
  queues are processed, the database changes under it, and any thread that verifies a block or
  a transaction reports missing outputs and predecessors to it.
\<close>

inductive helper_reach :: "'w bh \<Rightarrow> bool" where
  start: "hp s = new_helper \<Longrightarrow> helper_reach s"
| database: "helper_reach s \<Longrightarrow> helper_reach (s\<lparr>db := w, cache := c, seen := b\<rparr>)"
| broadcast: "helper_reach s \<Longrightarrow> AddBroadcastBlock (env :: 'w helper_env) block status s = Inr s' \<Longrightarrow> helper_reach s'"
| event: "helper_reach s \<Longrightarrow> helper_reach (s\<lparr>hp := take_event e (hp s)\<rparr>)"
| found: "helper_reach s \<Longrightarrow> helper_reach (s\<lparr>hp := AddSeekBlock now blocks (hp s)\<rparr>)"
| thread: "helper_reach s \<Longrightarrow> SeekBlockThread (env' :: 'w seek_env) n s = Inr (s', r) \<Longrightarrow> helper_reach s'"
| utxo: "helper_reach s \<Longrightarrow> SendBlockByUtxoReq (env' :: 'w seek_env) n u s = Inr (s', code) \<Longrightarrow> helper_reach s'"
| process: "helper_reach s \<Longrightarrow> Process (env :: 'w helper_env) k j n s = Inr s' \<Longrightarrow> helper_reach s'"
| stop: "helper_reach s \<Longrightarrow> helper_reach (s\<lparr>hp := StopSaveBlock (hp s)\<rparr>)"
| miss_utxo: "helper_reach s \<Longrightarrow> helper_reach (s\<lparr>hp := PushMissUTXO u (hp s)\<rparr>)"
| miss_prehash: "helper_reach s \<Longrightarrow> helper_reach (s\<lparr>hp := SetMissingPrehash (hp s)\<rparr>)"

text \<open>
  C36: In every reachable state the queues are well-formed: they are ordered by height and time, no
  two broadcast blocks have the same hash and each is recorded as seen, a pending block is filed
  under its own height and predecessor and a block that is held back under its hash, and at most
  1000 heights have pending blocks, 1000 contract blocks wait and ten outputs are missing.
\<close>

theorem helper_invariant:
  assumes "helper_reach s"
  shows "helper_inv (hp s)"
  using assms
proof induction
  case (start s)
  then show ?case by (simp add: helper_inv_new)
next
  case (stop s)
  then show ?case by (simp add: StopSaveBlock_def helper_inv_def)
next
  case (miss_utxo s u)
  then show ?case by (simp add: quiet_inv [OF quiet_push])
next
  case (miss_prehash s)
  then show ?case by (simp add: quiet_inv [OF quiet_prehash(1)])
qed (simp_all add: AddBroadcastBlock_inv inv_event inv_seek inv_thread SendBlockByUtxoReq_inv Process_inv)

section \<open>What is rolled back\<close>

definition height_keyed :: "block_map \<Rightarrow> bool" where
  "height_keyed m \<longleftrightarrow> keyed m (\<lambda>h bs. \<forall>b \<in> set bs. u64_height b = h)"

abbreviation listed :: "block_map \<Rightarrow> CBlock set" where
  "listed m \<equiv> set (concat (map snd m))"

lemma height_keyed_young: "height_keyed m \<Longrightarrow> height_keyed (drop_young now m)"
proof -
  have keys: "fst ` set (drop_young now m) \<subseteq> fst ` set m" for m by (force simp: drop_young_def Let_def split: if_split_asm)
  have "om_wf m \<Longrightarrow> om_wf (drop_young now m)"
  proof (induction m)
    case (Cons e m)
    have "drop_young now (e # m) = drop_young now [e] @ drop_young now m" by (simp add: drop_young_def)
    moreover have "drop_young now [e] = [] \<or> (\<exists>bs. drop_young now [e] = [(fst e, bs)])" by (cases e) (simp add: drop_young_def Let_def)
    moreover have "om_wf (drop_young now m)" using Cons by (simp add: om_wf_def)
    moreover have "\<forall>x \<in> fst ` set m. fst e < x" using Cons.prems by (auto simp: om_wf_def)
    then have "\<forall>x \<in> fst ` set (drop_young now m). fst e < x" using keys [of m] by (meson subsetD)
    ultimately show ?case by (auto simp: om_wf_def)
  qed (simp add: drop_young_def)
  moreover have "\<forall>(h, bs) \<in> set (drop_young now m). \<exists>bs0. (h, bs0) \<in> set m \<and> set bs \<subseteq> set bs0" by (force simp: drop_young_def Let_def split: if_split_asm)
  ultimately show "height_keyed m \<Longrightarrow> height_keyed (drop_young now m)" unfolding height_keyed_def keyed_def by fastforce
qed

lemma listed_young: "b \<in> listed (drop_young now m) \<Longrightarrow> b \<in> listed m \<and> now > 60 * 1000000 + blk_time b"
  by (force simp: drop_young_def Let_def not_le split: if_split_asm)

lemma set_bs_insert: "set (bs_insert b bs) \<subseteq> insert b (set bs)"
  by (induction bs) auto

lemma height_keyed_add: "height_keyed m \<Longrightarrow> height_keyed (AddBlockToMap b m)"
proof -
  assume m: "height_keyed m"
  let ?v = "case om_find m (u64_height b) of None \<Rightarrow> [b] | Some v \<Rightarrow> bs_insert b v"
  have add: "AddBlockToMap b m = om_insert (u64_height b) ?v m" by (simp add: AddBlockToMap_def split: option.split)
  have "\<forall>c \<in> set ?v. u64_height c = u64_height b"
  proof (cases "om_find m (u64_height b)")
    case (Some v)
    then have "(u64_height b, v) \<in> set m" by (rule map_of_SomeD)
    then have v: "\<forall>c \<in> set v. u64_height c = u64_height b" using m by (auto simp: height_keyed_def keyed_def)
    have "c = b \<or> c \<in> set v" if "c \<in> set (bs_insert b v)" for c using that set_bs_insert [of b v] by blast
    then have "\<forall>c \<in> set (bs_insert b v). u64_height c = u64_height b" using v by metis
    then show ?thesis by (simp add: Some)
  qed simp
  then show ?thesis using m unfolding add height_keyed_def by (intro keyed_insert)
qed

lemma listed_add: "listed (AddBlockToMap b m) \<subseteq> insert b (listed m)"
proof -
  let ?v = "case om_find m (u64_height b) of None \<Rightarrow> [b] | Some v \<Rightarrow> bs_insert b v"
  have "set ?v \<subseteq> insert b (listed m)"
  proof (cases "om_find m (u64_height b)")
    case (Some v)
    have "set v \<subseteq> listed m" using map_of_SomeD [OF Some] by force
    then show ?thesis using set_bs_insert [of b v] Some by auto
  qed simp
  moreover have "AddBlockToMap b m = om_insert (u64_height b) ?v m" by (simp add: AddBlockToMap_def split: option.split)
  ultimately show ?thesis using set_om_insert_sub [of "u64_height b" ?v m] by fastforce
qed

lemma contract_rollback_spec:
  "contract_rollback env rd addrs known hs m = Inr (Some m') \<Longrightarrow> height_keyed m \<Longrightarrow> height_keyed m' \<and>
     (\<forall>b \<in> listed m'. b \<in> listed m \<or> (he_IsContractBlock env b \<and> (\<exists>a \<in> set (contract_addrs env b). a \<in> set addrs)))"
proof (induction hs arbitrary: m)
  case (Cons h hs)
  then obtain raw where "GetBlockByBlockHash rd h [] = Inr (DB_SUCCESS, raw)" by (auto simp: bindE_eq_Inr_iff split: if_split_asm)
  define b where "b = read_block env raw"
  define m1 where "m1 = (if blk_hash b \<notin> set known \<and> list_ex (\<lambda>a. a \<in> set addrs) (contract_addrs env b) then AddBlockToMap b m else m)"
  have run: "contract_rollback env rd addrs known hs m1 = Inr (Some m')"
    unfolding m1_def b_def using Cons.prems(1) \<open>GetBlockByBlockHash rd h [] = Inr (DB_SUCCESS, raw)\<close> by (simp add: Let_def split del: if_split)
  have "height_keyed m1" using Cons.prems(2) height_keyed_add by (simp add: m1_def)
  note ih = Cons.IH [OF run this]
  have "c \<in> listed m \<or> (he_IsContractBlock env c \<and> (\<exists>a \<in> set (contract_addrs env c). a \<in> set addrs))" if "c \<in> listed m1" for c
  proof (cases "blk_hash b \<notin> set known \<and> list_ex (\<lambda>a. a \<in> set addrs) (contract_addrs env b)")
    case True
    then have "he_IsContractBlock env b" by (auto simp: contract_addrs_def split: if_split_asm)
    moreover have "\<exists>a \<in> set (contract_addrs env b). a \<in> set addrs" using True by (auto simp: list_ex_iff)
    moreover have "c = b \<or> c \<in> listed m" using that listed_add [of b m] True by (auto simp: m1_def)
    ultimately show ?thesis by blast
  next
    case False
    then have "m1 = m" by (auto simp: m1_def)
    then show ?thesis using that by simp
  qed
  then show ?case using ih by blast
qed simp

lemma roll_list_events:
  "roll_list env bs s = (s', r) \<Longrightarrow> \<exists>rs. length rs \<le> length bs \<and> out s' = out s @ map2 (\<lambda>b x. RolledBack (blk_hash b) x) bs rs \<and>
     (\<forall>x \<in> set (butlast rs). x = 0) \<and> (r = 0 \<longrightarrow> rs = replicate (length bs) 0)"
proof (induction bs arbitrary: s)
  case (Cons b bs)
  obtain w x where rb: "he_RollBackByHash env (db s) (blk_hash b) = (w, x)" by fastforce
  let ?s1 = "emit (RolledBack (blk_hash b) x) (s\<lparr>db := w\<rparr>)"
  show ?case
  proof (cases "x = 0")
    case True
    then have "roll_list env bs ?s1 = (s', r)" using Cons.prems rb by (simp add: roll_back_def)
    from Cons.IH [OF this] obtain rs where rs: "length rs \<le> length bs" "out s' = out ?s1 @ map2 (\<lambda>b x. RolledBack (blk_hash b) x) bs rs"
      "\<forall>x \<in> set (butlast rs). x = 0" "r = 0 \<longrightarrow> rs = replicate (length bs) 0" by blast
    then show ?thesis using True by (intro exI [of _ "0 # rs"]) auto
  next
    case False
    then have "s' = ?s1" "r = -1" using Cons.prems rb by (auto simp: roll_back_def)
    then show ?thesis by (intro exI [of _ "[x]"]) auto
  qed
qed simp

lemma descending_heights:
  assumes "height_keyed m"
  shows "sorted_wrt (\<lambda>a b. u64_height b \<le> u64_height a) (concat (map snd (rev m)))"
proof -
  have "sorted_wrt (\<lambda>a b. u64_height b \<le> u64_height a) (concat (map snd (rev m))) \<and> (\<forall>b \<in> listed m. \<exists>h \<in> fst ` set m. u64_height b = h)"
    if "om_wf m" "\<forall>(h, bs) \<in> set m. \<forall>b \<in> set bs. u64_height b = h" for m :: block_map
    using that
  proof (induction m)
    case (Cons e m)
    obtain h bs where e: "e = (h, bs)" by (cases e)
    have ih: "sorted_wrt (\<lambda>a b. u64_height b \<le> u64_height a) (concat (map snd (rev m)))" "\<forall>b \<in> listed m. \<exists>h \<in> fst ` set m. u64_height b = h"
      using Cons by (auto simp: om_wf_def)
    have same: "\<forall>b \<in> set bs. u64_height b = h" using Cons.prems(2) e by simp
    then have "sorted_wrt (\<lambda>a b. u64_height b \<le> u64_height a) bs" by (induction bs) auto
    moreover have "\<forall>a \<in> listed m. h \<le> u64_height a" using ih(2) Cons.prems(1) e by (fastforce simp: om_wf_def)
    ultimately show ?case using ih same e by (auto simp: sorted_wrt_append)
  qed simp
  then show ?thesis using assms unfolding height_keyed_def keyed_def by blast
qed

lemma RollbackContractBlock_spec:
  fixes s :: "'w bh"
  assumes "RollbackContractBlock env s = Inr (s1, x)"
  shows "out s1 = out s" and "x = 0 \<Longrightarrow> \<exists>rd known hs. contract_rollback env rd (concat (map (contract_addrs env) (concat (map snd (rollbackBlocks (hp s)))))) known hs
    (rollbackBlocks (hp s)) = Inr (Some (rollbackBlocks (hp s1)))"
proof -
  obtain st self where top: "GetBlockTop (reader env s) 0 = Inr (st, self)" using assms by (auto simp: RollbackContractBlock_def Let_def bindE_eq_Inr_iff)
  have "out s1 = out s \<and> (x = 0 \<longrightarrow> (\<exists>rd known hs. contract_rollback env rd (concat (map (contract_addrs env) (concat (map snd (rollbackBlocks (hp s)))))) known hs
    (rollbackBlocks (hp s)) = Inr (Some (rollbackBlocks (hp s1)))))"
  proof (cases "rollbackBlocks (hp s)")
    case Nil
    then show ?thesis using assms top by (auto simp: RollbackContractBlock_def Let_def split: if_split_asm)
  next
    case (Cons e es)
    obtain h0 bs0 where e: "e = (h0, bs0)" by (cases e)
    have pick: "(case rollbackBlocks (hp s) of [] \<Rightarrow> Inl EndIterator | (b, _) # _ \<Rightarrow> F b) = F h0" for F :: "u64 \<Rightarrow> (helper_error, 'w bh \<times> int) result"
      using Cons e by simp
    show ?thesis
      using assms top unfolding RollbackContractBlock_def Let_def pick
      by (auto simp: bindE_eq_Inr_iff lift_h_Inr split: if_split_asm option.split_asm) (intro exI, assumption)
  qed
  then show "out s1 = out s" "x = 0 \<Longrightarrow> \<exists>rd known hs. contract_rollback env rd (concat (map (contract_addrs env) (concat (map snd (rollbackBlocks (hp s)))))) known hs
    (rollbackBlocks (hp s)) = Inr (Some (rollbackBlocks (hp s1)))" by blast+
qed

text \<open>
  C38: Rolling back for a synchronisation is careful: a run that is asked to roll back the blocks of
  \<open>m\<close> rolls back, from the greatest height down and up to the first failure, only blocks of \<open>m\<close> that are
  more than a minute old, and stored blocks of contracts that one of these touches (of any age).
\<close>

theorem rollback_sound:
  assumes run: "RollbackBlocks env (s\<lparr>hp := (hp s)\<lparr>rollbackBlocks := drop_young now m\<rparr>\<rparr>) = Inr (s', r)" and m: "height_keyed m"
  shows "\<exists>bs rs. out s' = out s @ map2 (\<lambda>b x. RolledBack (blk_hash b) x) bs rs \<and> length rs \<le> length bs \<and>
    sorted_wrt (\<lambda>a b. u64_height b \<le> u64_height a) bs \<and> (\<forall>x \<in> set (butlast rs). x = 0) \<and> (r = 0 \<longrightarrow> rs = replicate (length bs) 0) \<and>
    (\<forall>b \<in> set bs. (b \<in> listed m \<and> now > 60 * 1000000 + blk_time b) \<or>
       (he_IsContractBlock env b \<and> (\<exists>c \<in> listed m. now > 60 * 1000000 + blk_time c \<and> set (contract_addrs env b) \<inter> set (contract_addrs env c) \<noteq> {})))"
proof -
  let ?m = "drop_young now m" and ?s = "s\<lparr>hp := (hp s)\<lparr>rollbackBlocks := drop_young now m\<rparr>\<rparr>"
  have none: ?thesis if "out s' = out s" "r \<noteq> 0 \<or> True" using that by (intro exI [of _ "[]"]) simp
  show ?thesis
  proof (cases "?m = [] \<or> (\<exists>x. RollbackContractBlock env ?s = Inr x \<and> snd x \<noteq> 0)")
    case True
    then consider "s' = ?s" | x where "RollbackContractBlock env ?s = Inr (s', x)"
      using run by (cases "RollbackContractBlock env ?s") (auto simp: RollbackBlocks_def split: if_split_asm)
    then have "out s' = out s" using RollbackContractBlock_spec(1) by cases (simp, fastforce)
    then show ?thesis using none by blast
  next
    case False
    then obtain s1 where c: "RollbackContractBlock env ?s = Inr (s1, 0)" and roll: "roll_list env (concat (map snd (rev (rollbackBlocks (hp s1))))) s1 = (s', r)"
      using run by (auto simp: RollbackBlocks_def bindE_eq_Inr_iff split: if_split_asm)
    define addrs where "addrs = concat (map (contract_addrs env) (concat (map snd ?m)))"
    define m' where "m' = rollbackBlocks (hp s1)"
    obtain rd known hs where "contract_rollback env rd addrs known hs ?m = Inr (Some m')"
      using RollbackContractBlock_spec(2) [OF c] by (auto simp: addrs_def m'_def)
    have s1: "out s1 = out s" "rollbackBlocks (hp s1) = m'" using RollbackContractBlock_spec(1) [OF c] by (simp_all add: m'_def)
    note spec = contract_rollback_spec [OF \<open>contract_rollback env rd addrs known hs ?m = Inr (Some m')\<close> height_keyed_young [OF m]]
    let ?bs = "concat (map snd (rev m'))"
    have "(b \<in> listed m \<and> now > 60 * 1000000 + blk_time b) \<or>
       (he_IsContractBlock env b \<and> (\<exists>c \<in> listed m. now > 60 * 1000000 + blk_time c \<and> set (contract_addrs env b) \<inter> set (contract_addrs env c) \<noteq> {}))"
      if "b \<in> set ?bs" for b
    proof (cases "b \<in> listed ?m")
      case True
      then show ?thesis using listed_young [OF True] by simp
    next
      case False
      moreover have "b \<in> listed m'" using that by simp
      ultimately have b: "he_IsContractBlock env b" "\<exists>a \<in> set (contract_addrs env b). a \<in> set addrs" using spec by blast+
      then obtain a d where "a \<in> set (contract_addrs env b)" "d \<in> listed ?m" "a \<in> set (contract_addrs env d)" by (auto simp: addrs_def)
      then show ?thesis using b(1) listed_young [of d now m] by blast
    qed
    moreover obtain rs where "length rs \<le> length ?bs" "out s' = out s @ map2 (\<lambda>b x. RolledBack (blk_hash b) x) ?bs rs"
      "\<forall>x \<in> set (butlast rs). x = 0" "r = 0 \<longrightarrow> rs = replicate (length ?bs) 0"
      using roll_list_events [OF roll] s1 by auto
    moreover have "sorted_wrt (\<lambda>a b. u64_height b \<le> u64_height a) ?bs" using spec by (intro descending_heights) simp
    ultimately show ?thesis by (intro exI [of _ ?bs] exI [of _ rs] conjI ballI) simp_all
  qed
qed

text \<open>
  C40: One failure to read the own height stops the helper for good: \<open>Process\<close> returns with its mark that a run
  is under way still set, and every later run, in whatever state of the database, does nothing.
\<close>

theorem process_stuck:
  assumes "\<not> processing (hp s)" and "GetBlockTop (reader env s) 0 = Inr (st, h)" and "st \<noteq> DB_SUCCESS"
  shows "\<exists>s1. Process env k j n s = Inr s1 \<and> queued (hp s1) = queued (hp s) \<and>
    (\<forall>w env' k' j' n'. Process env' k' j' n' (s1\<lparr>db := w\<rparr>) = Inr (s1\<lparr>db := w\<rparr>))"
proof -
  let ?s1 = "s\<lparr>hp := (hp s)\<lparr>processing := True\<rparr>\<rparr>"
  have "Process env k j n s = Inr ?s1" using assms by (simp add: Process_def)
  moreover have "queued (hp ?s1) = queued (hp s)" by (simp add: queued_def)
  moreover have "\<forall>w env' k' j' n'. Process env' k' j' n' (?s1\<lparr>db := w\<rparr>) = Inr (?s1\<lparr>db := w\<rparr>)" by (simp add: Process_def)
  ultimately show ?thesis by blast
qed

section \<open>Concrete runs\<close>

text \<open>A helper over a database of the unit type: \<open>rd\<close> is what it reads, and the library accepts every block.\<close>

definition helper_sample :: "db_reader \<Rightarrow> unit helper_env" where
  "helper_sample rd = \<lparr>se_qualified = (\<lambda>a. True), se_kMinUnstakeHeight = 5, se_KMinSyncQualNodes = 2, se_kNeed_node_threshold = 3, se_draw = (\<lambda>k. k),
     be_parse_block = (\<lambda>raw. Some (sample_blk raw)), be_partial_block = sample_blk, be_ser_block = (\<lambda>b. []), be_sha256 = (\<lambda>s. ''x''), be_now = 0,
     be_sum_hash_range = 100, be_floor = (\<lambda>h. h), be_ceiling = (\<lambda>h. h),
     he_rd = (\<lambda>w. rd), he_VerifyBlock = (\<lambda>w b. \<lparr>cr_ret = 0, cr_prehash = False, cr_utxos = []\<rparr>), he_VerifyFlow = (\<lambda>w b x. (0, [])),
     he_SaveBlock = (\<lambda>w b t m. (\<lparr>cr_ret = 0, cr_prehash = False, cr_utxos = []\<rparr>, w)), he_commit = (\<lambda>w b. True), he_RollBackByHash = (\<lambda>w h. (w, 0)),
     he_VerifyPreSaveBlock = (\<lambda>w b. 0), he_DoubleSpendCheck = (\<lambda>w t. (0, [])), he_GetTransactionType = (\<lambda>t. kTransactionType_Tx),
     he_GenerateAddr = (\<lambda>p. p), he_IsContractBlock = (\<lambda>b. False), he_GetContractAddr = (\<lambda>t. []), he_json = (\<lambda>d. None),
     he_time_sort = (\<lambda>ts. ts), he_defaultAddr = ''a'', he_version = 0, he_steady = 0\<rparr>"

definition helper_start :: "unit bh" where
  "helper_start = \<lparr>db = (), cache = [], seen = [], hp = new_helper, out = []\<rparr>"

lemma helper_start_simps [simp]:
  "hp helper_start = new_helper" "out helper_start = []" "he_rd (helper_sample rd) w = rd" "he_RollBackByHash (helper_sample rd) w h = (w, 0)"
  "contract_addrs (helper_sample rd) b = []"
  by (simp_all add: helper_start_def helper_sample_def contract_addrs_def)

lemma queued_sync_sample:
  "queued (AddSyncBlock_queue [(5, [sample_blk ''x''])] SyncNormal new_helper) = [sample_blk ''x'']"
  by (simp add: AddSyncBlock_queue_def queued_def new_helper_def set_insert_def)

theorem process_ends_witness:
  "Process (helper_sample top_reader) 1001 2 (sample_net [])
     (helper_start\<lparr>hp := AddSyncBlock_queue [(5, [sample_blk ''x''])] SyncNormal new_helper\<rparr>) \<noteq> Inl OutOfFuel"
proof -
  let ?s = "helper_start\<lparr>hp := AddSyncBlock_queue [(5, [sample_blk ''x''])] SyncNormal new_helper\<rparr>"
  have "helper_inv (hp ?s)" using inv_event [OF helper_inv_new, of "AddSyncBlock [(5, [sample_blk ''x''])] SyncNormal"] by simp
  moreover have "length (queued (hp ?s)) < 2" by (simp add: queued_sync_sample)
  ultimately show ?thesis using process_ends [of ?s 1001 2] by simp
qed

theorem helper_invariant_witness:
  "helper_inv (hp (helper_start\<lparr>hp := take_event (AddSyncBlock [(5, [sample_blk ''x''])] SyncNormal) (hp helper_start)\<rparr>))"
  by (rule helper_invariant [OF helper_reach.event [OF helper_reach.start [OF helper_start_simps(1)]]])

lemma rollback_sample:
  "RollbackBlocks (helper_sample (fast_reader ''y'')) (helper_start\<lparr>hp := (hp helper_start)\<lparr>rollbackBlocks := drop_young 100000000 [(5, [sample_blk ''x''])]\<rparr>\<rparr>) =
   Inr (helper_start\<lparr>hp := new_helper\<lparr>rollbackBlocks := [(5, [sample_blk ''x''])]\<rparr>, out := [RolledBack ''x'' 0]\<rparr>, 0)"
proof -
  have young: "drop_young 100000000 [(5, [sample_blk ''x''])] = [(5, [sample_blk ''x''])]" by (simp add: drop_young_def sample_blk_def)
  have "heights 5 7 = Inr [5, 6, 7]" by (simp add: heights_def upt_rec)
  moreover have "split_to ''y'' [] = [''y'']" by code_simp
  ultimately have hs: "GetBlockHashesByBlockHeight (fast_reader ''y'') 5 7 [] = Inr (DB_SUCCESS, [''y''])"
    by (simp add: GetBlockHashesByBlockHeight_def fast_reader_def)
  have raw: "GetBlockByBlockHash (fast_reader ''y'') ''y'' [] = Inr (DB_SUCCESS, ''y'')"
    by code_simp
  show ?thesis
    by (simp add: young RollbackBlocks_def RollbackContractBlock_def fast_reader_top hs raw roll_back_def) (simp add: helper_start_def sample_blk_def)
qed

theorem rollback_sound_witness:
  "\<exists>(bs :: CBlock list) rs. [RolledBack ''x'' 0] = map2 (\<lambda>b x. RolledBack (blk_hash b) x) bs rs \<and> length rs \<le> length bs \<and> rs = replicate (length bs) 0"
proof -
  have keyed: "height_keyed [(5, [sample_blk ''x''])]" by (simp add: height_keyed_def keyed_def om_wf_def sample_blk_def)
  have out: "out (helper_start\<lparr>hp := new_helper\<lparr>rollbackBlocks := [(5, [sample_blk ''x''])]\<rparr>, out := [RolledBack ''x'' 0]\<rparr>) = [RolledBack ''x'' 0]" by simp
  from rollback_sound [OF rollback_sample keyed] show ?thesis
    unfolding out helper_start_simps append_Nil
  proof (elim exE conjE)
    fix bs :: "CBlock list" and rs
    assume "[RolledBack ''x'' 0] = map2 (\<lambda>b x. RolledBack (blk_hash b) x) bs rs" "length rs \<le> length bs"
      and "(0::int) = 0 \<longrightarrow> rs = replicate (length bs) 0"
    then show ?thesis by (intro exI [of _ bs] exI [of _ rs] conjI) simp_all
  qed
qed

definition broken_reader :: db_reader where
  "broken_reader = \<lparr>ReadData = (\<lambda>key value. Inr (DB_ERROR, [])), MultiReadData = (\<lambda>keys values. Inr (DB_ERROR, []))\<rparr>"

theorem process_stuck_witness:
  "\<exists>s1. Process (helper_sample broken_reader) 1001 1 (sample_net []) helper_start = Inr s1 \<and>
     Process (helper_sample top_reader) 1001 1 (sample_net []) (s1\<lparr>db := ()\<rparr>) = Inr (s1\<lparr>db := ()\<rparr>)"
proof -
  have "GetBlockTop (reader (helper_sample broken_reader) helper_start) 0 = Inr (DB_ERROR, 0)"
    by (simp add: GetBlockTop_def read_unsigned_def) (simp add: broken_reader_def)
  moreover have "\<not> processing (hp helper_start)" by (simp add: new_helper_def)
  ultimately show ?thesis using process_stuck [of helper_start "helper_sample broken_reader" DB_ERROR 0 1001 1 "sample_net []"] by blast
qed

end
