(* ===== verification/Spec2Isabelle.thy ===== *)
theory Spec2Isabelle
  imports Mpt_Trie Db_Session Peer_Node Tx_Dispatch Block_Store Check_Blocks Tx_Build Block_Inv
begin

text \<open>
  A verification library for the node software of the tfs block chain. A node keeps its
  chain in a key-value store, speaks to its peers over framed TCP connections, builds and
  dispatches transactions, passes blocks along a chain of signing nodes, compares its sums
  with those of other nodes, synchronises its chain with theirs, and queues, saves and rolls
  back the blocks that reach it. Contract state is kept in a Merkle-Patricia trie whose nodes
  are RLP encoded.

  \<^bold>\<open>Conventions.\<close> A C++ function is a HOL function of the same name. A class is a record, the
  operations take and return it. An integer is a word of its width wherever it can wrap.
  \<open>std::map\<close> and \<open>std::set\<close> are lists sorted by key (\<open>Ord_Map\<close>), so that iteration orders are those of
  the code. A failing call returns \<open>Inl\<close>: a C++ exception, an access out of bounds or a null
  dereference that the code does not guard is a value of the model and never a convention.
  Return codes are kept as the integers of the code. Floating-point comparisons use rounded
  arithmetic (\<open>Double_Arith\<close>), because several votes depend on them. Locks are not modelled:
  an operation of the model is a critical section of the code, and where several threads
  meet, the order of their operations is an argument or a step relation. A turn of the
  synchronisation thread has explicit points at which requests of other threads arrive,
  because its flags are not locked. Three places are coarser than the code: a turn of the
  dispatcher does not interleave with additions to its caches, the hand-over at the end of a
  zero synchronisation, a detached thread in the code, is done before the run returns, and
  the socket writer takes its buffer, writes and erases in one step (a message queued in
  between goes to the end of the buffer, the erased bytes are at its front).
  Code that is not in the tree (protocol buffers, OpenSSL, RocksDB, the prebuilt consensus
  library \<open>ca_core\<close>) is an argument of the definitions that call it.

  \<^bold>\<open>Theories, with the files under \<open>src/\<close> they model.\<close>

  \<^item> \<open>Tfs_Prelude\<close>: results, byte strings, words and the lemmas all theories share.
    \<open>String_Util\<close>: \<open>utils/string_util.cpp\<close> and decimal numbers as the standard library reads and
    prints them. \<open>Double_Arith\<close>: IEEE double arithmetic on rationals and the exact meaning of the
    thresholds of the form \<open>n * 0.8\<close>. \<open>Ord_Map\<close>: ordered maps and their interface.
  \<^item> \<open>Rlp_Stream\<close>, \<open>Rlp_Reader\<close>, \<open>Rlp_Roundtrip\<close>: \<open>mpt/rlp.cpp\<close>, \<open>mpt/rlp.h\<close>. The writer with its stack of
    open lists refines the encoding of a nested item; what it writes the strict reader
    accepts and returns; the index cache of \<open>operator[]\<close> does not change results.
  \<^item> \<open>Mpt_Trie\<close>: \<open>mpt/trie.cpp\<close>, \<open>mpt/node.h\<close>. Every node shape, \<open>Insert\<close>, \<open>Get\<close> and the key encodings;
    updates keep the trie well-formed and reads return the last value written. A key that is
    a proper prefix of another one leads to an access out of bounds. The recursions
    are bounded by the length of the key, which every call shortens.
  \<^item> \<open>Storage_Spec\<close>, \<open>Kv_Store\<close>: \<open>db/rocksdb_read.cpp\<close>, \<open>db/rocksdb_read_write.cpp\<close> over a store with
    transactions (the laws of the store are the locale of \<open>Storage_Spec\<close>, interpreted on an executable store).
    \<open>Db_Api\<close>: \<open>db/db_api.cpp\<close>, every getter and setter and the transaction object.
    \<open>Db_Tables\<close>, \<open>Db_Session\<close>: the typed tables the store stands for; sessions of setters refine
    operations on the tables, a session without commit changes nothing, keys of different
    entries never collide and no getter throws on what the setters wrote.
  \<^item> \<open>Net_Buffer\<close>, \<open>Net_Frame\<close>: \<open>net/msg_queue.h\<close>, \<open>net/socket_buf.cpp\<close>, \<open>net/pack.cpp\<close>. Messages
    cut into arbitrary pieces arrive unchanged and in order; a damaged message costs only itself.
    The parse loop is total: every turn consumes at least the length field. The write loop
    counts in \<open>int\<close>: below 2 GiB the socket gets the queued bytes in order, a
    larger buffer is emptied unsent.
    \<open>Peer_Node\<close>: \<open>net/peer_node.cpp\<close>, \<open>net/work_thread.cpp\<close>, \<open>net/unregister_node.cpp\<close> as a step
    relation; its invariant holds in every reachable state.
  \<^item> \<open>Tx_Conflict\<close>: \<open>ca/checker.cpp\<close>, \<open>ca/double_spend_cache.cpp\<close>, \<open>ca/block_compare.h\<close> and the records of
    transactions and blocks. \<open>Tx_Dispatch\<close>: \<open>ca/dispatchtx.cpp\<close>, \<open>ca/packager_dispatch.cpp\<close>,
    \<open>ca/failed_transaction_cache.cpp\<close>. A part of dependent transactions is
    signed and sent as one message to one packager, or lost where no packager is found or the
    signature fails; otherwise all messages are sent within seven turns, and the split into
    parts loses none.
  \<^item> \<open>Global_Wait\<close>: \<open>common/global_data.cpp\<close>. A request gets at most one answer per asked node and
    none of others. \<open>Cyclic_List\<close>: \<open>utils/cycliclist.hpp\<close> with explicit nodes and addresses.
    \<open>Block_Store\<close>: \<open>ca/block_stroage.cpp\<close>, the block flow, its votes, the status reports and the
    rebuilding of a block from its reports, all on the table of block statuses.
    \<open>Check_Blocks\<close>: \<open>ca/check_blocks.cpp\<close>, the agreement on the sums of a thousand heights.
  \<^item> \<open>Tx_Utxo\<close>, \<open>Tx_Build\<close>: \<open>ca/txhelper.cpp\<close>. Choice and confirmation of outputs, signatures and
    the builders of the six ordinary transactions. A built transfer spends the chosen
    outputs once each; its outputs, the burnt gas among them, have the sum of its inputs as long as no sum
    of the code wraps at 64 bits, and a wrapping sum of amounts builds a transaction that
    creates value.
  \<^item> \<open>ca/sync_block.cpp\<close>: \<open>Sync_Select\<close> is the choice of the nodes to synchronise with and the detection
    of a split chain, which never fires. \<open>Sync_Fast\<close> is a fast run: the vote on hashes, the download
    and the answers of the other side. \<open>Sync_New\<close> is an ordinary run, from the sums over ranges
    of heights to single blocks; it hands on only blocks that hash to what was agreed. \<open>Sync_Zero\<close> is
    the download from height zero, whose blocks are not hashed. \<open>Sync_Thread\<close> is the thread that
    makes the runs, as a step function with the requests of other threads in between, bounds on
    its counters, a race that takes the counter of fast runs past its limit, and
    the remaining answers. What a run gives to the block helper is a list of events.
  \<^item> \<open>ca/block_helper.cpp\<close>: \<open>Block_Queue\<close> has the queues, the height of the chain, broadcast blocks and
    contract blocks; \<open>Block_Seek\<close> the search for missing blocks and outputs; \<open>Block_Save\<close> the checks
    before and the consequences after a save, rollbacks and \<open>Process\<close>. \<open>Block_Inv\<close> takes the events of
    the synchronisation, the searches and the runs of \<open>Process\<close> together into a step relation; in every
    reachable state the queues are well-formed and within their limits, every run ends, a
    rollback takes only old blocks and those of the contracts they touch, and one failed
    read stops all later runs. Verifying, storing and rolling back a block are functions of
    the prebuilt library and arguments here; the theorems hold for all of them.

  \<^bold>\<open>Interfaces.\<close> \<open>ordered_map\<close> (\<open>Ord_Map\<close>) has the laws of a map for its clients and is interpreted on
  the sorted lists. \<open>storage\<close> (\<open>Storage_Spec\<close>) is what a store of values under keys promises: the trie
  interprets it, and \<open>rocksdb_contract\<close> (\<open>Kv_Store\<close>), the laws of the database under the readers and
  writers, is a sublocale of it, itself interpreted on an executable store. \<open>cyclic_sequence\<close>
  (\<open>Cyclic_List\<close>) is the list that the linked nodes stand for.

  \<^bold>\<open>Bounds.\<close> Fuel appears where the code loops on the behaviour of other threads, and in the block helper: the
  theorems about such loops (\<open>check_loop\<close>, the dispatcher, the delivery of a stream) say how many turns are
  enough, or that no number is. A save calls itself for the blocks that wait for the saved one:
  1001 levels are enough, because at most 1000 heights have pending blocks and each level
  is one height up; the loop over blocks that are held back ends within one turn more than
  there are queued blocks. All other recursions are structural or have a termination
  proof. Thresholds in double arithmetic are exact for counts below \<open>2 ^ 40\<close>, far above the
  number of nodes.

  \<^bold>\<open>Not modelled.\<close> Generated protocol buffers, vendored single-file libraries and the
  prebuilt consensus library (there is no source to read); keys and signatures (calls of
  OpenSSL); the virtual machines and the contract host; menus, HTTP and RPC front ends, which
  only call the operations above; event loops, timers and thread pools.
\<close>

end
